(* ===== verification/Prelude.thy ===== *)
theory Prelude
  imports Main "HOL-Library.Word" "HOL-Library.Multiset" "HOL-Library.List_Lexorder"
    "HOL-Library.Char_ord"
begin

text \<open>
  Shared vocabulary of the development: the Rust types the components use, the part of the
  Rust standard library on strings, vectors and integers that the sources call, and the
  generic list lemmas that carry the component proofs.

  A Rust \<open>str\<close> and a byte buffer are both a \<^typ>\<open>string\<close>, the list of their bytes (a
  \<^typ>\<open>char\<close> is eight bits wide); \<open>len()\<close> is therefore \<^const>\<open>length\<close>. Every delimiter the
  sources split at is ASCII, and an ASCII byte never occurs inside a multi-byte UTF-8 sequence,
  so splitting the bytes is splitting the text.
\<close>

named_theorems rust_std \<open>equations of the modelled Rust standard library\<close>
named_theorems inv_simps \<open>preservation of the components' invariants\<close>

type_synonym u64 = "64 word"
type_synonym u32 = "32 word"

section \<open>Strings\<close>

text \<open>\<open>str::split(c)\<close>: the fields between the delimiters; never empty.\<close>

fun split_char :: "char \<Rightarrow> string \<Rightarrow> string list" where
  "split_char c [] = [[]]"
| "split_char c (x # xs) =
     (if x = c then [] # split_char c xs
      else (case split_char c xs of [] \<Rightarrow> [[x]] | f # fs \<Rightarrow> (x # f) # fs))"

text \<open>\<open>str::split_once(c)\<close>: the text before and after the first delimiter.\<close>

fun split_once :: "char \<Rightarrow> string \<Rightarrow> (string \<times> string) option" where
  "split_once c [] = None"
| "split_once c (x # xs) =
     (if x = c then Some ([], xs)
      else (case split_once c xs of None \<Rightarrow> None | Some (a, b) \<Rightarrow> Some (x # a, b)))"

text \<open>\<open>str::strip_prefix\<close> and \<open>str::starts_with\<close>.\<close>

fun strip_prefix :: "string \<Rightarrow> string \<Rightarrow> string option" where
  "strip_prefix [] s = Some s"
| "strip_prefix (p # ps) [] = None"
| "strip_prefix (p # ps) (x # xs) = (if p = x then strip_prefix ps xs else None)"

definition starts_with :: "string \<Rightarrow> string \<Rightarrow> bool" where
  "starts_with p s = (strip_prefix p s \<noteq> None)"

text \<open>\<open>[T]::join(sep)\<close>.\<close>

fun join_with :: "'a list \<Rightarrow> 'a list list \<Rightarrow> 'a list" where
  "join_with sep [] = []"
| "join_with sep [x] = x"
| "join_with sep (x # y # ys) = x @ sep @ join_with sep (y # ys)"

text \<open>
  The UTF-8 encoding of one \<open>White_Space\<close> code point at the head of the text, if there is
  one: its length in bytes. \<open>str::trim\<close> strips such code points at both ends.
\<close>

definition byte :: "char \<Rightarrow> nat" where
  "byte c = of_char c"

definition ws_codepoint :: "nat list \<Rightarrow> bool" where
  "ws_codepoint bs = (case bs of
       [a] \<Rightarrow> (9 \<le> a \<and> a \<le> 13) \<or> a = 32
     | [a, b] \<Rightarrow> a = 194 \<and> (b = 133 \<or> b = 160)
     | [a, b, c] \<Rightarrow>
         (a = 225 \<and> b = 154 \<and> c = 128)
       \<or> (a = 226 \<and> b = 128 \<and> (128 \<le> c \<and> c \<le> 138 \<or> c = 168 \<or> c = 169 \<or> c = 175))
       \<or> (a = 226 \<and> b = 129 \<and> c = 159)
       \<or> (a = 227 \<and> b = 128 \<and> c = 128)
     | _ \<Rightarrow> False)"

definition ws_prefix :: "string \<Rightarrow> nat" where
  "ws_prefix s =
     (let b = map byte s in
      if s = [] then 0
      else if ws_codepoint (take 1 b) then 1
      else if length s \<ge> 2 \<and> ws_codepoint (take 2 b) then 2
      else if length s \<ge> 3 \<and> ws_codepoint (take 3 b) then 3
      else 0)"

definition ws_suffix :: "string \<Rightarrow> nat" where
  "ws_suffix s =
     (let b = map byte s; n = length s in
      if s = [] then 0
      else if ws_codepoint (drop (n - 1) b) then 1
      else if n \<ge> 2 \<and> ws_codepoint (drop (n - 2) b) then 2
      else if n \<ge> 3 \<and> ws_codepoint (drop (n - 3) b) then 3
      else 0)"

lemma ws_prefix_le: "ws_prefix s \<le> length s"
  by (auto simp: ws_prefix_def Let_def Suc_le_eq)

lemma ws_suffix_le: "ws_suffix s \<le> length s"
  by (auto simp: ws_suffix_def Let_def Suc_le_eq)

function trim_start :: "string \<Rightarrow> string" where
  "trim_start s = (if ws_prefix s = 0 then s else trim_start (drop (ws_prefix s) s))"
  by pat_completeness auto
termination
proof (relation "measure length")
  fix s :: string
  assume "ws_prefix s \<noteq> 0"
  then show "(drop (ws_prefix s) s, s) \<in> measure length"
    using ws_prefix_le [of s] by auto
qed simp

function trim_end :: "string \<Rightarrow> string" where
  "trim_end s = (if ws_suffix s = 0 then s else trim_end (take (length s - ws_suffix s) s))"
  by pat_completeness auto
termination
proof (relation "measure length")
  fix s :: string
  assume "ws_suffix s \<noteq> 0"
  then show "(take (length s - ws_suffix s) s, s) \<in> measure length"
    using ws_suffix_le [of s] by auto
qed simp

declare trim_start.simps [simp del] trim_end.simps [simp del]

definition trim :: "string \<Rightarrow> string" where
  "trim s = trim_end (trim_start s)"

text \<open>ASCII classes of \<open>char\<close>, and \<open>to_lowercase\<close> on ASCII letters.\<close>

definition is_ascii_digit :: "char \<Rightarrow> bool" where
  "is_ascii_digit c = (48 \<le> byte c \<and> byte c \<le> 57)"

definition is_ascii_alphabetic :: "char \<Rightarrow> bool" where
  "is_ascii_alphabetic c = ((65 \<le> byte c \<and> byte c \<le> 90) \<or> (97 \<le> byte c \<and> byte c \<le> 122))"

definition is_ascii_alphanumeric :: "char \<Rightarrow> bool" where
  "is_ascii_alphanumeric c = (is_ascii_alphabetic c \<or> is_ascii_digit c)"

definition to_ascii_lower :: "char \<Rightarrow> char" where
  "to_ascii_lower c = (if 65 \<le> byte c \<and> byte c \<le> 90 then char_of (byte c + 32) else c)"

section \<open>Vectors\<close>

text \<open>
  \<open>slice::sort_unstable\<close> over an order \<open>le\<close>. For a total order in which equivalent elements
  are equal the sorted permutation is unique, so the order in which an unstable sort leaves
  equal elements cannot be observed; \<open>sort_unique\<close> below is that fact.
\<close>

fun insort_by :: "('a \<Rightarrow> 'a \<Rightarrow> bool) \<Rightarrow> 'a \<Rightarrow> 'a list \<Rightarrow> 'a list" where
  "insort_by le x [] = [x]"
| "insort_by le x (y # ys) = (if le x y then x # y # ys else y # insort_by le x ys)"

fun sort_by :: "('a \<Rightarrow> 'a \<Rightarrow> bool) \<Rightarrow> 'a list \<Rightarrow> 'a list" where
  "sort_by le [] = []"
| "sort_by le (x # xs) = insort_by le x (sort_by le xs)"

text \<open>The derived lexicographic order of a pair.\<close>

definition pair_le :: "('a \<Rightarrow> 'a \<Rightarrow> bool) \<Rightarrow> ('b \<Rightarrow> 'b \<Rightarrow> bool) \<Rightarrow> 'a \<times> 'b \<Rightarrow> 'a \<times> 'b \<Rightarrow> bool" where
  "pair_le la lb p q = (if fst p = fst q then lb (snd p) (snd q) else la (fst p) (fst q))"

definition total_le :: "('a \<Rightarrow> 'a \<Rightarrow> bool) \<Rightarrow> bool" where
  "total_le le \<longleftrightarrow>
     (\<forall>x y. le x y \<or> le y x) \<and> (\<forall>x y. le x y \<and> le y x \<longrightarrow> x = y) \<and>
     (\<forall>x y z. le x y \<and> le y z \<longrightarrow> le x z)"

text \<open>Rust orders \<open>str\<close> and \<open>String\<close> lexicographically by bytes.\<close>

definition str_le :: "string \<Rightarrow> string \<Rightarrow> bool" where
  "str_le a b = (a \<le> b)"

text \<open>Integer division of Rust's signed types truncates towards zero.\<close>

definition trunc_div :: "int \<Rightarrow> int \<Rightarrow> int" where
  "trunc_div a b = sgn a * sgn b * (\<bar>a\<bar> div \<bar>b\<bar>)"

text \<open>\<open>usize::saturating_sub\<close> is \<^typ>\<open>nat\<close> subtraction.\<close>

abbreviation saturating_sub :: "nat \<Rightarrow> nat \<Rightarrow> nat" where
  "saturating_sub a b \<equiv> a - b"

section \<open>Lemmas on strings\<close>

lemma split_char_ne [simp]: "split_char c s \<noteq> []"
  by (induction s) (auto split: list.splits)

lemma split_char_no_delim: "f \<in> set (split_char c s) \<Longrightarrow> c \<notin> set f"
proof (induction s arbitrary: f)
  case (Cons x xs)
  obtain g gs where g: "split_char c xs = g # gs"
    using split_char_ne [of c xs] by (cases "split_char c xs") auto
  then show ?case using Cons by (auto split: if_splits)
qed simp

lemma join_split_char: "join_with [c] (split_char c s) = s"
proof (induction s)
  case (Cons x xs)
  obtain g gs where g: "split_char c xs = g # gs"
    using split_char_ne [of c xs] by (cases "split_char c xs") auto
  then show ?case using Cons by (cases gs) auto
qed simp

lemma split_char_atom: "c \<notin> set s \<Longrightarrow> split_char c s = [s]"
  by (induction s) auto

lemma split_char_app: "c \<notin> set a \<Longrightarrow> split_char c (a @ c # b) = a # split_char c b"
  by (induction a) auto

lemma split_join_char:
  "fs \<noteq> [] \<Longrightarrow> \<forall>f\<in>set fs. c \<notin> set f \<Longrightarrow> split_char c (join_with [c] fs) = fs"
proof (induction "[c]" fs rule: join_with.induct)
  case (3 x y ys)
  then show ?case by (simp add: split_char_app)
qed (auto simp: split_char_atom)

lemma split_once_Some:
  "split_once c s = Some (a, b) \<longleftrightarrow> s = a @ c # b \<and> c \<notin> set a"
proof (induction s arbitrary: a)
  case (Cons x xs)
  show ?case
  proof (cases "x = c")
    case False
    then have "split_once c (x # xs) = Some (a, b) \<longleftrightarrow>
        (\<exists>a'. a = x # a' \<and> split_once c xs = Some (a', b))"
      by (auto split: option.splits)
    also have "\<dots> \<longleftrightarrow> (\<exists>a'. a = x # a' \<and> xs = a' @ c # b \<and> c \<notin> set a')"
      by (simp only: Cons.IH)
    finally show ?thesis using False by (cases a) auto
  qed (cases a; auto)
qed simp

lemma split_once_app [simp]: "c \<notin> set a \<Longrightarrow> split_once c (a @ c # b) = Some (a, b)"
  by (simp add: split_once_Some)

lemma split_once_None: "split_once c s = None \<longleftrightarrow> c \<notin> set s"
  by (induction s) (auto split: option.splits)

lemma strip_prefix_Some: "strip_prefix p s = Some r \<longleftrightarrow> s = p @ r"
  by (induction p s rule: strip_prefix.induct) auto

lemma starts_with_iff: "starts_with p s \<longleftrightarrow> (\<exists>r. s = p @ r)"
  by (auto simp: starts_with_def strip_prefix_Some)

lemma strip_prefix_self [simp]: "strip_prefix p (p @ r) = Some r"
  by (simp add: strip_prefix_Some)

lemma starts_with_self [simp]: "starts_with p (p @ r)"
  by (auto simp: starts_with_iff)

section \<open>Lemmas on vectors\<close>

lemma mset_insort_by [simp]: "mset (insort_by le x xs) = add_mset x (mset xs)"
  by (induction xs) auto

lemma mset_sort_by [simp]: "mset (sort_by le xs) = mset xs"
  by (induction xs) auto

lemma set_sort_by [simp]: "set (sort_by le xs) = set xs"
  by (rule mset_eq_setD) simp

lemma length_sort_by [simp]: "length (sort_by le xs) = length xs"
  by (rule mset_eq_length) simp

lemma total_leD:
  assumes "total_le le"
  shows total_le_total: "le x y \<or> le y x"
    and total_le_antisym: "le x y \<Longrightarrow> le y x \<Longrightarrow> x = y"
    and total_le_trans: "le x y \<Longrightarrow> le y z \<Longrightarrow> le x z"
  using assms unfolding total_le_def by blast+

lemma total_le_refl: "total_le le \<Longrightarrow> le x x"
  unfolding total_le_def by blast

lemma total_str_le [simp]: "total_le str_le"
  by (auto simp: total_le_def str_le_def)

lemma total_pair_le:
  assumes a: "total_le la" and b: "total_le lb"
  shows "total_le (pair_le la lb)"
proof -
  have "pair_le la lb p q \<or> pair_le la lb q p" for p q
    using total_leD(1) [OF a, of "fst p" "fst q"] total_leD(1) [OF b, of "snd p" "snd q"]
    by (auto simp: pair_le_def)
  moreover have "p = q" if "pair_le la lb p q" "pair_le la lb q p" for p q
    using that total_leD(2) [OF a, of "fst p" "fst q"] total_leD(2) [OF b, of "snd p" "snd q"]
    by (auto simp: pair_le_def prod_eq_iff split: if_splits)
  moreover have "pair_le la lb p r" if "pair_le la lb p q" "pair_le la lb q r" for p q r
    using that total_leD(2) [OF a, of "fst p" "fst q"] total_leD(3) [OF a, of "fst p" "fst q" "fst r"]
      total_leD(3) [OF b, of "snd p" "snd q" "snd r"]
    by (auto simp: pair_le_def split: if_splits)
  ultimately show ?thesis unfolding total_le_def by blast
qed

lemma sorted_insort_by:
  assumes "total_le le" and "sorted_wrt le xs"
  shows "sorted_wrt le (insort_by le x xs)"
  using assms(2)
proof (induction xs)
  case (Cons y ys)
  have *: "set (insort_by le x ys) = insert x (set ys)"
    using mset_insort_by [of le x ys] by (metis set_mset_add_mset_insert set_mset_mset)
  show ?case using Cons total_leD [OF assms(1)] by (auto simp: *)
qed simp

lemma sorted_sort_by: "total_le le \<Longrightarrow> sorted_wrt le (sort_by le xs)"
  by (induction xs) (auto simp: sorted_insort_by)

lemma sort_unique:
  assumes "total_le le" and "sorted_wrt le xs" and "sorted_wrt le ys" and "mset xs = mset ys"
  shows "xs = ys"
  using assms(2-4)
proof (induction xs arbitrary: ys)
  case (Cons x xs)
  from Cons.prems(3) obtain y zs where ys: "ys = y # zs" by (cases ys) auto
  have "x \<in> set ys" and "y \<in> set (x # xs)"
    using mset_eq_setD [OF Cons.prems(3)] ys by auto
  then have "x = y"
    using Cons.prems(1,2) ys total_le_antisym [OF assms(1)] by auto
  then show ?case using Cons ys by auto
qed simp

lemma sort_by_cong:
  assumes "total_le le" and "mset xs = mset ys"
  shows "sort_by le xs = sort_by le ys"
  using assms by (intro sort_unique [OF assms(1)]) (auto simp: sorted_sort_by)

lemma sort_by_id:
  assumes "total_le le" and "sorted_wrt le xs"
  shows "sort_by le xs = xs"
  by (rule sort_unique [OF assms(1) sorted_sort_by [OF assms(1)] assms(2)]) simp

lemma trunc_div_nonneg: "0 \<le> a \<Longrightarrow> 0 < b \<Longrightarrow> trunc_div a b = a div b"
  by (cases "a = 0") (auto simp: trunc_div_def)

lemma trunc_div_neg: "a < 0 \<Longrightarrow> 0 < b \<Longrightarrow> trunc_div a b = - ((- a) div b)"
  by (simp add: trunc_div_def)

end
