(* ===== verification/Floats.thy ===== *)
theory Floats
  imports Prelude Complex_Main
begin

text \<open>
  The language's floating-point types \<open>f64\<close> and \<open>f32\<close>: IEEE 754 binary formats with
  round-to-nearest-even. A finite value is a sign and an exact rational magnitude; every
  operation computes the exact result and rounds it into the format, so overflow to infinity,
  gradual underflow, signed zeros and NaN behave as in the program. The casts to integers
  saturate and send NaN to zero, as Rust's \<open>as\<close> does; \<open>str::parse\<close> reads Rust's float and
  integer literals and rounds correctly.
\<close>

named_theorems fl_simps \<open>evaluation of floating-point operations on finite values\<close>

datatype fl = NaN | Inf bool | Fin bool rat

section \<open>Rounding\<close>

fun ilog2 :: "nat \<Rightarrow> nat" where
  "ilog2 n = (if n < 2 then 0 else Suc (ilog2 (n div 2)))"

declare ilog2.simps [simp del]

text \<open>The binary exponent of a positive rational: \<open>\<lfloor>log\<^sub>2 q\<rfloor>\<close>.\<close>

definition flog2 :: "rat \<Rightarrow> int" where
  "flog2 q =
     (let (a, b) = quotient_of q; l = int (ilog2 (nat a)) - int (ilog2 (nat b))
      in if 2 powi l \<le> q then l else l - 1)"

text \<open>Round to the nearest integer, ties to even.\<close>

definition rne :: "rat \<Rightarrow> int" where
  "rne x =
     (let f = \<lfloor>x\<rfloor>; d = x - of_int f
      in if d < 1 / 2 \<or> (d = 1 / 2 \<and> even f) then f else f + 1)"

text \<open>
  A format has \<open>p\<close> bits of precision, the least unit in the last place \<open>2 powi emin\<close> and
  overflows at \<open>2 powi emax\<close>.
\<close>

definition ulp_exp :: "nat \<Rightarrow> int \<Rightarrow> rat \<Rightarrow> int" where
  "ulp_exp p emin q = max (flog2 q - (int p - 1)) emin"

definition round_mag :: "nat \<Rightarrow> int \<Rightarrow> rat \<Rightarrow> rat" where
  "round_mag p emin q =
     (if q \<le> 0 then 0
      else let u = 2 powi ulp_exp p emin q in of_int (rne (q / u)) * u)"

definition round_fl :: "nat \<Rightarrow> int \<Rightarrow> int \<Rightarrow> bool \<Rightarrow> rat \<Rightarrow> fl" where
  "round_fl p emin emax s q =
     (let r = round_mag p emin q
      in if 0 < r \<and> emax \<le> flog2 r then Inf s else Fin s r)"

text \<open>The magnitudes a format holds exactly.\<close>

definition representable :: "nat \<Rightarrow> int \<Rightarrow> rat \<Rightarrow> bool" where
  "representable p emin r \<longleftrightarrow> (\<exists>n e. r = of_nat n * 2 powi e \<and> n \<le> 2 ^ p \<and> emin \<le> e)"

abbreviation round64 :: "bool \<Rightarrow> rat \<Rightarrow> fl" where
  "round64 \<equiv> round_fl 53 (-1074) 1024"

abbreviation round32 :: "bool \<Rightarrow> rat \<Rightarrow> fl" where
  "round32 \<equiv> round_fl 24 (-149) 128"

section \<open>Operations\<close>

text \<open>Each operation takes the rounding of its format: \<^const>\<open>round_fl\<close> at \<open>f64\<close> or \<open>f32\<close>.\<close>

type_synonym rounding = "bool \<Rightarrow> rat \<Rightarrow> fl"

fun fval :: "fl \<Rightarrow> rat" where
  "fval (Fin s q) = (if s then - q else q)"
| "fval _ = 0"

fun is_finite :: "fl \<Rightarrow> bool" where
  "is_finite (Fin s q) = True"
| "is_finite _ = False"

fun fneg :: "fl \<Rightarrow> fl" where
  "fneg NaN = NaN"
| "fneg (Inf s) = Inf (\<not> s)"
| "fneg (Fin s q) = Fin (\<not> s) q"

fun fadd :: "rounding \<Rightarrow> fl \<Rightarrow> fl \<Rightarrow> fl" where
  "fadd rnd (Fin s a) (Fin t b) =
     (let v = fval (Fin s a) + fval (Fin t b)
      in if v = 0 then Fin (s \<and> t) 0 else rnd (v < 0) \<bar>v\<bar>)"
| "fadd rnd (Inf s) (Inf t) = (if s = t then Inf s else NaN)"
| "fadd rnd (Inf s) (Fin t b) = Inf s"
| "fadd rnd (Fin s a) (Inf t) = Inf t"
| "fadd rnd _ _ = NaN"

definition fsub :: "rounding \<Rightarrow> fl \<Rightarrow> fl \<Rightarrow> fl" where
  "fsub rnd x y = fadd rnd x (fneg y)"

fun fmul :: "rounding \<Rightarrow> fl \<Rightarrow> fl \<Rightarrow> fl" where
  "fmul rnd (Fin s a) (Fin t b) = rnd (s \<noteq> t) (a * b)"
| "fmul rnd (Inf s) (Inf t) = Inf (s \<noteq> t)"
| "fmul rnd (Inf s) (Fin t b) = (if b = 0 then NaN else Inf (s \<noteq> t))"
| "fmul rnd (Fin s a) (Inf t) = (if a = 0 then NaN else Inf (s \<noteq> t))"
| "fmul rnd _ _ = NaN"

fun fdiv :: "rounding \<Rightarrow> fl \<Rightarrow> fl \<Rightarrow> fl" where
  "fdiv rnd (Fin s a) (Fin t b) =
     (if b = 0 then (if a = 0 then NaN else Inf (s \<noteq> t)) else rnd (s \<noteq> t) (a / b))"
| "fdiv rnd (Inf s) (Inf t) = NaN"
| "fdiv rnd (Inf s) (Fin t b) = Inf (s \<noteq> t)"
| "fdiv rnd (Fin s a) (Inf t) = Fin (s \<noteq> t) 0"
| "fdiv rnd _ _ = NaN"

text \<open>Comparison: false whenever an operand is NaN; the two zeros are equal.\<close>

fun flt :: "fl \<Rightarrow> fl \<Rightarrow> bool" where
  "flt (Fin s a) (Fin t b) = (fval (Fin s a) < fval (Fin t b))"
| "flt (Inf s) (Inf t) = (s \<and> \<not> t)"
| "flt (Inf s) (Fin t b) = s"
| "flt (Fin s a) (Inf t) = (\<not> t)"
| "flt _ _ = False"

fun feq :: "fl \<Rightarrow> fl \<Rightarrow> bool" where
  "feq (Fin s a) (Fin t b) = (fval (Fin s a) = fval (Fin t b))"
| "feq (Inf s) (Inf t) = (s = t)"
| "feq _ _ = False"

definition fle :: "fl \<Rightarrow> fl \<Rightarrow> bool" where
  "fle x y = (flt x y \<or> feq x y)"

text \<open>\<open>n as f64\<close>, \<open>x as f32\<close> (rounds), \<open>f64::from(x)\<close> for an \<open>f32\<close> (exact).\<close>

definition f64_of_nat :: "nat \<Rightarrow> fl" where
  "f64_of_nat n = round64 False (of_nat n)"

fun f32_of_f64 :: "fl \<Rightarrow> fl" where
  "f32_of_f64 (Fin s q) = round32 s q"
| "f32_of_f64 x = x"

definition f64_from_f32 :: "fl \<Rightarrow> fl" where
  "f64_from_f32 x = x"

text \<open>\<open>f64::round\<close> (half away from zero) and the saturating casts.\<close>

fun fround :: "fl \<Rightarrow> fl" where
  "fround (Fin s q) = Fin s (of_int \<lfloor>q + 1 / 2\<rfloor>)"
| "fround x = x"

definition sat :: "int \<Rightarrow> int \<Rightarrow> int \<Rightarrow> int" where
  "sat lo hi x = max lo (min hi x)"

fun cast_int :: "int \<Rightarrow> int \<Rightarrow> fl \<Rightarrow> int" where
  "cast_int lo hi NaN = 0"
| "cast_int lo hi (Inf s) = (if s then lo else hi)"
| "cast_int lo hi (Fin s q) = sat lo hi (if s then - \<lfloor>q\<rfloor> else \<lfloor>q\<rfloor>)"

definition i64_max :: int where "i64_max = 2 ^ 63 - 1"
definition i64_min :: int where "i64_min = - (2 ^ 63)"
definition u64_max :: int where "u64_max = 2 ^ 64 - 1"

definition as_i64 :: "fl \<Rightarrow> int" where
  "as_i64 x = cast_int i64_min i64_max x"

definition as_u64 :: "fl \<Rightarrow> u64" where
  "as_u64 x = word_of_int (cast_int 0 u64_max x)"

section \<open>Literals\<close>

definition digit_val :: "char \<Rightarrow> nat" where
  "digit_val c = byte c - 48"

definition digits_val :: "string \<Rightarrow> nat" where
  "digits_val ds = foldl (\<lambda>n c. 10 * n + digit_val c) 0 ds"

text \<open>\<open>str::parse\<close> for an unsigned integer type with the given largest value.\<close>

definition parse_unsigned :: "nat \<Rightarrow> string \<Rightarrow> nat option" where
  "parse_unsigned hi s =
     (let ds = (case s of c # r \<Rightarrow> if c = CHR ''+'' then r else s | [] \<Rightarrow> [])
      in if ds \<noteq> [] \<and> list_all is_ascii_digit ds \<and> digits_val ds \<le> hi
         then Some (digits_val ds) else None)"

text \<open>\<open>str::parse\<close> for a signed integer type with the given bounds.\<close>

definition parse_signed :: "int \<Rightarrow> int \<Rightarrow> string \<Rightarrow> int option" where
  "parse_signed lo hi s =
     (let neg = (case s of c # _ \<Rightarrow> c = CHR ''-'' | [] \<Rightarrow> False);
          ds = (case s of c # r \<Rightarrow> if c = CHR ''+'' \<or> c = CHR ''-'' then r else s | [] \<Rightarrow> []);
          v = (if neg then - int (digits_val ds) else int (digits_val ds))
      in if ds \<noteq> [] \<and> list_all is_ascii_digit ds \<and> lo \<le> v \<and> v \<le> hi then Some v else None)"

definition exponent_part :: "string \<Rightarrow> int option" where
  "exponent_part s =
     (case s of
        [] \<Rightarrow> Some 0
      | c # r \<Rightarrow>
          if to_ascii_lower c \<noteq> CHR ''e'' then None
          else
            let neg = (case r of d # _ \<Rightarrow> d = CHR ''-'' | [] \<Rightarrow> False);
                ds = (case r of d # r' \<Rightarrow> if d = CHR ''+'' \<or> d = CHR ''-'' then r' else r | [] \<Rightarrow> [])
            in if ds \<noteq> [] \<and> list_all is_ascii_digit ds
               then Some (if neg then - int (digits_val ds) else int (digits_val ds))
               else None)"

definition parse_magnitude :: "string \<Rightarrow> rat option" where
  "parse_magnitude s =
     (let ip = takeWhile is_ascii_digit s;
          r = dropWhile is_ascii_digit s;
          dot = (case r of c # _ \<Rightarrow> c = CHR ''.'' | [] \<Rightarrow> False);
          fp = (if dot then takeWhile is_ascii_digit (tl r) else []);
          rest = (if dot then dropWhile is_ascii_digit (tl r) else r)
      in if ip @ fp = [] then None
         else (case exponent_part rest of
                 None \<Rightarrow> None
               | Some e \<Rightarrow>
                   Some (of_nat (digits_val (ip @ fp)) * 10 powi (e - int (length fp)))))"

text \<open>\<open>str::parse::<f64>\<close>.\<close>

definition parse_f64 :: "string \<Rightarrow> fl option" where
  "parse_f64 s =
     (let neg = (case s of c # _ \<Rightarrow> c = CHR ''-'' | [] \<Rightarrow> False);
          body = (case s of c # r \<Rightarrow> if c = CHR ''+'' \<or> c = CHR ''-'' then r else s | [] \<Rightarrow> []);
          low = map to_ascii_lower body
      in if low = ''inf'' \<or> low = ''infinity'' then Some (Inf neg)
         else if low = ''nan'' then Some NaN
         else (case parse_magnitude body of None \<Rightarrow> None | Some q \<Rightarrow> Some (round64 neg q)))"

section \<open>Rounding is monotone and exact on representable values\<close>

lemma ilog2_bounds: "0 < n \<Longrightarrow> 2 ^ ilog2 n \<le> n \<and> n < 2 ^ Suc (ilog2 n)"
proof (induction n rule: ilog2.induct)
  case (1 n)
  show ?case
  proof (cases "n < 2")
    case True
    with 1 have "n = 1" by simp
    then show ?thesis by (simp add: ilog2.simps)
  next
    case False
    then have "0 < n div 2" by simp
    with 1 False have "2 ^ ilog2 (n div 2) \<le> n div 2 \<and> n div 2 < 2 ^ Suc (ilog2 (n div 2))"
      by simp
    then have "2 * 2 ^ ilog2 (n div 2) \<le> n" and "n < 2 * 2 ^ Suc (ilog2 (n div 2))"
      by linarith+
    then show ?thesis using False by (simp add: ilog2.simps [of n])
  qed
qed

lemma powi_pos [simp]: "0 < (2::rat) powi e"
  by (rule zero_less_power_int) simp

lemma powi_le_iff: "(2::rat) powi a \<le> 2 powi b \<longleftrightarrow> a \<le> b"
  by (meson linorder_not_le one_less_numeral_iff power_int_strict_increasing
      power_int_increasing rel_simps(49) semiring_norm(76) order.strict_trans1 order_le_less zero_less_one)

lemma powi_less_iff: "(2::rat) powi a < 2 powi b \<longleftrightarrow> a < b"
  by (simp add: powi_le_iff flip: not_le)

lemma ilog2_rat:
  assumes "0 < a"
  shows "(2::rat) ^ ilog2 (nat a) \<le> of_int a" and "of_int a < (2::rat) * 2 ^ ilog2 (nat a)"
proof -
  obtain n where n: "a = int n" "0 < n" using assms by (metis zero_less_imp_eq_int)
  have "(of_nat (2 ^ ilog2 n) :: rat) \<le> of_nat n" "(of_nat n :: rat) < of_nat (2 ^ Suc (ilog2 n))"
    using ilog2_bounds [OF n(2)] by (simp_all only: of_nat_le_iff of_nat_less_iff)
  then show "(2::rat) ^ ilog2 (nat a) \<le> of_int a" "of_int a < (2::rat) * 2 ^ ilog2 (nat a)"
    using n by simp_all
qed

lemma flog2_bounds:
  assumes "0 < q"
  shows flog2_le: "2 powi flog2 q \<le> q" and flog2_less: "q < 2 powi (flog2 q + 1)"
proof -
  obtain a b where ab: "quotient_of q = (a, b)" by force
  have b: "0 < b" and q: "q = of_int a / of_int b"
    using quotient_of_denom_pos [OF ab] quotient_of_div [OF ab] by auto
  then have a: "0 < a" using assms by (simp add: zero_less_divide_iff)
  let ?l = "int (ilog2 (nat a)) - int (ilog2 (nat b))"
  have l: "(2::rat) powi ?l = 2 ^ ilog2 (nat a) / 2 ^ ilog2 (nat b)"
    by (simp add: power_int_diff)
  note A = ilog2_rat [OF a] and B = ilog2_rat [OF b]
  have "of_int a * (2::rat) ^ ilog2 (nat b) < 2 * 2 ^ ilog2 (nat a) * of_int b"
    using A(2) B(1) a b by (intro mult_less_le_imp_less) auto
  then have up: "q < 2 * 2 powi ?l" unfolding q l using b by (simp add: field_simps)
  have "(2::rat) ^ ilog2 (nat a) * of_int b < of_int a * (2 * 2 ^ ilog2 (nat b))"
    using A(1) B(2) a b by (intro mult_le_less_imp_less) auto
  then have lo: "2 powi ?l / 2 < q" unfolding q l using b by (simp add: field_simps)
  have e: "flog2 q = (if 2 powi ?l \<le> q then ?l else ?l - 1)"
    by (simp add: flog2_def ab)
  show "2 powi flog2 q \<le> q"
    using lo unfolding e by (simp add: power_int_diff)
  show "q < 2 powi (flog2 q + 1)"
    using up unfolding e by (simp add: power_int_add power_int_diff mult.commute)
qed

lemma flog2_unique: "2 powi e \<le> q \<Longrightarrow> q < 2 powi (e + 1) \<Longrightarrow> flog2 q = e"
proof -
  assume le: "2 powi e \<le> q" and less: "q < 2 powi (e + 1)"
  have q: "0 < q" using le powi_pos [of e] by linarith
  have "(2::rat) powi flog2 q < 2 powi (e + 1)" "(2::rat) powi e < 2 powi (flog2 q + 1)"
    using le less flog2_bounds [OF q] by linarith+
  then show ?thesis by (simp add: powi_less_iff)
qed

lemma flog2_mono: "0 < x \<Longrightarrow> x \<le> y \<Longrightarrow> flog2 x \<le> flog2 y"
proof -
  assume x: "0 < x" "x \<le> y"
  then have "(2::rat) powi flog2 x < 2 powi (flog2 y + 1)"
    using flog2_le [of x] flog2_less [of y] by linarith
  then show ?thesis by (simp add: powi_less_iff)
qed

lemma rne_of_int [simp]: "rne (of_int n) = n"
  by (simp add: rne_def)

lemma rne_mono: "x \<le> y \<Longrightarrow> rne x \<le> rne y"
proof (cases "\<lfloor>x\<rfloor> = \<lfloor>y\<rfloor>")
  case True
  assume "x \<le> y"
  then show ?thesis using True by (auto simp: rne_def Let_def)
next
  case False
  assume "x \<le> y"
  then have "\<lfloor>x\<rfloor> < \<lfloor>y\<rfloor>" using False floor_mono [of x y] by linarith
  then show ?thesis by (auto simp: rne_def Let_def)
qed

lemma rne_ge: "of_int n \<le> x \<Longrightarrow> n \<le> rne x"
  using rne_mono [of "of_int n" x] by simp

lemma rne_le: "x \<le> of_int n \<Longrightarrow> rne x \<le> n"
  using rne_mono [of x "of_int n"] by simp

text \<open>
  The contract of a format: enough precision and an exponent range around zero. Everything the
  clients need of rounding follows from it: it is monotone and leaves representable values
  alone.
\<close>

locale float_format =
  fixes p :: nat and emin emax :: int
  assumes p_pos: "2 \<le> p" and emin_neg: "emin \<le> - int p" and emax_pos: "int p \<le> emax"
begin

lemma round_nonneg: "0 \<le> round_mag p emin q"
  by (auto simp: round_mag_def Let_def less_imp_le intro!: mult_nonneg_nonneg rne_ge)

lemma scale: "b \<le> a \<Longrightarrow> (2::rat) powi a / 2 powi b = of_int (2 ^ nat (a - b))"
proof -
  assume "b \<le> a"
  then have "(2::rat) powi (a - b) = 2 ^ nat (a - b)" by (simp add: power_int_def)
  then show ?thesis by (simp add: power_int_diff)
qed

lemma round_mono: "x \<le> y \<Longrightarrow> round_mag p emin x \<le> round_mag p emin y"
proof (cases "0 < x")
  case True
  assume le: "x \<le> y"
  define ex ey where "ex = ulp_exp p emin x" and "ey = ulp_exp p emin y"
  have y: "0 < y" using True le by simp
  have RX: "round_mag p emin x = of_int (rne (x / 2 powi ex)) * 2 powi ex"
    and RY: "round_mag p emin y = of_int (rne (y / 2 powi ey)) * 2 powi ey"
    using True y by (simp_all add: round_mag_def ex_def ey_def Let_def)
  have "ex \<le> ey" using flog2_mono [OF True le] by (auto simp: ex_def ey_def ulp_exp_def)
  show ?thesis
  proof (cases "ex = ey")
    case True
    have "rne (x / 2 powi ey) \<le> rne (y / 2 powi ey)"
      using le by (intro rne_mono divide_right_mono) (auto intro: less_imp_le)
    then show ?thesis unfolding RX RY True
      by (intro mult_right_mono) (auto intro: less_imp_le)
  next
    case False
    let ?f = "flog2 y"
    have ey: "ey = ?f - (int p - 1)" and fx: "flog2 x < ?f" and exf: "ex \<le> ?f" and eyf: "ey \<le> ?f"
      using False \<open>ex \<le> ey\<close> p_pos by (auto simp: ex_def ey_def ulp_exp_def)
    have "x < 2 powi (flog2 x + 1)" using flog2_less [OF \<open>0 < x\<close>] .
    also have "\<dots> \<le> 2 powi ?f" using fx by (simp add: powi_le_iff)
    finally have "x / 2 powi ex \<le> 2 powi ?f / 2 powi ex"
      by (intro divide_right_mono) (auto intro: less_imp_le)
    then have "rne (x / 2 powi ex) \<le> 2 ^ nat (?f - ex)"
      unfolding scale [OF exf] by (rule rne_le)
    then have "of_int (rne (x / 2 powi ex)) \<le> (2::rat) powi ?f / 2 powi ex"
      unfolding scale [OF exf] by (simp only: of_int_le_iff)
    then have 1: "round_mag p emin x \<le> 2 powi ?f"
      unfolding RX by (simp add: pos_le_divide_eq)
    have "2 powi ?f / 2 powi ey \<le> y / 2 powi ey"
      using flog2_le [OF y] by (intro divide_right_mono) (auto intro: less_imp_le)
    then have "2 ^ nat (?f - ey) \<le> rne (y / 2 powi ey)"
      unfolding scale [OF eyf] by (rule rne_ge)
    then have "(2::rat) powi ?f / 2 powi ey \<le> of_int (rne (y / 2 powi ey))"
      unfolding scale [OF eyf] by (simp only: of_int_le_iff)
    then have 2: "2 powi ?f \<le> round_mag p emin y"
      unfolding RY by (simp add: pos_divide_le_eq)
    from 1 2 show ?thesis by linarith
  qed
next
  case False
  then have "round_mag p emin x = 0" by (simp add: round_mag_def)
  then show ?thesis using round_nonneg by simp
qed

lemma round_representable:
  assumes "representable p emin r"
  shows "round_mag p emin r = r"
proof (cases "0 < r")
  case True
  obtain n e where r: "r = of_nat n * 2 powi e" and n: "n \<le> 2 ^ p" and e: "emin \<le> e"
    using assms by (auto simp: representable_def)
  define u where "u = ulp_exp p emin r"
  have nn: "(of_nat n :: rat) \<le> 2 powi (int p)"
  proof -
    have "(of_nat n :: rat) \<le> of_nat (2 ^ p)" using n by (simp only: of_nat_le_iff)
    then show ?thesis by simp
  qed
  have "(2::rat) powi flog2 r \<le> 2 powi (int p) * 2 powi e"
    using flog2_le [OF True] mult_right_mono [OF nn less_imp_le [OF powi_pos [of e]]]
    unfolding r by linarith
  then have f: "flog2 r \<le> int p + e" 
    by (simp add: powi_le_iff del: power_int_of_nat flip: power_int_add)
  obtain m :: int where m: "r = of_int m * 2 powi u"
  proof (cases "u \<le> e")
    case True
    have "r = of_int (int n * 2 ^ nat (e - u)) * 2 powi u"
      using scale [OF True] r by (simp add: field_simps)
    then show ?thesis by (rule that)
  next
    case False
    then have "flog2 r = int p + e" "u = e + 1"
      using f e by (auto simp: u_def ulp_exp_def)
    then have "(2::rat) powi (int p + e) \<le> of_nat n * 2 powi e" using flog2_le [OF True] r by simp
    then have "(2::rat) powi int p \<le> of_nat n" by (simp add: power_int_add)
    then have "of_nat n = (2::rat) powi int p" using nn by simp
    then have "r = 2 powi (int p - 1) * 2 powi u"
      using \<open>u = e + 1\<close> unfolding r by (simp add: power_int_add power_int_diff)
    then have "r = of_int (2 ^ (p - 1)) * 2 powi u"
      using p_pos by (simp add: power_int_def nat_diff_distrib)
    then show ?thesis by (rule that)
  qed
  have "round_mag p emin r = of_int (rne (r / 2 powi u)) * 2 powi u"
    using True by (simp add: round_mag_def u_def Let_def)
  also have "r / 2 powi u = of_int m" by (simp add: m)
  finally show ?thesis by (simp add: m)
next
  case False
  moreover have "0 \<le> r" using assms by (auto simp: representable_def intro: less_imp_le)
  ultimately have "r = 0" by simp
  then show ?thesis by (simp add: round_mag_def)
qed

lemma round_le: "x \<le> r \<Longrightarrow> representable p emin r \<Longrightarrow> round_mag p emin x \<le> r"
  using round_mono [of x r] round_representable [of r] by simp

lemma round_ge: "r \<le> x \<Longrightarrow> representable p emin r \<Longrightarrow> r \<le> round_mag p emin x"
  using round_mono [of r x] round_representable [of r] by simp

lemma representable_nat: "n \<le> 2 ^ p \<Longrightarrow> representable p emin (of_nat n)"
  unfolding representable_def using emin_neg by (intro exI [of _ n] exI [of _ 0]) auto

lemma representable_round: "representable p emin (round_mag p emin q)"
proof (cases "0 < q")
  case True
  define u where "u = ulp_exp p emin q"
  have eu: "emin \<le> u" and qu: "flog2 q + 1 - u \<le> int p" by (auto simp: u_def ulp_exp_def)
  have "q / 2 powi u \<le> 2 powi (flog2 q + 1) / 2 powi u"
    using flog2_less [OF True] by (intro divide_right_mono) (auto intro: less_imp_le)
  also have "\<dots> \<le> 2 powi (int p)" using qu powi_le_iff [of "flog2 q + 1 - u" "int p"]
    by (simp add: power_int_diff [of 2 "flog2 q + 1" u] del: power_int_of_nat)
  also have "\<dots> = of_int (2 ^ p)" by (simp add: power_int_def)
  finally have hi: "rne (q / 2 powi u) \<le> 2 ^ p" by (rule rne_le)
  have lo: "0 \<le> rne (q / 2 powi u)" using True by (intro rne_ge) (auto intro: less_imp_le)
  define n where "n = nat (rne (q / 2 powi u))"
  have "round_mag p emin q = of_nat n * 2 powi u"
    using True lo by (simp add: round_mag_def u_def n_def Let_def)
  moreover have "n \<le> 2 ^ p" using hi lo by (simp add: n_def nat_le_iff)
  ultimately show ?thesis using eu by (auto simp: representable_def)
qed (use representable_nat [of 0] in \<open>simp add: round_mag_def\<close>)

lemma overflow_iff: "0 < r \<and> emax \<le> flog2 r \<longleftrightarrow> 2 powi emax \<le> r"
proof
  assume "0 < r \<and> emax \<le> flog2 r"
  then show "2 powi emax \<le> r"
    using flog2_le [of r] powi_le_iff [of emax "flog2 r"] by linarith
next
  assume le: "2 powi emax \<le> r"
  then have r: "0 < r" using powi_pos [of emax] by linarith
  have "(2::rat) powi emax < 2 powi (flog2 r + 1)" using le flog2_less [OF r] by linarith
  then show "0 < r \<and> emax \<le> flog2 r" using r by (simp add: powi_less_iff)
qed

lemma round_fl_small:
  assumes "q \<le> 1"
  shows "round_fl p emin emax s q = Fin s (round_mag p emin q)"
proof -
  have "round_mag p emin q \<le> 1" using round_le [OF assms] representable_nat [of 1] by simp
  also have "1 < (2::rat) powi emax" using powi_less_iff [of 0 emax] emax_pos p_pos by simp
  finally show ?thesis unfolding round_fl_def using overflow_iff by (auto simp: Let_def)
qed

lemma round_fl_nat:
  assumes "n < 2 ^ p"
  shows "round_fl p emin emax s (of_nat n) = Fin s (of_nat n)"
proof -
  have r: "round_mag p emin (of_nat n) = of_nat n"
    using assms by (intro round_representable representable_nat) simp
  have "(of_nat n :: rat) < of_nat (2 ^ p)" using assms by (simp only: of_nat_less_iff)
  also have "(of_nat (2 ^ p) :: rat) = 2 powi (int p)" by (simp add: power_int_def)
  also have "\<dots> \<le> 2 powi emax" using emax_pos by (simp only: powi_le_iff)
  finally show ?thesis unfolding round_fl_def r using overflow_iff by (auto simp: Let_def)
qed

end

interpretation f64: float_format 53 "-1074" 1024
  by unfold_locales simp_all

interpretation f32: float_format 24 "-149" 128
  by unfold_locales simp_all

end
