(* ===== verification/Metric.thy ===== *)
theory Metric
  imports Floats
begin

text \<open>
  \<^verbatim>\<open>dogstatsd/src/metric.rs\<close>, \<^verbatim>\<open>errors.rs\<close> and \<^verbatim>\<open>constants.rs\<close>: tags, metric values,
  the DogStatsD line parser, the ten-second timestamp buckets and the context identifier.
  What the crate takes from third-party packages is the record \<open>deps\<close>: the order of interned
  strings (\<^verbatim>\<open>ustr\<close>), the hash of a sequence of writes (\<^verbatim>\<open>fnv\<close>) and the sketch operations
  (\<^verbatim>\<open>ddsketch-agent\<close>). The clock readings of a call are arguments.
\<close>

section \<open>Data\<close>

datatype hash_item = HUstr string | HI64 int | HBytes string

record 'sk deps =
  ustr_le :: "string \<Rightarrow> string \<Rightarrow> bool"
  fnv :: "hash_item list \<Rightarrow> u64"
  sk_default :: 'sk
  sk_insert :: "'sk \<Rightarrow> fl \<Rightarrow> 'sk"
  sk_merge :: "'sk \<Rightarrow> 'sk \<Rightarrow> 'sk"

datatype parse_error = Raw string | UnsupportedType string

datatype 'sk metric_value = Count fl | Gauge fl | Distribution 'sk

record sorted_tags =
  tag_values :: "(string \<times> string) list"

record 'sk metric =
  m_name :: string
  m_value :: "'sk metric_value"
  m_tags :: "sorted_tags option"
  m_id :: u64
  m_timestamp :: int

definition MAX_TAGS :: nat where "MAX_TAGS = 100"

definition EMPTY_TAGS :: sorted_tags where "EMPTY_TAGS = \<lparr>tag_values = []\<rparr>"

section \<open>Metric values\<close>

definition mv_count :: "fl \<Rightarrow> 'sk metric_value" where
  "mv_count v = Count v"

definition mv_gauge :: "fl \<Rightarrow> 'sk metric_value" where
  "mv_gauge v = Gauge v"

definition mv_distribution :: "'sk deps \<Rightarrow> fl \<Rightarrow> 'sk metric_value" where
  "mv_distribution D v = Distribution (sk_insert D (sk_default D) v)"

section \<open>Tags\<close>

text \<open>Rust's \<open>Vec::dedup\<close> removes consecutive repetitions: \<^const>\<open>remdups_adj\<close>.\<close>

definition tag_le :: "'sk deps \<Rightarrow> string \<times> string \<Rightarrow> string \<times> string \<Rightarrow> bool" where
  "tag_le D = pair_le (ustr_le D) (ustr_le D)"

definition tags_extend :: "'sk deps \<Rightarrow> sorted_tags \<Rightarrow> sorted_tags \<Rightarrow> sorted_tags" where
  "tags_extend D t other =
     \<lparr>tag_values = sort_by (tag_le D) (remdups_adj (tag_values t @ tag_values other))\<rparr>"

definition tags_is_empty :: "sorted_tags \<Rightarrow> bool" where
  "tags_is_empty t = (tag_values t = [])"

definition parse_tag :: "string \<Rightarrow> string \<times> string" where
  "parse_tag part = (case split_once CHR '':'' part of Some (k, v) \<Rightarrow> (k, v) | None \<Rightarrow> (part, []))"

definition tags_parse :: "'sk deps \<Rightarrow> string \<Rightarrow> parse_error + sorted_tags" where
  "tags_parse D tags_section =
     (let parsed_tags = remdups_adj
            (map parse_tag (filter (\<lambda>s. s \<noteq> []) (split_char CHR '','' tags_section)))
      in if length parsed_tags > MAX_TAGS then Inl (Raw ''Too many tags, more than 100'')
         else Inr \<lparr>tag_values = sort_by (tag_le D) parsed_tags\<rparr>)"

definition tag_string :: "string \<times> string \<Rightarrow> string" where
  "tag_string kv = (if snd kv = [] then fst kv else fst kv @ '':'' @ snd kv)"

definition tags_to_strings :: "sorted_tags \<Rightarrow> string list" where
  "tags_to_strings t = map tag_string (tag_values t)"

definition tags_to_chars :: "sorted_tags \<Rightarrow> string list" where
  "tags_to_chars t = map tag_string (tag_values t)"

definition tags_find_all :: "sorted_tags \<Rightarrow> string \<Rightarrow> string list" where
  "tags_find_all t tag_key = map snd (filter (\<lambda>kv. fst kv = tag_key) (tag_values t))"

record resource =
  res_name :: string
  res_kind :: string

definition tags_to_resources :: "sorted_tags \<Rightarrow> resource list" where
  "tags_to_resources t =
     List.map_filter
       (\<lambda>kv. if fst kv = ''dd.internal.resource''
             then (case split_once CHR '':'' (snd kv) of
                     Some (n, k) \<Rightarrow> Some \<lparr>res_name = n, res_kind = k\<rparr>
                   | None \<Rightarrow> None)
             else None)
       (tag_values t)"

section \<open>Identifiers and timestamps\<close>

definition id_items :: "string \<Rightarrow> sorted_tags option \<Rightarrow> int \<Rightarrow> hash_item list" where
  "id_items name tags timestamp =
     HUstr name # HI64 timestamp #
     (case tags of
        None \<Rightarrow> []
      | Some t \<Rightarrow> concat (map (\<lambda>kv. [HBytes (fst kv), HBytes (snd kv)]) (tag_values t)))"

definition metric_id :: "'sk deps \<Rightarrow> string \<Rightarrow> sorted_tags option \<Rightarrow> int \<Rightarrow> u64" where
  "metric_id D name tags timestamp = fnv D (id_items name tags timestamp)"

definition timestamp_to_bucket :: "int \<Rightarrow> int \<Rightarrow> int" where
  "timestamp_to_bucket now_seconds timestamp =
     (if timestamp > now_seconds then trunc_div now_seconds 10 * 10
      else trunc_div timestamp 10 * 10)"

text \<open>
  \<open>Metric::new\<close> and \<open>parse\<close> read the clock twice: once for a missing timestamp, once inside
  \<open>timestamp_to_bucket\<close>.
\<close>

definition metric_new ::
  "'sk deps \<Rightarrow> int \<Rightarrow> int \<Rightarrow> string \<Rightarrow> 'sk metric_value \<Rightarrow> sorted_tags option \<Rightarrow> int option \<Rightarrow> 'sk metric" where
  "metric_new D now now2 name value tags timestamp =
     (let parsed_timestamp =
            timestamp_to_bucket now2 (case timestamp of Some t \<Rightarrow> t | None \<Rightarrow> now)
      in \<lparr>m_name = name, m_value = value, m_tags = tags,
          m_id = metric_id D name tags parsed_timestamp, m_timestamp = parsed_timestamp\<rparr>)"

section \<open>The line parser\<close>

definition next_field :: "string \<Rightarrow> string \<times> string option" where
  "next_field input =
     (case split_once CHR ''|'' input of Some (f, r) \<Rightarrow> (f, Some r) | None \<Rightarrow> (input, None))"

text \<open>The message of \<open>ParseFloatError\<close>.\<close>

definition float_error :: "string \<Rightarrow> string" where
  "float_error v = (if v = [] then ''cannot parse float from empty string'' else ''invalid float literal'')"

definition first_value :: "string \<Rightarrow> parse_error + fl" where
  "first_value values =
     (case split_char CHR '':'' values of
        v # _ \<Rightarrow> (case parse_f64 v of
                   Some x \<Rightarrow> Inr x
                 | None \<Rightarrow> Inl (Raw (''Invalid value '' @ float_error v)))
      | [] \<Rightarrow> Inl (Raw ''Missing value''))"

record opt_fields =
  of_tags :: "sorted_tags option"
  of_timestamp :: "int option"
  of_sample_rate :: "fl option"
  of_container_id :: "string option"

definition no_fields :: opt_fields where
  "no_fields = \<lparr>of_tags = None, of_timestamp = None, of_sample_rate = None, of_container_id = None\<rparr>"

text \<open>The body of the loop over the optional fields, for one field.\<close>

definition parse_opt_field :: "'sk deps \<Rightarrow> string \<Rightarrow> opt_fields \<Rightarrow> parse_error + opt_fields" where
  "parse_opt_field D field st =
     (if field = [] then Inr st
      else case strip_prefix ''#'' field of
        Some tags_str \<Rightarrow>
          (case tags_parse D tags_str of
             Inl e \<Rightarrow> Inl e
           | Inr t \<Rightarrow> Inr (st\<lparr>of_tags := Some t\<rparr>))
      | None \<Rightarrow>
        (case strip_prefix ''T'' field of
           Some ts_str \<Rightarrow>
             if ts_str = [] then Inl (Raw ''Empty timestamp field: T'')
             else (case parse_f64 ts_str of
                     None \<Rightarrow> Inl (Raw (''Invalid timestamp: T'' @ ts_str))
                   | Some x \<Rightarrow> Inr (st\<lparr>of_timestamp := Some (as_i64 (fround x))\<rparr>))
         | None \<Rightarrow>
           (case strip_prefix ''@'' field of
              Some sr_str \<Rightarrow>
                (case parse_f64 sr_str of
                   None \<Rightarrow> Inl (Raw (''Invalid sample rate: @'' @ sr_str))
                 | Some x \<Rightarrow> Inr (st\<lparr>of_sample_rate := Some x\<rparr>))
            | None \<Rightarrow>
              (case strip_prefix ''c:'' field of
                 Some cid_str \<Rightarrow> Inr (st\<lparr>of_container_id := Some cid_str\<rparr>)
               | None \<Rightarrow> Inr st))))"

function parse_opt_fields ::
  "'sk deps \<Rightarrow> string option \<Rightarrow> opt_fields \<Rightarrow> parse_error + opt_fields" where
  "parse_opt_fields D None st = Inr st"
| "parse_opt_fields D (Some field_remaining) st =
     (let (field, nxt) = next_field field_remaining
      in case parse_opt_field D field st of
           Inl e \<Rightarrow> Inl e
         | Inr st' \<Rightarrow> parse_opt_fields D nxt st')"
  by pat_completeness auto
termination
  by (relation "measure (\<lambda>(D, cur, st). case cur of None \<Rightarrow> 0 | Some s \<Rightarrow> Suc (length s))")
    (auto simp: next_field_def split_once_Some split: option.splits)

definition type_value :: "'sk deps \<Rightarrow> string \<Rightarrow> fl \<Rightarrow> parse_error + 'sk metric_value" where
  "type_value D metric_type val =
     (if metric_type = ''c'' then Inr (Count val)
      else if metric_type = ''g'' then Inr (Gauge val)
      else if metric_type = ''d'' then Inr (Distribution (sk_insert D (sk_default D) val))
      else if metric_type = ''h'' \<or> metric_type = ''s'' \<or> metric_type = ''ms''
           then Inl (UnsupportedType metric_type)
      else Inl (Raw (''Invalid metric type: '' @ metric_type)))"

definition metric_parse :: "'sk deps \<Rightarrow> int \<Rightarrow> int \<Rightarrow> string \<Rightarrow> parse_error + 'sk metric" where
  "metric_parse D now now2 input =
     (let (name_and_value, remaining) = next_field input;
          invalid = Inl (Raw (''Invalid metric format '' @ input))
      in case split_once CHR '':'' name_and_value of
           None \<Rightarrow> invalid
         | Some (name, values) \<Rightarrow>
           if name = [] \<or> values = [] then invalid
           else (case remaining of
             None \<Rightarrow> invalid
           | Some r \<Rightarrow>
             let (metric_type, remaining) = next_field r
             in if metric_type = [] then invalid
                else (case first_value values of
                  Inl e \<Rightarrow> Inl e
                | Inr val \<Rightarrow>
                  (case type_value D metric_type val of
                     Inl e \<Rightarrow> Inl e
                   | Inr metric_value \<Rightarrow>
                     (case parse_opt_fields D remaining no_fields of
                        Inl e \<Rightarrow> Inl e
                      | Inr st \<Rightarrow>
                        let ts = timestamp_to_bucket now2
                                   (case of_timestamp st of Some t \<Rightarrow> t | None \<Rightarrow> now)
                        in Inr \<lparr>m_name = name, m_value = metric_value, m_tags = of_tags st,
                                m_id = metric_id D name (of_tags st) ts, m_timestamp = ts\<rparr>)))))"

section \<open>Tags: order, bounds, round trip\<close>

definition tag_pieces :: "string \<Rightarrow> string list" where
  "tag_pieces s = filter (\<lambda>p. p \<noteq> []) (split_char CHR '','' s)"

lemma tags_parse_pieces:
  "tags_parse D s =
     (let ts = remdups_adj (map parse_tag (tag_pieces s))
      in if length ts > MAX_TAGS then Inl (Raw ''Too many tags, more than 100'')
         else Inr \<lparr>tag_values = sort_by (tag_le D) ts\<rparr>)"
  by (simp add: tags_parse_def tag_pieces_def)

lemma total_tag_le: "total_le (ustr_le D) \<Longrightarrow> total_le (tag_le D)"
  by (simp add: tag_le_def total_pair_le)

lemma tags_parse_Inr:
  assumes "tags_parse D s = Inr t"
  shows "length (tag_values t) \<le> MAX_TAGS"
    and "set (tag_values t) = set (map parse_tag (tag_pieces s))"
    and "total_le (ustr_le D) \<Longrightarrow> sorted_wrt (tag_le D) (tag_values t)"
  using assms by (auto simp: tags_parse_pieces Let_def sorted_sort_by total_tag_le split: if_splits)

lemma sorted_wrt_remdups_adj: "sorted_wrt le xs \<Longrightarrow> sorted_wrt le (remdups_adj xs)"
  by (induction xs rule: remdups_adj.induct) simp_all

lemma distinct_sorted_remdups_adj:
  assumes "total_le le" "sorted_wrt le xs"
  shows "distinct (remdups_adj xs)"
  using assms(2)
proof (induction xs rule: remdups_adj.induct)
  case (3 x y xs)
  have "x \<notin> set (y # xs)" if "x \<noteq> y"
  proof
    assume "x \<in> set (y # xs)"
    then have "le y x" "le x y" using 3(3) that by auto
    then show False using that assms(1) unfolding total_le_def by blast
  qed
  then show ?case using 3 by (cases "x = y") simp_all
qed simp_all

lemma parse_tag_parts:
  "parse_tag p = (k, v) \<Longrightarrow> CHR '':'' \<notin> set k \<and> set k \<subseteq> set p \<and> set v \<subseteq> set p"
  by (auto simp: parse_tag_def split_once_Some split_once_None split: option.splits prod.splits)

lemma parse_tag_string:
  "CHR '':'' \<notin> set (fst kv) \<Longrightarrow> parse_tag (tag_string kv) = kv"
proof (cases "snd kv = []")
  case True
  assume "CHR '':'' \<notin> set (fst kv)"
  then have "split_once CHR '':'' (fst kv) = None" by (simp add: split_once_None)
  then show ?thesis using True by (simp add: tag_string_def parse_tag_def prod_eq_iff)
next
  case False
  assume "CHR '':'' \<notin> set (fst kv)"
  then have "split_once CHR '':'' (fst kv @ CHR '':'' # snd kv) = Some kv"
    by (cases kv) (simp add: split_once_Some)
  then show ?thesis using False by (cases kv) (simp add: tag_string_def parse_tag_def)
qed

lemma tag_values_clean:
  assumes "tags_parse D s = Inr t" and "kv \<in> set (tag_values t)"
  shows "CHR '':'' \<notin> set (fst kv)" and "CHR '','' \<notin> set (tag_string kv)"
proof -
  obtain p where p: "p \<in> set (tag_pieces s)" and kv: "kv = parse_tag p"
    using tags_parse_Inr(2) [OF assms(1)] assms(2) by auto
  have c: "CHR '','' \<notin> set p"
    using p by (auto simp: tag_pieces_def dest: split_char_no_delim)
  obtain k v where "parse_tag p = (k, v)" by force
  then show "CHR '':'' \<notin> set (fst kv)" and "CHR '','' \<notin> set (tag_string kv)"
    using parse_tag_parts [of p k v] c kv by (auto simp: tag_string_def)
qed

text \<open>Printing parsed tags and parsing the text: empty pairs print as nothing, and repetitions, sorted together, go.\<close>

definition reparsed :: "sorted_tags \<Rightarrow> sorted_tags" where
  "reparsed t = \<lparr>tag_values = remdups_adj (filter (\<lambda>kv. kv \<noteq> ([], [])) (tag_values t))\<rparr>"

lemma tags_parse_printed:
  assumes "total_le (ustr_le D)" "tags_parse D s = Inr t"
  shows "tags_parse D (join_with '','' (tags_to_strings t)) = Inr (reparsed t)"
proof (cases "tag_values t = []")
  case True
  then show ?thesis
    by (simp add: tags_parse_pieces tags_to_strings_def tag_pieces_def reparsed_def)
next
  case False
  let ?ss = "map tag_string (tag_values t)" and ?kept = "filter (\<lambda>kv. kv \<noteq> ([], [])) (tag_values t)"
  have nil: "tag_string kv \<noteq> [] \<longleftrightarrow> kv \<noteq> ([], [])" for kv by (cases kv) (auto simp: tag_string_def)
  have "split_char CHR '','' (join_with '','' ?ss) = ?ss"
    using False tag_values_clean(2) [OF assms(2)] by (intro split_join_char) auto
  then have "tag_pieces (join_with '','' ?ss) = map tag_string ?kept"
    by (simp add: tag_pieces_def filter_map comp_def nil)
  moreover have "map parse_tag (map tag_string ?kept) = ?kept"
    using tag_values_clean(1) [OF assms(2)] unfolding map_map by (intro map_idI) (auto simp: parse_tag_string)
  moreover have "sort_by (tag_le D) (remdups_adj ?kept) = remdups_adj ?kept"
    using assms by (intro sort_by_id total_tag_le sorted_wrt_remdups_adj sorted_wrt_filter tags_parse_Inr(3))
  moreover have "length (remdups_adj ?kept) \<le> MAX_TAGS"
    using tags_parse_Inr(1) [OF assms(2)] remdups_adj_length [of ?kept] length_filter_le [of _ "tag_values t"] by (meson le_trans)
  ultimately show ?thesis
    by (simp add: tags_parse_pieces tags_to_strings_def reparsed_def Let_def)
qed

lemma reparsed_idem: "reparsed (reparsed t) = reparsed t"
proof -
  let ?ne = "\<lambda>kv. kv \<noteq> ([], [])"
  have "filter ?ne (remdups_adj (filter ?ne xs)) = remdups_adj (filter ?ne xs)" for xs :: "(string \<times> string) list"
    by (auto simp: filter_id_conv)
  then show ?thesis using distinct_adj_altdef [THEN iffD1, OF distinct_adj_remdups_adj] by (simp add: reparsed_def)
qed

text \<open>
  C27. Printing parsed tags and parsing the text again always succeeds and gives the same set of tags, sorted
  and now without repetitions, less the empty pair (a lone colon prints as the empty string); from then on
  printing and parsing change nothing. When no tag was repeated and none was the empty pair, the tags are
  the same at once.
\<close>

theorem tags_roundtrip:
  assumes "total_le (ustr_le D)"
    and "tags_parse D s = Inr t"
  shows "\<exists>t'. tags_parse D (join_with '','' (tags_to_strings t)) = Inr t' \<and>
    set (tag_values t') = set (tag_values t) - {([], [])} \<and> distinct (tag_values t') \<and>
    sorted_wrt (tag_le D) (tag_values t') \<and>
    tags_parse D (join_with '','' (tags_to_strings t')) = Inr t' \<and>
    (if distinct (tag_values t) \<and> ([], []) \<notin> set (tag_values t) then t' = t else True)"
proof -
  note p = tags_parse_printed [OF assms]
  have sorted: "sorted_wrt (tag_le D) (filter (\<lambda>kv. kv \<noteq> ([], [])) (tag_values t))"
    using tags_parse_Inr(3) [OF assms(2,1)] by (rule sorted_wrt_filter)
  have "set (tag_values (reparsed t)) = set (tag_values t) - {([], [])}" by (auto simp: reparsed_def)
  moreover have "distinct (tag_values (reparsed t))" "sorted_wrt (tag_le D) (tag_values (reparsed t))"
    using sorted total_tag_le [OF assms(1)]
    by (simp_all add: reparsed_def distinct_sorted_remdups_adj sorted_wrt_remdups_adj)
  moreover have "tags_parse D (join_with '','' (tags_to_strings (reparsed t))) = Inr (reparsed t)"
    using tags_parse_printed [OF assms(1) p] by (simp add: reparsed_idem)
  moreover have "reparsed t = t" if "distinct (tag_values t)" "([], []) \<notin> set (tag_values t)"
  proof -
    have "filter (\<lambda>kv. kv \<noteq> ([], [])) (tag_values t) = tag_values t" using that(2) by (auto simp: filter_id_conv)
    then show ?thesis using that(1) by (simp add: reparsed_def remdups_adj_distinct)
  qed
  ultimately show ?thesis using p by auto
qed

lemma tags_parse_perm:
  assumes "total_le (ustr_le D)"
    and "mset (tag_pieces s) = mset (tag_pieces s')"
    and "distinct (map parse_tag (tag_pieces s))"
  shows "tags_parse D s = tags_parse D s'"
proof -
  have m: "mset (map parse_tag (tag_pieces s)) = mset (map parse_tag (tag_pieces s'))"
    using assms(2) by simp
  then have d: "distinct (map parse_tag (tag_pieces s'))"
    using assms(3) mset_eq_imp_distinct_iff by blast
  have "length (map parse_tag (tag_pieces s)) = length (map parse_tag (tag_pieces s'))"
    using m by (rule mset_eq_length)
  then show ?thesis
    using m d assms(3) sort_by_cong [OF total_tag_le [OF assms(1)] m]
    by (simp add: tags_parse_pieces remdups_adj_distinct Let_def)
qed


section \<open>The optional fields\<close>

fun parse_field_list :: "'sk deps \<Rightarrow> string list \<Rightarrow> opt_fields \<Rightarrow> parse_error + opt_fields" where
  "parse_field_list D [] st = Inr st"
| "parse_field_list D (f # fs) st =
     (case parse_opt_field D f st of Inl e \<Rightarrow> Inl e | Inr st' \<Rightarrow> parse_field_list D fs st')"

text \<open>Which slot of the optional fields a field writes, if any.\<close>

datatype field_kind = FTags | FTime | FRate | FCid

definition kind_of :: "string \<Rightarrow> field_kind option" where
  "kind_of f =
     (if starts_with ''#'' f then Some FTags else if starts_with ''T'' f then Some FTime
      else if starts_with ''@'' f then Some FRate else if starts_with ''c:'' f then Some FCid
      else None)"

text \<open>No two different fields write the same slot.\<close>

definition one_per_kind :: "string list \<Rightarrow> bool" where
  "one_per_kind fs =
     list_all (\<lambda>f. list_all (\<lambda>g. f = g \<or> kind_of f = None \<or> kind_of f \<noteq> kind_of g) fs) fs"

lemma split_next_field:
  "split_char CHR ''|'' s =
     (case next_field s of (f, None) \<Rightarrow> [f] | (f, Some r) \<Rightarrow> f # split_char CHR ''|'' r)"
  by (auto simp: next_field_def split_once_Some split_once_None split_char_app split_char_atom
      split: option.splits prod.splits)

lemma parse_opt_fields_split:
  "parse_opt_fields D (Some s) st = parse_field_list D (split_char CHR ''|'' s) st"
proof (induction "length s" arbitrary: s st rule: less_induct)
  case less
  obtain f n where nf: "next_field s = (f, n)" by force
  show ?case
  proof (cases n)
    case None
    then show ?thesis using nf by (simp add: split_next_field [of s] split: sum.splits)
  next
    case (Some r)
    then have "length r < length s"
      using nf by (auto simp: next_field_def split_once_Some split: option.splits)
    then have "\<And>st. parse_opt_fields D (Some r) st = parse_field_list D (split_char CHR ''|'' r) st"
      by (rule less)
    then show ?thesis using nf Some by (simp add: split_next_field [of s] split: sum.splits)
  qed
qed

declare parse_opt_fields.simps(2) [simp del]

text \<open>A field that parses does so in every state, and updates only its slot.\<close>

definition field_ok :: "'sk deps \<Rightarrow> string \<Rightarrow> bool" where
  "field_ok D f = (\<exists>r. parse_opt_field D f no_fields = Inr r)"

definition field_upd :: "'sk deps \<Rightarrow> string \<Rightarrow> opt_fields \<Rightarrow> opt_fields" where
  "field_upd D f st =
     (case kind_of f of
        None \<Rightarrow> st
      | Some FTags \<Rightarrow> (case tags_parse D (drop 1 f) of Inr t \<Rightarrow> st\<lparr>of_tags := Some t\<rparr> | Inl _ \<Rightarrow> st)
      | Some FTime \<Rightarrow>
          (case parse_f64 (drop 1 f) of
             Some x \<Rightarrow> st\<lparr>of_timestamp := Some (as_i64 (fround x))\<rparr> | None \<Rightarrow> st)
      | Some FRate \<Rightarrow>
          (case parse_f64 (drop 1 f) of Some x \<Rightarrow> st\<lparr>of_sample_rate := Some x\<rparr> | None \<Rightarrow> st)
      | Some FCid \<Rightarrow> st\<lparr>of_container_id := Some (drop 2 f)\<rparr>)"

lemma kind_of_eqs [simp]:
  "kind_of [] = None" "kind_of (CHR ''#'' # r) = Some FTags" "kind_of (CHR ''T'' # r) = Some FTime"
  "kind_of (CHR ''@'' # r) = Some FRate" "kind_of (CHR ''c'' # CHR '':'' # r) = Some FCid"
  by (simp_all add: kind_of_def starts_with_def)

lemma kind_of_cases:
  obtains (none) "kind_of f = None"
  | (tags) r where "f = CHR ''#'' # r" | (time) r where "f = CHR ''T'' # r"
  | (rate) r where "f = CHR ''@'' # r" | (cid) r where "f = CHR ''c'' # CHR '':'' # r"
  by (force simp: kind_of_def starts_with_iff split: if_splits)

lemma parse_opt_field_none: "kind_of f = None \<Longrightarrow> parse_opt_field D f st = Inr st"
  by (auto simp: parse_opt_field_def kind_of_def starts_with_def split: if_splits)

lemma parse_opt_field_eqs:
  "parse_opt_field D (CHR ''#'' # r) st =
     (case tags_parse D r of Inl e \<Rightarrow> Inl e | Inr t \<Rightarrow> Inr (st\<lparr>of_tags := Some t\<rparr>))"
  "parse_opt_field D (CHR ''T'' # r) st =
     (if r = [] then Inl (Raw ''Empty timestamp field: T'')
      else case parse_f64 r of
             None \<Rightarrow> Inl (Raw (''Invalid timestamp: T'' @ r))
           | Some x \<Rightarrow> Inr (st\<lparr>of_timestamp := Some (as_i64 (fround x))\<rparr>))"
  "parse_opt_field D (CHR ''@'' # r) st =
     (case parse_f64 r of
        None \<Rightarrow> Inl (Raw (''Invalid sample rate: @'' @ r))
      | Some x \<Rightarrow> Inr (st\<lparr>of_sample_rate := Some x\<rparr>))"
  "parse_opt_field D (CHR ''c'' # CHR '':'' # r) st = Inr (st\<lparr>of_container_id := Some r\<rparr>)"
  by (simp_all add: parse_opt_field_def)

lemma parse_opt_field_ok: "field_ok D f \<Longrightarrow> parse_opt_field D f st = Inr (field_upd D f st)"
  by (cases f rule: kind_of_cases)
    (simp_all add: field_ok_def field_upd_def parse_opt_field_none parse_opt_field_eqs
      split: sum.splits option.splits if_splits)

lemma parse_opt_field_fail: "\<not> field_ok D f \<Longrightarrow> \<exists>e. parse_opt_field D f st = Inl e"
  by (cases f rule: kind_of_cases)
    (simp_all add: field_ok_def parse_opt_field_none parse_opt_field_eqs
      split: sum.splits option.splits if_splits)

lemma parse_field_list_fold:
  "list_all (field_ok D) fs \<Longrightarrow> parse_field_list D fs st = Inr (fold (field_upd D) fs st)"
  by (induction fs arbitrary: st) (auto simp: parse_opt_field_ok)

lemma parse_field_list_Inr:
  "parse_field_list D fs st = Inr r \<Longrightarrow> list_all (field_ok D) fs"
proof (induction fs arbitrary: st)
  case (Cons f fs)
  then show ?case
    using parse_opt_field_fail [of D f st] by (cases "field_ok D f") (auto split: sum.splits)
qed simp

lemma field_upd_commute:
  assumes "kind_of f = None \<or> kind_of f \<noteq> kind_of g"
  shows "field_upd D f (field_upd D g st) = field_upd D g (field_upd D f st)"
proof (cases "kind_of f = None \<or> kind_of g = None")
  case True
  have "kind_of h = None \<Longrightarrow> field_upd D h st = st" for h st by (simp add: field_upd_def)
  then show ?thesis using True by auto
next
  case False
  then obtain k l where k: "kind_of f = Some k" "kind_of g = Some l" by auto
  show ?thesis using assms k
    by (cases k; cases l; simp add: field_upd_def split: sum.split option.split)
qed

lemma parse_field_list_perm:
  assumes "one_per_kind fs" and "mset gs = mset fs" and "parse_field_list D fs st = Inr r"
  shows "parse_field_list D gs st = Inr r"
proof -
  have ok: "list_all (field_ok D) fs" using assms(3) by (rule parse_field_list_Inr)
  then have "list_all (field_ok D) gs" using mset_eq_setD [OF assms(2)] by (simp add: list_all_iff)
  moreover have "fold (field_upd D) fs = fold (field_upd D) gs"
  proof (rule fold_multiset_equiv)
    fix f g assume "f \<in> set fs" "g \<in> set fs"
    then have "f = g \<or> kind_of f = None \<or> kind_of f \<noteq> kind_of g"
      using assms(1) by (auto simp: one_per_kind_def list_all_iff)
    then show "field_upd D f \<circ> field_upd D g = field_upd D g \<circ> field_upd D f"
      using field_upd_commute [of f g D] by (auto simp: fun_eq_iff)
  qed (simp add: assms(2))
  ultimately show ?thesis using assms(3) ok by (simp add: parse_field_list_fold)
qed

section \<open>Timestamps and parsed metrics\<close>

text \<open>
  A bucket is the largest multiple of ten seconds that is neither after the timestamp nor
  after the clock: future timestamps are clamped to now, and bucketing twice changes nothing.
\<close>

theorem timestamp_bucket_bounds:
  assumes "0 \<le> now" and "0 \<le> ts"
  shows "timestamp_to_bucket now ts mod 10 = 0 \<and>
    timestamp_to_bucket now ts \<le> min now ts \<and> min now ts < timestamp_to_bucket now ts + 10 \<and>
    timestamp_to_bucket now (timestamp_to_bucket now ts) = timestamp_to_bucket now ts"
proof -
  have b: "timestamp_to_bucket now t = min now t div 10 * 10" if "0 \<le> t" for t
    using assms that by (auto simp: timestamp_to_bucket_def trunc_div_nonneg min_def)
  have "timestamp_to_bucket now ts mod 10 = 0" "timestamp_to_bucket now ts \<le> min now ts"
    "min now ts < timestamp_to_bucket now ts + 10"
    using assms by (simp_all add: b) linarith+
  moreover have "0 \<le> timestamp_to_bucket now ts" "timestamp_to_bucket now ts \<le> now"
    using assms by (simp_all add: b)
  then have "timestamp_to_bucket now (timestamp_to_bucket now ts) = timestamp_to_bucket now ts"
    using assms by (simp add: b)
  ultimately show ?thesis by blast
qed

text \<open>What the parser guarantees of a metric.\<close>

definition tags_ok :: "'sk deps \<Rightarrow> sorted_tags option \<Rightarrow> bool" where
  "tags_ok D tags \<longleftrightarrow>
     (case tags of
        None \<Rightarrow> True
      | Some t \<Rightarrow> length (tag_values t) \<le> MAX_TAGS \<and> sorted_wrt (tag_le D) (tag_values t))"

definition wf_metric :: "'sk deps \<Rightarrow> 'sk metric \<Rightarrow> bool" where
  "wf_metric D m \<longleftrightarrow>
     m_name m \<noteq> [] \<and> m_timestamp m mod 10 = 0 \<and>
     m_id m = metric_id D (m_name m) (m_tags m) (m_timestamp m) \<and> tags_ok D (m_tags m)"

lemma bucket_mod10 [simp]: "timestamp_to_bucket now ts mod 10 = 0"
  by (simp add: timestamp_to_bucket_def)

lemma tags_parse_ok:
  "total_le (ustr_le D) \<Longrightarrow> tags_parse D s = Inr t \<Longrightarrow> tags_ok D (Some t)"
  using tags_parse_Inr(1,3) [of D s t] by (simp add: tags_ok_def)

lemma parse_opt_field_tags:
  assumes "total_le (ustr_le D)" and "tags_ok D (of_tags st)" and "parse_opt_field D f st = Inr r"
  shows "tags_ok D (of_tags r)"
  using assms(2,3) tags_parse_ok [OF assms(1)]
  by (cases f rule: kind_of_cases)
    (auto simp: parse_opt_field_none parse_opt_field_eqs split: sum.splits option.splits if_splits)

lemma parse_field_list_tags:
  assumes "total_le (ustr_le D)"
  shows "parse_field_list D fs st = Inr r \<Longrightarrow> tags_ok D (of_tags st) \<Longrightarrow> tags_ok D (of_tags r)"
  by (induction fs arbitrary: st)
    (auto split: sum.splits dest: parse_opt_field_tags [OF assms])

lemma parse_opt_fields_tags:
  assumes "total_le (ustr_le D)" and "parse_opt_fields D rem no_fields = Inr r"
  shows "tags_ok D (of_tags r)"
proof (cases rem)
  case None
  then show ?thesis using assms by (auto simp: no_fields_def tags_ok_def)
next
  case (Some s)
  then have "parse_field_list D (split_char CHR ''|'' s) no_fields = Inr r"
    using assms(2) by (simp add: parse_opt_fields_split)
  then show ?thesis
    by (rule parse_field_list_tags [OF assms(1)]) (simp add: no_fields_def tags_ok_def)
qed

text \<open>
  C26. Every metric the parser returns has a non-empty name, at most \<^const>\<open>MAX_TAGS\<close> tags in
  order, a timestamp that is a whole bucket, and the identifier of its own context.
\<close>

theorem metric_parse_wf:
  assumes "total_le (ustr_le D)" and "metric_parse D now now2 input = Inr m"
  shows "wf_metric D m"
  using assms(2)
  by (auto simp: metric_parse_def wf_metric_def Let_def dest: parse_opt_fields_tags [OF assms(1)]
      split: prod.splits option.splits if_splits sum.splits)


text \<open>A line is a name and value section, a type and the optional fields.\<close>

definition metric_line :: "string \<Rightarrow> string \<Rightarrow> string list \<Rightarrow> string" where
  "metric_line nv ty fs = nv @ ''|'' @ join_with ''|'' (ty # fs)"

lemma metric_parse_line_iff:
  assumes "CHR ''|'' \<notin> set nv" "CHR ''|'' \<notin> set ty" "\<forall>f\<in>set fs. CHR ''|'' \<notin> set f"
  shows "metric_parse D now now2 (metric_line nv ty fs) = Inr m \<longleftrightarrow>
    (\<exists>name values x mv st.
       split_once CHR '':'' nv = Some (name, values) \<and> name \<noteq> [] \<and> values \<noteq> [] \<and> ty \<noteq> [] \<and>
       first_value values = Inr x \<and> type_value D ty x = Inr mv \<and>
       parse_field_list D fs no_fields = Inr st \<and>
       m = metric_new D now now2 name mv (of_tags st) (of_timestamp st))"
proof -
  have 1: "next_field (metric_line nv ty fs) = (nv, Some (join_with ''|'' (ty # fs)))"
    using assms(1) by (simp add: next_field_def metric_line_def del: join_with.simps)
  have 2: "next_field (join_with ''|'' (ty # fs)) =
      (ty, if fs = [] then None else Some (join_with ''|'' fs))"
    using assms(2) split_once_None [of "CHR ''|''" ty] by (cases fs) (simp_all add: next_field_def)
  have 3: "parse_opt_fields D (if fs = [] then None else Some (join_with ''|'' fs)) no_fields =
      parse_field_list D fs no_fields"
    using assms(3) by (cases "fs = []") (auto simp: parse_opt_fields_split split_join_char)
  have "metric_parse D now now2 (metric_line nv ty fs) =
    (let invalid = Inl (Raw (''Invalid metric format '' @ metric_line nv ty fs))
     in case split_once CHR '':'' nv of
          None \<Rightarrow> invalid
        | Some (name, values) \<Rightarrow>
            if name = [] \<or> values = [] then invalid
            else if ty = [] then invalid
            else case first_value values of
                Inl e \<Rightarrow> Inl e
              | Inr x \<Rightarrow>
                  (case type_value D ty x of
                     Inl e \<Rightarrow> Inl e
                   | Inr mv \<Rightarrow>
                       (case parse_field_list D fs no_fields of
                          Inl e \<Rightarrow> Inl e
                        | Inr st \<Rightarrow> Inr (metric_new D now now2 name mv (of_tags st) (of_timestamp st)))))"
    unfolding metric_parse_def 1 prod.case Let_def option.case 2 3 metric_new_def ..
  then show ?thesis
    by (auto simp: Let_def split: option.splits prod.splits sum.splits if_splits)
qed

text \<open>
  C25. A line \<open>name:v[:packed]|type|fields\<close> whose parts hold no stray delimiter, whose first
  value is a float literal, whose type is supported and whose optional fields parse, parses to
  the metric with that name, that value, the tags and timestamp of the fields (the clock's when
  there is none), the timestamp put in its bucket and the identifier of that context. Further packed
  values are dropped, whatever they are, for every type; the comment on the line format at the end of
  the parser says that packed counts are summed and that of packed gauges the last wins.
\<close>

theorem metric_parse_line:
  assumes "name \<noteq> []" "CHR '':'' \<notin> set name" "CHR ''|'' \<notin> set name"
    and "CHR '':'' \<notin> set v" "CHR ''|'' \<notin> set v" "CHR ''|'' \<notin> set packed" "parse_f64 v = Some x"
    and "packed = [] \<or> (\<exists>w. packed = CHR '':'' # w)"
    and "CHR ''|'' \<notin> set ty" "type_value D ty x = Inr mv"
    and "\<forall>f\<in>set fs. CHR ''|'' \<notin> set f" "parse_field_list D fs no_fields = Inr st"
  shows "metric_parse D now now2 (metric_line (name @ '':'' @ v @ packed) ty fs) =
         Inr (metric_new D now now2 name mv (of_tags st) (of_timestamp st))"
proof -
  have "v \<noteq> []" using assms(7) by (auto simp: parse_f64_def parse_magnitude_def)
  moreover have "ty \<noteq> []" using assms(10) by (auto simp: type_value_def)
  moreover have "split_once CHR '':'' (name @ '':'' @ v @ packed) = Some (name, v @ packed)"
    using assms(2) by simp
  moreover have "first_value (v @ packed) = Inr x"
    using assms(4,7,8) by (auto simp: first_value_def split_char_app split_char_atom)
  ultimately show ?thesis
    using assms metric_parse_line_iff [of "name @ '':'' @ v @ packed" ty fs D now now2] by simp
qed

text \<open>
  The optional fields may come in any order: when no two different fields write the same
  slot, every permutation of the fields of a line that parses gives the same metric.
\<close>

theorem metric_parse_field_order:
  assumes "CHR ''|'' \<notin> set nv" "CHR ''|'' \<notin> set ty" "\<forall>f\<in>set fs. CHR ''|'' \<notin> set f"
    and "one_per_kind fs" and "mset gs = mset fs"
    and "metric_parse D now now2 (metric_line nv ty fs) = Inr m"
  shows "metric_parse D now now2 (metric_line nv ty gs) = Inr m"
proof -
  have "\<forall>f\<in>set gs. CHR ''|'' \<notin> set f" using assms(3) mset_eq_setD [OF assms(5)] by simp
  then show ?thesis
    using assms(6) metric_parse_line_iff [OF assms(1-3)] metric_parse_line_iff [OF assms(1,2)]
      parse_field_list_perm [OF assms(4,5)] by blast
qed

text \<open>
  The identifier does not depend on the order in which a client sends its tags: two tag
  sections with the same distinct tags in any order parse to the same tags, hence to the same
  context identifier.
\<close>

theorem metric_id_tag_order:
  assumes "total_le (ustr_le D)"
    and "mset (tag_pieces s) = mset (tag_pieces s')"
    and "distinct (map parse_tag (tag_pieces s))"
    and "tags_parse D s = Inr t" and "tags_parse D s' = Inr t'"
  shows "t = t' \<and> metric_id D name (Some t) ts = metric_id D name (Some t') ts"
  using tags_parse_perm [OF assms(1-3)] assms(4,5) by simp_all

text \<open>
  A repeated tag is removed only when the repetitions are adjacent: \<open>a:1,b:2,a:1\<close> keeps
  three entries while \<open>a:1,b:2\<close> keeps two, so the two hash different sequences although they
  are the same set of tags.
\<close>

theorem tags_repetition_kept:
  "\<exists>t t'. tags_parse D ''a:1,b:2,a:1'' = Inr t \<and> tags_parse D ''a:1,b:2'' = Inr t' \<and>
     length (tag_values t) = 3 \<and> length (tag_values t') = 2 \<and>
     set (tag_values t) = set (tag_values t') \<and>
     id_items name (Some t) ts \<noteq> id_items name (Some t') ts"
proof -
  have p: "map parse_tag (tag_pieces ''a:1,b:2,a:1'') = [(''a'', ''1''), (''b'', ''2''), (''a'', ''1'')]"
    "map parse_tag (tag_pieces ''a:1,b:2'') = [(''a'', ''1''), (''b'', ''2'')]"
    by (simp_all add: tag_pieces_def parse_tag_def)
  let ?t = "\<lparr>tag_values = sort_by (tag_le D) [(''a'', ''1''), (''b'', ''2''), (''a'', ''1'')]\<rparr>"
  let ?t' = "\<lparr>tag_values = sort_by (tag_le D) [(''a'', ''1''), (''b'', ''2'')]\<rparr>"
  have n: "length (id_items name (Some t) ts) = 2 + 2 * length (tag_values t)" for t
    by (simp add: id_items_def length_concat comp_def sum_list_triv)
  have l: "length (tag_values ?t) = 3" "length (tag_values ?t') = 2"
    by (simp_all del: sort_by.simps)
  have "id_items name (Some ?t) ts \<noteq> id_items name (Some ?t') ts"
  proof
    assume "id_items name (Some ?t) ts = id_items name (Some ?t') ts"
    from arg_cong [OF this, of length] show False unfolding n l by simp
  qed
  moreover have "tags_parse D ''a:1,b:2,a:1'' = Inr ?t" "tags_parse D ''a:1,b:2'' = Inr ?t'"
    unfolding tags_parse_pieces p by (simp_all add: MAX_TAGS_def)
  moreover have "set (tag_values ?t) = set (tag_values ?t')"
    by (auto simp del: sort_by.simps)
  ultimately show ?thesis using l by blast
qed

section \<open>Witnesses\<close>

text \<open>
  Concrete third-party operations for the witnesses: byte order, a 64-bit FNV-1a over the bytes
  written, and a sketch that lists its samples.
\<close>

fun item_bytes :: "hash_item \<Rightarrow> nat list" where
  "item_bytes (HUstr s) = map byte s @ [255]"
| "item_bytes (HI64 i) = [nat (i mod 256), nat (i div 256 mod 256)]"
| "item_bytes (HBytes s) = length s # map byte s"

definition sample_fnv :: "hash_item list \<Rightarrow> u64" where
  "sample_fnv items =
     foldl (\<lambda>h b. xor h (of_nat b) * 1099511628211) 14695981039346656037 (concat (map item_bytes items))"

definition sample_deps :: "fl list deps" where
  "sample_deps =
     \<lparr>ustr_le = str_le, fnv = sample_fnv, sk_default = [], sk_insert = (\<lambda>sk v. sk @ [v]), sk_merge = (@)\<rparr>"

lemma sample_deps_total: "total_le (ustr_le sample_deps)"
  by (simp add: sample_deps_def)

definition sample_tags :: sorted_tags where
  "sample_tags = \<lparr>tag_values = [(''a'', ''1''), (''b'', ''2'')]\<rparr>"

definition sample_fields :: opt_fields where
  "sample_fields = no_fields\<lparr>of_tags := Some sample_tags, of_timestamp := Some 25\<rparr>"

theorem metric_parse_line_witness:
  "metric_parse sample_deps 100 100
     (metric_line (''m'' @ '':'' @ ''1'' @ '':2'') ''c'' [''#b:2,a:1'', ''T25'']) =
   Inr (metric_new sample_deps 100 100 ''m'' (Count (Fin False 1)) (Some sample_tags) (Some 25))"
proof -
  have "parse_f64 ''1'' = Some (Fin False 1)" by code_simp
  moreover have "parse_field_list sample_deps [''#b:2,a:1'', ''T25''] no_fields = Inr sample_fields"
    by code_simp
  ultimately show ?thesis
    using metric_parse_line [of "''m''" "''1''" "'':2''" "Fin False 1" "''c''" sample_deps
        "Count (Fin False 1)" "[''#b:2,a:1'', ''T25'']" sample_fields 100 100]
    by (simp add: type_value_def sample_fields_def)
qed

theorem metric_parse_field_order_witness:
  "\<exists>m. metric_parse sample_deps 100 100 (metric_line ''m:1'' ''c'' [''#a:1'', ''T25'']) = Inr m \<and>
     metric_parse sample_deps 100 100 (metric_line ''m:1'' ''c'' [''T25'', ''#a:1'']) = Inr m"
proof -
  let ?l = "metric_parse sample_deps 100 100 (metric_line ''m:1'' ''c'' [''#a:1'', ''T25''])"
  have "\<not> isl ?l" by code_simp
  then obtain m where m: "?l = Inr m" by (cases ?l) auto
  moreover have "one_per_kind [''#a:1'', ''T25'']" by code_simp
  ultimately show ?thesis
    using metric_parse_field_order [OF _ _ _ _ _ m, of "[''T25'', ''#a:1'']"] by simp
qed

theorem metric_parse_wf_witness:
  "\<exists>m. metric_parse sample_deps 100 100 ''m:1|c|#a:1'' = Inr m \<and> wf_metric sample_deps m"
proof -
  let ?l = "metric_parse sample_deps 100 100 ''m:1|c|#a:1''"
  have "\<not> isl ?l" by code_simp
  then obtain m where m: "?l = Inr m" by (cases ?l) auto
  then show ?thesis using metric_parse_wf [OF sample_deps_total m] by blast
qed

theorem tags_roundtrip_witness:
  "tags_parse sample_deps (join_with '','' (tags_to_strings sample_tags)) = Inr sample_tags \<and>
   (\<exists>t t'. tags_parse sample_deps ''a:1,b:2,a:1,:'' = Inr t \<and> length (tag_values t) = 4 \<and>
     tags_parse sample_deps (join_with '','' (tags_to_strings t)) = Inr t' \<and>
     set (tag_values t') = set (tag_values t) - {([], [])} \<and> distinct (tag_values t'))"
proof -
  have "tags_parse sample_deps ''b:2,a:1'' = Inr sample_tags" by code_simp
  then have "tags_parse sample_deps (join_with '','' (tags_to_strings sample_tags)) = Inr sample_tags"
    using tags_roundtrip [OF sample_deps_total, of "''b:2,a:1''" sample_tags]
    by (simp add: sample_tags_def)
  moreover have "(case tags_parse sample_deps ''a:1,b:2,a:1,:'' of Inl e \<Rightarrow> False | Inr t \<Rightarrow> length (tag_values t) = 4)"
    by code_simp
  then obtain t where t: "tags_parse sample_deps ''a:1,b:2,a:1,:'' = Inr t" "length (tag_values t) = 4"
    by (auto split: sum.splits)
  ultimately show ?thesis using tags_roundtrip [OF sample_deps_total t(1)] by blast
qed

theorem metric_id_tag_order_witness:
  "\<exists>t t'. tags_parse sample_deps ''b:2,a:1'' = Inr t \<and> tags_parse sample_deps ''a:1,b:2'' = Inr t' \<and>
     metric_id sample_deps ''m'' (Some t) 0 = metric_id sample_deps ''m'' (Some t') 0"
proof -
  have a: "tags_parse sample_deps ''b:2,a:1'' = Inr sample_tags" by code_simp
  have b: "tags_parse sample_deps ''a:1,b:2'' = Inr sample_tags" by code_simp
  have p: "tag_pieces ''b:2,a:1'' = [''b:2'', ''a:1'']" "tag_pieces ''a:1,b:2'' = [''a:1'', ''b:2'']"
    by (simp_all add: tag_pieces_def)
  have m: "mset (tag_pieces ''b:2,a:1'') = mset (tag_pieces ''a:1,b:2'')"
    unfolding p by simp
  have d: "distinct (map parse_tag (tag_pieces ''b:2,a:1''))"
    unfolding p by (simp add: parse_tag_def)
  from metric_id_tag_order [OF sample_deps_total m d a b, of "''m''" 0] a b show ?thesis by blast
qed

theorem timestamp_bucket_bounds_witness:
  "timestamp_to_bucket 100 27 mod 10 = 0 \<and> timestamp_to_bucket 100 27 \<le> 27 \<and>
   27 < timestamp_to_bucket 100 27 + 10"
  using timestamp_bucket_bounds [of 100 27] by simp

end
