(* ===== verification/Origin.thy ===== *)
theory Origin
  imports Metric
begin

text \<open>
  \<^verbatim>\<open>dogstatsd/src/origin.rs\<close>: the product, service and category a metric is attributed to,
  from its name and tags.
\<close>

datatype origin_product = ProductOther | Serverless

datatype origin_category =
  CategoryOther | AppServicesMetrics | CloudRunMetrics | ContainerAppMetrics | LambdaMetrics
| AzureFunctionsMetrics

datatype origin_service = ServiceOther | ServerlessCustom | ServerlessEnhanced | ServerlessRuntime

fun product_u32 :: "origin_product \<Rightarrow> u32" where
  "product_u32 ProductOther = 0"
| "product_u32 Serverless = 1"

fun category_u32 :: "origin_category \<Rightarrow> u32" where
  "category_u32 CategoryOther = 0"
| "category_u32 AppServicesMetrics = 35"
| "category_u32 CloudRunMetrics = 36"
| "category_u32 ContainerAppMetrics = 37"
| "category_u32 LambdaMetrics = 38"
| "category_u32 AzureFunctionsMetrics = 71"

fun service_u32 :: "origin_service \<Rightarrow> u32" where
  "service_u32 ServiceOther = 0"
| "service_u32 ServerlessCustom = 472"
| "service_u32 ServerlessEnhanced = 473"
| "service_u32 ServerlessRuntime = 474"

record origin =
  o_product :: u32
  o_service :: u32
  o_category :: u32

definition has_tag_value :: "sorted_tags \<Rightarrow> string \<Rightarrow> string \<Rightarrow> bool" where
  "has_tag_value tags key value =
     (if value = [] then tags_find_all tags key \<noteq> []
      else list_ex (\<lambda>v. v = value) (tags_find_all tags key))"

definition origin_service_of :: "string \<Rightarrow> origin_service" where
  "origin_service_of metric_name =
     (let metric_prefix = join_with ''.'' (take 2 (split_char CHR ''.'' metric_name))
      in if starts_with ''jvm.'' metric_name \<or> starts_with ''runtime.'' metric_name
         then ServerlessRuntime
         else if metric_prefix = ''aws.lambda'' \<or> metric_prefix = ''gcp.run''
              \<or> metric_prefix = ''azure.functions''
         then ServerlessEnhanced
         else ServerlessCustom)"

definition origin_category_of :: "sorted_tags \<Rightarrow> origin_category option" where
  "origin_category_of tags =
     (if has_tag_value tags ''function_arn'' [] then Some LambdaMetrics
      else if has_tag_value tags ''origin'' ''appservice'' then Some AppServicesMetrics
      else if has_tag_value tags ''origin'' ''cloudrun'' then Some CloudRunMetrics
      else if has_tag_value tags ''origin'' ''containerapp'' then Some ContainerAppMetrics
      else if has_tag_value tags ''origin'' ''azurefunction'' then Some AzureFunctionsMetrics
      else None)"

definition find_origin :: "'sk metric \<Rightarrow> sorted_tags \<Rightarrow> origin option" where
  "find_origin m tags =
     (if starts_with ''datadog.'' (m_name m) then None
      else (case origin_category_of tags of
              None \<Rightarrow> None
            | Some category \<Rightarrow>
                Some \<lparr>o_product = product_u32 Serverless,
                      o_service = service_u32 (origin_service_of (m_name m)),
                      o_category = category_u32 category\<rparr>))"

section \<open>Properties\<close>

lemma has_tag_value_iff:
  "has_tag_value tags key value \<longleftrightarrow>
     (\<exists>v. (key, v) \<in> set (tag_values tags) \<and> (value = [] \<or> v = value))"
  by (force simp: has_tag_value_def tags_find_all_def filter_empty_conv list_ex_iff)

lemma origin_service_prefix:
  assumes "CHR ''.'' \<notin> set a" "CHR ''.'' \<notin> set b"
  shows "join_with ''.'' (take 2 (split_char CHR ''.'' (a @ ''.'' @ b))) = a @ ''.'' @ b"
    and "join_with ''.'' (take 2 (split_char CHR ''.'' (a @ ''.'' @ b @ ''.'' @ r))) = a @ ''.'' @ b"
proof -
  have "split_char CHR ''.'' (a @ ''.'' @ b) = [a, b]"
    using assms by (simp add: split_char_app split_char_atom)
  moreover have "split_char CHR ''.'' (a @ ''.'' @ b @ ''.'' @ r) = a # b # split_char CHR ''.'' r"
    using assms by (simp add: split_char_app)
  ultimately show "join_with ''.'' (take 2 (split_char CHR ''.'' (a @ ''.'' @ b))) = a @ ''.'' @ b"
    and "join_with ''.'' (take 2 (split_char CHR ''.'' (a @ ''.'' @ b @ ''.'' @ r))) = a @ ''.'' @ b"
    by (simp_all only:) (simp_all add: numeral_2_eq_2)
qed

text \<open>
  A metric has an origin exactly when it is not one of Datadog's own and carries either a
  function ARN tag or an origin tag of a known platform; Lambda takes precedence over the
  origin tag. The origin does not depend on the order of the tags.
\<close>

theorem find_origin_iff:
  "find_origin m tags \<noteq> None \<longleftrightarrow>
     \<not> starts_with ''datadog.'' (m_name m) \<and>
     ((\<exists>v. (''function_arn'', v) \<in> set (tag_values tags)) \<or>
      (\<exists>p. (''origin'', p) \<in> set (tag_values tags) \<and>
           p \<in> {''appservice'', ''cloudrun'', ''containerapp'', ''azurefunction''}))"
  by (auto simp: find_origin_def origin_category_of_def has_tag_value_iff)

lemma find_origin_set_cong:
  "set (tag_values t) = set (tag_values t') \<Longrightarrow> find_origin m t = find_origin m t'"
  by (simp add: find_origin_def origin_category_of_def has_tag_value_iff)

end
