(* ===== verification/Interfaces.thy ===== *)
theory Interfaces
  imports Prelude
begin

text \<open>
  The contracts several components share, as locales, with the client lemmas proved once:
  a queue drained batch by batch (the logs and the trace aggregator), a store keyed by an
  identifier (the metric aggregator), and a task that serves commands from a channel (the
  aggregator services), a request that is retried (the flushers), and labelled systems of interleaved
  tasks with their invariants and their progress. Each is interpreted in the theory of the component
  that provides it.
\<close>

section \<open>Panics\<close>

text \<open>A computation that may panic (\<open>unreachable!\<close>, \<open>expect\<close>).\<close>

datatype 'a rust = Panic | Ret 'a

fun bind_rust :: "'a rust \<Rightarrow> ('a \<Rightarrow> 'b rust) \<Rightarrow> 'b rust" where
  "bind_rust Panic f = Panic"
| "bind_rust (Ret x) f = f x"

text \<open>\<open>Iterator::filter_map\<close> with a closure that may panic.\<close>

fun filter_map_rust :: "('a \<Rightarrow> 'b option rust) \<Rightarrow> 'a list \<Rightarrow> 'b list rust" where
  "filter_map_rust f [] = Ret []"
| "filter_map_rust f (x # xs) =
     bind_rust (f x) (\<lambda>y. bind_rust (filter_map_rust f xs)
       (\<lambda>ys. Ret (case y of None \<Rightarrow> ys | Some z \<Rightarrow> z # ys)))"

lemma filter_map_rust_Some:
  "(\<And>x. x \<in> set xs \<Longrightarrow> f x = Ret (Some (g x))) \<Longrightarrow> filter_map_rust f xs = Ret (map g xs)"
  by (induction xs) auto

section \<open>Labelled runs\<close>

text \<open>The runs of a step relation, with the labels of their steps in order.\<close>

inductive run :: "('s \<Rightarrow> 'l \<Rightarrow> 's \<Rightarrow> bool) \<Rightarrow> 's \<Rightarrow> 'l list \<Rightarrow> 's \<Rightarrow> bool" for step where
  run_nil: "run step s [] s"
| run_snoc: "run step s ls s' \<Longrightarrow> step s' l s'' \<Longrightarrow> run step s (ls @ [l]) s''"

lemma run_single: "step s l s' \<Longrightarrow> run step s [l] s'"
  using run_snoc [OF run_nil, of step s l s'] by simp

lemma run_append: "run step s' ks s'' \<Longrightarrow> run step s ls s' \<Longrightarrow> run step s (ls @ ks) s''"
proof (induction rule: run.induct)
  case (run_snoc s ks s' l s'')
  then show ?case using run.run_snoc [of step _ "ls @ ks" s' l s''] by simp
qed simp

lemma run_invariant:
  assumes "run step s ls s'" "I s" "\<And>s l s'. I s \<Longrightarrow> step s l s' \<Longrightarrow> I s'"
  shows "I s'"
  using assms by (induction rule: run.induct) auto

section \<open>Invariants and progress of labelled systems\<close>

text \<open>
  A system with an invariant that relates its state to the labels of the run so far, and one whose
  invariant is on the state alone.
\<close>

locale logged_system =
  fixes step :: "'s \<Rightarrow> 'l \<Rightarrow> 's \<Rightarrow> bool"
    and init :: 's
    and inv :: "'l list \<Rightarrow> 's \<Rightarrow> bool"
  assumes inv_init: "inv [] init"
    and inv_step: "inv ls s \<Longrightarrow> step s l s' \<Longrightarrow> inv (ls @ [l]) s'"
begin

lemma run_inv_from:
  assumes "run step s ks s'" "inv ls s"
  shows "inv (ls @ ks) s'"
  using assms
proof (induction arbitrary: ls rule: run.induct)
  case (run_snoc s ks s' l s'')
  then show ?case using inv_step [OF run_snoc.IH [OF run_snoc.prems] run_snoc.hyps(2)] by simp
qed simp

lemma run_inv: "run step init ls s \<Longrightarrow> inv ls s"
  using run_inv_from [of init ls s "[]"] inv_init by simp

end

locale safe_system =
  fixes step :: "'s \<Rightarrow> 'l \<Rightarrow> 's \<Rightarrow> bool"
    and init :: 's
    and good :: "'s \<Rightarrow> bool"
  assumes good_init: "good init"
    and good_step: "good s \<Longrightarrow> step s l s' \<Longrightarrow> good s'"

sublocale safe_system \<subseteq> logged_system step init "\<lambda>ls. good"
  by unfold_locales (rule good_init, rule good_step)

text \<open>
  A system that can always come to rest: in a state where it has not, some step with a quiet label does
  work, without changing what \<open>keep\<close> reads of the state.
\<close>

locale settling_system = logged_system step init inv
  for step :: "'s \<Rightarrow> 'l \<Rightarrow> 's \<Rightarrow> bool" and init :: 's and inv :: "'l list \<Rightarrow> 's \<Rightarrow> bool" +
  fixes settled :: "'s \<Rightarrow> bool"
    and quiet :: "'l \<Rightarrow> bool"
    and keep :: "'s \<Rightarrow> 'k"
    and work :: "'s \<Rightarrow> nat"
  assumes moves: "inv ls s \<Longrightarrow> \<not> settled s \<Longrightarrow>
    \<exists>l s'. step s l s' \<and> quiet l \<and> keep s' = keep s \<and> work s' < work s"
begin

lemma settles_from:
  "inv ls s \<Longrightarrow> \<exists>ks s'. run step s ks s' \<and> list_all quiet ks \<and> keep s' = keep s \<and> settled s'"
proof (induction "work s" arbitrary: ls s rule: less_induct)
  case less
  show ?case
  proof (cases "settled s")
    case True
    then show ?thesis by (intro exI [of _ "[]"] exI [of _ s]) (simp add: run_nil)
  next
    case False
    then obtain l s1 where s1: "step s l s1" "quiet l" "keep s1 = keep s" "work s1 < work s"
      using moves less.prems by blast
    from less.hyps [OF s1(4) inv_step [OF less.prems s1(1)]] obtain ks s'
      where "run step s1 ks s'" "list_all quiet ks" "keep s' = keep s1" "settled s'" by blast
    then show ?thesis using s1(2,3) run_append [OF _ run_single [of step, OF s1(1)]]
      by (intro exI [of _ "[l] @ ks"] exI [of _ s']) auto
  qed
qed

text \<open>From every reachable state, with the invariant at the end.\<close>

lemma settles:
  assumes "run step init ls s"
  obtains ks s' where "run step s ks s'" "list_all quiet ks" "keep s' = keep s" "settled s'" "inv (ls @ ks) s'"
  using settles_from [OF run_inv [OF assms]] run_inv_from run_inv [OF assms] by metis

end

section \<open>Draining a queue in batches\<close>

text \<open>
  \<open>while let Some(batch) = next()\<close>: the batches in order and the state left. \<open>None\<close> is a loop
  that never ends.
\<close>

partial_function (option) drain :: "('s \<Rightarrow> ('b \<times> 's) option) \<Rightarrow> 's \<Rightarrow> ('b list \<times> 's) option" where
  "drain nxt s =
     (case nxt s of
        None \<Rightarrow> Some ([], s)
      | Some (b, s') \<Rightarrow>
          Option.bind (drain nxt s') (\<lambda>(bs, s''). Some (b # bs, s'')))"

locale batch_queue =
  fixes nxt :: "'s \<Rightarrow> ('b \<times> 's) option"
    and pending :: "'s \<Rightarrow> 'a list"
    and holds :: "'b \<Rightarrow> 'a list \<Rightarrow> bool"
    and inv :: "'s \<Rightarrow> bool"
  assumes nxt_None: "inv s \<Longrightarrow> nxt s = None \<longleftrightarrow> pending s = []"
    and nxt_Some: "inv s \<Longrightarrow> nxt s = Some (b, s') \<Longrightarrow>
          \<exists>xs. xs \<noteq> [] \<and> holds b xs \<and> pending s = xs @ pending s'"
    and nxt_inv: "inv s \<Longrightarrow> nxt s = Some (b, s') \<Longrightarrow> inv s'"
begin

text \<open>
  Under the invariant draining ends, leaves the queue empty, and the batches hold the pending
  items, all of them, in order, each once, none of the batches empty.
\<close>

lemma drain_all:
  "inv s \<Longrightarrow> \<exists>bs s' xss. drain nxt s = Some (bs, s') \<and> list_all2 holds bs xss \<and>
     concat xss = pending s \<and> [] \<notin> set xss \<and> pending s' = [] \<and> inv s'"
proof (induction "length (pending s)" arbitrary: s rule: less_induct)
  case less
  show ?case
  proof (cases "nxt s")
    case None
    then have "drain nxt s = Some ([], s)" by (subst drain.simps) simp
    then show ?thesis using None less.prems nxt_None [OF less.prems] by fastforce
  next
    case (Some bs')
    obtain b s1 where b: "nxt s = Some (b, s1)" using Some by (cases bs') auto
    obtain xs where xs: "xs \<noteq> []" "holds b xs" "pending s = xs @ pending s1"
      using nxt_Some [OF less.prems b] by blast
    obtain bs s' xss where IH: "drain nxt s1 = Some (bs, s')" "list_all2 holds bs xss"
        "concat xss = pending s1" "[] \<notin> set xss" "pending s' = []" "inv s'"
      using less.hyps [of s1] nxt_inv [OF less.prems b] xs by force
    have "drain nxt s = Some (b # bs, s')"
      using b IH(1) by (subst drain.simps) simp
    then show ?thesis using xs IH
      by (intro exI [of _ "b # bs"] exI [of _ s'] exI [of _ "xs # xss"]) auto
  qed
qed

lemma drain_empty: "inv s \<Longrightarrow> pending s = [] \<Longrightarrow> drain nxt s = Some ([], s)"
  using nxt_None [of s] by (subst drain.simps) simp

end

section \<open>A store keyed by an identifier\<close>

text \<open>
  \<open>ins x s\<close> stores the first element with a key, when there is room, and folds every later one
  with that key into what is stored.
\<close>

fun fold_into :: "('v \<Rightarrow> 'x \<Rightarrow> 'v) \<Rightarrow> ('x \<Rightarrow> 'v) \<Rightarrow> 'v option \<Rightarrow> 'x list \<Rightarrow> 'v option" where
  "fold_into comb first v [] = v"
| "fold_into comb first v (x # xs) =
     fold_into comb first (Some (case v of None \<Rightarrow> first x | Some w \<Rightarrow> comb w x)) xs"

locale keyed_store =
  fixes key :: "'x \<Rightarrow> 'k"
    and look :: "'s \<Rightarrow> 'k \<Rightarrow> 'v option"
    and keys :: "'s \<Rightarrow> 'k set"
    and cap :: "'s \<Rightarrow> nat"
    and ins :: "'x \<Rightarrow> 's \<Rightarrow> 's"
    and first :: "'x \<Rightarrow> 'v"
    and comb :: "'v \<Rightarrow> 'x \<Rightarrow> 'v"
    and inv :: "'s \<Rightarrow> bool"
    and okx :: "'x \<Rightarrow> bool"
  assumes keys_look: "inv s \<Longrightarrow> k \<in> keys s \<longleftrightarrow> look s k \<noteq> None"
    and keys_fin: "inv s \<Longrightarrow> finite (keys s)"
    and ins_inv: "inv s \<Longrightarrow> okx x \<Longrightarrow> inv (ins x s)"
    and ins_cap: "cap (ins x s) = cap s"
    and ins_old: "inv s \<Longrightarrow> okx x \<Longrightarrow> look s (key x) = Some v \<Longrightarrow>
          look (ins x s) = (look s)(key x := Some (comb v x))"
    and ins_new: "inv s \<Longrightarrow> okx x \<Longrightarrow> look s (key x) = None \<Longrightarrow> card (keys s) < cap s \<Longrightarrow>
          look (ins x s) = (look s)(key x := Some (first x))"
    and ins_full: "inv s \<Longrightarrow> okx x \<Longrightarrow> look s (key x) = None \<Longrightarrow> cap s \<le> card (keys s) \<Longrightarrow>
          ins x s = s"
begin

lemma ins_all_inv: "inv s \<Longrightarrow> \<forall>x\<in>set xs. okx x \<Longrightarrow> inv (fold ins xs s)"
  by (induction xs arbitrary: s) (auto simp: ins_inv)

lemma ins_keys_le:
  assumes "inv s" "okx x" "card (keys s) \<le> cap s"
  shows "card (keys (ins x s)) \<le> cap s"
proof (cases "look s (key x)")
  case None
  show ?thesis
  proof (cases "card (keys s) < cap s")
    case True
    have "keys (ins x s) = insert (key x) (keys s)"
      using ins_new [OF assms(1,2) None True] keys_look [OF assms(1)]
        keys_look [OF ins_inv [OF assms(1,2)]] by (auto split: if_splits)
    then show ?thesis using True keys_fin [OF assms(1)] by (simp add: card_insert_if)
  qed (use ins_full [OF assms(1,2) None] assms(3) in simp)
next
  case (Some v)
  have "keys (ins x s) = keys s"
    using ins_old [OF assms(1,2) Some] keys_look [OF assms(1)] Some
      keys_look [OF ins_inv [OF assms(1,2)]] by (auto split: if_splits)
  then show ?thesis using assms(3) by simp
qed

lemma ins_all_bound:
  "inv s \<Longrightarrow> \<forall>x\<in>set xs. okx x \<Longrightarrow> card (keys s) \<le> cap s \<Longrightarrow> card (keys (fold ins xs s)) \<le> cap s"
proof (induction xs arbitrary: s)
  case (Cons x xs)
  then show ?case using Cons.IH [of "ins x s"] ins_keys_le [of s x] by (simp add: ins_inv ins_cap)
qed simp

text \<open>With room for every key, each key holds the fold of its own elements in order.\<close>

lemma ins_all_look:
  "inv s \<Longrightarrow> \<forall>x\<in>set xs. okx x \<Longrightarrow> card (keys s \<union> key ` set xs) \<le> cap s \<Longrightarrow>
   look (fold ins xs s) k = fold_into comb first (look s k) (filter (\<lambda>x. key x = k) xs)"
proof (induction xs arbitrary: s)
  case (Cons x xs)
  have ok: "inv s" "okx x" using Cons.prems by auto
  have fin: "finite (keys s \<union> key ` set (x # xs))" using keys_fin [OF ok(1)] by simp
  have look: "look (ins x s) =
      (look s)(key x := Some (case look s (key x) of None \<Rightarrow> first x | Some v \<Rightarrow> comb v x))"
  proof (cases "look s (key x)")
    case None
    then have "key x \<notin> keys s" using keys_look [OF ok(1)] by simp
    then have "keys s \<subset> keys s \<union> key ` set (x # xs)" by auto
    then have "card (keys s) < cap s" using psubset_card_mono [OF fin] Cons.prems(3) by fastforce
    then show ?thesis using None ins_new [OF ok None] by simp
  qed (use ins_old [OF ok] in simp)
  have "keys (ins x s) = insert (key x) (keys s)"
    using look keys_look [OF ok(1)] keys_look [OF ins_inv [OF ok]] by (auto split: if_splits)
  then have "look (fold ins xs (ins x s)) k =
      fold_into comb first (look (ins x s) k) (filter (\<lambda>x. key x = k) xs)"
    using Cons.prems by (intro Cons.IH) (auto simp: ins_inv ins_cap)
  then show ?case using look by auto
qed simp

end

section \<open>A task serving commands\<close>

text \<open>
  \<open>while let Some(command) = rx.recv().await\<close>: the state after the commands of the channel, in
  the order received, and the replies; a stop command ends the loop and the rest stays unread.
\<close>

fun serve :: "('s \<Rightarrow> 'c \<Rightarrow> 's \<times> 'r list) \<Rightarrow> ('c \<Rightarrow> bool) \<Rightarrow> 's \<Rightarrow> 'c list \<Rightarrow> 's \<times> 'r list" where
  "serve step stop s [] = (s, [])"
| "serve step stop s (c # cs) =
     (if stop c then (s, [])
      else let (s', rs) = step s c; (s'', rs') = serve step stop s' cs in (s'', rs @ rs'))"

locale command_server =
  fixes step :: "'s \<Rightarrow> 'c \<Rightarrow> 's \<times> 'r list"
    and stop :: "'c \<Rightarrow> bool"
    and inv :: "'s \<Rightarrow> bool"
    and okc :: "'c \<Rightarrow> bool"
  assumes step_inv: "inv s \<Longrightarrow> okc c \<Longrightarrow> inv (fst (step s c))"
begin

lemma serve_inv: "inv s \<Longrightarrow> \<forall>c\<in>set cs. okc c \<Longrightarrow> inv (fst (serve step stop s cs))"
proof (induction cs arbitrary: s)
  case (Cons c cs)
  then show ?case using step_inv [of s c] by (auto simp: split_beta Let_def)
qed simp

lemma serve_append:
  "\<forall>c\<in>set cs. \<not> stop c \<Longrightarrow>
   serve step stop s (cs @ ds) =
     (let (s', rs) = serve step stop s cs; (s'', rs') = serve step stop s' ds in (s'', rs @ rs'))"
  by (induction cs arbitrary: s) (auto simp: split_beta Let_def)

lemma serve_stop: "stop c \<Longrightarrow> serve step stop s (cs @ c # ds) = serve step stop s cs"
  by (induction cs arbitrary: s) (auto simp: split_beta Let_def)

end

section \<open>Retrying\<close>

text \<open>
  A loop that makes attempts at one operation: \<open>net k\<close> is the answer to the k-th attempt, \<open>final\<close>
  says which answers end the loop and with what result, \<open>giveup\<close> is the result after the last
  attempt that is allowed. \<open>attempt net k\<close> is the rest of the loop after \<open>k\<close> attempts: its result
  and the number of attempts made in all.
\<close>

locale retrying =
  fixes attempt :: "(nat \<Rightarrow> 'a) \<Rightarrow> nat \<Rightarrow> 'r \<times> nat"
    and final :: "'a \<Rightarrow> 'r option"
    and giveup :: "'a \<Rightarrow> 'r"
    and limit :: nat
  assumes attempt_final: "final (net (Suc k)) = Some r \<Longrightarrow> attempt net k = (r, Suc k)"
    and attempt_limit: "final (net (Suc k)) = None \<Longrightarrow> limit \<le> Suc k \<Longrightarrow>
          attempt net k = (giveup (net (Suc k)), Suc k)"
    and attempt_again: "final (net (Suc k)) = None \<Longrightarrow> Suc k < limit \<Longrightarrow>
          attempt net k = attempt net (Suc k)"
begin

lemma attempt_skip:
  "\<forall>j. 1 \<le> j \<and> j \<le> m \<longrightarrow> final (net j) = None \<Longrightarrow> m < limit \<or> m = 0 \<Longrightarrow>
   attempt net 0 = attempt net m"
proof (induction m)
  case (Suc m)
  then have "attempt net 0 = attempt net m" by auto
  then show ?case using attempt_again [of net m] Suc.prems by auto
qed simp

text \<open>The first answer that ends the loop, within the limit, is its result.\<close>

lemma first_final:
  assumes "1 \<le> k" "k \<le> max 1 limit" "final (net k) = Some r"
    and "\<forall>j. 1 \<le> j \<and> j < k \<longrightarrow> final (net j) = None"
  shows "attempt net 0 = (r, k)"
proof -
  obtain m where m: "k = Suc m" using assms(1) by (cases k) auto
  then have "attempt net 0 = attempt net m" using assms(2,4) by (intro attempt_skip) auto
  then show ?thesis using attempt_final assms(3) m by simp
qed

text \<open>When no answer within the limit ends the loop, it gives up on the last one.\<close>

lemma no_final:
  assumes "\<forall>j. 1 \<le> j \<and> j \<le> max 1 limit \<longrightarrow> final (net j) = None"
  shows "attempt net 0 = (giveup (net (max 1 limit)), max 1 limit)"
proof -
  obtain m where m: "max 1 limit = Suc m" by (cases limit) auto
  then have "attempt net 0 = attempt net m" using assms by (intro attempt_skip) (auto simp: max_def split: if_splits)
  then show ?thesis using attempt_limit [of net m] assms m by auto
qed

text \<open>One of the two happens, so the loop makes at least one and at most \<open>max 1 limit\<close> attempts.\<close>

lemma attempt_cases:
  obtains (final) k r where "1 \<le> k" "k \<le> max 1 limit" "final (net k) = Some r"
      "\<forall>j. 1 \<le> j \<and> j < k \<longrightarrow> final (net j) = None" "attempt net 0 = (r, k)"
    | (none) "\<forall>j. 1 \<le> j \<and> j \<le> max 1 limit \<longrightarrow> final (net j) = None"
      "attempt net 0 = (giveup (net (max 1 limit)), max 1 limit)"
proof (cases "\<exists>j. 1 \<le> j \<and> j \<le> max 1 limit \<and> final (net j) \<noteq> None")
  case True
  define k where "k = (LEAST j. 1 \<le> j \<and> j \<le> max 1 limit \<and> final (net j) \<noteq> None)"
  have k: "1 \<le> k \<and> k \<le> max 1 limit \<and> final (net k) \<noteq> None"
    unfolding k_def using True by (rule LeastI_ex)
  have "\<forall>j. 1 \<le> j \<and> j < k \<longrightarrow> final (net j) = None"
    using not_less_Least [of _ "\<lambda>j. 1 \<le> j \<and> j \<le> max 1 limit \<and> final (net j) \<noteq> None"] k
    unfolding k_def [symmetric] by (metis order.trans order_less_imp_le)
  then show ?thesis using that(1) first_final k by blast
qed (use that(2) no_final in blast)

end

end
