(* ===== verification/Dsd_Aggregator.thy ===== *)
theory Dsd_Aggregator
  imports Origin Interfaces
begin

text \<open>
  \<^verbatim>\<open>dogstatsd/src/aggregator/core.rs\<close> and \<^verbatim>\<open>datadog/series.rs\<close>: the table of metric contexts,
  aggregation of values, and the two consumers that empty the table into size-bounded payloads.

  The hash table (\<^verbatim>\<open>hashbrown::HashTable\<close>) is the list of its entries; the order in which it
  iterates is the parameter \<open>table_order\<close>, of which only that it is a permutation is ever
  assumed. An entry is found by its identifier, which is also the hash it is stored under.
  The length of a metric's JSON and the protobuf size of a sketch are parameters as well.
\<close>

section \<open>Data\<close>

record point =
  pt_timestamp :: u64
  pt_value :: fl

datatype dd_metric_kind = KCount | KGauge

fun kind_u32 :: "dd_metric_kind \<Rightarrow> u32" where
  "kind_u32 KCount = 0"
| "kind_u32 KGauge = 1"

record ship_origin =
  origin_product :: u32
  origin_sub_product :: u32
  origin_product_detail :: u32

record ship_metric =
  sm_metric :: string
  sm_points :: "point list"
  sm_resources :: "resource list"
  sm_kind :: dd_metric_kind
  sm_tags :: "string list"
  sm_metadata :: "ship_origin option"

type_synonym series = "ship_metric list"

definition series_len :: "series \<Rightarrow> nat" where
  "series_len s = length s"

definition series_is_empty :: "series \<Rightarrow> bool" where
  "series_is_empty s = (s = [])"

text \<open>A sketch holds one dogsketch: the merged samples with a timestamp.\<close>

record 'sk sketch =
  s_metric :: string
  s_dogsketches :: "('sk \<times> int) list"
  s_tags :: "string list"
  s_metadata :: "origin option"

type_synonym 'sk sketch_payload = "'sk sketch list"

record 'sk agg_env =
  e_deps :: "'sk deps"
  json_len :: "ship_metric \<Rightarrow> nat option"
  sketch_size :: "'sk sketch \<Rightarrow> nat"
  table_order :: "'sk metric list \<Rightarrow> 'sk metric list"

definition MAX_CONTEXTS :: nat where "MAX_CONTEXTS = 65536"
definition MAX_ENTRIES_SINGLE_METRIC :: nat where "MAX_ENTRIES_SINGLE_METRIC = 1000"
definition MAX_SIZE_BYTES_SINGLE_METRIC :: nat where "MAX_SIZE_BYTES_SINGLE_METRIC = 5 * (1024 * 1024)"
definition MAX_ENTRIES_SKETCH_METRIC :: nat where "MAX_ENTRIES_SKETCH_METRIC = 1000"
definition MAX_SIZE_SKETCH_METRIC :: nat where "MAX_SIZE_SKETCH_METRIC = 62 * (1024 * 1024)"

record 'sk aggregator =
  a_tags :: sorted_tags
  a_map :: "'sk metric list"
  a_max_entries_single :: nat
  a_max_bytes_single :: nat
  a_max_entries_sketch :: nat
  a_max_bytes_sketch :: nat
  a_max_context :: nat

datatype creation_error = Contexts

datatype insert_error = Overflow

section \<open>Values\<close>

fun get_value :: "'sk metric_value \<Rightarrow> fl option" where
  "get_value (Count c) = Some c"
| "get_value (Gauge g) = Some g"
| "get_value (Distribution d) = None"

fun get_sketch :: "'sk metric_value \<Rightarrow> 'sk option" where
  "get_sketch (Distribution d) = Some d"
| "get_sketch _ = None"

fun aggregate :: "'sk deps \<Rightarrow> 'sk metric_value \<Rightarrow> 'sk metric \<Rightarrow> 'sk metric_value" where
  "aggregate D (Count c) m =
     Count (fadd round64 c (case get_value (m_value m) of Some v \<Rightarrow> v | None \<Rightarrow> Fin False 0))"
| "aggregate D (Gauge g) m =
     Gauge (case get_value (m_value m) of Some v \<Rightarrow> v | None \<Rightarrow> Fin False 0)"
| "aggregate D (Distribution d) m =
     (case get_sketch (m_value m) of
        Some v \<Rightarrow> Distribution (sk_merge D d v)
      | None \<Rightarrow> Distribution d)"

fun is_distribution :: "'sk metric_value \<Rightarrow> bool" where
  "is_distribution (Distribution d) = True"
| "is_distribution _ = False"

section \<open>The table\<close>

definition agg_new :: "sorted_tags \<Rightarrow> nat \<Rightarrow> creation_error + 'sk aggregator" where
  "agg_new tags max_context =
     (if max_context > MAX_CONTEXTS then Inl Contexts
      else Inr \<lparr>a_tags = tags, a_map = [],
                a_max_entries_single = MAX_ENTRIES_SINGLE_METRIC,
                a_max_bytes_single = MAX_SIZE_BYTES_SINGLE_METRIC,
                a_max_entries_sketch = MAX_ENTRIES_SKETCH_METRIC,
                a_max_bytes_sketch = MAX_SIZE_SKETCH_METRIC,
                a_max_context = max_context\<rparr>)"

fun table_find :: "u64 \<Rightarrow> 'sk metric list \<Rightarrow> 'sk metric option" where
  "table_find i [] = None"
| "table_find i (m # ms) = (if m_id m = i then Some m else table_find i ms)"

fun table_update :: "u64 \<Rightarrow> ('sk metric \<Rightarrow> 'sk metric) \<Rightarrow> 'sk metric list \<Rightarrow> 'sk metric list" where
  "table_update i f [] = []"
| "table_update i f (m # ms) = (if m_id m = i then f m # ms else m # table_update i f ms)"

definition agg_insert ::
  "'sk deps \<Rightarrow> 'sk metric \<Rightarrow> 'sk aggregator \<Rightarrow> 'sk aggregator \<times> (insert_error + unit)" where
  "agg_insert D metric a =
     (let i = metric_id D (m_name metric) (m_tags metric) (m_timestamp metric);
          len = length (a_map a)
      in case table_find i (a_map a) of
           None \<Rightarrow>
             if len \<ge> a_max_context a then (a, Inl Overflow)
             else (a\<lparr>a_map := a_map a @ [metric]\<rparr>, Inr ())
         | Some _ \<Rightarrow>
             (a\<lparr>a_map := table_update i (\<lambda>m. m\<lparr>m_value := aggregate D (m_value m) metric\<rparr>) (a_map a)\<rparr>,
              Inr ()))"

definition agg_clear :: "'sk aggregator \<Rightarrow> 'sk aggregator" where
  "agg_clear a = a\<lparr>a_map := []\<rparr>"

definition get_entry_by_id ::
  "'sk deps \<Rightarrow> 'sk aggregator \<Rightarrow> string \<Rightarrow> sorted_tags option \<Rightarrow> int \<Rightarrow> 'sk metric option" where
  "get_entry_by_id D a name tags timestamp = table_find (metric_id D name tags timestamp) (a_map a)"

section \<open>Building payload entries\<close>

definition full_tags :: "'sk deps \<Rightarrow> 'sk metric \<Rightarrow> sorted_tags \<Rightarrow> sorted_tags" where
  "full_tags D entry base_tag_vec =
     (case m_tags entry of Some tags \<Rightarrow> tags_extend D base_tag_vec tags | None \<Rightarrow> base_tag_vec)"

definition build_sketch :: "'sk deps \<Rightarrow> 'sk metric \<Rightarrow> sorted_tags \<Rightarrow> 'sk sketch option" where
  "build_sketch D entry base_tag_vec =
     (case get_sketch (m_value entry) of
        None \<Rightarrow> None
      | Some sk \<Rightarrow>
          let tags = full_tags D entry base_tag_vec
          in Some \<lparr>s_metric = m_name entry, s_dogsketches = [(sk, m_timestamp entry)],
                   s_tags = tags_to_chars tags, s_metadata = find_origin entry tags\<rparr>)"

definition build_metric :: "'sk deps \<Rightarrow> 'sk metric \<Rightarrow> sorted_tags \<Rightarrow> ship_metric option rust" where
  "build_metric D entry base_tag_vec =
     (let resources = (case m_tags entry of Some tags \<Rightarrow> tags_to_resources tags | None \<Rightarrow> [])
      in bind_rust
           (case m_value entry of
              Count _ \<Rightarrow> Ret KCount | Gauge _ \<Rightarrow> Ret KGauge | Distribution _ \<Rightarrow> Panic)
           (\<lambda>kind.
              case get_value (m_value entry) of
                None \<Rightarrow> Ret None
              | Some v \<Rightarrow>
                  let tags = full_tags D entry base_tag_vec;
                      metadata = map_option
                        (\<lambda>og. \<lparr>origin_product = o_product og, origin_sub_product = o_category og,
                               origin_product_detail = o_service og\<rparr>)
                        (find_origin entry tags)
                  in Ret (Some \<lparr>sm_metric = m_name entry,
                        sm_points = [\<lparr>pt_timestamp = word_of_int (m_timestamp entry), pt_value = v\<rparr>],
                        sm_resources = resources, sm_kind = kind,
                        sm_tags = tags_to_strings tags, sm_metadata = metadata\<rparr>)))"

section \<open>Consumers\<close>

text \<open>\<open>to_series\<close> and \<open>distributions_to_protobuf\<close> read the table without emptying it.\<close>

definition to_series :: "'sk agg_env \<Rightarrow> 'sk aggregator \<Rightarrow> series rust" where
  "to_series E a =
     filter_map_rust
       (\<lambda>entry. if is_distribution (m_value entry) then Ret None
                else build_metric (e_deps E) entry (a_tags a))
       (table_order E (a_map a))"

definition distributions_to_protobuf :: "'sk agg_env \<Rightarrow> 'sk aggregator \<Rightarrow> 'sk sketch_payload" where
  "distributions_to_protobuf E a =
     List.map_filter
       (\<lambda>entry. if is_distribution (m_value entry) then build_sketch (e_deps E) entry (a_tags a) else None)
       (table_order E (a_map a))"

text \<open>
  The batching loop of \<open>consume_distributions\<close>: the payloads so far, the open one and its size.
\<close>

fun sketch_loop ::
  "('x \<Rightarrow> nat) \<Rightarrow> nat \<Rightarrow> nat \<Rightarrow> 'x list \<Rightarrow> 'x list list \<Rightarrow> 'x list \<Rightarrow> nat \<Rightarrow> 'x list list" where
  "sketch_loop sz max_entries max_bytes [] batched payload this_batch_size =
     (if payload \<noteq> [] then batched @ [payload] else batched)"
| "sketch_loop sz max_entries max_bytes (sketch # rest) batched payload this_batch_size =
     (let next_chunk_size = sz sketch
      in if length payload \<ge> max_entries \<or> this_batch_size + next_chunk_size \<ge> max_bytes
         then (if this_batch_size = 0
               then sketch_loop sz max_entries max_bytes rest batched
                      (payload @ [sketch]) (this_batch_size + next_chunk_size)
               else sketch_loop sz max_entries max_bytes rest (batched @ [payload])
                      [sketch] (0 + next_chunk_size))
         else sketch_loop sz max_entries max_bytes rest batched
                (payload @ [sketch]) (this_batch_size + next_chunk_size))"

definition consume_distributions ::
  "'sk agg_env \<Rightarrow> 'sk aggregator \<Rightarrow> 'sk sketch_payload list \<times> 'sk aggregator" where
  "consume_distributions E a =
     (let extracted = filter (\<lambda>m. is_distribution (m_value m)) (table_order E (a_map a));
          sketches = List.map_filter (\<lambda>entry. build_sketch (e_deps E) entry (a_tags a)) extracted
      in (sketch_loop (sketch_size E) (a_max_entries_sketch a) (a_max_bytes_sketch a) sketches [] [] 0,
          a\<lparr>a_map := filter (\<lambda>m. \<not> is_distribution (m_value m)) (a_map a)\<rparr>))"

text \<open>
  The batching loop of \<open>consume_metrics\<close>: a metric that cannot be serialized has size 0 and is
  left out.
\<close>

fun metric_loop ::
  "('x \<Rightarrow> nat option) \<Rightarrow> nat \<Rightarrow> nat \<Rightarrow> 'x list \<Rightarrow> 'x list list \<Rightarrow> 'x list \<Rightarrow> nat \<Rightarrow> 'x list list" where
  "metric_loop sz max_entries max_bytes [] batched payload this_batch_size =
     (if payload \<noteq> [] then batched @ [payload] else batched)"
| "metric_loop sz max_entries max_bytes (metric # rest) batched payload this_batch_size =
     (let serialized_metric_size = (case sz metric of Some n \<Rightarrow> n | None \<Rightarrow> 0)
      in if serialized_metric_size > 0
         then (if length payload \<ge> max_entries \<or> this_batch_size + serialized_metric_size \<ge> max_bytes
               then (if this_batch_size = 0
                     then metric_loop sz max_entries max_bytes rest batched
                            (payload @ [metric]) (this_batch_size + serialized_metric_size)
                     else metric_loop sz max_entries max_bytes rest (batched @ [payload])
                            [metric] (0 + serialized_metric_size))
               else metric_loop sz max_entries max_bytes rest batched
                      (payload @ [metric]) (this_batch_size + serialized_metric_size))
         else metric_loop sz max_entries max_bytes rest batched payload this_batch_size)"

definition consume_metrics :: "'sk agg_env \<Rightarrow> 'sk aggregator \<Rightarrow> (series list \<times> 'sk aggregator) rust" where
  "consume_metrics E a =
     (let extracted = filter (\<lambda>m. \<not> is_distribution (m_value m)) (table_order E (a_map a))
      in bind_rust (filter_map_rust (\<lambda>entry. build_metric (e_deps E) entry (a_tags a)) extracted)
           (\<lambda>metrics.
              Ret (metric_loop (json_len E) (a_max_entries_single a) (a_max_bytes_single a) metrics [] [] 0,
                   a\<lparr>a_map := filter (\<lambda>m. is_distribution (m_value m)) (a_map a)\<rparr>)))"

section \<open>Batches\<close>

text \<open>
  A batch within the limits: not empty, and either a single item or at most the given number of
  items whose total size is below the given number of bytes.
\<close>

definition good_batch :: "('x \<Rightarrow> nat) \<Rightarrow> nat \<Rightarrow> nat \<Rightarrow> 'x list \<Rightarrow> bool" where
  "good_batch sz max_entries max_bytes b \<longleftrightarrow>
     b \<noteq> [] \<and> (length b = 1 \<or> (length b \<le> max_entries \<and> sum_list (map sz b) < max_bytes))"

lemma sketch_loop_concat:
  "concat (sketch_loop sz n k xs batched payload t) = concat batched @ payload @ xs"
  by (induction xs arbitrary: batched payload t) (auto simp: Let_def)

lemma sketch_loop_good:
  assumes "\<forall>x\<in>set xs. 0 < sz x" and "\<forall>b\<in>set batched. good_batch sz n k b"
    and "(payload = [] \<and> t = 0) \<or> (good_batch sz n k payload \<and> t = sum_list (map sz payload) \<and> 0 < t)"
  shows "\<forall>b\<in>set (sketch_loop sz n k xs batched payload t). good_batch sz n k b"
  using assms
proof (induction xs arbitrary: batched payload t)
  case (Cons x xs)
  have single: "good_batch sz n k [x]" by (simp add: good_batch_def)
  show ?case
  proof (cases "t = 0")
    case True
    then have "payload = []" using Cons.prems(3) by auto
    then have "sketch_loop sz n k (x # xs) batched payload t = sketch_loop sz n k xs batched [x] (sz x)"
      using True by (simp add: Let_def)
    moreover have "\<forall>b\<in>set (sketch_loop sz n k xs batched [x] (sz x)). good_batch sz n k b"
      using Cons.prems(1,2) single by (intro Cons.IH) auto
    ultimately show ?thesis by simp
  next
    case False
    then have p: "good_batch sz n k payload" "t = sum_list (map sz payload)"
      using Cons.prems(3) by auto
    show ?thesis
    proof (cases "length payload \<ge> n \<or> t + sz x \<ge> k")
      case True
      then have "sketch_loop sz n k (x # xs) batched payload t =
          sketch_loop sz n k xs (batched @ [payload]) [x] (sz x)"
        using False by (auto simp: Let_def)
      moreover have "\<forall>b\<in>set (sketch_loop sz n k xs (batched @ [payload]) [x] (sz x)). good_batch sz n k b"
        using Cons.prems(1,2) single p by (intro Cons.IH) auto
      ultimately show ?thesis by simp
    next
      case ok: False
      then have "good_batch sz n k (payload @ [x])" using p by (auto simp: good_batch_def)
      moreover have "sketch_loop sz n k (x # xs) batched payload t =
          sketch_loop sz n k xs batched (payload @ [x]) (t + sz x)"
        using ok by (simp add: Let_def)
      moreover have "\<forall>b\<in>set (sketch_loop sz n k xs batched (payload @ [x]) (t + sz x)). good_batch sz n k b"
        using Cons.prems(1,2) p calculation(1) by (intro Cons.IH) auto
      ultimately show ?thesis by simp
    qed
  qed
qed auto

text \<open>The other loop is the same loop over the metrics that serialize.\<close>

definition json_size :: "('x \<Rightarrow> nat option) \<Rightarrow> 'x \<Rightarrow> nat" where
  "json_size sz x = (case sz x of Some n \<Rightarrow> n | None \<Rightarrow> 0)"

lemma metric_loop_sketch_loop:
  "metric_loop sz n k xs batched payload t =
     sketch_loop (json_size sz) n k (filter (\<lambda>x. 0 < json_size sz x) xs) batched payload t"
  by (induction xs arbitrary: batched payload t) (auto simp: Let_def json_size_def)

section \<open>The table is a keyed store\<close>

definition wf_table :: "'sk deps \<Rightarrow> 'sk aggregator \<Rightarrow> bool" where
  "wf_table D a \<longleftrightarrow>
     distinct (map m_id (a_map a)) \<and> length (a_map a) \<le> a_max_context a \<and>
     (\<forall>m\<in>set (a_map a). m_id m = metric_id D (m_name m) (m_tags m) (m_timestamp m))"

definition stored :: "'sk aggregator \<Rightarrow> u64 \<Rightarrow> 'sk metric_value option" where
  "stored a i = map_option m_value (table_find i (a_map a))"

definition stored_ids :: "'sk aggregator \<Rightarrow> u64 set" where
  "stored_ids a = m_id ` set (a_map a)"

definition has_own_id :: "'sk deps \<Rightarrow> 'sk metric \<Rightarrow> bool" where
  "has_own_id D m \<longleftrightarrow> m_id m = metric_id D (m_name m) (m_tags m) (m_timestamp m)"

definition ins :: "'sk deps \<Rightarrow> 'sk metric \<Rightarrow> 'sk aggregator \<Rightarrow> 'sk aggregator" where
  "ins D m a = fst (agg_insert D m a)"

lemma table_find_None: "table_find i ms = None \<longleftrightarrow> i \<notin> m_id ` set ms"
  by (induction ms) auto

lemma table_find_Some: "table_find i ms = Some m \<Longrightarrow> m \<in> set ms \<and> m_id m = i"
  by (induction ms) (auto split: if_splits)

lemma table_find_append:
  "table_find i (ms @ ns) = (case table_find i ms of None \<Rightarrow> table_find i ns | Some m \<Rightarrow> Some m)"
  by (induction ms) auto

lemma table_find_update:
  assumes "\<And>m. m_id (f m) = m_id m"
  shows "table_find j (table_update i f ms) =
         (if j = i then map_option f (table_find i ms) else table_find j ms)"
  by (induction ms) (auto simp: assms)

lemma table_update_ids:
  assumes "\<And>m. m_id (f m) = m_id m"
  shows "map m_id (table_update i f ms) = map m_id ms"
  by (induction ms) (auto simp: assms)

lemma table_update_set:
  "m \<in> set (table_update i f ms) \<Longrightarrow> m \<in> set ms \<or> (\<exists>n\<in>set ms. m = f n)"
  by (induction ms) (auto split: if_splits)

lemma ins_cases:
  assumes "has_own_id D m"
  shows "table_find (m_id m) (a_map a) = None \<Longrightarrow> length (a_map a) < a_max_context a \<Longrightarrow>
           ins D m a = a\<lparr>a_map := a_map a @ [m]\<rparr>"
    and "table_find (m_id m) (a_map a) = None \<Longrightarrow> a_max_context a \<le> length (a_map a) \<Longrightarrow> ins D m a = a"
    and "table_find (m_id m) (a_map a) = Some e \<Longrightarrow>
           ins D m a = a\<lparr>a_map := table_update (m_id m)
             (\<lambda>n. n\<lparr>m_value := aggregate D (m_value n) m\<rparr>) (a_map a)\<rparr>"
  using assms by (simp_all add: ins_def agg_insert_def has_own_id_def)

lemma wf_table_ins: "wf_table D a \<Longrightarrow> has_own_id D m \<Longrightarrow> wf_table D (ins D m a)"
proof (cases "table_find (m_id m) (a_map a)")
  case None
  assume wf: "wf_table D a" "has_own_id D m"
  show ?thesis
    using wf ins_cases(1,2) [OF wf(2) None] None
    by (cases "length (a_map a) < a_max_context a")
      (auto simp: wf_table_def has_own_id_def table_find_None not_less)
next
  case (Some e)
  assume wf: "wf_table D a" "has_own_id D m"
  have len: "length (table_update i f ms) = length ms" for i f and ms :: "'a metric list"
    by (induction ms) auto
  show ?thesis
    using wf unfolding ins_cases(3) [OF wf(2) Some]
    by (auto simp: wf_table_def table_update_ids len dest!: table_update_set)
qed

interpretation agg: keyed_store m_id stored stored_ids a_max_context "ins D" m_value
  "aggregate D" "wf_table D" "has_own_id D" for D :: "'sk deps"
proof (unfold_locales, goal_cases)
  case (1 s k)
  then show ?case by (auto simp: stored_def stored_ids_def table_find_None simp flip: not_None_eq)
next
  case (2 s)
  then show ?case by (simp add: stored_ids_def)
next
  case (3 s x)
  then show ?case by (rule wf_table_ins)
next
  case (4 x s)
  then show ?case by (simp add: ins_def agg_insert_def Let_def split: option.splits)
next
  case (5 s x v)
  then obtain e where "table_find (m_id x) (a_map s) = Some e" "v = m_value e"
    by (auto simp: stored_def)
  then show ?case
    using ins_cases(3) [OF 5(2)] by (auto simp: fun_eq_iff stored_def table_find_update)
next
  case (6 s x)
  then have "table_find (m_id x) (a_map s) = None" by (simp add: stored_def)
  moreover have "card (stored_ids s) = length (a_map s)"
    using 6(1) distinct_card [of "map m_id (a_map s)"] by (simp add: stored_ids_def wf_table_def)
  ultimately show ?case
    using 6 ins_cases(1) [OF 6(2)]
    by (auto simp: fun_eq_iff stored_def table_find_append split: option.splits)
next
  case (7 s x)
  then have "table_find (m_id x) (a_map s) = None" by (simp add: stored_def)
  moreover have "card (stored_ids s) = length (a_map s)"
    using 7(1) distinct_card [of "map m_id (a_map s)"] by (simp add: stored_ids_def wf_table_def)
  ultimately show ?case using 7 ins_cases(2) [OF 7(2)] by simp
qed

section \<open>Properties\<close>

lemma fold_into_Some: "fold_into comb first (Some v) xs = Some (foldl comb v xs)"
  by (induction xs arbitrary: v) auto

text \<open>
  What a table with room for \<open>n\<close> contexts holds after some metrics: the first \<open>n\<close> contexts to arrive, in
  that order, each with the values of all its metrics folded into the first.
\<close>

fun firsts :: "'sk metric list \<Rightarrow> 'sk metric list" where
  "firsts [] = []"
| "firsts (m # ms) = m # filter (\<lambda>x. m_id x \<noteq> m_id m) (firsts ms)"

definition context_total :: "'sk deps \<Rightarrow> 'sk metric list \<Rightarrow> 'sk metric \<Rightarrow> 'sk metric" where
  "context_total D ms m =
     m\<lparr>m_value := foldl (aggregate D) (m_value m) (tl (filter (\<lambda>x. m_id x = m_id m) ms))\<rparr>"

definition epoch_table :: "'sk deps \<Rightarrow> nat \<Rightarrow> 'sk metric list \<Rightarrow> 'sk metric list" where
  "epoch_table D n ms = map (context_total D ms) (take n (firsts ms))"

lemma firsts_snoc: "firsts (ms @ [x]) = firsts ms @ (if m_id x \<in> m_id ` set ms then [] else [x])"
  by (induction ms) auto

lemma firsts_ids: "m_id ` set (firsts ms) = m_id ` set ms" "distinct (map m_id (firsts ms))"
proof -
  show "m_id ` set (firsts ms) = m_id ` set ms"
  proof (induction ms)
    case (Cons m ms)
    have "insert (m_id m) (m_id ` {x \<in> set (firsts ms). m_id x \<noteq> m_id m}) = insert (m_id m) (m_id ` set (firsts ms))" by auto
    then show ?case by (simp add: Cons)
  qed simp
  show "distinct (map m_id (firsts ms))" by (induction ms) (auto simp: distinct_map intro: inj_on_subset)
qed

lemma table_update_map:
  "distinct (map m_id ms) \<Longrightarrow> table_update i f ms = map (\<lambda>m. if m_id m = i then f m else m) ms"
proof (induction ms)
  case (Cons m ms)
  have "map (\<lambda>m. if m_id m = i then f m else m) ms = ms" if "m_id m = i"
    using Cons.prems that by (intro map_idI) (auto simp: image_iff)
  then show ?case using Cons by simp
qed simp

lemma context_total_snoc:
  "m_id m \<in> m_id ` set ms \<Longrightarrow> context_total D (ms @ [x]) m =
     (if m_id m = m_id x then (context_total D ms m)\<lparr>m_value := aggregate D (m_value (context_total D ms m)) x\<rparr>
      else context_total D ms m)"
proof (cases "filter (\<lambda>x. m_id x = m_id m) ms")
  case Nil
  assume "m_id m \<in> m_id ` set ms"
  then show ?thesis using Nil by (auto simp: filter_empty_conv)
next
  case (Cons y ys)
  then have "m_id m = m_id x \<Longrightarrow> filter (\<lambda>y. m_id y = m_id x) ms = y # ys" by simp
  then show ?thesis using Cons by (simp add: context_total_def)
qed

lemma fold_ins_table:
  assumes "a_map a = []" "\<forall>m\<in>set ms. has_own_id D m"
  shows "a_map (fold (ins D) ms a) = epoch_table D (a_max_context a) ms \<and> a_max_context (fold (ins D) ms a) = a_max_context a"
  using assms(2)
proof (induction ms rule: rev_induct)
  case Nil
  then show ?case using assms(1) by (simp add: epoch_table_def)
next
  case (snoc x ms)
  let ?n = "a_max_context a" and ?t = "take (a_max_context a) (firsts ms)" and ?b = "fold (ins D) ms a"
  have IH: "a_map ?b = map (context_total D ms) ?t" "a_max_context ?b = ?n" and own: "has_own_id D x"
    using snoc by (simp_all add: epoch_table_def)
  have ids: "m_id (context_total D ms m) = m_id m" for m by (simp add: context_total_def)
  have t: "m_id ` set ?t \<subseteq> m_id ` set ms" "distinct (map m_id ?t)"
    using firsts_ids [of ms] image_mono [OF set_take_subset [of ?n "firsts ms"], of m_id]
    by (simp_all add: take_map [symmetric])
  have old: "map (context_total D (ms @ [x])) ?t =
      map (\<lambda>m. if m_id m = m_id x then (context_total D ms m)\<lparr>m_value := aggregate D (m_value (context_total D ms m)) x\<rparr>
        else context_total D ms m) ?t"
    using t(1) by (intro map_cong refl context_total_snoc) auto
  have cap: "a_max_context (ins D x ?b) = ?n" using IH(2) agg.ins_cap [of D x ?b] by simp
  have tab: "table_find (m_id x) (a_map ?b) = None \<longleftrightarrow> m_id x \<notin> m_id ` set ?t"
    unfolding table_find_None IH(1) by (auto simp: ids image_iff)
  show ?case
  proof (cases "m_id x \<in> m_id ` set ?t")
    case True
    then obtain e where e: "table_find (m_id x) (a_map ?b) = Some e" using tab by auto
    have seen: "m_id x \<in> m_id ` set ms" using True t(1) by blast
    have "a_map (ins D x ?b) = table_update (m_id x) (\<lambda>m. m\<lparr>m_value := aggregate D (m_value m) x\<rparr>) (map (context_total D ms) ?t)"
      using ins_cases(3) [OF own e] by (simp add: IH(1))
    also have "\<dots> = map (context_total D (ms @ [x])) ?t"
      unfolding old using t(2) by (subst table_update_map) (simp_all add: ids comp_def)
    finally show ?thesis using cap seen by (simp add: epoch_table_def firsts_snoc)
  next
    case False
    then have f: "table_find (m_id x) (a_map ?b) = None" using tab by simp
    have same: "map (context_total D (ms @ [x])) ?t = map (context_total D ms) ?t"
      unfolding old using False by (intro map_cong refl) (auto simp: image_iff)
    show ?thesis
    proof (cases "length (firsts ms) < ?n")
      case True
      then have "?t = firsts ms" by simp
      then have new: "m_id x \<notin> m_id ` set ms" using False firsts_ids(1) [of ms] by simp
      then have "filter (\<lambda>y. m_id y = m_id x) ms = []" by (auto simp: filter_empty_conv image_iff)
      then have "context_total D (ms @ [x]) x = x" by (simp add: context_total_def)
      moreover have "a_map (ins D x ?b) = map (context_total D ms) ?t @ [x]"
        using ins_cases(1) [OF own f] True by (simp add: IH)
      ultimately show ?thesis using cap same new True by (simp add: epoch_table_def firsts_snoc)
    next
      case full: False
      then have "a_map (ins D x ?b) = map (context_total D ms) ?t"
        using ins_cases(2) [OF own f] by (simp add: IH)
      then show ?thesis using cap same full by (simp add: epoch_table_def firsts_snoc)
    qed
  qed
qed

lemma agg_new_wf: "agg_new tags n = Inr a \<Longrightarrow> wf_table D a \<and> a_map a = [] \<and> a_max_context a = n"
  by (auto simp: agg_new_def wf_table_def split: if_splits)

text \<open>
  C1. After a batch of metrics is inserted into a new aggregator with room for their contexts,
  each context holds the values of exactly its own metrics, folded in the order they arrived.
\<close>

theorem insert_batch_contexts:
  assumes "agg_new tags n = Inr a" and "\<forall>m\<in>set ms. has_own_id D m"
    and "card (m_id ` set ms) \<le> n"
    and "filter (\<lambda>m. m_id m = i) ms = m0 # rest"
  shows "stored (fold (ins D) ms a) i = Some (foldl (aggregate D) (m_value m0) rest)"
proof -
  note new = agg_new_wf [OF assms(1), of D]
  have "stored (fold (ins D) ms a) i =
      fold_into (aggregate D) m_value (stored a i) (filter (\<lambda>m. m_id m = i) ms)"
    using assms(2,3) new by (intro agg.ins_all_look) (auto simp: stored_ids_def)
  also have "stored a i = None" using new by (simp add: stored_def)
  finally show ?thesis using assms(4) by (simp add: fold_into_Some)
qed

text \<open>
  Folding values of one kind: counts add up in floating point, the last gauge wins, and
  sketches are merged.
\<close>

theorem aggregate_one_kind:
  "foldl (aggregate D) (Count c) (map (\<lambda>(m, v). m\<lparr>m_value := Count v\<rparr>) cs) =
     Count (foldl (fadd round64) c (map snd cs))
   \<and> foldl (aggregate D) (Gauge g) (map (\<lambda>(m, v). m\<lparr>m_value := Gauge v\<rparr>) gs) =
     Gauge (last (g # map snd gs))
   \<and> foldl (aggregate D) (Distribution d) (map (\<lambda>(m, v). m\<lparr>m_value := Distribution v\<rparr>) ds) =
     Distribution (foldl (sk_merge D) d (map snd ds))"
proof (intro conjI)
  show "foldl (aggregate D) (Count c) (map (\<lambda>(m, v). m\<lparr>m_value := Count v\<rparr>) cs) =
     Count (foldl (fadd round64) c (map snd cs))"
    by (induction cs arbitrary: c) (auto simp: split_beta)
  show "foldl (aggregate D) (Gauge g) (map (\<lambda>(m, v). m\<lparr>m_value := Gauge v\<rparr>) gs) =
     Gauge (last (g # map snd gs))"
    by (induction gs arbitrary: g) (auto simp: split_beta)
  show "foldl (aggregate D) (Distribution d) (map (\<lambda>(m, v). m\<lparr>m_value := Distribution v\<rparr>) ds) =
     Distribution (foldl (sk_merge D) d (map snd ds))"
    by (induction ds arbitrary: d) (auto simp: split_beta)
qed

text \<open>
  A distribution sample that reaches a gauge context (the identifier does not cover the
  type) silently sets the gauge to zero, and a gauge sample that reaches a distribution is lost.
\<close>

theorem aggregate_mixed_kinds:
  "metric_id D (m_name m) (m_tags m) (m_timestamp m) =
     metric_id D (m_name (m\<lparr>m_value := v\<rparr>)) (m_tags (m\<lparr>m_value := v\<rparr>)) (m_timestamp (m\<lparr>m_value := v\<rparr>)) \<and>
   aggregate D (Gauge g) (m\<lparr>m_value := Distribution d\<rparr>) = Gauge (Fin False 0) \<and>
   aggregate D (Distribution d) (m\<lparr>m_value := Gauge g\<rparr>) = Distribution d"
  by simp

text \<open>
  The table never holds two entries with one identifier, never more contexts than its
  limit, and every entry is stored under the identifier of its own context; an insertion is
  refused exactly when the context is new and the table is full, and then nothing changes.
\<close>

theorem agg_insert_safe:
  assumes "wf_table D a" and "has_own_id D m"
  shows "wf_table D (fst (agg_insert D m a)) \<and>
    (snd (agg_insert D m a) = Inl Overflow \<longleftrightarrow>
       stored a (m_id m) = None \<and> length (a_map a) = a_max_context a) \<and>
    (snd (agg_insert D m a) = Inl Overflow \<longrightarrow> fst (agg_insert D m a) = a)"
  using wf_table_ins [OF assms] assms
  by (auto simp: ins_def agg_insert_def has_own_id_def stored_def wf_table_def Let_def
      split: option.splits)

lemma build_metric_Ret:
  "\<not> is_distribution (m_value m) \<Longrightarrow> \<exists>s. build_metric D m base = Ret (Some s)"
  by (cases "m_value m") (simp_all add: build_metric_def Let_def)

lemma build_sketch_Some: "is_distribution (m_value m) \<Longrightarrow> \<exists>s. build_sketch D m base = Some s"
  by (cases "m_value m") (simp_all add: build_sketch_def Let_def)

lemma build_sketch_dogsketches: "build_sketch D m base = Some s \<Longrightarrow> s_dogsketches s \<noteq> []"
  by (auto simp: build_sketch_def Let_def split: option.splits)

lemma filter_map_rust_all:
  "\<forall>x\<in>set xs. \<exists>y. f x = Ret (Some y) \<Longrightarrow>
   \<exists>ys. filter_map_rust f xs = Ret ys \<and> list_all2 (\<lambda>x y. f x = Ret (Some y)) xs ys"
  by (induction xs) auto

lemma map_filter_all:
  "\<forall>x\<in>set xs. \<exists>y. f x = Some y \<Longrightarrow>
   \<exists>ys. List.map_filter f xs = ys \<and> list_all2 (\<lambda>x y. f x = Some y) xs ys"
  by (induction xs) (auto simp: List.map_filter_simps)

text \<open>What the consumers return: the batching loops on what was built of each entry.\<close>

lemma consume_metrics_loop:
  obtains ships where
    "list_all2 (\<lambda>m s. build_metric (e_deps E) m (a_tags a) = Ret (Some s))
       (filter (\<lambda>m. \<not> is_distribution (m_value m)) (table_order E (a_map a))) ships"
    "consume_metrics E a = Ret (metric_loop (json_len E) (a_max_entries_single a) (a_max_bytes_single a) ships [] [] 0,
       a\<lparr>a_map := filter (\<lambda>m. is_distribution (m_value m)) (a_map a)\<rparr>)"
    "concat (metric_loop (json_len E) (a_max_entries_single a) (a_max_bytes_single a) ships [] [] 0) =
       filter (\<lambda>s. 0 < json_size (json_len E) s) ships"
proof -
  let ?ms = "filter (\<lambda>m. \<not> is_distribution (m_value m)) (table_order E (a_map a))"
  obtain ships where s: "filter_map_rust (\<lambda>m. build_metric (e_deps E) m (a_tags a)) ?ms = Ret ships"
      "list_all2 (\<lambda>m s. build_metric (e_deps E) m (a_tags a) = Ret (Some s)) ?ms ships"
    using filter_map_rust_all [of ?ms "\<lambda>m. build_metric (e_deps E) m (a_tags a)"] build_metric_Ret
    by force
  show ?thesis
    by (rule that [OF s(2)]) (simp_all add: consume_metrics_def s(1) metric_loop_sketch_loop sketch_loop_concat)
qed

lemma consume_distributions_loop:
  obtains sketches where
    "list_all2 (\<lambda>m s. build_sketch (e_deps E) m (a_tags a) = Some s)
       (filter (\<lambda>m. is_distribution (m_value m)) (table_order E (a_map a))) sketches"
    "consume_distributions E a =
       (sketch_loop (sketch_size E) (a_max_entries_sketch a) (a_max_bytes_sketch a) sketches [] [] 0,
        a\<lparr>a_map := filter (\<lambda>m. \<not> is_distribution (m_value m)) (a_map a)\<rparr>)"
proof -
  let ?ms = "filter (\<lambda>m. is_distribution (m_value m)) (table_order E (a_map a))"
  obtain sks where s: "List.map_filter (\<lambda>m. build_sketch (e_deps E) m (a_tags a)) ?ms = sks"
      "list_all2 (\<lambda>m s. build_sketch (e_deps E) m (a_tags a) = Some s) ?ms sks"
    using map_filter_all [of ?ms "\<lambda>m. build_sketch (e_deps E) m (a_tags a)"] build_sketch_Some
    by force
  show ?thesis by (rule that [OF s(2)]) (simp add: consume_distributions_def s(1))
qed

text \<open>
  C3. Consuming the metrics never panics, whatever order the table iterates in. The batches
  hold every count and gauge that serializes, each once, in iteration order; each batch is
  within the entry and byte limits or is a single metric; and only distributions stay behind.
\<close>

theorem consume_metrics_correct:
  assumes "mset (table_order E (a_map a)) = mset (a_map a)"
  shows "\<exists>batches a' ms ships.
    consume_metrics E a = Ret (batches, a') \<and>
    mset ms = mset (filter (\<lambda>m. \<not> is_distribution (m_value m)) (a_map a)) \<and>
    list_all2 (\<lambda>m s. build_metric (e_deps E) m (a_tags a) = Ret (Some s)) ms ships \<and>
    concat batches = filter (\<lambda>s. 0 < json_size (json_len E) s) ships \<and>
    list_all (good_batch (json_size (json_len E)) (a_max_entries_single a) (a_max_bytes_single a)) batches \<and>
    a' = a\<lparr>a_map := filter (\<lambda>m. is_distribution (m_value m)) (a_map a)\<rparr>"
proof -
  obtain ships where s: "list_all2 (\<lambda>m s. build_metric (e_deps E) m (a_tags a) = Ret (Some s))
       (filter (\<lambda>m. \<not> is_distribution (m_value m)) (table_order E (a_map a))) ships"
    "consume_metrics E a = Ret (metric_loop (json_len E) (a_max_entries_single a) (a_max_bytes_single a) ships [] [] 0,
       a\<lparr>a_map := filter (\<lambda>m. is_distribution (m_value m)) (a_map a)\<rparr>)"
    "concat (metric_loop (json_len E) (a_max_entries_single a) (a_max_bytes_single a) ships [] [] 0) =
       filter (\<lambda>s. 0 < json_size (json_len E) s) ships"
    by (rule consume_metrics_loop)
  moreover have "list_all (good_batch (json_size (json_len E)) (a_max_entries_single a) (a_max_bytes_single a))
      (metric_loop (json_len E) (a_max_entries_single a) (a_max_bytes_single a) ships [] [] 0)"
    unfolding metric_loop_sketch_loop list_all_iff by (rule sketch_loop_good) auto
  moreover have "mset (filter (\<lambda>m. \<not> is_distribution (m_value m)) (table_order E (a_map a))) =
      mset (filter (\<lambda>m. \<not> is_distribution (m_value m)) (a_map a))"
    using assms by (simp add: mset_filter)
  ultimately show ?thesis by blast
qed

text \<open>
  C13. Consuming the distributions: the payloads hold every distribution, each once; each payload is within
  the limits or is a single sketch; and only counts and gauges stay behind. Of the protobuf encoding it is
  only used that a sketch with at least one dogsketch does not have size zero, since an element of a
  repeated field takes its tag and its length.
\<close>

theorem consume_distributions_correct:
  assumes "mset (table_order E (a_map a)) = mset (a_map a)" and "\<And>s. s_dogsketches s \<noteq> [] \<Longrightarrow> 0 < sketch_size E s"
  shows "\<exists>payloads a' ms sketches.
    consume_distributions E a = (payloads, a') \<and>
    mset ms = mset (filter (\<lambda>m. is_distribution (m_value m)) (a_map a)) \<and>
    list_all2 (\<lambda>m s. build_sketch (e_deps E) m (a_tags a) = Some s) ms sketches \<and>
    concat payloads = sketches \<and>
    list_all (good_batch (sketch_size E) (a_max_entries_sketch a) (a_max_bytes_sketch a)) payloads \<and>
    a' = a\<lparr>a_map := filter (\<lambda>m. \<not> is_distribution (m_value m)) (a_map a)\<rparr>"
proof -
  obtain sks where s: "list_all2 (\<lambda>m s. build_sketch (e_deps E) m (a_tags a) = Some s)
       (filter (\<lambda>m. is_distribution (m_value m)) (table_order E (a_map a))) sks"
    "consume_distributions E a = (sketch_loop (sketch_size E) (a_max_entries_sketch a) (a_max_bytes_sketch a) sks [] [] 0,
        a\<lparr>a_map := filter (\<lambda>m. \<not> is_distribution (m_value m)) (a_map a)\<rparr>)"
    by (rule consume_distributions_loop)
  have "s_dogsketches k \<noteq> []" if "k \<in> set sks" for k
    using that s(1) by (auto simp: list_all2_conv_all_nth in_set_conv_nth dest!: build_sketch_dogsketches)
  then have "list_all (good_batch (sketch_size E) (a_max_entries_sketch a) (a_max_bytes_sketch a))
      (sketch_loop (sketch_size E) (a_max_entries_sketch a) (a_max_bytes_sketch a) sks [] [] 0)"
    unfolding list_all_iff using assms(2) by (intro sketch_loop_good) auto
  moreover have "mset (filter (\<lambda>m. is_distribution (m_value m)) (table_order E (a_map a))) =
      mset (filter (\<lambda>m. is_distribution (m_value m)) (a_map a))"
    using assms(1) by (simp add: mset_filter)
  moreover have "concat (sketch_loop (sketch_size E) (a_max_entries_sketch a) (a_max_bytes_sketch a) sks [] [] 0) = sks"
    by (simp add: sketch_loop_concat)
  ultimately show ?thesis using s by blast
qed

section \<open>Concrete instances\<close>

definition sample_env :: "fl list agg_env" where
  "sample_env =
     \<lparr>e_deps = sample_deps, json_len = (\<lambda>s. Some (100 + length (sm_metric s))),
      sketch_size = (\<lambda>s. 2 * length (s_dogsketches s) + length (s_metric s)), table_order = rev\<rparr>"

definition sample_metric :: "string \<Rightarrow> fl list metric_value \<Rightarrow> fl list metric" where
  "sample_metric name v = metric_new sample_deps 100 100 name v None (Some 20)"

lemma sample_metric_own_id [simp]: "has_own_id sample_deps (sample_metric name v)"
  by (simp add: has_own_id_def sample_metric_def metric_new_def Let_def)

lemma sample_metric_id: "m_id (sample_metric name v) = m_id (sample_metric name w)"
  by (simp add: sample_metric_def metric_new_def Let_def)

definition sample_agg :: "fl list aggregator" where
  "sample_agg = projr (agg_new EMPTY_TAGS 2)"

lemma sample_agg_new: "agg_new EMPTY_TAGS 2 = Inr sample_agg"
  by (simp add: sample_agg_def agg_new_def MAX_CONTEXTS_def)

definition sample_table :: "fl list aggregator" where
  "sample_table = sample_agg\<lparr>a_map := [sample_metric ''c'' (Count (Fin False 1)),
     sample_metric ''d'' (Distribution [Fin False 2])]\<rparr>"

theorem insert_batch_contexts_witness:
  "stored (fold (ins sample_deps)
     [sample_metric ''c'' (Count (Fin False 1)), sample_metric ''c'' (Count (Fin False 2))] sample_agg)
     (m_id (sample_metric ''c'' (Count (Fin False 1)))) = Some (Count (Fin False 3))"
proof -
  let ?m = "\<lambda>v. sample_metric ''c'' (Count v)"
  have id: "m_id (?m (Fin False 2)) = m_id (?m (Fin False 1))" by (rule sample_metric_id)
  have "stored (fold (ins sample_deps) [?m (Fin False 1), ?m (Fin False 2)] sample_agg)
      (m_id (?m (Fin False 1))) =
    Some (foldl (aggregate sample_deps) (m_value (?m (Fin False 1))) [?m (Fin False 2)])"
    by (rule insert_batch_contexts [OF sample_agg_new]) (auto simp: id)
  moreover have "fadd round64 (Fin False 1) (Fin False 2) = Fin False 3" by code_simp
  ultimately show ?thesis
    by (simp add: sample_metric_def metric_new_def Let_def del: fadd.simps)
qed

lemma sample_agg_wf: "wf_table sample_deps sample_agg"
  using agg_new_wf [OF sample_agg_new] by blast

theorem agg_insert_safe_witness:
  "wf_table sample_deps (fst (agg_insert sample_deps (sample_metric ''c'' (Gauge NaN)) sample_agg))"
  using agg_insert_safe [OF sample_agg_wf sample_metric_own_id [of "''c''" "Gauge NaN"]] by blast

theorem consume_metrics_correct_witness:
  "\<exists>batches a'. consume_metrics sample_env sample_table = Ret (batches, a') \<and>
     length (concat batches) = 1 \<and> length (a_map a') = 1"
proof -
  have "mset (table_order sample_env (a_map sample_table)) = mset (a_map sample_table)"
    by (simp add: sample_env_def)
  from consume_metrics_correct [OF this] obtain batches a' ms ships where
    b: "consume_metrics sample_env sample_table = Ret (batches, a')"
      "mset ms = mset (filter (\<lambda>m. \<not> is_distribution (m_value m)) (a_map sample_table))"
      "list_all2 (\<lambda>m s. build_metric (e_deps sample_env) m (a_tags sample_table) = Ret (Some s)) ms ships"
      "concat batches = filter (\<lambda>s. 0 < json_size (json_len sample_env) s) ships"
      "list_all (good_batch (json_size (json_len sample_env)) (a_max_entries_single sample_table)
         (a_max_bytes_single sample_table)) batches"
      "a' = sample_table\<lparr>a_map := filter (\<lambda>m. is_distribution (m_value m)) (a_map sample_table)\<rparr>"
    by blast
  have v: "m_value (sample_metric n w) = w" for n w
    by (simp add: sample_metric_def metric_new_def Let_def)
  have "size (mset ms) = 1" unfolding b(2) by (simp add: sample_table_def v)
  then have "length ships = 1" using b(3) by (auto dest: list_all2_lengthD)
  moreover have "json_size (json_len sample_env) s > 0" for s
    by (simp add: json_size_def sample_env_def)
  ultimately have "length (concat batches) = 1" unfolding b(4) by simp
  then show ?thesis using b(1,6) by (simp add: sample_table_def v)
qed

theorem consume_distributions_correct_witness:
  "\<exists>payloads a'. consume_distributions sample_env sample_table = (payloads, a') \<and>
     length (concat payloads) = 1 \<and> length (a_map a') = 1"
proof -
  have m: "mset (table_order sample_env (a_map sample_table)) = mset (a_map sample_table)"
    by (simp add: sample_env_def)
  have z: "s_dogsketches s \<noteq> [] \<Longrightarrow> 0 < sketch_size sample_env s" for s by (simp add: sample_env_def)
  from consume_distributions_correct [OF m z] obtain payloads a' ms sketches where
    b: "consume_distributions sample_env sample_table = (payloads, a')"
      "mset ms = mset (filter (\<lambda>m. is_distribution (m_value m)) (a_map sample_table))"
      "list_all2 (\<lambda>m s. build_sketch (e_deps sample_env) m (a_tags sample_table) = Some s) ms sketches"
      "concat payloads = sketches"
      "a' = sample_table\<lparr>a_map := filter (\<lambda>m. \<not> is_distribution (m_value m)) (a_map sample_table)\<rparr>"
    by blast
  have v: "m_value (sample_metric n w) = w" for n w
    by (simp add: sample_metric_def metric_new_def Let_def)
  have "size (mset ms) = 1" unfolding b(2) by (simp add: sample_table_def v)
  then have "length sketches = 1" using b(3) by (auto dest: list_all2_lengthD)
  then show ?thesis using b by (simp add: sample_table_def v)
qed

end
