(* ===== verification/Dsd_Service.thy ===== *)
theory Dsd_Service
  imports Dsd_Aggregator
begin

text \<open>
  \<^verbatim>\<open>dogstatsd/src/aggregator/service.rs\<close>: the task that owns the aggregator and serves the
  commands of an unbounded channel, and the handle through which the other tasks send them.

  A one-shot response channel is named by a number; what the service sends on it is a reply
  carrying that number. The state of the service is \<open>Panic\<close> once the task has panicked.
\<close>

section \<open>Commands and the handle\<close>

datatype 'sk agg_command =
    InsertBatch "'sk metric list"
  | Flush nat
  | GetEntryById string "sorted_tags option" int nat
  | Shutdown

record 'sk flush_response =
  fr_series :: "series list"
  fr_distributions :: "'sk sketch_payload list"

datatype 'sk agg_reply = FlushReply nat "'sk flush_response" | EntryReply nat "'sk metric option"

text \<open>
  The channel behind the handle: the commands not yet received, and whether the service still
  holds the receiver.
\<close>

record 'sk mailbox =
  mb_queue :: "'sk agg_command list"
  mb_open :: bool

datatype send_error = SendError

definition mb_send :: "'sk agg_command \<Rightarrow> 'sk mailbox \<Rightarrow> 'sk mailbox \<times> (send_error + unit)" where
  "mb_send c mb = (if mb_open mb then (mb\<lparr>mb_queue := mb_queue mb @ [c]\<rparr>, Inr ()) else (mb, Inl SendError))"

definition handle_insert_batch :: "'sk metric list \<Rightarrow> 'sk mailbox \<Rightarrow> 'sk mailbox \<times> (send_error + unit)" where
  "handle_insert_batch metrics mb = mb_send (InsertBatch metrics) mb"

definition handle_shutdown :: "'sk mailbox \<Rightarrow> 'sk mailbox \<times> (send_error + unit)" where
  "handle_shutdown mb = mb_send Shutdown mb"

section \<open>The service\<close>

definition service_new :: "sorted_tags \<Rightarrow> nat \<Rightarrow> creation_error + ('sk aggregator \<times> 'sk mailbox)" where
  "service_new tags max_context =
     (case agg_new tags max_context of
        Inl e \<Rightarrow> Inl e
      | Inr a \<Rightarrow> Inr (a, \<lparr>mb_queue = [], mb_open = True\<rparr>))"

text \<open>The insertion loop of a batch: the table and the number of metrics it refused.\<close>

fun insert_loop :: "'sk deps \<Rightarrow> 'sk metric list \<Rightarrow> 'sk aggregator \<Rightarrow> nat \<Rightarrow> 'sk aggregator \<times> nat" where
  "insert_loop D [] a insert_errors = (a, insert_errors)"
| "insert_loop D (metric # metrics) a insert_errors =
     (case agg_insert D metric a of
        (a', Inl e) \<Rightarrow> insert_loop D metrics a' (insert_errors + 1)
      | (a', Inr _) \<Rightarrow> insert_loop D metrics a' insert_errors)"

definition service_flush ::
  "'sk agg_env \<Rightarrow> 'sk aggregator \<Rightarrow> ('sk flush_response \<times> 'sk aggregator) rust" where
  "service_flush E a =
     bind_rust (consume_metrics E a) (\<lambda>(series, a').
       let (distributions, a'') = consume_distributions E a'
       in Ret (\<lparr>fr_series = series, fr_distributions = distributions\<rparr>, a''))"

fun service_step ::
  "'sk agg_env \<Rightarrow> 'sk aggregator rust \<Rightarrow> 'sk agg_command \<Rightarrow> 'sk aggregator rust \<times> 'sk agg_reply list" where
  "service_step E Panic c = (Panic, [])"
| "service_step E (Ret a) (InsertBatch metrics) = (Ret (fst (insert_loop (e_deps E) metrics a 0)), [])"
| "service_step E (Ret a) (Flush tx) =
     (case service_flush E a of
        Panic \<Rightarrow> (Panic, [])
      | Ret (response, a') \<Rightarrow> (Ret a', [FlushReply tx response]))"
| "service_step E (Ret a) (GetEntryById name tags timestamp tx) =
     (Ret a, [EntryReply tx (get_entry_by_id (e_deps E) a name tags timestamp)])"
| "service_step E (Ret a) Shutdown = (Ret a, [])"

fun is_shutdown :: "'sk agg_command \<Rightarrow> bool" where
  "is_shutdown Shutdown = True"
| "is_shutdown _ = False"

definition service_run ::
  "'sk agg_env \<Rightarrow> 'sk aggregator rust \<Rightarrow> 'sk agg_command list \<Rightarrow> 'sk aggregator rust \<times> 'sk agg_reply list" where
  "service_run E = serve (service_step E) is_shutdown"

text \<open>
  What a handle gets back: the reply on its own response channel, or an error when the command
  could not be sent or the service ended without answering.
\<close>

fun flush_reply :: "nat \<Rightarrow> 'sk agg_reply list \<Rightarrow> 'sk flush_response option" where
  "flush_reply tx [] = None"
| "flush_reply tx (FlushReply t r # rs) = (if t = tx then Some r else flush_reply tx rs)"
| "flush_reply tx (EntryReply t e # rs) = flush_reply tx rs"

fun entry_reply :: "nat \<Rightarrow> 'sk agg_reply list \<Rightarrow> 'sk metric option option" where
  "entry_reply tx [] = None"
| "entry_reply tx (FlushReply t r # rs) = entry_reply tx rs"
| "entry_reply tx (EntryReply t e # rs) = (if t = tx then Some e else entry_reply tx rs)"

datatype handle_error = FailedToSend | FailedToReceive

definition handle_flush ::
  "'sk agg_env \<Rightarrow> nat \<Rightarrow> 'sk aggregator rust \<Rightarrow> 'sk mailbox \<Rightarrow> handle_error + 'sk flush_response" where
  "handle_flush E tx s mb =
     (case mb_send (Flush tx) mb of
        (mb', Inl _) \<Rightarrow> Inl FailedToSend
      | (mb', Inr _) \<Rightarrow>
          (case flush_reply tx (snd (service_run E s (mb_queue mb'))) of
             None \<Rightarrow> Inl FailedToReceive | Some r \<Rightarrow> Inr r))"

definition handle_get_entry_by_id ::
  "'sk agg_env \<Rightarrow> string \<Rightarrow> sorted_tags option \<Rightarrow> int \<Rightarrow> nat \<Rightarrow> 'sk aggregator rust \<Rightarrow> 'sk mailbox \<Rightarrow>
   handle_error + 'sk metric option" where
  "handle_get_entry_by_id E name tags timestamp tx s mb =
     (case mb_send (GetEntryById name tags timestamp tx) mb of
        (mb', Inl _) \<Rightarrow> Inl FailedToSend
      | (mb', Inr _) \<Rightarrow>
          (case entry_reply tx (snd (service_run E s (mb_queue mb'))) of
             None \<Rightarrow> Inl FailedToReceive | Some r \<Rightarrow> Inr r))"


section \<open>The service keeps the table\<close>

lemma insert_loop_fold: "fst (insert_loop D ms a k) = fold (ins D) ms a"
proof (induction ms arbitrary: a k)
  case (Cons m ms)
  obtain a' r where "agg_insert D m a = (a', r)" by fastforce
  then show ?case using Cons.IH by (cases r) (simp_all add: ins_def)
qed simp

lemma ins_a_map: "\<exists>ms. ins D m a = a\<lparr>a_map := ms\<rparr>"
proof -
  have "\<exists>ms. a = a\<lparr>a_map := ms\<rparr>" by (rule exI [of _ "a_map a"]) simp
  then show ?thesis by (auto simp: ins_def agg_insert_def Let_def split: option.splits)
qed

lemma fold_ins_clear: "(fold (ins D) ms a)\<lparr>a_map := ns\<rparr> = a\<lparr>a_map := ns\<rparr>"
proof (induction ms arbitrary: a)
  case (Cons m ms)
  obtain ns' where "ins D m a = a\<lparr>a_map := ns'\<rparr>" using ins_a_map by blast
  then show ?case using Cons.IH [of "ins D m a"] by simp
qed simp

lemma consume_metrics_Ret:
  "\<exists>bs. consume_metrics E a = Ret (bs, a\<lparr>a_map := filter (\<lambda>m. is_distribution (m_value m)) (a_map a)\<rparr>)"
proof -
  let ?ms = "filter (\<lambda>m. \<not> is_distribution (m_value m)) (table_order E (a_map a))"
  obtain ships where "filter_map_rust (\<lambda>m. build_metric (e_deps E) m (a_tags a)) ?ms = Ret ships"
    using filter_map_rust_all [of ?ms "\<lambda>m. build_metric (e_deps E) m (a_tags a)"]
    by (auto intro: build_metric_Ret)
  then show ?thesis by (simp add: consume_metrics_def)
qed

lemma service_flush_Ret: "\<exists>r. service_flush E a = Ret (r, a\<lparr>a_map := []\<rparr>)"
proof -
  obtain bs where "consume_metrics E a =
      Ret (bs, a\<lparr>a_map := filter (\<lambda>m. is_distribution (m_value m)) (a_map a)\<rparr>)"
    using consume_metrics_Ret by blast
  then show ?thesis by (simp add: service_flush_def consume_distributions_def Let_def)
qed

definition own_ids :: "'sk deps \<Rightarrow> 'sk agg_command \<Rightarrow> bool" where
  "own_ids D c \<longleftrightarrow> (case c of InsertBatch ms \<Rightarrow> \<forall>m\<in>set ms. has_own_id D m | _ \<Rightarrow> True)"

definition wf_service :: "'sk deps \<Rightarrow> 'sk aggregator rust \<Rightarrow> bool" where
  "wf_service D s \<longleftrightarrow> (case s of Panic \<Rightarrow> False | Ret a \<Rightarrow> wf_table D a)"

lemma wf_table_clear: "wf_table D (a\<lparr>a_map := []\<rparr>)"
  by (simp add: wf_table_def)

lemma service_step_wf:
  assumes "wf_service (e_deps E) s" "own_ids (e_deps E) c"
  shows "wf_service (e_deps E) (fst (service_step E s c))"
proof (cases s)
  case (Ret a)
  then have a: "wf_table (e_deps E) a" using assms by (simp add: wf_service_def)
  obtain r where r: "service_flush E a = Ret (r, a\<lparr>a_map := []\<rparr>)" using service_flush_Ret by blast
  show ?thesis
    using Ret a assms(2) r agg.ins_all_inv [OF a]
    by (cases c) (simp_all add: wf_service_def own_ids_def insert_loop_fold wf_table_clear)
qed (use assms in \<open>simp add: wf_service_def\<close>)

interpretation srv: command_server "service_step E" is_shutdown "wf_service (e_deps E)"
  "own_ids (e_deps E)" for E :: "'sk agg_env"
  by unfold_locales (rule service_step_wf)

section \<open>Epochs between flushes\<close>

fun quiet :: "'sk agg_command \<Rightarrow> bool" where
  "quiet (InsertBatch ms) = True"
| "quiet (GetEntryById n t ts tx) = True"
| "quiet _ = False"

definition batch_metrics :: "'sk agg_command list \<Rightarrow> 'sk metric list" where
  "batch_metrics cs = concat (map (\<lambda>c. case c of InsertBatch ms \<Rightarrow> ms | _ \<Rightarrow> []) cs)"

lemma batch_metrics_simps [simp]:
  "batch_metrics [] = []"
  "batch_metrics (InsertBatch ms # cs) = ms @ batch_metrics cs"
  "batch_metrics (GetEntryById n t ts tx # cs) = batch_metrics cs"
  "batch_metrics (Flush tx # cs) = batch_metrics cs"
  "batch_metrics (cs @ ds) = batch_metrics cs @ batch_metrics ds"
  by (simp_all add: batch_metrics_def)

lemma quiet_run:
  "list_all quiet cs \<Longrightarrow>
   fst (service_run E (Ret a) cs) = Ret (fold (ins (e_deps E)) (batch_metrics cs) a) \<and>
   (\<forall>tx. flush_reply tx (snd (service_run E (Ret a) cs)) = None)"
proof (induction cs arbitrary: a)
  case (Cons c cs)
  then show ?case
    by (cases c) (auto simp: service_run_def insert_loop_fold split_beta Let_def)
qed (simp add: service_run_def)

lemma quiet_not_shutdown: "list_all quiet cs \<Longrightarrow> \<forall>c\<in>set cs. \<not> is_shutdown c"
  by (induction cs) (auto elim: quiet.elims)

lemma service_run_append:
  "list_all quiet cs \<Longrightarrow>
   service_run E s (cs @ ds) =
     (let (s', rs) = service_run E s cs; (s'', rs') = service_run E s' ds in (s'', rs @ rs'))"
  unfolding service_run_def by (rule srv.serve_append) (rule quiet_not_shutdown)

lemma flush_reply_append:
  "flush_reply tx (rs @ rs') = (case flush_reply tx rs of None \<Rightarrow> flush_reply tx rs' | Some r \<Rightarrow> Some r)"
proof (induction rs)
  case (Cons r rs)
  then show ?case by (cases r) auto
qed simp

lemma service_run_Flush:
  assumes "service_flush E a = Ret (r, a')"
  shows "service_run E (Ret a) (Flush tx # ds) =
    (fst (service_run E (Ret a') ds), FlushReply tx r # snd (service_run E (Ret a') ds))"
  using assms by (simp add: service_run_def split_beta Let_def)

lemma own_ids_metrics: "\<forall>c\<in>set cs. own_ids D c \<Longrightarrow> \<forall>m\<in>set (batch_metrics cs). has_own_id D m"
  by (induction cs) (auto simp: own_ids_def batch_metrics_def split: agg_command.splits)

text \<open>
  C16. Between two flushes the service behaves as a fresh aggregator: whatever was inserted and flushed before,
  a flush replies with the contexts of the metrics sent since the previous one, no others, and leaves the
  service as new. There are the first \<open>n\<close> contexts to arrive, the limit of the table, each with all its
  metrics folded in the order they came; every distribution is in the reply once, as its sketch, and
  so is every count and gauge, as the series entry built of it, except that an entry whose
  serialization fails is left out. What does not fit in the table is dropped. The metrics carry the
  identifier of their own context, as the parser makes them (\<open>packet_metrics_wf\<close>), and the hash table
  iterates over its entries in some order.
\<close>

theorem service_flush_epoch:
  assumes "service_new tags n = Inr (a, mb)" and "list_all quiet cs"
    and "\<forall>c\<in>set cs. own_ids (e_deps E) c" and "\<And>ms. mset (table_order E ms) = mset ms"
  shows "\<exists>r es counts dists ships.
    service_run E (Ret a) (cs @ Flush tx # ds) =
      (fst (service_run E (Ret a) ds), es @ FlushReply tx r # snd (service_run E (Ret a) ds)) \<and>
    (\<forall>t. flush_reply t es = None) \<and>
    mset counts + mset dists = mset (epoch_table (e_deps E) n (batch_metrics cs)) \<and>
    list_all2 (\<lambda>m s. build_metric (e_deps E) m tags = Ret (Some s)) counts ships \<and>
    concat (fr_series r) = filter (\<lambda>s. 0 < json_size (json_len E) s) ships \<and>
    list_all2 (\<lambda>m k. build_sketch (e_deps E) m tags = Some k) dists (concat (fr_distributions r))"
proof -
  let ?D = "e_deps E" and ?dist = "\<lambda>m. is_distribution (m_value m)"
  have new: "a\<lparr>a_map := []\<rparr> = a" "a_map a = []" "a_max_context a = n" "a_tags a = tags"
    using assms(1) by (auto simp: service_new_def agg_new_def split: if_splits)
  define b where "b = fold (ins ?D) (batch_metrics cs) a"
  have b: "a_map b = epoch_table ?D n (batch_metrics cs)" "b\<lparr>a_map := []\<rparr> = a"
    using fold_ins_table [OF new(2) own_ids_metrics [OF assms(3)]] fold_ins_clear [where D = ?D and ms = "batch_metrics cs" and a = a and ns = "[]"]
    by (simp_all add: b_def new)
  then have tags: "a_tags b = tags" using new(4) by (metis aggregator.simps(1) aggregator.surjective aggregator.update_convs(2))
  obtain ships where m: "list_all2 (\<lambda>m s. build_metric ?D m (a_tags b) = Ret (Some s))
       (filter (\<lambda>m. \<not> ?dist m) (table_order E (a_map b))) ships"
    "consume_metrics E b = Ret (metric_loop (json_len E) (a_max_entries_single b) (a_max_bytes_single b) ships [] [] 0,
       b\<lparr>a_map := filter ?dist (a_map b)\<rparr>)"
    "concat (metric_loop (json_len E) (a_max_entries_single b) (a_max_bytes_single b) ships [] [] 0) =
       filter (\<lambda>s. 0 < json_size (json_len E) s) ships"
    by (rule consume_metrics_loop)
  let ?b = "b\<lparr>a_map := filter ?dist (a_map b)\<rparr>"
  obtain sks where k: "list_all2 (\<lambda>m k. build_sketch ?D m (a_tags ?b) = Some k)
       (filter ?dist (table_order E (a_map ?b))) sks"
    "consume_distributions E ?b = (sketch_loop (sketch_size E) (a_max_entries_sketch ?b) (a_max_bytes_sketch ?b) sks [] [] 0,
        ?b\<lparr>a_map := filter (\<lambda>m. \<not> ?dist m) (a_map ?b)\<rparr>)"
    by (rule consume_distributions_loop)
  define r where "r = \<lparr>fr_series = metric_loop (json_len E) (a_max_entries_single b) (a_max_bytes_single b) ships [] [] 0,
    fr_distributions = sketch_loop (sketch_size E) (a_max_entries_sketch ?b) (a_max_bytes_sketch ?b) sks [] [] 0\<rparr>"
  have r: "service_flush E b = Ret (r, a)" unfolding service_flush_def m(2) using k(2) b(2) by (simp add: r_def)
  let ?counts = "filter (\<lambda>m. \<not> ?dist m) (table_order E (a_map b))"
  let ?dists = "filter ?dist (table_order E (filter ?dist (a_map b)))"
  have "mset ?counts = filter_mset (\<lambda>m. \<not> ?dist m) (mset (a_map b))" "mset ?dists = filter_mset ?dist (mset (a_map b))"
    using assms(4) by (simp_all add: mset_filter filter_filter_mset)
  then have parts: "mset ?counts + mset ?dists = mset (epoch_table ?D n (batch_metrics cs))"
    using multiset_partition [of "mset (a_map b)" ?dist] b(1) by (simp add: union_commute)
  note q = quiet_run [OF assms(2), of E a]
  have "service_run E (Ret a) (cs @ Flush tx # ds) =
      (fst (service_run E (Ret a) ds),
       snd (service_run E (Ret a) cs) @ FlushReply tx r # snd (service_run E (Ret a) ds))"
    using q service_run_Flush [OF r] service_run_append [OF assms(2)]
    by (simp add: split_beta Let_def b_def)
  moreover have "concat (fr_distributions r) = sks" by (simp add: r_def sketch_loop_concat)
  moreover have "concat (fr_series r) = filter (\<lambda>s. 0 < json_size (json_len E) s) ships" using m(3) by (simp add: r_def)
  moreover have "list_all2 (\<lambda>m k. build_sketch ?D m tags = Some k) ?dists sks"
    using k(1) tags by simp
  moreover have "\<forall>t. flush_reply t (snd (service_run E (Ret a) cs)) = None" using q by simp
  ultimately show ?thesis using m(1) [unfolded tags] parts by (intro exI conjI) (assumption | simp)+
qed

text \<open>
  Whatever commands arrive in whatever order, the service never panics and its table stays
  well formed and within its context limit; what is queued behind a shutdown is never served.
\<close>

theorem service_safe:
  assumes "service_new tags n = Inr (a, mb)" and "\<forall>c\<in>set cs. own_ids (e_deps E) c"
  shows "\<exists>a'. fst (service_run E (Ret a) cs) = Ret a' \<and> wf_table (e_deps E) a' \<and>
    service_run E (Ret a) (cs @ Shutdown # ds) = service_run E (Ret a) cs"
proof -
  have "wf_service (e_deps E) (Ret a)"
    using assms(1) agg_new_wf [of tags n a "e_deps E"]
    by (auto simp: service_new_def wf_service_def split: sum.splits)
  from srv.serve_inv [OF this assms(2)]
  obtain a' where "fst (service_run E (Ret a) cs) = Ret a'" "wf_table (e_deps E) a'"
    by (auto simp: wf_service_def service_run_def split: rust.splits)
  moreover have "service_run E (Ret a) (cs @ Shutdown # ds) = service_run E (Ret a) cs"
    unfolding service_run_def by (rule srv.serve_stop) simp
  ultimately show ?thesis by blast
qed

lemma filter_batch_shuffle:
  "cs \<in> shuffles xs ys \<Longrightarrow> \<forall>m\<in>set (batch_metrics ys). \<not> P m \<Longrightarrow>
   filter P (batch_metrics cs) = filter P (batch_metrics xs)"
proof (induction xs ys arbitrary: cs rule: shuffles.induct)
  case (3 x xs y ys)
  have app: "batch_metrics (c # cs) = batch_metrics [c] @ batch_metrics cs" for c :: "'a agg_command" and cs
    by (simp add: batch_metrics_def)
  from 3(3) consider ds where "cs = x # ds" "ds \<in> shuffles xs (y # ys)"
    | ds where "cs = y # ds" "ds \<in> shuffles (x # xs) ys" by auto
  then show ?case
  proof cases
    case 1
    then show ?thesis using 3(1) [OF 1(2) 3(4)] unfolding 1(1) by (subst (1 2) app) simp
  next
    case 2
    have "filter P (batch_metrics [y]) = []" "\<forall>m\<in>set (batch_metrics ys). \<not> P m"
      using 3(4) unfolding app [of y ys] by (auto simp: filter_empty_conv)
    then show ?thesis using 3(2) [OF 2(2)] unfolding 2(1) by (subst app) simp
  qed
qed (auto simp: filter_empty_conv)

lemma shuffles_quiet: "cs \<in> shuffles xs ys \<Longrightarrow> list_all quiet xs \<Longrightarrow> list_all quiet ys \<Longrightarrow> list_all quiet cs"
  by (auto simp: list_all_iff dest!: set_shuffles)

lemma batch_metrics_set: "set (batch_metrics cs) = (\<Union>c\<in>set cs. case c of InsertBatch ms \<Rightarrow> set ms | _ \<Rightarrow> {})"
  by (auto simp: batch_metrics_def split: agg_command.splits)

text \<open>
  Two clients whose metrics have different contexts do not influence each other: for every
  interleaving of their commands, each context of the first client ends up with the values it
  would have had if the first client were alone.
\<close>

theorem service_clients_independent:
  assumes "service_new tags n = Inr (a, mb)" and "cs \<in> shuffles xs ys"
    and "list_all quiet xs" "list_all quiet ys" "\<forall>c\<in>set (xs @ ys). own_ids (e_deps E) c"
    and "m_id ` set (batch_metrics xs) \<inter> m_id ` set (batch_metrics ys) = {}"
    and "card (m_id ` set (batch_metrics (xs @ ys))) \<le> n"
    and "i \<in> m_id ` set (batch_metrics xs)"
  shows "\<exists>b c. fst (service_run E (Ret a) cs) = Ret b \<and> fst (service_run E (Ret a) xs) = Ret c \<and>
    stored b i = stored c i"
proof -
  let ?D = "e_deps E" and ?own = "\<lambda>m. m_id m = i"
  have new: "wf_table ?D a" "a_map a = []" "a_max_context a = n"
    using assms(1) agg_new_wf [of tags n a ?D] by (auto simp: service_new_def split: sum.splits)
  have sets: "set (batch_metrics cs) = set (batch_metrics (xs @ ys))"
    using set_shuffles [OF assms(2)] by (simp add: batch_metrics_set)
  have look: "stored (fold (ins ?D) (batch_metrics ds) a) i =
      fold_into (aggregate ?D) m_value None (filter ?own (batch_metrics ds))"
    if "set (batch_metrics ds) \<subseteq> set (batch_metrics (xs @ ys))" for ds
  proof -
    have "card (m_id ` set (batch_metrics ds)) \<le> n"
      using assms(7) card_mono [OF _ image_mono [OF that], of m_id] by simp
    moreover have "\<forall>m\<in>set (batch_metrics ds). has_own_id ?D m"
      using that own_ids_metrics [OF assms(5)] by blast
    ultimately have "stored (fold (ins ?D) (batch_metrics ds) a) i =
        fold_into (aggregate ?D) m_value (stored a i) (filter ?own (batch_metrics ds))"
      using new by (intro agg.ins_all_look) (auto simp: stored_ids_def)
    then show ?thesis using new(2) by (simp add: stored_def)
  qed
  have "\<forall>m\<in>set (batch_metrics ys). \<not> ?own m" using assms(6,8) by blast
  from filter_batch_shuffle [OF assms(2) this]
  have "stored (fold (ins ?D) (batch_metrics cs) a) i = stored (fold (ins ?D) (batch_metrics xs) a) i"
    using look [of cs, unfolded sets, OF subset_refl] look [of xs] by simp
  then show ?thesis
    using quiet_run [OF assms(3)] quiet_run [OF shuffles_quiet [OF assms(2-4)]] by simp
qed

text \<open>
  What a flush through the handle returns: an error at once when the service has dropped
  its end of the channel, an error when a shutdown is queued ahead of it, and otherwise the
  contents of the table after everything queued ahead of it has been applied.
\<close>

theorem handle_flush_outcome:
  "(\<not> mb_open mb \<longrightarrow> handle_flush E tx (Ret a) mb = Inl FailedToSend) \<and>
   (\<forall>cs ds. mb_open mb \<longrightarrow> mb_queue mb = cs @ Shutdown # ds \<longrightarrow> list_all quiet cs \<longrightarrow>
      handle_flush E tx (Ret a) mb = Inl FailedToReceive) \<and>
   (mb_open mb \<longrightarrow> list_all quiet (mb_queue mb) \<longrightarrow>
      (\<exists>r b. service_flush E (fold (ins (e_deps E)) (batch_metrics (mb_queue mb)) a) = Ret (r, b) \<and>
         handle_flush E tx (Ret a) mb = Inr r))"
proof (intro conjI allI impI)
  fix cs ds assume "mb_open mb" "mb_queue mb = cs @ Shutdown # ds" "list_all quiet cs"
  moreover have "service_run E (Ret a) (cs @ Shutdown # ds @ [Flush tx]) = service_run E (Ret a) cs"
    unfolding service_run_def by (rule srv.serve_stop) simp
  ultimately show "handle_flush E tx (Ret a) mb = Inl FailedToReceive"
    using quiet_run [of cs E a] by (simp add: handle_flush_def mb_send_def)
next
  assume q: "mb_open mb" "list_all quiet (mb_queue mb)"
  let ?b = "fold (ins (e_deps E)) (batch_metrics (mb_queue mb)) a"
  obtain r where r: "service_flush E ?b = Ret (r, ?b\<lparr>a_map := []\<rparr>)" using service_flush_Ret by blast
  have "handle_flush E tx (Ret a) mb = Inr r"
    using q quiet_run [OF q(2), of E a] service_run_Flush [OF r] service_run_append [OF q(2)]
    by (simp add: handle_flush_def mb_send_def split_beta Let_def flush_reply_append)
  then show "\<exists>r b. service_flush E ?b = Ret (r, b) \<and> handle_flush E tx (Ret a) mb = Inr r"
    using r by blast
qed (simp add: handle_flush_def mb_send_def)

section \<open>Concrete instances\<close>

lemma sample_new: "service_new EMPTY_TAGS 2 = Inr (sample_agg, \<lparr>mb_queue = [], mb_open = True\<rparr>)"
  by (simp add: service_new_def sample_agg_new)

definition sample_insert :: "string \<Rightarrow> fl list agg_command" where
  "sample_insert name = InsertBatch [sample_metric name (Count (Fin False 1))]"

lemma sample_insert_simps [simp]:
  "quiet (sample_insert name)" "own_ids sample_deps (sample_insert name)"
  "batch_metrics [sample_insert name] = [sample_metric name (Count (Fin False 1))]"
  by (simp_all add: sample_insert_def own_ids_def)

theorem service_flush_epoch_witness:
  "\<exists>r. flush_reply 7 (snd (service_run sample_env (Ret sample_agg) [sample_insert ''c'', Flush 7])) = Some r \<and>
     length (concat (fr_series r)) = 1 \<and> concat (fr_distributions r) = []"
proof -
  have own: "\<forall>c\<in>set [sample_insert ''c'']. own_ids (e_deps sample_env) c" by (simp add: sample_env_def)
  have perm: "mset (table_order sample_env ms) = mset ms" for ms by (simp add: sample_env_def)
  have quiet: "list_all quiet [sample_insert ''c'']" by simp
  obtain r es counts dists ships where c:
    "service_run sample_env (Ret sample_agg) ([sample_insert ''c''] @ Flush 7 # []) =
      (fst (service_run sample_env (Ret sample_agg) []),
       es @ FlushReply 7 r # snd (service_run sample_env (Ret sample_agg) []))"
    "\<forall>t. flush_reply t es = None"
    "mset counts + mset dists = mset (epoch_table (e_deps sample_env) 2 (batch_metrics [sample_insert ''c'']))"
    "list_all2 (\<lambda>m s. build_metric (e_deps sample_env) m EMPTY_TAGS = Ret (Some s)) counts ships"
    "concat (fr_series r) = filter (\<lambda>s. 0 < json_size (json_len sample_env) s) ships"
    "list_all2 (\<lambda>m k. build_sketch (e_deps sample_env) m EMPTY_TAGS = Some k) dists (concat (fr_distributions r))"
    using service_flush_epoch [OF sample_new quiet own perm, of 7 "[]"] by (elim exE conjE) (rule that)
  let ?m = "sample_metric ''c'' (Count (Fin False 1))"
  have v: "m_value ?m = Count (Fin False 1)" by (simp add: sample_metric_def metric_new_def Let_def)
  have "epoch_table (e_deps sample_env) 2 (batch_metrics [sample_insert ''c'']) = [?m]"
    by (simp add: epoch_table_def context_total_def)
  then have all: "mset counts + mset dists = {#?m#}" using c(3) by simp
  have "dists = []"
  proof (cases dists)
    case (Cons d dists')
    then have "d \<in># {#?m#}" unfolding all [symmetric] by simp
    then show ?thesis using c(6) Cons v by (simp add: list_all2_Cons1 build_sketch_def)
  qed
  then have "length counts = 1" using all by (metis add.right_neutral mset.simps(1) size_mset size_single)
  then show ?thesis using c \<open>dists = []\<close> list_all2_lengthD [OF c(4)]
    by (simp add: flush_reply_append sample_env_def json_size_def)
qed

theorem service_safe_witness:
  "\<exists>a. fst (service_run sample_env (Ret sample_agg) [sample_insert ''c'', Flush 7]) = Ret a"
proof -
  have "\<forall>c\<in>set [sample_insert ''c'', Flush 7]. own_ids (e_deps sample_env) c"
    by (simp add: sample_env_def own_ids_def sample_insert_def)
  from service_safe [OF sample_new this, of "[]"] show ?thesis by blast
qed

lemma sample_ids_differ:
  "m_id (sample_metric ''c'' v) \<noteq> m_id (sample_metric ''d'' w)"
proof -
  have "m_id (sample_metric ''c'' (Gauge NaN)) \<noteq> m_id (sample_metric ''d'' (Gauge NaN))" by code_simp
  then show ?thesis using sample_metric_id by metis
qed

theorem service_clients_independent_witness:
  "\<exists>b c. fst (service_run sample_env (Ret sample_agg) [sample_insert ''d'', sample_insert ''c'']) = Ret b \<and>
     fst (service_run sample_env (Ret sample_agg) [sample_insert ''c'']) = Ret c \<and>
     stored b (m_id (sample_metric ''c'' (Gauge NaN))) = stored c (m_id (sample_metric ''c'' (Gauge NaN)))"
proof (rule service_clients_independent [OF sample_new, of _ "[sample_insert ''c'']" "[sample_insert ''d'']"])
  show "[sample_insert ''d'', sample_insert ''c''] \<in> shuffles [sample_insert ''c''] [sample_insert ''d'']"
    by simp
  have "batch_metrics ([sample_insert ''c''] @ [sample_insert ''d'']) =
      [sample_metric ''c'' (Count (Fin False 1)), sample_metric ''d'' (Count (Fin False 1))]"
    by (simp only: batch_metrics_simps sample_insert_simps) simp
  then show "card (m_id ` set (batch_metrics ([sample_insert ''c''] @ [sample_insert ''d'']))) \<le> 2"
    by (simp add: sample_ids_differ)
qed (auto simp: sample_ids_differ sample_ids_differ [symmetric] sample_env_def intro: sample_metric_id)

theorem handle_flush_outcome_witness:
  "\<exists>r. handle_flush sample_env 3 (Ret sample_agg)
     \<lparr>mb_queue = [sample_insert ''c''], mb_open = True\<rparr> = Inr r"
  using handle_flush_outcome [of "\<lparr>mb_queue = [sample_insert ''c''], mb_open = True\<rparr>" sample_env 3 sample_agg]
  by auto

end
