(* ===== verification/Dsd_Packet.thy ===== *)
theory Dsd_Packet
  imports Dsd_Service
begin

text \<open>
  \<^verbatim>\<open>dogstatsd/src/dogstatsd.rs\<close> and \<^verbatim>\<open>util.rs\<close>, the sequential part: configuration defaults,
  the metric namespace, what a packet turns into, and the reassembly of messages that a named
  pipe client splits over several reads. The concurrent part is in \<open>Dsd_Server\<close>.

  \<open>clk i\<close> are the two clock readings made while the i-th kept line of a packet is parsed.
\<close>

section \<open>Namespaces\<close>

definition parse_metric_namespace :: "string \<Rightarrow> string option" where
  "parse_metric_namespace namespace =
     (let trimmed = trim namespace in
      case trimmed of
        [] \<Rightarrow> None
      | first_char # chars \<Rightarrow>
          if \<not> is_ascii_alphabetic first_char then None
          else if \<exists>ch\<in>set chars. \<not> is_ascii_alphanumeric ch \<and> ch \<noteq> CHR ''_'' \<and> ch \<noteq> CHR ''.'' then None
          else Some trimmed)"

definition prepend_namespace :: "'sk deps \<Rightarrow> string \<Rightarrow> 'sk metric \<Rightarrow> 'sk metric" where
  "prepend_namespace D namespace metric =
     (let new_name = namespace @ ''.'' @ m_name metric
      in metric\<lparr>m_name := new_name, m_id := metric_id D new_name (m_tags metric) (m_timestamp metric)\<rparr>)"

section \<open>UTF-8 validation\<close>

text \<open>\<open>std::str::from_utf8\<close>: the well-formed byte sequences of the Unicode standard.\<close>

definition cont :: "char \<Rightarrow> bool" where
  "cont c \<longleftrightarrow> 128 \<le> byte c \<and> byte c \<le> 191"

definition utf8_first :: "string \<Rightarrow> nat option" where
  "utf8_first s =
     (case s of
        [] \<Rightarrow> None
      | a # s1 \<Rightarrow>
          if byte a < 128 then Some 1
          else (case s1 of
            [] \<Rightarrow> None
          | b # s2 \<Rightarrow>
              if 194 \<le> byte a \<and> byte a \<le> 223 \<and> cont b then Some 2
              else (case s2 of
                [] \<Rightarrow> None
              | c # s3 \<Rightarrow>
                  if 224 \<le> byte a \<and> byte a \<le> 239 \<and> cont b \<and> (byte a = 224 \<longrightarrow> 160 \<le> byte b) \<and>
                     (byte a = 237 \<longrightarrow> byte b \<le> 159) \<and> cont c then Some 3
                  else (case s3 of
                    [] \<Rightarrow> None
                  | d # s4 \<Rightarrow>
                      if 240 \<le> byte a \<and> byte a \<le> 244 \<and> cont b \<and> (byte a = 240 \<longrightarrow> 144 \<le> byte b) \<and>
                         (byte a = 244 \<longrightarrow> byte b \<le> 143) \<and> cont c \<and> cont d then Some 4
                      else None))))"

lemma utf8_first_bound: "utf8_first s = Some n \<Longrightarrow> 0 < n \<and> n \<le> length s"
  by (auto simp: utf8_first_def split: list.splits if_splits)

lemma utf8_first_append: "utf8_first s = Some n \<Longrightarrow> utf8_first (s @ t) = Some n"
  by (auto simp: utf8_first_def split: list.split_asm if_split_asm)

function utf8_valid :: "string \<Rightarrow> bool" where
  "utf8_valid s =
     (s = [] \<or> (case utf8_first s of None \<Rightarrow> False | Some n \<Rightarrow> utf8_valid (drop n s)))"
  by pat_completeness auto
termination
  by (relation "measure length") (auto dest: utf8_first_bound)

declare utf8_valid.simps [simp del]

section \<open>Packets\<close>

abbreviation newline :: char where
  "newline \<equiv> CHR 0x0A"

definition keep_line :: "string \<Rightarrow> bool" where
  "keep_line m \<longleftrightarrow> m \<noteq> [] \<and> \<not> starts_with ''_sc|'' m \<and> \<not> starts_with ''_e{'' m \<and>
     \<not> starts_with ''aws.lambda.enhanced.invocations'' m"

definition parse_line :: "'sk deps \<Rightarrow> (nat \<Rightarrow> int \<times> int) \<Rightarrow> nat \<times> string \<Rightarrow> 'sk metric option" where
  "parse_line D clk im =
     (case metric_parse D (fst (clk (fst im))) (snd (clk (fst im))) (snd im) of
        Inr metric \<Rightarrow> Some metric | Inl e \<Rightarrow> None)"

definition valid_metrics ::
  "'sk deps \<Rightarrow> (nat \<Rightarrow> int \<times> int) \<Rightarrow> string option \<Rightarrow> string list \<Rightarrow> 'sk metric list" where
  "valid_metrics D clk namespace msg =
     map (\<lambda>metric. case namespace of Some ns \<Rightarrow> prepend_namespace D ns metric | None \<Rightarrow> metric)
       (List.map_filter (parse_line D clk)
         (enumerate 0 (map (filter (\<lambda>c. c \<noteq> newline)) (filter keep_line msg))))"

definition insert_metrics ::
  "'sk deps \<Rightarrow> (nat \<Rightarrow> int \<times> int) \<Rightarrow> string option \<Rightarrow> string list \<Rightarrow> 'sk mailbox \<Rightarrow> 'sk mailbox" where
  "insert_metrics D clk namespace msg aggregator =
     (let all_valid_metrics = valid_metrics D clk namespace msg
      in if all_valid_metrics \<noteq> [] then fst (handle_insert_batch all_valid_metrics aggregator)
         else aggregator)"

definition process_packet ::
  "'sk deps \<Rightarrow> (nat \<Rightarrow> int \<times> int) \<Rightarrow> string option \<Rightarrow> string \<Rightarrow> 'sk mailbox \<Rightarrow> 'sk mailbox" where
  "process_packet D clk namespace buf aggregator =
     (if buf = [] then aggregator
      else if \<not> utf8_valid buf then aggregator
      else insert_metrics D clk namespace (split_char newline buf) aggregator)"

section \<open>Configuration\<close>

definition DEFAULT_BUFFER_SIZE :: nat where "DEFAULT_BUFFER_SIZE = 8192"
definition DEFAULT_QUEUE_SIZE :: nat where "DEFAULT_QUEUE_SIZE = 1024"

record dogstatsd_config =
  c_host :: string
  c_port :: nat
  c_metric_namespace :: "string option"
  c_windows_pipe_name :: "string option"
  c_so_rcvbuf :: "nat option"
  c_buffer_size :: "nat option"
  c_queue_size :: "nat option"

text \<open>The UDP socket of a transport is the operating system's; only whether there is one is kept.\<close>

datatype transport = Reader | NamedPipe_transport string bool

record dogstatsd =
  d_transport :: transport
  d_metric_namespace :: "string option"
  d_buf_size :: nat
  d_queue_size :: nat

definition size_or_default :: "nat option \<Rightarrow> nat \<Rightarrow> nat" where
  "size_or_default sz dflt =
     (case sz of Some n \<Rightarrow> if n = 0 then dflt else n | None \<Rightarrow> dflt)"

text \<open>
  \<open>windows\<close>: built with the named pipe feature. \<open>bind_ok\<close>: whether \<open>create_udp_socket\<close>
  succeeds; without a pipe a failed bind panics.
\<close>

definition dogstatsd_new :: "bool \<Rightarrow> bool \<Rightarrow> dogstatsd_config \<Rightarrow> dogstatsd rust" where
  "dogstatsd_new windows bind_ok config =
     (let pipe_name_opt = (if windows then c_windows_pipe_name config else None);
          mk = (\<lambda>t. \<lparr>d_transport = t, d_metric_namespace = c_metric_namespace config,
                     d_buf_size = size_or_default (c_buffer_size config) DEFAULT_BUFFER_SIZE,
                     d_queue_size = size_or_default (c_queue_size config) DEFAULT_QUEUE_SIZE\<rparr>)
      in case pipe_name_opt of
           Some pipe \<Rightarrow> Ret (mk (NamedPipe_transport pipe (c_port config \<noteq> 0 \<and> bind_ok)))
         | None \<Rightarrow> if bind_ok then Ret (mk Reader) else Panic)"

section \<open>A named pipe client\<close>

datatype send_outcome = SendOk | SendFull | SendClosed

record pipe_client =
  pc_buf :: string
  pc_start :: nat
  pc_dropped :: u64
  pc_running :: bool

datatype pipe_read = PipeRead string | PipeReadErr | PipeCancelled

definition pipe_client_new :: "nat \<Rightarrow> pipe_client" where
  "pipe_client_new buf_size =
     \<lparr>pc_buf = replicate buf_size (CHR 0x00), pc_start = 0, pc_dropped = 0, pc_running = True\<rparr>"

text \<open>\<open>rposition\<close> of the last newline plus one, or 0.\<close>

fun complete_size :: "string \<Rightarrow> nat" where
  "complete_size [] = 0"
| "complete_size (c # s) =
     (if complete_size s > 0 then complete_size s + 1 else if c = newline then 1 else 0)"

text \<open>
  One iteration of the client's loop: what the read returned, and what \<open>try_send\<close> would answer;
  the result is the new state and the packet handed to \<open>try_send\<close>, if any.
\<close>

definition pipe_step ::
  "nat \<Rightarrow> send_outcome \<Rightarrow> pipe_read \<Rightarrow> pipe_client \<Rightarrow> pipe_client \<times> string option" where
  "pipe_step buf_size outcome read_result pc =
     (case read_result of
        PipeCancelled \<Rightarrow> (pc\<lparr>pc_running := False\<rparr>, None)
      | PipeReadErr \<Rightarrow> (pc\<lparr>pc_running := False\<rparr>, None)
      | PipeRead [] \<Rightarrow> (pc\<lparr>pc_running := False\<rparr>, None)
      | PipeRead bytes \<Rightarrow>
          let start = pc_start pc;
              end_index = start + length bytes;
              buf = take start (pc_buf pc) @ bytes @ drop end_index (pc_buf pc);
              complete = complete_size (take end_index buf);
              packet = (if complete > 0 then Some (take complete buf) else None);
              dropped = (if complete > 0 \<and> outcome = SendFull then pc_dropped pc + 1 else pc_dropped pc)
          in if complete > 0 \<and> outcome = SendClosed
             then (pc\<lparr>pc_buf := buf, pc_running := False\<rparr>, packet)
             else
               let start' = end_index - complete
               in if start' \<ge> buf_size
                  then (pc\<lparr>pc_buf := buf, pc_start := 0, pc_dropped := dropped\<rparr>, packet)
                  else if start' > 0
                  then (pc\<lparr>pc_buf := take start' (drop complete buf) @ drop start' buf,
                           pc_start := start', pc_dropped := dropped\<rparr>, packet)
                  else (pc\<lparr>pc_buf := buf, pc_start := start', pc_dropped := dropped\<rparr>, packet))"

text \<open>
  The client's loop over the bytes that arrive on the pipe. The k-th read returns at most one byte more
  than the number given for it and never more than the free part of the buffer; the second component is
  what the queue answers if the read completes a message. The result has the packets offered to the queue
  with its answers, and the bytes not read.
\<close>

fun pipe_run ::
  "nat \<Rightarrow> pipe_client \<Rightarrow> string \<Rightarrow> (nat \<times> send_outcome) list \<Rightarrow> pipe_client \<times> (string \<times> send_outcome) list \<times> string" where
  "pipe_run buf_size pc stream [] = (pc, [], stream)"
| "pipe_run buf_size pc stream ((n, outcome) # reads) =
     (if \<not> pc_running pc \<or> stream = [] then (pc, [], stream)
      else
        let k = min (Suc n) (buf_size - pc_start pc);
            (pc', packet) = pipe_step buf_size outcome (PipeRead (take k stream)) pc;
            (pc'', packets, rest) = pipe_run buf_size pc' (drop k stream) reads
        in (pc'', (case packet of Some p \<Rightarrow> [(p, outcome)] | None \<Rightarrow> []) @ packets, rest))"

section \<open>Packets and batches\<close>

text \<open>The metrics one packet contributes.\<close>

definition packet_metrics ::
  "'sk deps \<Rightarrow> (nat \<Rightarrow> int \<times> int) \<Rightarrow> string option \<Rightarrow> string \<Rightarrow> 'sk metric list" where
  "packet_metrics D clk namespace buf =
     (if buf = [] \<or> \<not> utf8_valid buf then [] else valid_metrics D clk namespace (split_char newline buf))"

lemma process_packet_metrics:
  "process_packet D clk namespace buf mb =
     (if packet_metrics D clk namespace buf = [] \<or> \<not> mb_open mb then mb
      else mb\<lparr>mb_queue := mb_queue mb @ [InsertBatch (packet_metrics D clk namespace buf)]\<rparr>)"
  by (simp add: process_packet_def packet_metrics_def insert_metrics_def handle_insert_batch_def
      mb_send_def Let_def)

lemma cont_newline [simp]: "\<not> cont newline" "byte newline = 10"
  by (simp_all add: cont_def byte_def)

lemma utf8_valid_append: "utf8_valid a \<Longrightarrow> utf8_valid (a @ b) = utf8_valid b"
proof (induction a rule: utf8_valid.induct)
  case (1 a)
  show ?case
  proof (cases "a = []")
    case False
    then obtain n where n: "utf8_first a = Some n" "utf8_valid (drop n a)"
      using 1(2) by (auto simp: utf8_valid.simps [of a] split: option.splits)
    have "utf8_valid (a @ b) = utf8_valid (drop n (a @ b))"
      using False utf8_first_append [OF n(1)] by (subst utf8_valid.simps) simp
    also have "\<dots> = utf8_valid b" using 1(1) [OF n] utf8_first_bound [OF n(1)] by simp
    finally show ?thesis .
  qed simp
qed

lemma utf8_valid_newline: "utf8_valid (newline # b) = utf8_valid b"
  by (subst utf8_valid.simps) (simp add: utf8_first_def)

lemma split_char_append:
  "split_char c (a @ c # b) = split_char c a @ split_char c b"
proof (induction a)
  case (Cons x a)
  obtain f fs where "split_char c a = f # fs"
    using split_char_ne [of c a] by (cases "split_char c a") auto
  then show ?case using Cons by simp
qed simp

lemma map_filter_append: "List.map_filter f (xs @ ys) = List.map_filter f xs @ List.map_filter f ys"
  by (simp add: List.map_filter_def)

lemma map_filter_enumerate_shift:
  "List.map_filter (parse_line D clk) (enumerate (n + k) xs) =
   List.map_filter (parse_line D (\<lambda>i. clk (i + k))) (enumerate n xs)"
proof (induction xs arbitrary: n)
  case (Cons x xs)
  have "parse_line D clk (n + k, x) = parse_line D (\<lambda>i. clk (i + k)) (n, x)"
    by (simp add: parse_line_def)
  then show ?case using Cons.IH [of "Suc n"] by (simp add: List.map_filter_simps split: option.split)
qed (simp add: List.map_filter_simps)

lemma valid_metrics_append:
  "valid_metrics D clk ns (xs @ ys) =
     valid_metrics D clk ns xs @ valid_metrics D (\<lambda>i. clk (i + length (filter keep_line xs))) ns ys"
  using map_filter_enumerate_shift [of D clk 0 "length (filter keep_line xs)"]
  by (simp add: valid_metrics_def enumerate_append_eq map_filter_append)

lemma valid_metrics_empty_line: "valid_metrics D clk ns [[]] = []"
  by (simp add: valid_metrics_def keep_line_def List.map_filter_simps)

text \<open>
  How a client groups its lines into packets does not matter: the packet \<open>a\<close>, newline, \<open>b\<close>
  contributes the metrics of \<open>a\<close> followed by the metrics of \<open>b\<close> (with the clock readings made
  after the lines of \<open>a\<close>), so a line that is malformed, a service check or an event never
  affects the lines around it.
\<close>

theorem packet_concat:
  assumes "utf8_valid a" and "utf8_valid b"
  shows "\<exists>n. packet_metrics D clk ns (a @ newline # b) =
    packet_metrics D clk ns a @ packet_metrics D (\<lambda>i. clk (i + n)) ns b"
proof -
  have "utf8_valid (a @ newline # b)"
    using assms by (simp add: utf8_valid_append utf8_valid_newline)
  moreover have "valid_metrics D clk ns (split_char newline (a @ newline # b)) =
      valid_metrics D clk ns (split_char newline a) @
      valid_metrics D (\<lambda>i. clk (i + length (filter keep_line (split_char newline a)))) ns (split_char newline b)"
    by (simp only: split_char_append valid_metrics_append)
  ultimately show ?thesis
    using assms
    by (intro exI [of _ "length (filter keep_line (split_char newline a))"])
       (simp add: packet_metrics_def valid_metrics_empty_line)
qed

lemma metric_parse_own_id: "metric_parse D now now2 s = Inr m \<Longrightarrow> has_own_id D m"
  by (auto simp: metric_parse_def has_own_id_def Let_def
      split: prod.splits option.splits if_splits sum.splits)

lemma prepend_namespace_own_id: "has_own_id D (prepend_namespace D ns m)"
  by (simp add: has_own_id_def prepend_namespace_def Let_def)

text \<open>
  Every metric a packet contributes carries the identifier of its own context (the one the
  aggregator recomputes), also after the namespace changed its name; with a namespace every
  name starts with it.
\<close>

theorem packet_metrics_wf:
  "list_all (\<lambda>m. has_own_id D m \<and> (\<forall>ns. namespace = Some ns \<longrightarrow> starts_with (ns @ ''.'') (m_name m)))
     (packet_metrics D clk namespace buf)"
proof -
  have "has_own_id D m" if "m \<in> set (List.map_filter (parse_line D clk) xs)" for m xs
    using that by (auto simp: List.map_filter_def parse_line_def intro: metric_parse_own_id split: sum.splits)
  moreover have "starts_with (ns @ ''.'') (m_name (prepend_namespace D ns m))" for ns m
    by (simp add: starts_with_iff prepend_namespace_def Let_def)
  ultimately show ?thesis
    by (auto simp: list_all_iff packet_metrics_def valid_metrics_def prepend_namespace_own_id
        split: option.splits)
qed

section \<open>Named pipe reassembly\<close>

lemma complete_size_le: "complete_size s \<le> length s"
  by (induction s) auto

lemma complete_size_split:
  "newline \<notin> set (drop (complete_size s) s) \<and>
   (0 < complete_size s \<longrightarrow> last (take (complete_size s) s) = newline)"
proof (induction s)
  case (Cons c s)
  have "complete_size s = 0 \<Longrightarrow> newline \<notin> set s" using Cons by simp
  then show ?case using Cons by (auto simp: last_ConsR)
qed simp

lemma complete_size_0: "complete_size s = 0 \<longleftrightarrow> newline \<notin> set s"
  by (induction s) auto

text \<open>
  The client's buffer between reads: it has its full size, and the first \<open>pc_start\<close> bytes are
  the part of a message already received, without its newline.
\<close>

definition wf_pipe :: "nat \<Rightarrow> pipe_client \<Rightarrow> bool" where
  "wf_pipe buf_size pc \<longleftrightarrow> length (pc_buf pc) = buf_size \<and> pc_start pc < buf_size \<and> pc_running pc \<and>
     newline \<notin> set (take (pc_start pc) (pc_buf pc))"

definition pipe_pending :: "pipe_client \<Rightarrow> string" where
  "pipe_pending pc = take (pc_start pc) (pc_buf pc)"

lemma pipe_step_nonempty:
  assumes "bytes \<noteq> []"
  shows "pipe_step buf_size outcome (PipeRead bytes) pc =
     (let start = pc_start pc;
          end_index = start + length bytes;
          buf = take start (pc_buf pc) @ bytes @ drop end_index (pc_buf pc);
          complete = complete_size (take end_index buf);
          packet = (if complete > 0 then Some (take complete buf) else None);
          dropped = (if complete > 0 \<and> outcome = SendFull then pc_dropped pc + 1 else pc_dropped pc)
      in if complete > 0 \<and> outcome = SendClosed
         then (pc\<lparr>pc_buf := buf, pc_running := False\<rparr>, packet)
         else
           let start' = end_index - complete
           in if start' \<ge> buf_size
              then (pc\<lparr>pc_buf := buf, pc_start := 0, pc_dropped := dropped\<rparr>, packet)
              else if start' > 0
              then (pc\<lparr>pc_buf := take start' (drop complete buf) @ drop start' buf,
                       pc_start := start', pc_dropped := dropped\<rparr>, packet)
              else (pc\<lparr>pc_buf := buf, pc_start := start', pc_dropped := dropped\<rparr>, packet))"
proof -
  obtain b bs where "bytes = b # bs" using assms by (cases bytes) auto
  then show ?thesis unfolding pipe_step_def by (simp only: pipe_read.case list.case)
qed

text \<open>
  What a client makes of its bytes, one by one: \<open>pending\<close> is the part of a message that has arrived.
  A message ends with its newline; when \<open>n\<close> bytes have arrived without one they are given up, and the
  next byte starts a message.
\<close>

fun frame_lines :: "nat \<Rightarrow> string \<Rightarrow> string \<Rightarrow> string \<times> string" where
  "frame_lines n pending [] = ([], pending)"
| "frame_lines n pending (c # s) =
     (if c = newline then (case frame_lines n [] s of (msgs, rest) \<Rightarrow> (pending @ c # msgs, rest))
      else if n \<le> Suc (length pending) then frame_lines n [] s
      else frame_lines n (pending @ [c]) s)"

lemma frame_lines_append:
  "frame_lines n p (a @ b) =
     (case frame_lines n p a of (out, q) \<Rightarrow> (case frame_lines n q b of (out', r) \<Rightarrow> (out @ out', r)))"
  by (induction n p a rule: frame_lines.induct) (auto split: prod.splits)

lemma frame_lines_rest:
  "newline \<notin> set b \<Longrightarrow> length p + length b < n \<Longrightarrow> frame_lines n p b = ([], p @ b)"
  "newline \<notin> set b \<Longrightarrow> length p + length b = n \<Longrightarrow> b \<noteq> [] \<Longrightarrow> frame_lines n p b = ([], [])"
proof -
  show r: "newline \<notin> set b \<Longrightarrow> length p + length b < n \<Longrightarrow> frame_lines n p b = ([], p @ b)" for p b
    by (induction n p b rule: frame_lines.induct) auto
  assume b: "newline \<notin> set b" "length p + length b = n" "b \<noteq> []"
  then have "frame_lines n p (butlast b) = ([], p @ butlast b)" by (intro r) (auto dest: in_set_butlastD)
  moreover have "last b \<noteq> newline" using b by (metis last_in_set)
  then have "frame_lines n (p @ butlast b) [last b] = ([], [])" using b by auto
  ultimately show "frame_lines n p b = ([], [])"
    using frame_lines_append [of n p "butlast b" "[last b]"] b(3) by simp
qed

lemma frame_lines_message:
  "length p + length a < n \<Longrightarrow> frame_lines n p (a @ [newline]) = (p @ a @ [newline], [])"
  by (induction n p a rule: frame_lines.induct) auto

text \<open>What one read adds, when it fits in the buffer behind the pending bytes.\<close>

lemma frame_lines_read:
  assumes "newline \<notin> set p" "length p < n" "b \<noteq> []" "length p + length b \<le> n"
  defines "all \<equiv> p @ b"
  shows "frame_lines n p b =
    (take (complete_size all) all, if length (drop (complete_size all) all) < n then drop (complete_size all) all else [])"
proof (cases "newline \<in> set b")
  case False
  then have "complete_size all = 0" using assms(1) by (simp add: complete_size_0 all_def)
  then show ?thesis using frame_lines_rest [OF False, of p n] assms(2-4) by (auto simp: all_def)
next
  case True
  then obtain a d where b: "b = a @ newline # d" "newline \<notin> set d" by (meson split_list_last)
  have "complete_size (x @ newline # d) = Suc (length x)" for x
    using b(2) by (induction x) (simp_all add: complete_size_0)
  from this [of "p @ a"] have c: "complete_size all = Suc (length p + length a)" by (simp add: all_def b(1))
  have "frame_lines n [] d = ([], d)" using frame_lines_rest(1) [OF b(2), of "[]" n] assms(4) by (simp add: b(1))
  moreover have "frame_lines n p (a @ [newline]) = (p @ a @ [newline], [])"
    using assms(4) by (intro frame_lines_message) (simp add: b(1))
  ultimately have "frame_lines n p b = (p @ a @ [newline], d)" using frame_lines_append [of n p "a @ [newline]" d] b(1) by simp
  then show ?thesis using assms(4) c unfolding all_def b(1) by simp
qed

text \<open>Lines that fit in the buffer with their newline are all kept.\<close>

lemma frame_lines_short:
  assumes "newline \<notin> set p" "\<forall>l\<in>set (split_char newline (p @ s)). length l < n"
  shows "frame_lines n p s = (take (complete_size (p @ s)) (p @ s), drop (complete_size (p @ s)) (p @ s))"
  using assms
proof (induction s arbitrary: p)
  case Nil
  then have "complete_size p = 0" by (simp add: complete_size_0)
  then show ?case by simp
next
  case (Cons c s)
  show ?case
  proof (cases "c = newline")
    case True
    have c: "complete_size (p @ newline # s) = Suc (length p) + complete_size s"
      using Cons.prems(1) by (induction p) auto
    have "\<forall>l\<in>set (split_char newline ([] @ s)). length l < n" using Cons.prems(2) True by (simp add: split_char_append)
    from Cons.IH [OF _ this] show ?thesis by (simp add: True c)
  next
    case False
    obtain f fs where f: "split_char newline s = f # fs"
      using split_char_ne [of newline s] by (cases "split_char newline s") auto
    have "split_char newline (p @ c # s) = ((p @ [c]) @ f) # fs"
      using Cons.prems(1) False f by (induction p) auto
    then have "Suc (length p) < n" using Cons.prems(2) by auto
    moreover have "frame_lines n (p @ [c]) s = (take (complete_size (p @ c # s)) (p @ c # s), drop (complete_size (p @ c # s)) (p @ c # s))"
      using Cons.IH [of "p @ [c]"] Cons.prems False by simp
    ultimately show ?thesis using False by simp
  qed
qed

text \<open>One read: it hands over exactly the messages it completes.\<close>

lemma pipe_step_read:
  fixes pc :: pipe_client
  assumes "wf_pipe buf_size pc" "bytes \<noteq> []" "length bytes \<le> buf_size - pc_start pc"
    and "pipe_step buf_size outcome (PipeRead bytes) pc = (pc', packet)"
  defines "framed \<equiv> frame_lines buf_size (pipe_pending pc) bytes"
  shows "packet = (if fst framed = [] then None else Some (fst framed)) \<and>
    pc_dropped pc' = pc_dropped pc + (if packet \<noteq> None \<and> outcome = SendFull then 1 else 0) \<and>
    (if packet \<noteq> None \<and> outcome = SendClosed then \<not> pc_running pc'
     else wf_pipe buf_size pc' \<and> pipe_pending pc' = snd framed) \<and>
    (fst framed \<noteq> [] \<longrightarrow> last (fst framed) = newline)"
proof -
  define all where "all = pipe_pending pc @ bytes"
  let ?e = "pc_start pc + length bytes"
  let ?buf = "all @ drop ?e (pc_buf pc)"
  let ?c = "complete_size all"
  have len: "length (pc_buf pc) = buf_size" "pc_start pc < buf_size" "length all = ?e" "?e \<le> buf_size"
    using assms(1,3) by (auto simp: wf_pipe_def all_def pipe_pending_def)
  have "newline \<notin> set (pipe_pending pc)" "length (pipe_pending pc) < buf_size" "length (pipe_pending pc) + length bytes \<le> buf_size"
    using assms(1) len by (simp_all add: wf_pipe_def pipe_pending_def)
  from frame_lines_read [OF this(1,2) assms(2) this(3)]
  have fr: "fst framed = take ?c all" "snd framed = (if length (drop ?c all) < buf_size then drop ?c all else [])"
    by (simp_all add: framed_def all_def)
  have buf: "take (pc_start pc) (pc_buf pc) @ bytes @ drop ?e (pc_buf pc) = ?buf"
    "take ?e ?buf = all" "take ?c ?buf = take ?c all" "drop ?c ?buf = drop ?c all @ drop ?e (pc_buf pc)"
    using len complete_size_le [of all] by (auto simp: all_def pipe_pending_def)
  define msg where "msg = take ?c all"
  define r where "r = drop ?c all"
  define whole where "whole = ?buf"
  define moved where "moved = take (?e - ?c) (drop ?c whole) @ drop (?e - ?c) whole"
  define packet' where "packet' = (if ?c > 0 then Some msg else None)"
  define dropped where "dropped = (if ?c > 0 \<and> outcome = SendFull then pc_dropped pc + 1 else pc_dropped pc)"
  have step: "(pc', packet) =
      (if ?c > 0 \<and> outcome = SendClosed then (pc\<lparr>pc_buf := whole, pc_running := False\<rparr>, packet')
       else if ?e - ?c \<ge> buf_size then (pc\<lparr>pc_buf := whole, pc_start := 0, pc_dropped := dropped\<rparr>, packet')
       else if ?e - ?c > 0 then (pc\<lparr>pc_buf := moved, pc_start := ?e - ?c, pc_dropped := dropped\<rparr>, packet')
       else (pc\<lparr>pc_buf := whole, pc_start := ?e - ?c, pc_dropped := dropped\<rparr>, packet'))"
    unfolding assms(4) [symmetric] pipe_step_nonempty [OF assms(2)] Let_def buf
      packet'_def dropped_def moved_def whole_def msg_def by (rule refl)
  have ne: "?c > 0 \<longleftrightarrow> msg \<noteq> []" using assms(2) by (auto simp: msg_def all_def)
  have f: "fst framed = msg" "snd framed = (if length r < buf_size then r else [])" using fr by (simp_all add: msg_def r_def)
  have e: "length r = ?e - ?c" using len by (simp add: r_def)
  have "take (?e - ?c) (drop ?c whole) = r" using len buf(4) by (simp add: whole_def r_def)
  then have m: "length moved = buf_size" "take (?e - ?c) moved = r" "length whole = buf_size"
    using len complete_size_le [of all] e by (auto simp: moved_def whole_def)
  have nl: "newline \<notin> set r" "msg \<noteq> [] \<longrightarrow> last msg = newline"
    using complete_size_split [of all] ne unfolding msg_def r_def by (blast, metis)
  have run: "pc_running pc" "0 < buf_size" using assms(1) by (auto simp: wf_pipe_def)
  consider (closed) "?c > 0 \<and> outcome = SendClosed" | (full) "\<not> (?c > 0 \<and> outcome = SendClosed)" "?e - ?c \<ge> buf_size"
    | (kept) "\<not> (?c > 0 \<and> outcome = SendClosed)" "?e - ?c < buf_size" "?e - ?c > 0"
    | (none) "\<not> (?c > 0 \<and> outcome = SendClosed)" "?e - ?c = 0"
    by linarith
  then show ?thesis
  proof cases
    case closed
    then have "pc' = pc\<lparr>pc_buf := whole, pc_running := False\<rparr>" "packet = Some msg" using step by (simp_all add: packet'_def)
    then show ?thesis using closed ne nl(2) by (simp add: f)
  next
    case full
    then have "pc' = pc\<lparr>pc_buf := whole, pc_start := 0, pc_dropped := dropped\<rparr>" "packet = packet'" using step by (auto split: if_splits)
    then show ?thesis using full ne nl m run e by (auto simp: f packet'_def dropped_def wf_pipe_def pipe_pending_def)
  next
    case kept
    then have "pc' = pc\<lparr>pc_buf := moved, pc_start := ?e - ?c, pc_dropped := dropped\<rparr>" "packet = packet'" using step by (auto split: if_splits)
    then show ?thesis using kept ne nl m run e by (auto simp: f packet'_def dropped_def wf_pipe_def pipe_pending_def)
  next
    case none
    then have "pc' = pc\<lparr>pc_buf := whole, pc_start := 0, pc_dropped := dropped\<rparr>" "packet = packet'" "r = []"
      using step run e by (auto split: if_splits)
    then show ?thesis using none ne nl m run e by (auto simp: f packet'_def dropped_def wf_pipe_def pipe_pending_def)
  qed
qed

lemma pipe_run_frames:
  assumes "wf_pipe buf_size pc" "pipe_run buf_size pc stream reads = (pc', offered, rest)"
  shows "\<exists>used. stream = used @ rest \<and>
    concat (map fst offered) = fst (frame_lines buf_size (pipe_pending pc) used) \<and>
    list_all (\<lambda>(p, r). p \<noteq> [] \<and> last p = newline) offered \<and>
    pc_dropped pc' = pc_dropped pc + of_nat (length (filter (\<lambda>(p, r). r = SendFull) offered)) \<and>
    (if SendClosed \<in> snd ` set offered then \<not> pc_running pc'
     else wf_pipe buf_size pc' \<and> pipe_pending pc' = snd (frame_lines buf_size (pipe_pending pc) used))"
  using assms
proof (induction buf_size pc stream reads arbitrary: offered rule: pipe_run.induct)
  case (1 buf_size pc stream)
  then show ?case by (intro exI [of _ "[]"]) simp
next
  case (2 buf_size pc stream n outcome reads)
  show ?case
  proof (cases "stream = []")
    case True
    then show ?thesis using 2(2,3) by (intro exI [of _ "[]"]) (auto simp: wf_pipe_def)
  next
    case False
    define k where "k = min (Suc n) (buf_size - pc_start pc)"
    define a where "a = take k stream"
    have run: "pc_running pc" using 2(2) by (simp add: wf_pipe_def)
    have a: "a \<noteq> []" "length a \<le> buf_size - pc_start pc" "stream = a @ drop k stream"
      using False 2(2) by (auto simp: wf_pipe_def k_def a_def)
    obtain pc1 packet where s1: "pipe_step buf_size outcome (PipeRead a) pc = (pc1, packet)" by fastforce
    obtain offered1 where r1: "pipe_run buf_size pc1 (drop k stream) reads = (pc', offered1, rest)"
        "offered = (case packet of Some p \<Rightarrow> [(p, outcome)] | None \<Rightarrow> []) @ offered1"
      using 2(3) s1 False run by (auto simp: Let_def simp flip: k_def a_def split: prod.splits)
    note st = pipe_step_read [OF 2(2) a(1,2) s1]
    let ?F = "frame_lines buf_size (pipe_pending pc) a"
    show ?thesis
    proof (cases "packet \<noteq> None \<and> outcome = SendClosed")
      case True
      then have "\<not> pc_running pc1" using st by simp
      then have "pc' = pc1" "offered1 = []" "rest = drop k stream" using r1(1) by (cases reads; force)+
      then show ?thesis using True st r1(2) a(3) by (intro exI [of _ a]) (auto split: if_splits)
    next
      case False
      then have w1: "wf_pipe buf_size pc1" "pipe_pending pc1 = snd ?F" using st by (auto split: if_splits)
      from 2(1) [OF _ k_def s1 [unfolded a_def, symmetric] refl w1(1) r1(1)] run \<open>stream \<noteq> []\<close>
      obtain used where u: "drop k stream = used @ rest"
        "concat (map fst offered1) = fst (frame_lines buf_size (snd ?F) used)"
        "list_all (\<lambda>(p, r). p \<noteq> [] \<and> last p = newline) offered1"
        "pc_dropped pc' = pc_dropped pc1 + of_nat (length (filter (\<lambda>(p, r). r = SendFull) offered1))"
        "if SendClosed \<in> snd ` set offered1 then \<not> pc_running pc'
         else wf_pipe buf_size pc' \<and> pipe_pending pc' = snd (frame_lines buf_size (snd ?F) used)"
        unfolding w1(2) by blast
      have "frame_lines buf_size (pipe_pending pc) (a @ used) =
          (fst ?F @ fst (frame_lines buf_size (snd ?F) used), snd (frame_lines buf_size (snd ?F) used))"
        by (simp add: frame_lines_append split_def)
      then show ?thesis using u st r1(2) a(3) False
        by (intro exI [of _ "a @ used"]) (auto split: if_splits)
    qed
  qed
qed

text \<open>
  C6. However the reads split the bytes and whatever the queue answers, the packets a client offers to the
  queue are, put together, exactly the messages of the bytes it has read, in order, with their newlines: the
  complete lines if all of them fit in the buffer, and otherwise without the first bytes of an oversized
  line, as many as the buffer holds. No packet cuts a message, the bytes kept are the message that has begun, a
  packet the queue has no room for is counted, and the client ends when the queue is closed.
\<close>

theorem pipe_reassembly:
  assumes "0 < buf_size" "pipe_run buf_size (pipe_client_new buf_size) stream reads = (pc', offered, rest)"
  shows "\<exists>used. stream = used @ rest \<and>
    concat (map fst offered) = fst (frame_lines buf_size [] used) \<and>
    (if \<forall>l\<in>set (split_char newline used). length l < buf_size
     then concat (map fst offered) = take (complete_size used) used else True) \<and>
    list_all (\<lambda>(p, r). p \<noteq> [] \<and> last p = newline) offered \<and>
    pc_dropped pc' = of_nat (length (filter (\<lambda>(p, r). r = SendFull) offered)) \<and>
    (if SendClosed \<in> snd ` set offered then \<not> pc_running pc'
     else pc_running pc' \<and> pipe_pending pc' = snd (frame_lines buf_size [] used))"
proof -
  have "wf_pipe buf_size (pipe_client_new buf_size)" "pipe_pending (pipe_client_new buf_size) = []"
    "pc_dropped (pipe_client_new buf_size) = 0"
    using assms(1) by (simp_all add: wf_pipe_def pipe_pending_def pipe_client_new_def)
  with pipe_run_frames [OF this(1) assms(2)] obtain used where u: "stream = used @ rest"
    "concat (map fst offered) = fst (frame_lines buf_size [] used)"
    "list_all (\<lambda>(p, r). p \<noteq> [] \<and> last p = newline) offered"
    "pc_dropped pc' = of_nat (length (filter (\<lambda>(p, r). r = SendFull) offered))"
    "if SendClosed \<in> snd ` set offered then \<not> pc_running pc'
     else wf_pipe buf_size pc' \<and> pipe_pending pc' = snd (frame_lines buf_size [] used)"
    by auto
  moreover have "concat (map fst offered) = take (complete_size used) used"
    if "\<forall>l\<in>set (split_char newline used). length l < buf_size"
    using u(2) frame_lines_short [of "[]" used buf_size] that by simp
  ultimately show ?thesis by (intro exI [of _ used]) (simp add: wf_pipe_def split: if_splits)
qed

text \<open>
  A message that does not fit is not dropped as a whole: its end is sent as a message of its own. (The
  comment in the code says that such a message is dropped.)
\<close>

lemma oversize_tail_sent:
  "fst (snd (pipe_run 8 (pipe_client_new 8) (''longnamex:1|c'' @ [newline]) [(9, SendOk), (9, SendOk)])) =
     [(''x:1|c'' @ [newline], SendOk)]"
  by code_simp

section \<open>Concrete instances\<close>

theorem packet_concat_witness:
  "\<exists>n. packet_metrics sample_deps (\<lambda>i. (100, 100)) None (''a:1|c'' @ newline # ''b:x|g'') =
     packet_metrics sample_deps (\<lambda>i. (100, 100)) None ''a:1|c'' @
     packet_metrics sample_deps (\<lambda>i. (100, 100)) None ''b:x|g''"
proof -
  have "utf8_valid ''a:1|c''" "utf8_valid ''b:x|g''" by code_simp+
  from packet_concat [OF this] show ?thesis by fastforce
qed

theorem packet_metrics_wf_witness:
  "map m_name (packet_metrics sample_deps (\<lambda>i. (100, 100)) (Some ''ns'') ''a:1|c'') = [''ns.a''] \<and>
   list_all (has_own_id sample_deps) (packet_metrics sample_deps (\<lambda>i. (100, 100)) (Some ''ns'') ''a:1|c'')"
proof
  show "map m_name (packet_metrics sample_deps (\<lambda>i. (100, 100)) (Some ''ns'') ''a:1|c'') = [''ns.a'']"
    by code_simp
  show "list_all (has_own_id sample_deps) (packet_metrics sample_deps (\<lambda>i. (100, 100)) (Some ''ns'') ''a:1|c'')"
    using packet_metrics_wf [of sample_deps "Some ''ns''" "\<lambda>i. (100, 100)" "''a:1|c''"]
    by (simp add: list_all_iff)
qed

definition sample_stream :: string where
  "sample_stream = ''ab'' @ newline # ''cde'' @ newline # ''f''"

text \<open>Three lines, of which the queue has no room for the second packet.\<close>

theorem pipe_reassembly_witness:
  "\<exists>pc' offered rest. pipe_run 5 (pipe_client_new 5) sample_stream [(3, SendOk), (0, SendFull), (1, SendFull)] =
       (pc', offered, rest) \<and>
     length offered = 2 \<and> pc_dropped pc' = 1 \<and> concat (map fst offered) = take 7 sample_stream"
proof -
  let ?run = "pipe_run 5 (pipe_client_new 5) sample_stream [(3, SendOk), (0, SendFull), (1, SendFull)]"
  obtain pc' offered rest where r: "?run = (pc', offered, rest)" by (cases ?run) auto
  have "map snd (fst (snd ?run)) = [SendOk, SendFull]" "snd (snd ?run) = [CHR ''f'']" by code_simp+
  then have o: "map snd offered = [SendOk, SendFull]" "rest = [CHR ''f'']" using r by simp_all
  from pipe_reassembly [OF _ r] obtain used where u: "sample_stream = used @ rest"
    "concat (map fst offered) = fst (frame_lines 5 [] used)"
    "pc_dropped pc' = of_nat (length (filter (\<lambda>(p, r). r = SendFull) offered))" by auto
  have "used = take 7 sample_stream" using u(1) o(2) by (simp add: sample_stream_def)
  moreover have "fst (frame_lines 5 [] (take 7 sample_stream)) = take 7 sample_stream" by code_simp
  moreover have "length (filter (\<lambda>(p, r). r = SendFull) offered) = 1" using o(1)
    by (cases offered; cases "tl offered") (auto simp: split_def)
  ultimately show ?thesis using r u o(1) by (intro exI [of _ pc'] exI [of _ offered] exI [of _ rest]) (auto dest: arg_cong [of _ _ length])
qed

end
