(* ===== verification/Dsd_Server.thy ===== *)
theory Dsd_Server
  imports Dsd_Packet
begin

text \<open>
  \<^verbatim>\<open>dogstatsd/src/dogstatsd.rs\<close>, the concurrent part: the reader task, which drains the socket
  into a bounded queue and recycles buffers through a pool, and the processor task, which turns
  the queued packets into batches for the aggregator.

  Each task is a state machine whose steps are the stretches of code between two points where
  the other task can be observed; the server interleaves them in any order. A step carries a
  label that says what happened to a packet.
\<close>

section \<open>Packets and the state of the server\<close>

datatype message_source = Network string | NamedPipe string

record packet =
  pk_buf :: string
  pk_len :: nat
  pk_source :: message_source

definition packet_data :: "packet \<Rightarrow> string rust" where
  "packet_data p = (if pk_len p \<le> length (pk_buf p) then Ret (take (pk_len p) (pk_buf p)) else Panic)"

fun is_pooled :: "message_source \<Rightarrow> bool" where
  "is_pooled (Network a) = True"
| "is_pooled (NamedPipe n) = False"

datatype io_error = ConnectionReset | ConnectionAborted | ConnectionRefused | WouldBlock
  | RawOs int | OtherError

definition is_connection_error :: "io_error \<Rightarrow> bool" where
  "is_connection_error e \<longleftrightarrow> e = ConnectionAborted \<or> e = ConnectionReset \<or> e = ConnectionRefused"

definition is_datagram_error :: "io_error \<Rightarrow> bool" where
  "is_datagram_error e \<longleftrightarrow> e = RawOs 10040 \<or> e = RawOs 10052"

text \<open>
  Where the reader is: at the top of its loop, waiting in \<open>read_into\<close> with a buffer, at the top
  of the drain loop, about to call \<open>try_read_into\<close> with a buffer, after the drain loop, or gone.
  The processor is in its loop, draining after a cancellation, out of its loop, or gone together
  with the receiver.
\<close>

datatype reader_pc = RTop | RWait string | RDrainTop | RDrain string | RTail | RExit

datatype proc_pc = PLoop | PDrain | PDone | PGone | PPanicked

record 'sk server =
  sv_cap :: nat
  sv_buf_size :: nat
  sv_queue :: "packet list"
  sv_pool :: "string list"
  sv_dropped :: u64
  sv_cancel :: bool
  sv_reader :: reader_pc
  sv_proc :: proc_pc
  sv_mail :: "'sk mailbox"

datatype label = Tau | Sent packet | Lost packet | Refused packet | Processed packet

abbreviation rx_closed :: "'sk server \<Rightarrow> bool" where
  "rx_closed sv \<equiv> sv_proc sv = PGone \<or> sv_proc sv = PPanicked"

section \<open>The reader\<close>

definition take_buf :: "'sk server \<Rightarrow> string \<times> string list" where
  "take_buf sv = (case sv_pool sv of
       [] \<Rightarrow> (replicate (sv_buf_size sv) (CHR 0x00), [])
     | buf # pool \<Rightarrow> (buf, pool))"

definition pool_send :: "string \<Rightarrow> 'sk server \<Rightarrow> 'sk server" where
  "pool_send buf sv = sv\<lparr>sv_pool := sv_pool sv @ [buf]\<rparr>"

text \<open>\<open>Sender::try_send\<close> fails when the receiver is gone, and when the queue is full.\<close>

definition try_send_packet :: "packet \<Rightarrow> 'sk server \<Rightarrow> 'sk server \<times> bool \<times> label" where
  "try_send_packet p sv =
     (if rx_closed sv then (pool_send (pk_buf p) sv, False, Refused p)
      else if length (sv_queue sv) < sv_cap sv
      then (sv\<lparr>sv_queue := sv_queue sv @ [p]\<rparr>, True, Sent p)
      else ((pool_send (pk_buf p) sv)\<lparr>sv_dropped := sv_dropped sv + 1\<rparr>, True, Lost p))"

text \<open>
  What the operating system answers to a receive call; a datagram is cut to the buffer. The
  test reader replays a fixed buffer.
\<close>

datatype os_read = OsOk string string | OsErr io_error

datatype buffer_reader = UdpSocket | MirrorTest string string

definition fill_buf :: "string \<Rightarrow> string \<Rightarrow> string \<times> nat" where
  "fill_buf data buf =
     (let len = min (length data) (length buf) in (take len data @ drop len buf, len))"

fun read_into :: "buffer_reader \<Rightarrow> os_read \<Rightarrow> string \<Rightarrow> io_error + string \<times> nat \<times> message_source" where
  "read_into UdpSocket (OsOk data src) buf =
     (case fill_buf data buf of (buf', amt) \<Rightarrow> Inr (buf', amt, Network src))"
| "read_into UdpSocket (OsErr e) buf = Inl e"
| "read_into (MirrorTest data addr) r buf =
     (case fill_buf data buf of (buf', len) \<Rightarrow> Inr (buf', len, Network addr))"

fun try_read_into ::
  "buffer_reader \<Rightarrow> os_read \<Rightarrow> string \<Rightarrow> io_error + (string \<times> nat \<times> message_source) option" where
  "try_read_into UdpSocket (OsOk data src) buf =
     (case fill_buf data buf of (buf', amt) \<Rightarrow> Inr (Some (buf', amt, Network src)))"
| "try_read_into UdpSocket (OsErr e) buf = (if e = WouldBlock then Inr None else Inl e)"
| "try_read_into (MirrorTest data addr) r buf = Inr None"

datatype reader_event = Go | Got os_read | SeenCancel

text \<open>One step of \<open>read_loop\<close>.\<close>

fun read_loop_step :: "buffer_reader \<Rightarrow> reader_event \<Rightarrow> 'sk server \<Rightarrow> ('sk server \<times> label) option" where
  "read_loop_step rd ev sv =
     (case (sv_reader sv, ev) of
        (RTop, Go) \<Rightarrow>
          if sv_cancel sv then Some (sv\<lparr>sv_reader := RExit\<rparr>, Tau)
          else (case take_buf sv of (buf, pool) \<Rightarrow>
                  Some (sv\<lparr>sv_pool := pool, sv_reader := RWait buf\<rparr>, Tau))
      | (RWait buf, SeenCancel) \<Rightarrow>
          if sv_cancel sv then Some ((pool_send buf sv)\<lparr>sv_reader := RExit\<rparr>, Tau) else None
      | (RWait buf, Got r) \<Rightarrow>
          (case read_into rd r buf of
             Inl e \<Rightarrow>
               if e = ConnectionReset then Some (sv\<lparr>sv_reader := RExit\<rparr>, Tau)
               else Some ((pool_send buf sv)\<lparr>sv_reader := RTop\<rparr>, Tau)
           | Inr (buf', len, source) \<Rightarrow>
               if len = 0 then Some ((pool_send buf' sv)\<lparr>sv_reader := RTop\<rparr>, Tau)
               else (case try_send_packet \<lparr>pk_buf = buf', pk_len = len, pk_source = source\<rparr> sv of
                       (sv', ok, l) \<Rightarrow> Some (sv'\<lparr>sv_reader := if ok then RDrainTop else RExit\<rparr>, l)))
      | (RDrainTop, Go) \<Rightarrow>
          (case take_buf sv of (buf, pool) \<Rightarrow>
             Some (sv\<lparr>sv_pool := pool, sv_reader := RDrain buf\<rparr>, Tau))
      | (RDrain buf, Got r) \<Rightarrow>
          (case try_read_into rd r buf of
             Inl e \<Rightarrow> Some ((pool_send buf sv)\<lparr>sv_reader := RTail\<rparr>, Tau)
           | Inr None \<Rightarrow> Some ((pool_send buf sv)\<lparr>sv_reader := RTail\<rparr>, Tau)
           | Inr (Some (buf', len, source)) \<Rightarrow>
               if len = 0 then Some ((pool_send buf' sv)\<lparr>sv_reader := RDrainTop\<rparr>, Tau)
               else (case try_send_packet \<lparr>pk_buf = buf', pk_len = len, pk_source = source\<rparr> sv of
                       (sv', ok, l) \<Rightarrow> Some (sv'\<lparr>sv_reader := if ok then RDrainTop else RTail\<rparr>, l)))
      | (RTail, Go) \<Rightarrow> Some (sv\<lparr>sv_reader := if rx_closed sv then RExit else RTop\<rparr>, Tau)
      | _ \<Rightarrow> None)"

text \<open>
  One step of \<open>udp_read_loop_beside_pipe\<close>, the reader used beside a named pipe: no drain loop,
  peer and single-datagram errors are skipped, any other error ends the reader.
\<close>

fun udp_beside_pipe_step :: "reader_event \<Rightarrow> 'sk server \<Rightarrow> ('sk server \<times> label) option" where
  "udp_beside_pipe_step ev sv =
     (case (sv_reader sv, ev) of
        (RTop, Go) \<Rightarrow>
          if sv_cancel sv then Some (sv\<lparr>sv_reader := RExit\<rparr>, Tau)
          else (case take_buf sv of (buf, pool) \<Rightarrow>
                  Some (sv\<lparr>sv_pool := pool, sv_reader := RWait buf\<rparr>, Tau))
      | (RWait buf, SeenCancel) \<Rightarrow>
          if sv_cancel sv then Some ((pool_send buf sv)\<lparr>sv_reader := RExit\<rparr>, Tau) else None
      | (RWait buf, Got r) \<Rightarrow>
          (case read_into UdpSocket r buf of
             Inr (buf', len, source) \<Rightarrow>
               if len = 0 then Some ((pool_send buf' sv)\<lparr>sv_reader := RTop\<rparr>, Tau)
               else (case try_send_packet \<lparr>pk_buf = buf', pk_len = len, pk_source = source\<rparr> sv of
                       (sv', ok, l) \<Rightarrow> Some (sv'\<lparr>sv_reader := if ok then RTop else RExit\<rparr>, l))
           | Inl e \<Rightarrow>
               if is_connection_error e then Some ((pool_send buf sv)\<lparr>sv_reader := RTop\<rparr>, Tau)
               else if is_datagram_error e then Some ((pool_send buf sv)\<lparr>sv_reader := RTop\<rparr>, Tau)
               else Some ((pool_send buf sv)\<lparr>sv_reader := RExit\<rparr>, Tau))
      | _ \<Rightarrow> None)"

section \<open>The processor\<close>

datatype proc_event = Recv "nat \<Rightarrow> int \<times> int" | RecvNone | SawCancel | DropReceiver

text \<open>Processing one packet and returning its buffer to the pool when it is a pooled one.\<close>

definition handle_packet ::
  "'sk deps \<Rightarrow> string option \<Rightarrow> (nat \<Rightarrow> int \<times> int) \<Rightarrow> packet \<Rightarrow> 'sk server \<Rightarrow> 'sk server" where
  "handle_packet D namespace clk p sv =
     (case packet_data p of
        Panic \<Rightarrow> sv\<lparr>sv_proc := PPanicked\<rparr>
      | Ret data \<Rightarrow>
          let sv' = sv\<lparr>sv_mail := process_packet D clk namespace data (sv_mail sv)\<rparr>
          in if is_pooled (pk_source p) then pool_send (pk_buf p) sv' else sv')"

fun process_loop_step ::
  "'sk deps \<Rightarrow> string option \<Rightarrow> proc_event \<Rightarrow> 'sk server \<Rightarrow> ('sk server \<times> label) option" where
  "process_loop_step D namespace ev sv =
     (case (sv_proc sv, ev, sv_queue sv) of
        (PLoop, Recv clk, p # q) \<Rightarrow>
          Some (handle_packet D namespace clk p (sv\<lparr>sv_queue := q\<rparr>), Processed p)
      | (PLoop, RecvNone, []) \<Rightarrow>
          if sv_reader sv = RExit then Some (sv\<lparr>sv_proc := PDone\<rparr>, Tau) else None
      | (PLoop, SawCancel, _) \<Rightarrow> if sv_cancel sv then Some (sv\<lparr>sv_proc := PDrain\<rparr>, Tau) else None
      | (PDrain, Recv clk, p # q) \<Rightarrow>
          Some (handle_packet D namespace clk p (sv\<lparr>sv_queue := q\<rparr>), Processed p)
      | (PDrain, RecvNone, []) \<Rightarrow> Some (sv\<lparr>sv_proc := PDone\<rparr>, Tau)
      | (PDone, DropReceiver, _) \<Rightarrow> Some (sv\<lparr>sv_proc := PGone\<rparr>, Tau)
      | _ \<Rightarrow> None)"

section \<open>The server\<close>

text \<open>
  The two tasks interleave with the cancellation of the token and with the aggregator, which
  may receive a command or drop its end of the channel. A step is recorded with the event the reader
  met, if it was the reader's.
\<close>

type_synonym server_log = "(reader_event option \<times> label) list"

inductive server_step ::
  "(reader_event \<Rightarrow> 'sk server \<Rightarrow> ('sk server \<times> label) option) \<Rightarrow> 'sk deps \<Rightarrow> string option \<Rightarrow>
   'sk server \<Rightarrow> reader_event option \<times> label \<Rightarrow> 'sk server \<Rightarrow> bool" for rstep D namespace where
  reader: "rstep ev sv = Some (sv', l) \<Longrightarrow> server_step rstep D namespace sv (Some ev, l) sv'"
| processor: "process_loop_step D namespace pe sv = Some (sv', l) \<Longrightarrow> server_step rstep D namespace sv (None, l) sv'"
| cancel: "server_step rstep D namespace sv (None, Tau) (sv\<lparr>sv_cancel := True\<rparr>)"
| agg_recv: "mb_queue (sv_mail sv) = c # cs \<Longrightarrow>
    server_step rstep D namespace sv (None, Tau) (sv\<lparr>sv_mail := (sv_mail sv)\<lparr>mb_queue := cs\<rparr>\<rparr>)"
| agg_close: "server_step rstep D namespace sv (None, Tau) (sv\<lparr>sv_mail := (sv_mail sv)\<lparr>mb_open := False\<rparr>\<rparr>)"

definition server_init :: "dogstatsd \<Rightarrow> 'sk mailbox \<Rightarrow> 'sk server" where
  "server_init d mail =
     \<lparr>sv_cap = d_queue_size d, sv_buf_size = d_buf_size d, sv_queue = [], sv_pool = [],
      sv_dropped = 0, sv_cancel = False, sv_reader = RTop, sv_proc = PLoop, sv_mail = mail\<rparr>"


section \<open>What the server promises\<close>

fun packets_sent :: "label list \<Rightarrow> packet list" where
  "packets_sent [] = []"
| "packets_sent (Sent p # ls) = p # packets_sent ls"
| "packets_sent (_ # ls) = packets_sent ls"

fun packets_processed :: "label list \<Rightarrow> packet list" where
  "packets_processed [] = []"
| "packets_processed (Processed p # ls) = p # packets_processed ls"
| "packets_processed (_ # ls) = packets_processed ls"

fun packets_lost :: "label list \<Rightarrow> packet list" where
  "packets_lost [] = []"
| "packets_lost (Lost p # ls) = p # packets_lost ls"
| "packets_lost (_ # ls) = packets_lost ls"

fun packets_refused :: "label list \<Rightarrow> packet list" where
  "packets_refused [] = []"
| "packets_refused (Refused p # ls) = p # packets_refused ls"
| "packets_refused (_ # ls) = packets_refused ls"

text \<open>Every packet a reader hands on, whatever becomes of it, and what is in it.\<close>

fun handed_on :: "label list \<Rightarrow> packet list" where
  "handed_on [] = []"
| "handed_on (Sent p # ls) = p # handed_on ls"
| "handed_on (Lost p # ls) = p # handed_on ls"
| "handed_on (Refused p # ls) = p # handed_on ls"
| "handed_on (_ # ls) = handed_on ls"

definition contents :: "packet \<Rightarrow> string \<times> message_source" where
  "contents p = (take (pk_len p) (pk_buf p), pk_source p)"

text \<open>What a reader gets from the operating system with a buffer of \<open>n\<close> bytes; an empty datagram is nothing.\<close>

definition datagram :: "nat \<Rightarrow> reader_event \<Rightarrow> (string \<times> message_source) list" where
  "datagram n ev =
     (case ev of
        Got (OsOk data src) \<Rightarrow> if take n data = [] then [] else [(take n data, Network src)]
      | _ \<Rightarrow> [])"

definition datagrams :: "nat \<Rightarrow> server_log \<Rightarrow> (string \<times> message_source) list" where
  "datagrams n ls = concat (map (\<lambda>(ev, l). case ev of Some e \<Rightarrow> datagram n e | None \<Rightarrow> []) ls)"

lemma handed_on_append [simp]: "handed_on (ls @ ks) = handed_on ls @ handed_on ks"
  by (induction ls rule: handed_on.induct) auto

lemma handed_on_mset: "mset (handed_on ls) = mset (packets_sent ls) + mset (packets_lost ls) + mset (packets_refused ls)"
  by (induction ls rule: handed_on.induct) auto

lemma packets_append [simp]:
  "packets_sent (ls @ ks) = packets_sent ls @ packets_sent ks"
  "packets_processed (ls @ ks) = packets_processed ls @ packets_processed ks"
  "packets_lost (ls @ ks) = packets_lost ls @ packets_lost ks"
  "packets_refused (ls @ ks) = packets_refused ls @ packets_refused ks"
proof (induction ls)
  case (Cons l ls)
  case 1 then show ?case using Cons by (cases l) auto
  case 2 then show ?case using Cons by (cases l) auto
  case 3 then show ?case using Cons by (cases l) auto
  case 4 then show ?case using Cons by (cases l) auto
qed auto

text \<open>
  Buffers: every pooled buffer and the one the reader holds has the configured size, and every
  queued packet has data that lies inside its buffer.
\<close>

fun held_buf :: "reader_pc \<Rightarrow> string list" where
  "held_buf (RWait buf) = [buf]"
| "held_buf (RDrain buf) = [buf]"
| "held_buf _ = []"

definition wf_packet :: "nat \<Rightarrow> packet \<Rightarrow> bool" where
  "wf_packet n p \<longleftrightarrow> 0 < pk_len p \<and> pk_len p \<le> length (pk_buf p) \<and>
     (is_pooled (pk_source p) \<longrightarrow> length (pk_buf p) = n)"

definition wf_bufs :: "'sk server \<Rightarrow> bool" where
  "wf_bufs sv \<longleftrightarrow>
     (\<forall>buf\<in>set (sv_pool sv) \<union> set (held_buf (sv_reader sv)). length buf = sv_buf_size sv) \<and>
     (\<forall>p\<in>set (sv_queue sv). wf_packet (sv_buf_size sv) p)"

text \<open>What a reader may do in one step to the state it shares with the processor.\<close>

definition reader_effect :: "'sk server \<Rightarrow> label \<Rightarrow> 'sk server \<Rightarrow> bool" where
  "reader_effect sv l sv' \<longleftrightarrow>
     sv_cap sv' = sv_cap sv \<and> sv_buf_size sv' = sv_buf_size sv \<and> sv_proc sv' = sv_proc sv \<and>
     sv_cancel sv' = sv_cancel sv \<and> sv_mail sv' = sv_mail sv \<and>
     (case l of
        Tau \<Rightarrow> sv_queue sv' = sv_queue sv \<and> sv_dropped sv' = sv_dropped sv
      | Sent p \<Rightarrow> sv_queue sv' = sv_queue sv @ [p] \<and> length (sv_queue sv) < sv_cap sv \<and>
                 sv_dropped sv' = sv_dropped sv
      | Lost p \<Rightarrow> sv_queue sv' = sv_queue sv \<and> sv_cap sv \<le> length (sv_queue sv) \<and>
                 sv_dropped sv' = sv_dropped sv + 1
      | Refused p \<Rightarrow> sv_queue sv' = sv_queue sv \<and> rx_closed sv \<and> sv_dropped sv' = sv_dropped sv
      | Processed p \<Rightarrow> False)"

locale packet_reader =
  fixes rstep :: "reader_event \<Rightarrow> 'sk server \<Rightarrow> ('sk server \<times> label) option"
  assumes r_effect: "rstep ev sv = Some (sv', l) \<Longrightarrow> reader_effect sv l sv'"
    and r_bufs: "rstep ev sv = Some (sv', l) \<Longrightarrow> wf_bufs sv \<Longrightarrow> wf_bufs sv'"

definition server_ok :: "'sk server \<Rightarrow> bool" where
  "server_ok sv \<longleftrightarrow> wf_bufs sv \<and> length (sv_queue sv) \<le> sv_cap sv \<and> sv_proc sv \<noteq> PPanicked"

lemma handle_packet_ok:
  assumes "wf_packet (sv_buf_size sv) p"
  shows "handle_packet D ns clk p sv =
    sv\<lparr>sv_mail := process_packet D clk ns (take (pk_len p) (pk_buf p)) (sv_mail sv),
       sv_pool := sv_pool sv @ (if is_pooled (pk_source p) then [pk_buf p] else [])\<rparr>"
  using assms by (simp add: handle_packet_def packet_data_def wf_packet_def pool_send_def Let_def)

lemma process_loop_step_cases:
  assumes "process_loop_step D ns pe sv = Some (sv', l)"
  obtains (tau) pc where "l = Tau" "pc \<noteq> PPanicked" "sv' = sv\<lparr>sv_proc := pc\<rparr>" "\<not> rx_closed sv"
  | (packet) p q clk where "l = Processed p" "sv_queue sv = p # q" "\<not> rx_closed sv"
      "sv' = handle_packet D ns clk p (sv\<lparr>sv_queue := q\<rparr>)"
  using assms
  by (auto split: proc_pc.splits proc_event.splits list.splits if_splits)

text \<open>The effect of one step of the whole server on its queue and its counters.\<close>

definition server_effect :: "'sk server \<Rightarrow> label \<Rightarrow> 'sk server \<Rightarrow> bool" where
  "server_effect sv l sv' \<longleftrightarrow>
     server_ok sv' \<and> sv_cap sv' = sv_cap sv \<and>
     packets_processed [l] @ sv_queue sv' = sv_queue sv @ packets_sent [l] \<and>
     sv_dropped sv' = sv_dropped sv + of_nat (length (packets_lost [l])) \<and>
     sv_buf_size sv' = sv_buf_size sv \<and> (rx_closed sv \<or> packets_refused [l] \<noteq> [] \<longrightarrow> rx_closed sv')"

lemma process_loop_effect:
  assumes "process_loop_step D ns pe sv = Some (sv', l)" "server_ok sv"
  shows "server_effect sv l sv'"
  using assms(1)
proof (cases rule: process_loop_step_cases)
  case (tau pc)
  then show ?thesis using assms(2) by (simp add: server_effect_def server_ok_def wf_bufs_def)
next
  case (packet p q clk)
  have wf: "wf_packet (sv_buf_size (sv\<lparr>sv_queue := q\<rparr>)) p"
    using assms(2) packet(2) by (simp add: server_ok_def wf_bufs_def)
  show ?thesis
    using assms(2) packet(1-3) wf unfolding packet(4) handle_packet_ok [OF wf]
    by (auto simp: server_effect_def server_ok_def wf_bufs_def wf_packet_def)
qed

context packet_reader
begin

lemma reader_ok:
  assumes "rstep ev sv = Some (sv', l)" "server_ok sv"
  shows "server_effect sv l sv'"
  using r_effect [OF assms(1)] r_bufs [OF assms(1)] assms(2)
  by (cases l) (auto simp: server_effect_def server_ok_def reader_effect_def)

lemma step_effect:
  assumes "server_step rstep D ns sv l sv'" "server_ok sv"
  shows "server_effect sv (snd l) sv'"
  using assms(1)
proof cases
  case (reader ev l)
  then show ?thesis using reader_ok assms(2) by simp
next
  case (processor pe l)
  then show ?thesis using process_loop_effect assms(2) by simp
qed (use assms(2) in \<open>auto simp: server_effect_def server_ok_def wf_bufs_def\<close>)

text \<open>
  Whatever the interleaving, the queue never exceeds its capacity, packets are processed in the
  order they were queued, each once, those not processed are still queued, the counter has
  the number of packets dropped because the queue was full, and none is refused by an open queue.
\<close>

lemma run_effect:
  assumes "run (server_step rstep D ns) sv ls sv'" "server_ok sv"
  shows "server_ok sv' \<and> sv_cap sv' = sv_cap sv \<and> sv_buf_size sv' = sv_buf_size sv \<and>
    packets_processed (map snd ls) @ sv_queue sv' = sv_queue sv @ packets_sent (map snd ls) \<and>
    sv_dropped sv' = sv_dropped sv + of_nat (length (packets_lost (map snd ls))) \<and>
    (packets_refused (map snd ls) \<noteq> [] \<longrightarrow> rx_closed sv')"
  using assms
proof (induction rule: run.induct)
  case (run_snoc sv ls sv1 l sv2)
  then have IH: "server_ok sv1" "sv_cap sv1 = sv_cap sv" "sv_buf_size sv1 = sv_buf_size sv"
      "packets_processed (map snd ls) @ sv_queue sv1 = sv_queue sv @ packets_sent (map snd ls)"
      "sv_dropped sv1 = sv_dropped sv + of_nat (length (packets_lost (map snd ls)))"
      "packets_refused (map snd ls) \<noteq> [] \<longrightarrow> rx_closed sv1" by blast+
  from step_effect [OF run_snoc.hyps(2) IH(1)]
  have e: "server_ok sv2" "sv_cap sv2 = sv_cap sv1" "sv_buf_size sv2 = sv_buf_size sv1"
      "packets_processed [snd l] @ sv_queue sv2 = sv_queue sv1 @ packets_sent [snd l]"
      "sv_dropped sv2 = sv_dropped sv1 + of_nat (length (packets_lost [snd l]))"
      "rx_closed sv1 \<or> packets_refused [snd l] \<noteq> [] \<longrightarrow> rx_closed sv2"
    by (auto simp: server_effect_def)
  have "packets_processed (map snd (ls @ [l])) @ sv_queue sv2 =
      packets_processed (map snd ls) @ sv_queue sv1 @ packets_sent [snd l]" using e(4) by simp
  also have "\<dots> = sv_queue sv @ packets_sent (map snd (ls @ [l]))" using IH(4) by simp
  finally have "packets_processed (map snd (ls @ [l])) @ sv_queue sv2 = sv_queue sv @ packets_sent (map snd (ls @ [l]))" .
  moreover have "packets_refused (map snd (ls @ [l])) \<noteq> [] \<longrightarrow> rx_closed sv2"
    using IH(6) e(6) by (metis append_is_Nil_conv list.simps(8,9) map_append packets_append(4))
  ultimately show ?case using IH e by simp
qed simp

end

text \<open>A reader that hands on all it gets, and nothing else.\<close>

locale datagram_reader = packet_reader rstep
  for rstep :: "reader_event \<Rightarrow> 'sk server \<Rightarrow> ('sk server \<times> label) option" +
  assumes r_reads: "rstep ev sv = Some (sv', l) \<Longrightarrow> wf_bufs sv \<Longrightarrow>
    map contents (handed_on [l]) = datagram (sv_buf_size sv) ev"
begin

lemma run_reads:
  assumes "run (server_step rstep D ns) sv ls sv'" "server_ok sv"
  shows "map contents (handed_on (map snd ls)) = datagrams (sv_buf_size sv) ls"
  using assms
proof (induction rule: run.induct)
  case (run_snoc sv ls sv1 l sv2)
  note e = run_effect [OF run_snoc.hyps(1) run_snoc.prems]
  have "map contents (handed_on [snd l]) = (case fst l of Some ev \<Rightarrow> datagram (sv_buf_size sv) ev | None \<Rightarrow> [])"
    using run_snoc.hyps(2)
  proof cases
    case (reader ev k)
    then show ?thesis using r_reads [OF reader(2)] e by (simp add: server_ok_def)
  next
    case (processor pe k)
    then show ?thesis by (cases rule: process_loop_step_cases [OF processor(2)]) simp_all
  qed simp_all
  then show ?case using run_snoc.IH [OF run_snoc.prems] by (simp add: datagrams_def split_def)
qed (simp add: datagrams_def)

end

section \<open>The two readers\<close>

lemma fill_buf_len: "fill_buf d buf = (buf', n) \<Longrightarrow> length buf' = length buf \<and> n \<le> length buf'"
  by (auto simp: fill_buf_def Let_def)

lemma read_into_len:
  "read_into rd r buf = Inr (buf', n, src) \<Longrightarrow> length buf' = length buf \<and> n \<le> length buf' \<and> is_pooled src"
  by (cases rd; cases r) (auto dest: fill_buf_len split: prod.splits)

lemma try_read_into_len:
  "try_read_into rd r buf = Inr (Some (buf', n, src)) \<Longrightarrow>
   length buf' = length buf \<and> n \<le> length buf' \<and> is_pooled src"
  by (cases rd; cases r) (auto dest: fill_buf_len split: prod.splits if_splits)

lemma try_send_effect:
  "try_send_packet p sv = (sv', ok, l) \<Longrightarrow> reader_effect sv l (sv'\<lparr>sv_reader := pc\<rparr>)"
  by (auto simp: try_send_packet_def reader_effect_def pool_send_def split: if_splits)

text \<open>The buffers without the one the reader holds.\<close>

definition wf_pool :: "'sk server \<Rightarrow> bool" where
  "wf_pool sv \<longleftrightarrow> (\<forall>buf\<in>set (sv_pool sv). length buf = sv_buf_size sv) \<and>
     (\<forall>p\<in>set (sv_queue sv). wf_packet (sv_buf_size sv) p)"

lemma wf_bufs_pool:
  "wf_bufs sv \<longleftrightarrow> wf_pool sv \<and> (\<forall>buf\<in>set (held_buf (sv_reader sv)). length buf = sv_buf_size sv)"
  by (auto simp: wf_bufs_def wf_pool_def)

lemma wf_pool_simps:
  "wf_pool (sv\<lparr>sv_reader := pc\<rparr>) = wf_pool sv"
  "wf_pool (pool_send buf sv) \<longleftrightarrow> wf_pool sv \<and> length buf = sv_buf_size sv"
  "sv_buf_size (pool_send buf sv) = sv_buf_size sv"
  by (auto simp: wf_pool_def pool_send_def)

lemma take_buf_pool:
  "take_buf sv = (buf, pool) \<Longrightarrow> wf_pool sv \<Longrightarrow>
   length buf = sv_buf_size sv \<and> wf_pool (sv\<lparr>sv_pool := pool, sv_reader := pc\<rparr>)"
  by (auto simp: take_buf_def wf_pool_def split: list.splits)

lemma try_send_pool:
  "try_send_packet p sv = (sv', ok, l) \<Longrightarrow> wf_pool sv \<Longrightarrow> wf_packet (sv_buf_size sv) p \<Longrightarrow>
   is_pooled (pk_source p) \<Longrightarrow> wf_pool sv'"
  by (auto simp: try_send_packet_def wf_pool_def wf_packet_def pool_send_def split: if_splits)

lemma read_packet_pool:
  "read_into rd r buf = Inr (buf', n, src) \<Longrightarrow> length buf = sv_buf_size sv \<Longrightarrow> 0 < n \<Longrightarrow> wf_pool sv \<Longrightarrow>
   try_send_packet \<lparr>pk_buf = buf', pk_len = n, pk_source = src\<rparr> sv = (sv', ok, l) \<Longrightarrow> wf_pool sv'"
  "try_read_into rd r buf = Inr (Some (buf', n, src)) \<Longrightarrow> length buf = sv_buf_size sv \<Longrightarrow> 0 < n \<Longrightarrow> wf_pool sv \<Longrightarrow>
   try_send_packet \<lparr>pk_buf = buf', pk_len = n, pk_source = src\<rparr> sv = (sv', ok, l) \<Longrightarrow> wf_pool sv'"
  by (erule try_send_pool; auto simp: wf_packet_def dest: read_into_len try_read_into_len)+

lemma tau_effect:
  "reader_effect sv Tau (sv\<lparr>sv_reader := pc\<rparr>)"
  "reader_effect sv Tau (sv\<lparr>sv_pool := pool, sv_reader := pc\<rparr>)"
  "reader_effect sv Tau ((pool_send buf sv)\<lparr>sv_reader := pc\<rparr>)"
  by (simp_all add: reader_effect_def pool_send_def)

lemma read_loop_effect:
  "read_loop_step rd ev sv = Some (sv', l) \<Longrightarrow> reader_effect sv l sv'"
  by (auto simp: tau_effect try_send_effect split: reader_pc.splits reader_event.splits prod.splits
      sum.splits option.splits if_splits)

lemma read_loop_bufs:
  assumes "read_loop_step rd ev sv = Some (sv', l)" "wf_bufs sv"
  shows "wf_bufs sv'"
  using assms
  by (auto simp: wf_bufs_pool wf_pool_simps intro: read_packet_pool
      dest: take_buf_pool read_into_len try_read_into_len
      split: reader_pc.splits reader_event.splits prod.splits sum.splits option.splits if_splits)

lemma udp_beside_pipe_effect:
  "udp_beside_pipe_step ev sv = Some (sv', l) \<Longrightarrow> reader_effect sv l sv'"
  by (auto simp: tau_effect try_send_effect split: reader_pc.splits reader_event.splits prod.splits
      sum.splits option.splits if_splits)

lemma udp_beside_pipe_bufs:
  assumes "udp_beside_pipe_step ev sv = Some (sv', l)" "wf_bufs sv"
  shows "wf_bufs sv'"
  using assms
  by (auto simp: wf_bufs_pool wf_pool_simps intro: read_packet_pool dest: take_buf_pool read_into_len
      split: reader_pc.splits reader_event.splits prod.splits sum.splits if_splits)

text \<open>Both readers of datagrams hand on exactly what they get.\<close>

lemma fill_buf_datagram:
  assumes "fill_buf data buf = (buf', n)" "length buf = k"
  shows "take n buf' = take k data \<and> (n = 0 \<longleftrightarrow> take k data = [])"
proof -
  have "n = min (length data) k" "buf' = take n data @ drop n buf" using assms by (auto simp: fill_buf_def Let_def)
  then show ?thesis by (cases "length data \<le> k") (auto simp: min_absorb1 min_absorb2)
qed

lemma try_send_handed:
  "try_send_packet p sv = (sv', ok, l) \<Longrightarrow> handed_on [l] = [p]"
  by (auto simp: try_send_packet_def split: if_splits)

lemma read_loop_reads:
  assumes "read_loop_step UdpSocket ev sv = Some (sv', l)" "wf_bufs sv"
  shows "map contents (handed_on [l]) = datagram (sv_buf_size sv) ev"
  using assms
  by (auto simp: wf_bufs_pool datagram_def contents_def try_send_handed dest!: fill_buf_datagram
      split: reader_pc.splits reader_event.splits os_read.splits prod.splits sum.splits option.splits if_splits)

lemma udp_beside_pipe_reads:
  assumes "udp_beside_pipe_step ev sv = Some (sv', l)" "wf_bufs sv"
  shows "map contents (handed_on [l]) = datagram (sv_buf_size sv) ev"
  using assms
  by (auto simp: wf_bufs_pool datagram_def contents_def try_send_handed dest!: fill_buf_datagram
      split: reader_pc.splits reader_event.splits os_read.splits prod.splits sum.splits if_splits)

interpretation rl: packet_reader "read_loop_step rd" for rd
  by unfold_locales (rule read_loop_effect read_loop_bufs; assumption)+

interpretation ub: packet_reader udp_beside_pipe_step
  by unfold_locales (rule udp_beside_pipe_effect udp_beside_pipe_bufs; assumption)+

interpretation dl: datagram_reader "read_loop_step UdpSocket"
  by unfold_locales (rule read_loop_reads; assumption)

interpretation db: datagram_reader udp_beside_pipe_step
  by unfold_locales (rule udp_beside_pipe_reads; assumption)

section \<open>Properties\<close>

lemma server_init_ok: "server_ok (server_init d mail)"
  by (simp add: server_ok_def server_init_def wf_bufs_def)

text \<open>
  C7. In every interleaving of the reader, the processor, a cancellation and the aggregator, for
  the reader of either server: every datagram the reader gets, cut to its buffer, is handed on once, in
  order, and nothing else is; what is handed on has been processed, is still queued, was dropped because
  the queue was full, or was refused because the receiver was gone. Packets are processed in the order
  they were queued, each once; the counter of drops is the number of those that found the queue full;
  none is refused while the receiver exists; the queue stays within its capacity; and the processor never
  panics on the bounds of a packet's buffer.
\<close>

theorem server_conservation:
  assumes "rstep = udp_beside_pipe_step \<or> rstep = read_loop_step UdpSocket"
    and "run (server_step rstep D namespace) (server_init d mail) steps sv"
  defines "ls \<equiv> map snd steps"
  shows "datagrams (d_buf_size d) steps = map contents (handed_on ls) \<and>
    mset (handed_on ls) =
      mset (packets_processed ls) + mset (sv_queue sv) + mset (packets_lost ls) + mset (packets_refused ls) \<and>
    packets_processed ls @ sv_queue sv = packets_sent ls \<and>
    sv_dropped sv = of_nat (length (packets_lost ls)) \<and>
    (packets_refused ls = [] \<or> rx_closed sv) \<and>
    length (sv_queue sv) \<le> d_queue_size d \<and> sv_proc sv \<noteq> PPanicked"
proof -
  let ?init = "server_init d mail"
  have init: "sv_cap ?init = d_queue_size d" "sv_buf_size ?init = d_buf_size d" "sv_queue ?init = []" "sv_dropped ?init = 0"
    by (simp_all add: server_init_def)
  from assms(1) have "server_ok sv \<and> sv_cap sv = sv_cap ?init \<and> sv_buf_size sv = sv_buf_size ?init \<and>
      packets_processed ls @ sv_queue sv = sv_queue ?init @ packets_sent ls \<and>
      sv_dropped sv = sv_dropped ?init + of_nat (length (packets_lost ls)) \<and> (packets_refused ls \<noteq> [] \<longrightarrow> rx_closed sv) \<and>
      map contents (handed_on ls) = datagrams (sv_buf_size ?init) steps"
  proof
    assume r: "rstep = udp_beside_pipe_step"
    show ?thesis using ub.run_effect [OF assms(2) [unfolded r] server_init_ok] db.run_reads [OF assms(2) [unfolded r] server_init_ok]
      unfolding ls_def by blast
  next
    assume r: "rstep = read_loop_step UdpSocket"
    show ?thesis using rl.run_effect [OF assms(2) [unfolded r] server_init_ok] dl.run_reads [OF assms(2) [unfolded r] server_init_ok]
      unfolding ls_def by blast
  qed
  moreover from this have "mset (packets_sent ls) = mset (packets_processed ls) + mset (sv_queue sv)"
    unfolding init(3) by (metis append_Nil mset_append)
  ultimately show ?thesis by (auto simp: init server_ok_def handed_on_mset)
qed

lemma drain_run:
  assumes "server_ok sv" "sv_proc sv = PDrain"
  shows "\<exists>ls sv'. run (server_step rstep D namespace) sv ls sv' \<and> sv_proc sv' = PDone \<and>
    packets_processed (map snd ls) = sv_queue sv \<and> sv_queue sv' = []"
  using assms
proof (induction "sv_queue sv" arbitrary: sv)
  case Nil
  have "server_step rstep D namespace sv (None, Tau) (sv\<lparr>sv_proc := PDone\<rparr>)"
    using Nil by (intro server_step.processor [of _ _ RecvNone]) simp
  then show ?case using Nil(1) by (intro exI [of _ "[(None, Tau)]"] exI [of _ "sv\<lparr>sv_proc := PDone\<rparr>"]) (simp add: run_single)
next
  case (Cons p q)
  let ?clk = "\<lambda>i. (0, 0)"
  let ?sv = "handle_packet D namespace ?clk p (sv\<lparr>sv_queue := q\<rparr>)"
  have wf: "wf_packet (sv_buf_size (sv\<lparr>sv_queue := q\<rparr>)) p"
    using Cons(2,3) by (auto simp: server_ok_def wf_bufs_def simp flip: Cons(2))
  have ps: "process_loop_step D namespace (Recv ?clk) sv = Some (?sv, Processed p)"
    using Cons(4) by (simp flip: Cons(2))
  have "server_ok ?sv" "q = sv_queue ?sv" "sv_proc ?sv = PDrain"
    using process_loop_effect [OF ps Cons(3)] Cons(4)
    by (simp_all add: server_effect_def handle_packet_ok [OF wf])
  from Cons(1) [OF this(2,1,3)] obtain ls sv' where r: "run (server_step rstep D namespace) ?sv ls sv'"
      "sv_proc sv' = PDone" "packets_processed (map snd ls) = q" "sv_queue sv' = []"
    using \<open>q = sv_queue ?sv\<close> by metis
  have "run (server_step rstep D namespace) sv ([(None, Processed p)] @ ls) sv'"
    using run_append [OF r(1) run_single [of "server_step rstep D namespace", OF server_step.processor [OF ps]]] .
  then show ?case using r by (intro exI [of _ "[(None, Processed p)] @ ls"] exI [of _ sv']) (simp flip: Cons(2))
qed

text \<open>
  After a cancellation the processor can always finish on its own: from every reachable
  state in which it drains the queue it gets out of its loop, having processed every packet that
  was still queued.
\<close>

theorem drain_finishes:
  assumes "run (server_step (read_loop_step rd) D namespace) (server_init d mail) ls sv"
    and "sv_proc sv = PDrain"
  shows "\<exists>ks sv'. run (server_step (read_loop_step rd) D namespace) sv ks sv' \<and>
    sv_proc sv' = PDone \<and> packets_processed (map snd (ls @ ks)) = packets_sent (map snd ls) \<and> sv_queue sv' = []"
proof -
  note e = rl.run_effect [OF assms(1) server_init_ok]
  then obtain ks sv' where k: "run (server_step (read_loop_step rd) D namespace) sv ks sv'"
      "sv_proc sv' = PDone" "packets_processed (map snd ks) = sv_queue sv" "sv_queue sv' = []"
    using drain_run [of sv "read_loop_step rd" D namespace] assms(2) by blast
  have "packets_processed (map snd (ls @ ks)) = packets_sent (map snd ls)" using e k(3) by (simp add: server_init_def)
  then show ?thesis using k by blast
qed

section \<open>Scheduled runs\<close>

declare read_loop_step.simps [simp del] process_loop_step.simps [simp del]

text \<open>An executable scheduler: the log and the state after a given sequence of actions.\<close>

datatype action = DoReader reader_event | DoProc proc_event | DoCancel

fun met :: "action \<Rightarrow> reader_event option" where
  "met (DoReader ev) = Some ev"
| "met _ = None"

fun sched ::
  "buffer_reader \<Rightarrow> 'sk deps \<Rightarrow> string option \<Rightarrow> action list \<Rightarrow> 'sk server \<Rightarrow> (server_log \<times> 'sk server) option" where
  "sched rd D namespace [] sv = Some ([], sv)"
| "sched rd D namespace (act # acts) sv =
     (case (case act of
              DoReader ev \<Rightarrow> read_loop_step rd ev sv
            | DoProc pe \<Rightarrow> process_loop_step D namespace pe sv
            | DoCancel \<Rightarrow> Some (sv\<lparr>sv_cancel := True\<rparr>, Tau)) of
        None \<Rightarrow> None
      | Some (sv', l) \<Rightarrow>
          (case sched rd D namespace acts sv' of
             None \<Rightarrow> None | Some (ls, sv'') \<Rightarrow> Some ((met act, l) # ls, sv'')))"

lemma sched_run:
  "sched rd D namespace acts sv = Some (ls, sv') \<Longrightarrow>
   run (server_step (read_loop_step rd) D namespace) sv ls sv'"
proof (induction acts arbitrary: sv ls)
  case (Cons act acts)
  then obtain sv1 l ks where s: "(case act of
              DoReader ev \<Rightarrow> read_loop_step rd ev sv
            | DoProc pe \<Rightarrow> process_loop_step D namespace pe sv
            | DoCancel \<Rightarrow> Some (sv\<lparr>sv_cancel := True\<rparr>, Tau)) = Some (sv1, l)"
      "sched rd D namespace acts sv1 = Some (ks, sv')" "ls = (met act, l) # ks"
    by (auto split: option.splits prod.splits)
  have "server_step (read_loop_step rd) D namespace sv (met act, l) sv1"
    using s(1) by (cases act) (auto intro: server_step.intros)
  from run_append [OF Cons.IH [OF s(2)] run_single [of "server_step (read_loop_step rd) D namespace", OF this]]
  show ?case using s(3) by simp
qed (simp add: run_nil)

definition late_config :: dogstatsd where
  "late_config = \<lparr>d_transport = Reader, d_metric_namespace = None, d_buf_size = 4, d_queue_size = 2\<rparr>"

definition late_start :: "fl list server" where
  "late_start = server_init late_config \<lparr>mb_queue = [], mb_open = True\<rparr>"

definition late_acts :: "action list" where
  "late_acts =
     [DoReader Go, DoReader (Got (OsOk ''a'' ''x'')), DoReader Go, DoCancel, DoProc SawCancel,
      DoProc (Recv (\<lambda>i. (0, 0))), DoProc RecvNone, DoReader (Got (OsOk ''b'' ''x'')), DoProc DropReceiver]"

definition late_end :: "(server_log \<times> fl list server) option" where
  "late_end = sched UdpSocket sample_deps None late_acts late_start"

lemma late_end_facts:
  "\<exists>ls sv. late_end = Some (ls, sv) \<and> sv_proc sv = PGone \<and> sv_cancel sv \<and>
     length (packets_sent (map snd ls)) = 2 \<and> length (packets_processed (map snd ls)) = 1"
proof -
  have "(case late_end of None \<Rightarrow> False | Some (ls, sv) \<Rightarrow> sv_proc sv = PGone \<and> sv_cancel sv \<and>
     length (packets_sent (map snd ls)) = 2 \<and> length (packets_processed (map snd ls)) = 1)" by code_simp
  then show ?thesis by (auto split: option.splits)
qed

text \<open>
  The drain at cancellation does not save every packet already read: there is a run in which
  the token is cancelled, the processor drains the queue and ends, and a packet that the reader
  queued meanwhile is never processed. (The reader looks at the token only at the top of its
  loop and while it waits, not while it drains the socket.)
\<close>

theorem late_packet_lost:
  "\<exists>ls sv. run (server_step (read_loop_step UdpSocket) sample_deps None)
       (server_init late_config \<lparr>mb_queue = [], mb_open = True\<rparr>) ls sv \<and>
     sv_cancel sv \<and> sv_proc sv = PGone \<and> length (packets_sent (map snd ls)) = 2 \<and> length (packets_processed (map snd ls)) = 1"
proof -
  obtain ls sv where l: "late_end = Some (ls, sv)" "sv_proc sv = PGone" "sv_cancel sv"
      "length (packets_sent (map snd ls)) = 2" "length (packets_processed (map snd ls)) = 1"
    using late_end_facts by blast
  show ?thesis
    using sched_run [OF l(1) [unfolded late_end_def late_start_def]] l(2-) by blast
qed

section \<open>Concrete instances\<close>

theorem server_conservation_witness:
  "\<exists>ls sv. late_end = Some (ls, sv) \<and> length (sv_queue sv) \<le> 2 \<and>
     packets_processed (map snd ls) @ sv_queue sv = packets_sent (map snd ls)"
proof -
  obtain ls sv where l: "late_end = Some (ls, sv)" using late_end_facts by blast
  have "length (sv_queue sv) \<le> d_queue_size late_config \<and> packets_processed (map snd ls) @ sv_queue sv = packets_sent (map snd ls)"
    using server_conservation [OF _ sched_run [OF l [unfolded late_end_def late_start_def]]] by blast
  then have "length (sv_queue sv) \<le> 2 \<and> packets_processed (map snd ls) @ sv_queue sv = packets_sent (map snd ls)"
    by (simp add: late_config_def)
  then show ?thesis using l by blast
qed

definition drain_acts :: "action list" where
  "drain_acts = [DoReader Go, DoReader (Got (OsOk ''a'' ''x'')), DoCancel, DoProc SawCancel]"

theorem drain_finishes_witness:
  "\<exists>ls sv ks sv'. sched UdpSocket sample_deps None drain_acts late_start = Some (ls, sv) \<and>
     run (server_step (read_loop_step UdpSocket) sample_deps None) sv ks sv' \<and> sv_proc sv' = PDone \<and>
     packets_processed (map snd (ls @ ks)) = packets_sent (map snd ls)"
proof -
  have "(case sched UdpSocket sample_deps None drain_acts late_start of
      None \<Rightarrow> False | Some (ls, sv) \<Rightarrow> sv_proc sv = PDrain)" by code_simp
  then obtain ls sv where l: "sched UdpSocket sample_deps None drain_acts late_start = Some (ls, sv)"
      "sv_proc sv = PDrain" by (auto split: option.splits)
  from drain_finishes [OF sched_run [OF l(1) [unfolded late_start_def]] l(2)] l(1)
  show ?thesis by blast
qed

end
