(* ===== verification/Decimal.thy ===== *)
theory Decimal
  imports Floats
begin

text \<open>Printing unsigned integers in decimal, environment variables, case folding, splitting at white space and hash maps, shared by the configurations.\<close>

fun show_nat :: "nat \<Rightarrow> string" where
  "show_nat n = (if n < 10 then [char_of (48 + n)] else show_nat (n div 10) @ [char_of (48 + n mod 10)])"

declare show_nat.simps [simp del]

lemma digits_val_snoc: "digits_val (s @ [c]) = 10 * digits_val s + digit_val c"
  by (simp add: digits_val_def)

lemma show_nat_digits: "digits_val (show_nat n) = n \<and> list_all is_ascii_digit (show_nat n) \<and> show_nat n \<noteq> []"
proof (induction n rule: show_nat.induct)
  case (1 n)
  have d: "digit_val (char_of (48 + k)) = k" "is_ascii_digit (char_of (48 + k))" if "k < 10" for k
    using that by (simp_all add: digit_val_def byte_def is_ascii_digit_def)
  show ?case
  proof (cases "n < 10")
    case True
    then show ?thesis using d by (subst (1 2 3) show_nat.simps) (simp add: digits_val_def)
  next
    case False
    then show ?thesis using 1 d [of "n mod 10"] by (subst (1 2 3) show_nat.simps) (simp add: digits_val_snoc)
  qed
qed

text \<open>Parsing a printed number gives it back.\<close>

lemma parse_show_nat: "n \<le> hi \<Longrightarrow> parse_unsigned hi (show_nat n) = Some n"
proof -
  assume n: "n \<le> hi"
  obtain c r where c: "show_nat n = c # r" "is_ascii_digit c"
    using show_nat_digits [of n] by (cases "show_nat n") auto
  then have "c \<noteq> CHR ''+''" by (auto simp: is_ascii_digit_def byte_def)
  then show ?thesis using show_nat_digits [of n] c n by (simp add: parse_unsigned_def Let_def)
qed

lemma show_nat_inj: "show_nat m = show_nat n \<Longrightarrow> m = n"
  using show_nat_digits by metis

text \<open>
  \<open>std::env::var\<close>: \<open>None\<close> for a variable that is not set or not UTF-8. Comparing
  \<open>to_lowercase\<close> of a value with a literal without \<open>k\<close> is comparing its ASCII letters folded: no
  other character has a lower case made of such letters only.
\<close>

type_synonym env_vars = "string \<Rightarrow> string option"

definition lower_is :: "string \<Rightarrow> string \<Rightarrow> bool" where
  "lower_is v lit \<longleftrightarrow> map to_ascii_lower v = lit"

definition i32_min :: int where "i32_min = - (2 ^ 31)"
definition i32_max :: int where "i32_max = 2 ^ 31 - 1"
definition usize_max :: nat where "usize_max = 2 ^ 64 - 1"

text \<open>\<open>str::split_whitespace\<close>, with the word read so far.\<close>

function split_ws_from :: "string \<Rightarrow> string \<Rightarrow> string list" where
  "split_ws_from w [] = (if w = [] then [] else [w])"
| "split_ws_from w (c # s) =
     (if ws_prefix (c # s) > 0
      then (if w = [] then [] else [w]) @ split_ws_from [] (drop (ws_prefix (c # s)) (c # s))
      else split_ws_from (w @ [c]) s)"
  by pat_completeness auto
termination
  by (relation "measure (\<lambda>(w, s). length s)") auto

definition split_whitespace :: "string \<Rightarrow> string list" where
  "split_whitespace s = split_ws_from [] s"

text \<open>\<open>HashMap::insert\<close>.\<close>

fun hm_insert :: "'k \<Rightarrow> 'v \<Rightarrow> ('k \<times> 'v) list \<Rightarrow> ('k \<times> 'v) list" where
  "hm_insert k v [] = [(k, v)]"
| "hm_insert k v ((k', v') # m) = (if k' = k then (k', v) # m else (k', v') # hm_insert k v m)"

end
