(* ===== verification/Dsd_Transports.thy ===== *)
theory Dsd_Transports
  imports Dsd_Server Decimal
begin

text \<open>
  \<^verbatim>\<open>dogstatsd/src/dogstatsd.rs\<close>: creating the UDP socket, and \<^verbatim>\<open>spin_named_pipe\<close>, the server with a named
  pipe and UDP beside it: the task that accepts pipe clients, the client tasks, the UDP reader and the
  processor of \<open>Dsd_Server\<close> share one queue, and a supervisor stops everything when one transport ends
  on its own.
\<close>

section \<open>The UDP socket\<close>

text \<open>
  What the resolver and the operating system answer; an error is its message. \<open>'a\<close> is a resolved address.
  The sizes and limits that are only logged are left out.
\<close>

record 'a udp_env =
  ue_lookup :: "string \<Rightarrow> string + 'a list"
  ue_new_ipv4 :: "string option"
  ue_set_recv_buffer_size :: "nat \<Rightarrow> string option"
  ue_set_nonblocking :: "string option"
  ue_bind :: "'a \<Rightarrow> string option"
  ue_from_std :: "string option"

record 'a udp_socket =
  us_addr :: 'a
  us_rcvbuf :: "nat option"

definition or_fail :: "string option \<Rightarrow> (string + 'b) \<Rightarrow> string + 'b" where
  "or_fail e k = (case e of Some err \<Rightarrow> Inl err | None \<Rightarrow> k)"

definition create_udp_socket :: "'a udp_env \<Rightarrow> string \<Rightarrow> nat option \<Rightarrow> string + 'a udp_socket" where
  "create_udp_socket E addr so_rcvbuf =
     (case ue_lookup E addr of
        Inl err \<Rightarrow> Inl err
      | Inr [] \<Rightarrow> Inl (''Could not resolve address '' @ [CHR 0x27] @ addr @ [CHR 0x27])
      | Inr (socket_addr # _) \<Rightarrow>
          or_fail (ue_new_ipv4 E)
            (or_fail (Option.bind so_rcvbuf (ue_set_recv_buffer_size E))
              (or_fail (ue_set_nonblocking E)
                (or_fail (ue_bind E socket_addr)
                  (or_fail (ue_from_std E) (Inr \<lparr>us_addr = socket_addr, us_rcvbuf = so_rcvbuf\<rparr>))))))"

definition dogstatsd_start :: "bool \<Rightarrow> 'a udp_env \<Rightarrow> dogstatsd_config \<Rightarrow> dogstatsd rust" where
  "dogstatsd_start windows E config =
     dogstatsd_new windows
       (case create_udp_socket E (c_host config @ '':'' @ show_nat (c_port config)) (c_so_rcvbuf config) of
          Inl e \<Rightarrow> False | Inr socket \<Rightarrow> True)
       config"

section \<open>The transports beside each other\<close>

text \<open>
  The task that accepts clients of the pipe: at the top of its loop, asleep after it could not create the
  pipe, waiting for a client, or gone.
\<close>

datatype pipe_server_pc = PsTop | PsSleeping | PsConnecting | PsExit

datatype pipe_event = PsCreate bool | PsSlept | PsConnected bool | PsSeenCancel

datatype transport_task = UdpTask | PipeTask

text \<open>
  The \<open>sv_cancel\<close> of the server part is the token \<open>stop\<close>, a child of the caller's token. \<open>sp_joined\<close> has
  the transports whose end the supervisor has seen; without a UDP socket there is no UDP task, and its
  reader counts as gone. A client that ended keeps its place in the list.
\<close>

record 'sk spin =
  sp_server :: "'sk server"
  sp_caller :: bool
  sp_pipe :: pipe_server_pc
  sp_clients :: "pipe_client list"
  sp_waiting :: "transport_task list"

definition spin_named_pipe :: "dogstatsd \<Rightarrow> 'sk mailbox \<Rightarrow> 'sk spin" where
  "spin_named_pipe d mail =
     (let udp = (case d_transport d of NamedPipe_transport n u \<Rightarrow> u | Reader \<Rightarrow> False)
      in \<lparr>sp_server = (server_init d mail)\<lparr>sv_reader := if udp then RTop else RExit\<rparr>, sp_caller = False,
          sp_pipe = PsTop, sp_clients = [], sp_waiting = (if udp then [UdpTask] else []) @ [PipeTask]\<rparr>)"

text \<open>One step of the loop of \<open>run_named_pipe_server\<close>; a client that connects gets a task of its own.\<close>

fun pipe_server_step :: "pipe_event \<Rightarrow> 'sk spin \<Rightarrow> 'sk spin option" where
  "pipe_server_step ev sp =
     (case (sp_pipe sp, ev) of
        (PsTop, PsCreate ok) \<Rightarrow>
          if sv_cancel (sp_server sp) then Some (sp\<lparr>sp_pipe := PsExit\<rparr>)
          else Some (sp\<lparr>sp_pipe := if ok then PsConnecting else PsSleeping\<rparr>)
      | (PsSleeping, PsSlept) \<Rightarrow> Some (sp\<lparr>sp_pipe := PsTop\<rparr>)
      | (PsSleeping, PsSeenCancel) \<Rightarrow> if sv_cancel (sp_server sp) then Some (sp\<lparr>sp_pipe := PsExit\<rparr>) else None
      | (PsConnecting, PsConnected ok) \<Rightarrow>
          Some (sp\<lparr>sp_pipe := PsTop,
                   sp_clients := sp_clients sp @ (if ok then [pipe_client_new (sv_buf_size (sp_server sp))] else [])\<rparr>)
      | (PsConnecting, PsSeenCancel) \<Rightarrow> if sv_cancel (sp_server sp) then Some (sp\<lparr>sp_pipe := PsExit\<rparr>) else None
      | _ \<Rightarrow> None)"

text \<open>What \<open>Sender::try_send\<close> answers to a client.\<close>

definition queue_answer :: "'sk server \<Rightarrow> send_outcome" where
  "queue_answer sv =
     (if rx_closed sv then SendClosed else if length (sv_queue sv) < sv_cap sv then SendOk else SendFull)"

text \<open>A read returns no more than the free part of the client's buffer.\<close>

definition read_allowed :: "'sk spin \<Rightarrow> pipe_client \<Rightarrow> pipe_read \<Rightarrow> bool" where
  "read_allowed sp pc r \<longleftrightarrow>
     (case r of
        PipeCancelled \<Rightarrow> sv_cancel (sp_server sp)
      | PipeReadErr \<Rightarrow> True
      | PipeRead bytes \<Rightarrow> pc_start pc + length bytes \<le> sv_buf_size (sp_server sp))"

definition client_step :: "string \<Rightarrow> nat \<Rightarrow> pipe_read \<Rightarrow> 'sk spin \<Rightarrow> ('sk spin \<times> label) option" where
  "client_step pipe_name i r sp =
     (if i < length (sp_clients sp) \<and> pc_running (sp_clients sp ! i) \<and> read_allowed sp (sp_clients sp ! i) r
      then
        let sv = sp_server sp;
            (pc, sent) = pipe_step (sv_buf_size sv) (queue_answer sv) r (sp_clients sp ! i);
            sp' = sp\<lparr>sp_clients := (sp_clients sp)[i := pc]\<rparr>
        in case sent of
             None \<Rightarrow> Some (sp', Tau)
           | Some b \<Rightarrow>
               let p = \<lparr>pk_buf = b, pk_len = length b, pk_source = NamedPipe pipe_name\<rparr>
               in (case queue_answer sv of
                     SendOk \<Rightarrow> Some (sp'\<lparr>sp_server := sv\<lparr>sv_queue := sv_queue sv @ [p]\<rparr>\<rparr>, Sent p)
                   | SendFull \<Rightarrow> Some (sp', Lost p)
                   | SendClosed \<Rightarrow> Some (sp', Refused p))
      else None)"

definition exited :: "'sk spin \<Rightarrow> transport_task \<Rightarrow> bool" where
  "exited sp t = (case t of UdpTask \<Rightarrow> sv_reader (sp_server sp) = RExit | PipeTask \<Rightarrow> sp_pipe sp = PsExit)"

text \<open>Every sender of the queue is gone.\<close>

definition senders_gone :: "'sk spin \<Rightarrow> bool" where
  "senders_gone sp \<longleftrightarrow>
     sv_reader (sp_server sp) = RExit \<and> sp_pipe sp = PsExit \<and> \<not> list_ex pc_running (sp_clients sp)"

text \<open>
  \<open>Joined t unexpected\<close>: the supervisor sees the end of a transport, and logs an error when the token was
  not cancelled yet. The receiver goes away when \<open>spin_named_pipe\<close> returns, after the supervisor and the
  processor. A step of the UDP reader or of a client is recorded with what it met or read.
\<close>

datatype spin_label = FromUdp reader_event label | FromClient nat pipe_read label | Queue label
  | Joined transport_task bool | CallerCancels

inductive spin_step :: "'sk deps \<Rightarrow> string option \<Rightarrow> string \<Rightarrow> 'sk spin \<Rightarrow> spin_label \<Rightarrow> 'sk spin \<Rightarrow> bool"
  for D namespace pipe_name where
  udp: "udp_beside_pipe_step ev (sp_server sp) = Some (sv', l) \<Longrightarrow>
    spin_step D namespace pipe_name sp (FromUdp ev l) (sp\<lparr>sp_server := sv'\<rparr>)"
| pipe_server: "pipe_server_step pev sp = Some sp' \<Longrightarrow> spin_step D namespace pipe_name sp (Queue Tau) sp'"
| client: "client_step pipe_name i r sp = Some (sp', l) \<Longrightarrow>
    spin_step D namespace pipe_name sp (FromClient i r l) sp'"
| supervise: "t \<in> set (sp_waiting sp) \<Longrightarrow> exited sp t \<Longrightarrow>
    spin_step D namespace pipe_name sp (Joined t (\<not> sv_cancel (sp_server sp)))
      (sp\<lparr>sp_waiting := remove1 t (sp_waiting sp), sp_server := (sp_server sp)\<lparr>sv_cancel := True\<rparr>\<rparr>)"
| processor: "process_loop_step D namespace pe (sp_server sp) = Some (sv', l) \<Longrightarrow>
    (sv_proc (sp_server sp) = PLoop \<and> pe = RecvNone \<longrightarrow> senders_gone sp) \<Longrightarrow>
    (pe = DropReceiver \<longrightarrow> sp_waiting sp = []) \<Longrightarrow>
    spin_step D namespace pipe_name sp (Queue l) (sp\<lparr>sp_server := sv'\<rparr>)"
| caller_cancels: "spin_step D namespace pipe_name sp CallerCancels
    (sp\<lparr>sp_caller := True, sp_server := (sp_server sp)\<lparr>sv_cancel := True\<rparr>\<rparr>)"
| agg_recv: "mb_queue (sv_mail (sp_server sp)) = c # cs \<Longrightarrow>
    spin_step D namespace pipe_name sp (Queue Tau)
      (sp\<lparr>sp_server := (sp_server sp)\<lparr>sv_mail := (sv_mail (sp_server sp))\<lparr>mb_queue := cs\<rparr>\<rparr>\<rparr>)"
| agg_close: "spin_step D namespace pipe_name sp (Queue Tau)
    (sp\<lparr>sp_server := (sp_server sp)\<lparr>sv_mail := (sv_mail (sp_server sp))\<lparr>mb_open := False\<rparr>\<rparr>\<rparr>)"

section \<open>What a run keeps\<close>

fun queue_labels :: "spin_label list \<Rightarrow> label list" where
  "queue_labels [] = []"
| "queue_labels (FromUdp ev l # ls) = l # queue_labels ls"
| "queue_labels (FromClient i r l # ls) = l # queue_labels ls"
| "queue_labels (Queue l # ls) = l # queue_labels ls"
| "queue_labels (_ # ls) = queue_labels ls"

text \<open>The steps of the UDP reader, those of the i-th client, and the bytes it read.\<close>

fun udp_log :: "spin_label list \<Rightarrow> server_log" where
  "udp_log [] = []"
| "udp_log (FromUdp ev l # ls) = (Some ev, l) # udp_log ls"
| "udp_log (_ # ls) = udp_log ls"

fun client_log :: "nat \<Rightarrow> spin_label list \<Rightarrow> (pipe_read \<times> label) list" where
  "client_log i [] = []"
| "client_log i (FromClient j r l # ls) = (if j = i then [(r, l)] else []) @ client_log i ls"
| "client_log i (_ # ls) = client_log i ls"

fun pipe_bytes :: "pipe_read \<Rightarrow> string" where
  "pipe_bytes (PipeRead bytes) = bytes"
| "pipe_bytes _ = []"

definition client_bytes :: "(pipe_read \<times> label) list \<Rightarrow> string" where
  "client_bytes ls = concat (map (pipe_bytes \<circ> fst) ls)"

definition client_messages :: "(pipe_read \<times> label) list \<Rightarrow> string list" where
  "client_messages ls = map (fst \<circ> contents) (handed_on (map snd ls))"

text \<open>The ends of transports that the supervisor did not expect.\<close>

fun failures :: "spin_label list \<Rightarrow> transport_task list" where
  "failures [] = []"
| "failures (Joined t True # ls) = t # failures ls"
| "failures (_ # ls) = failures ls"

lemma spin_labels_append [simp]:
  "queue_labels (ks @ ls) = queue_labels ks @ queue_labels ls" "failures (ks @ ls) = failures ks @ failures ls"
  "udp_log (ks @ ls) = udp_log ks @ udp_log ls" "client_log i (ks @ ls) = client_log i ks @ client_log i ls"
proof -
  show "udp_log (ks @ ls) = udp_log ks @ udp_log ls" by (induction ks rule: udp_log.induct) auto
  show "client_log i (ks @ ls) = client_log i ks @ client_log i ls" by (induction i ks rule: client_log.induct) auto
  show "queue_labels (ks @ ls) = queue_labels ks @ queue_labels ls" by (induction ks rule: queue_labels.induct) auto
  show "failures (ks @ ls) = failures ks @ failures ls" by (induction ks rule: failures.induct) auto
qed

definition total_dropped :: "'sk spin \<Rightarrow> u64" where
  "total_dropped sp = sv_dropped (sp_server sp) + sum_list (map pc_dropped (sp_clients sp))"

text \<open>The queue, its order and its losses.\<close>

definition queue_inv :: "dogstatsd \<Rightarrow> label list \<Rightarrow> 'sk spin \<Rightarrow> bool" where
  "queue_inv d ls sp \<longleftrightarrow>
     server_ok (sp_server sp) \<and> sv_cap (sp_server sp) = d_queue_size d \<and>
     (packets_refused ls = [] \<or> rx_closed (sp_server sp)) \<and>
     packets_processed ls @ sv_queue (sp_server sp) = packets_sent ls \<and>
     total_dropped sp = of_nat (length (packets_lost ls))"

text \<open>The transports, the supervisor and the tokens.\<close>

definition has_udp :: "dogstatsd \<Rightarrow> bool" where
  "has_udp d = (case d_transport d of NamedPipe_transport n u \<Rightarrow> u | Reader \<Rightarrow> False)"

definition control_inv :: "dogstatsd \<Rightarrow> transport_task list \<Rightarrow> 'sk spin \<Rightarrow> bool" where
  "control_inv d fs sp \<longleftrightarrow>
     (case sv_reader (sp_server sp) of RTop \<Rightarrow> True | RWait b \<Rightarrow> True | RExit \<Rightarrow> True | _ \<Rightarrow> False) \<and>
     distinct (sp_waiting sp) \<and>
     (UdpTask \<notin> set (sp_waiting sp) \<longrightarrow> sv_reader (sp_server sp) = RExit) \<and>
     (PipeTask \<notin> set (sp_waiting sp) \<longrightarrow> sp_pipe sp = PsExit \<and> sv_cancel (sp_server sp)) \<and>
     (has_udp d \<and> UdpTask \<notin> set (sp_waiting sp) \<longrightarrow> sv_cancel (sp_server sp)) \<and>
     (sv_proc (sp_server sp) = PGone \<longrightarrow> sp_waiting sp = []) \<and>
     (sv_cancel (sp_server sp) \<longleftrightarrow> sp_caller sp \<or> fs \<noteq> []) \<and> length fs \<le> 1"

text \<open>
  What goes in comes out: the UDP reader hands on its datagrams, and a client the lines it reads, the rest
  being pending while it runs.
\<close>

definition client_inv :: "nat \<Rightarrow> (pipe_read \<times> label) list \<Rightarrow> pipe_client \<Rightarrow> bool" where
  "client_inv n ls pc \<longleftrightarrow>
     concat (client_messages ls) = fst (frame_lines n [] (client_bytes ls)) \<and>
     list_all (\<lambda>m. m \<noteq> [] \<and> last m = newline) (client_messages ls) \<and>
     (pc_running pc \<longrightarrow> pipe_pending pc = snd (frame_lines n [] (client_bytes ls)) \<and>
        (wf_pipe n pc \<or> n = 0 \<and> pc_start pc = 0))"

definition sources_inv :: "dogstatsd \<Rightarrow> spin_label list \<Rightarrow> 'sk spin \<Rightarrow> bool" where
  "sources_inv d ls sp \<longleftrightarrow>
     sv_buf_size (sp_server sp) = d_buf_size d \<and>
     datagrams (d_buf_size d) (udp_log ls) = map contents (handed_on (map snd (udp_log ls))) \<and>
     (\<forall>i. if i < length (sp_clients sp) then client_inv (d_buf_size d) (client_log i ls) (sp_clients sp ! i)
          else client_log i ls = [])"

definition spin_inv :: "dogstatsd \<Rightarrow> spin_label list \<Rightarrow> 'sk spin \<Rightarrow> bool" where
  "spin_inv d ls sp \<longleftrightarrow>
     queue_inv d (queue_labels ls) sp \<and> control_inv d (failures ls) sp \<and> sources_inv d ls sp"

lemma spin_inv_init: "spin_inv d [] (spin_named_pipe d mail)"
  by (auto simp: spin_inv_def queue_inv_def control_inv_def sources_inv_def has_udp_def spin_named_pipe_def server_ok_def
      wf_bufs_def server_init_def total_dropped_def datagrams_def Let_def split: transport.split)

lemma client_inv_new: "client_inv n [] (pipe_client_new n)"
  by (auto simp: client_inv_def client_messages_def client_bytes_def pipe_client_new_def pipe_pending_def wf_pipe_def)

text \<open>One read of a client that is allowed to read that much.\<close>

lemma client_inv_read:
  assumes "client_inv n ls pc" "pc_running pc" "pc_start pc + length (pipe_bytes r) \<le> n"
    and "pipe_step n outcome r pc = (pc', sent)"
    and "map (fst \<circ> contents) (handed_on [l]) = (case sent of None \<Rightarrow> [] | Some m \<Rightarrow> [m])"
  shows "client_inv n (ls @ [(r, l)]) pc'"
proof -
  have m: "client_messages (ls @ [(r, l)]) = client_messages ls @ (case sent of None \<Rightarrow> [] | Some m \<Rightarrow> [m])"
    using assms(5) by (simp add: client_messages_def)
  have b: "client_bytes (ls @ [(r, l)]) = client_bytes ls @ pipe_bytes r" by (simp add: client_bytes_def)
  show ?thesis
  proof (cases "pipe_bytes r = []")
    case True
    then have "sent = None" "\<not> pc_running pc'" using assms(4) by (cases r; force simp: pipe_step_def)+
    then show ?thesis using assms(1) m b True by (simp add: client_inv_def)
  next
    case False
    then obtain bytes where r: "r = PipeRead bytes" by (cases r) auto
    have wf: "wf_pipe n pc" using assms(1-3) False by (auto simp: client_inv_def)
    have pend: "pipe_pending pc = snd (frame_lines n [] (client_bytes ls))" using assms(1,2) by (simp add: client_inv_def)
    have fits: "length bytes \<le> n - pc_start pc" "bytes \<noteq> []" using assms(3) False by (simp_all add: r)
    note s = pipe_step_read [OF wf fits(2,1) assms(4) [unfolded r]]
    have f: "frame_lines n [] (client_bytes ls @ bytes) =
        (fst (frame_lines n [] (client_bytes ls)) @ fst (frame_lines n (pipe_pending pc) bytes), snd (frame_lines n (pipe_pending pc) bytes))"
      using pend by (simp add: frame_lines_append split_def)
    show ?thesis using assms(1) s m b f
      by (auto simp: client_inv_def r split: if_splits option.splits)
  qed
qed

lemma sum_list_update_add:
  "i < length xs \<Longrightarrow> sum_list (map f (xs[i := x])) + f (xs ! i) = sum_list (map f xs) + (f x :: 'a :: comm_monoid_add)"
  by (induction xs arbitrary: i) (auto simp: ac_simps nth_Cons split: nat.split)

lemma pipe_step_sends:
  assumes "pipe_step n outcome r pc = (pc', sent)"
  shows "sent \<noteq> Some [] \<and> pc_dropped pc' = pc_dropped pc + (if sent \<noteq> None \<and> outcome = SendFull then 1 else 0)"
proof (cases "\<exists>c bytes. r = PipeRead (c # bytes)")
  case True
  then obtain c bytes where r: "r = PipeRead (c # bytes)" by blast
  define e where "e = pc_start pc + length (c # bytes)"
  define buf where "buf = take (pc_start pc) (pc_buf pc) @ (c # bytes) @ drop e (pc_buf pc)"
  define k where "k = complete_size (take e buf)"
  define sends where "sends = (if k > 0 then Some (take k buf) else None)"
  define dropped where "dropped = (if k > 0 \<and> outcome = SendFull then pc_dropped pc + 1 else pc_dropped pc)"
  have "buf \<noteq> []" by (simp add: buf_def)
  then have "sends \<noteq> Some []" by (simp add: sends_def)
  moreover have "pipe_step n outcome r pc =
      (if k > 0 \<and> outcome = SendClosed then (pc\<lparr>pc_buf := buf, pc_running := False\<rparr>, sends)
       else if e - k \<ge> n then (pc\<lparr>pc_buf := buf, pc_start := 0, pc_dropped := dropped\<rparr>, sends)
       else if e - k > 0
       then (pc\<lparr>pc_buf := take (e - k) (drop k buf) @ drop (e - k) buf, pc_start := e - k, pc_dropped := dropped\<rparr>, sends)
       else (pc\<lparr>pc_buf := buf, pc_start := e - k, pc_dropped := dropped\<rparr>, sends))"
    by (simp only: pipe_step_def r pipe_read.case list.case Let_def e_def buf_def k_def sends_def dropped_def)
  ultimately show ?thesis using assms by (auto simp: sends_def dropped_def split: if_splits)
next
  case False
  then show ?thesis using assms by (auto simp: pipe_step_def split: pipe_read.splits list.splits)
qed

text \<open>A client puts its packet at the end of the queue, or counts it when the queue is full.\<close>

lemma client_step_effect:
  assumes "client_step pipe_name i r sp = Some (sp', l)" "server_ok (sp_server sp)"
  shows "server_ok (sp_server sp') \<and> sv_cap (sp_server sp') = sv_cap (sp_server sp) \<and>
    packets_processed [l] @ sv_queue (sp_server sp') = sv_queue (sp_server sp) @ packets_sent [l] \<and>
    total_dropped sp' = total_dropped sp + of_nat (length (packets_lost [l])) \<and>
    (packets_refused [l] = [] \<or> rx_closed (sp_server sp)) \<and>
    (\<exists>q cs. sp' = sp\<lparr>sp_server := (sp_server sp)\<lparr>sv_queue := q\<rparr>, sp_clients := cs\<rparr>)"
proof -
  let ?sv = "sp_server sp"
  have g: "i < length (sp_clients sp) \<and> pc_running (sp_clients sp ! i) \<and> read_allowed sp (sp_clients sp ! i) r"
    using assms(1) by (rule_tac ccontr) (simp add: client_step_def)
  obtain pc sent where p: "pipe_step (sv_buf_size ?sv) (queue_answer ?sv) r (sp_clients sp ! i) = (pc, sent)"
    by (cases "pipe_step (sv_buf_size ?sv) (queue_answer ?sv) r (sp_clients sp ! i)")
  let ?cs = "(sp_clients sp)[i := pc]"
  note eq = assms(1) [unfolded client_step_def if_P [OF g] Let_def p prod.case]
  have sum: "sum_list (map pc_dropped ?cs) =
      sum_list (map pc_dropped (sp_clients sp)) + (if sent \<noteq> None \<and> queue_answer ?sv = SendFull then 1 else 0)"
    using sum_list_update_add [of i "sp_clients sp" pc_dropped pc] pipe_step_sends [OF p] g by (simp add: algebra_simps)
  have "sp\<lparr>sp_clients := ?cs\<rparr> = sp\<lparr>sp_server := ?sv\<lparr>sv_queue := sv_queue ?sv\<rparr>, sp_clients := ?cs\<rparr>" by simp
  then have same: "\<exists>q cs. sp\<lparr>sp_clients := ?cs\<rparr> = sp\<lparr>sp_server := ?sv\<lparr>sv_queue := q\<rparr>, sp_clients := cs\<rparr>" by blast
  consider (none) "sent = None" | (ok) b where "sent = Some b" "queue_answer ?sv = SendOk"
    | (full) b where "sent = Some b" "queue_answer ?sv = SendFull" | (closed) b where "sent = Some b" "queue_answer ?sv = SendClosed"
    by (cases sent; cases "queue_answer ?sv") auto
  then show ?thesis
  proof cases
    case none
    then have s: "sp' = sp\<lparr>sp_clients := ?cs\<rparr>" "l = Tau" using eq by simp_all
    show ?thesis unfolding s using sum same assms(2) none by (simp add: total_dropped_def)
  next
    case (ok b)
    let ?p = "\<lparr>pk_buf = b, pk_len = length b, pk_source = NamedPipe pipe_name\<rparr>"
    have s: "sp' = sp\<lparr>sp_clients := ?cs, sp_server := ?sv\<lparr>sv_queue := sv_queue ?sv @ [?p]\<rparr>\<rparr>" "l = Sent ?p" using eq ok by simp_all
    have "length (sv_queue ?sv) < sv_cap ?sv" using ok(2) by (auto simp: queue_answer_def split: if_splits)
    moreover have "wf_packet (sv_buf_size ?sv) ?p" using pipe_step_sends [OF p] ok(1) by (simp add: wf_packet_def)
    ultimately have "server_ok (?sv\<lparr>sv_queue := sv_queue ?sv @ [?p]\<rparr>)" using assms(2) by (auto simp: server_ok_def wf_bufs_def)
    moreover have "\<exists>q cs. sp\<lparr>sp_clients := ?cs, sp_server := ?sv\<lparr>sv_queue := sv_queue ?sv @ [?p]\<rparr>\<rparr> =
        sp\<lparr>sp_server := ?sv\<lparr>sv_queue := q\<rparr>, sp_clients := cs\<rparr>"
      by (intro exI [of _ "sv_queue ?sv @ [?p]"] exI [of _ ?cs]) simp
    ultimately show ?thesis using sum ok unfolding s by (simp add: total_dropped_def)
  next
    case (full b)
    then obtain q where s: "sp' = sp\<lparr>sp_clients := ?cs\<rparr>" "l = Lost q" using eq by auto
    show ?thesis unfolding s using sum same assms(2) full by (simp add: total_dropped_def)
  next
    case (closed b)
    then obtain q where s: "sp' = sp\<lparr>sp_clients := ?cs\<rparr>" "l = Refused q" using eq by auto
    have "rx_closed ?sv" using closed(2) by (auto simp: queue_answer_def split: if_splits)
    then show ?thesis unfolding s using sum same assms(2) closed by (simp add: total_dropped_def)
  qed
qed

lemma client_step_source:
  assumes "client_step pipe_name i r sp = Some (sp', l)" "sv_buf_size (sp_server sp) = n"
    "client_inv n ls (sp_clients sp ! i)"
  shows "i < length (sp_clients sp) \<and> sv_buf_size (sp_server sp') = n \<and>
    (\<exists>pc. sp_clients sp' = (sp_clients sp)[i := pc] \<and> client_inv n (ls @ [(r, l)]) pc)"
proof -
  let ?sv = "sp_server sp"
  have g: "i < length (sp_clients sp) \<and> pc_running (sp_clients sp ! i) \<and> read_allowed sp (sp_clients sp ! i) r"
    using assms(1) by (rule_tac ccontr) (simp add: client_step_def)
  obtain pc sent where p: "pipe_step (sv_buf_size ?sv) (queue_answer ?sv) r (sp_clients sp ! i) = (pc, sent)"
    by (cases "pipe_step (sv_buf_size ?sv) (queue_answer ?sv) r (sp_clients sp ! i)")
  note eq = assms(1) [unfolded client_step_def if_P [OF g] Let_def p prod.case]
  have "map (fst \<circ> contents) (handed_on [l]) = (case sent of None \<Rightarrow> [] | Some m \<Rightarrow> [m])"
    "sp_clients sp' = (sp_clients sp)[i := pc]" "sv_buf_size (sp_server sp') = n"
    using eq assms(2) by (auto simp: contents_def split: option.splits send_outcome.splits)
  moreover have "wf_pipe n (sp_clients sp ! i) \<or> n = 0 \<and> pc_start (sp_clients sp ! i) = 0"
    using assms(3) g by (simp add: client_inv_def)
  then have "pc_start (sp_clients sp ! i) + length (pipe_bytes r) \<le> n"
    using g assms(2) by (cases r) (auto simp: read_allowed_def wf_pipe_def)
  ultimately show ?thesis using client_inv_read [OF assms(3) _ _ p [unfolded assms(2)], of l] g by auto
qed

lemma control_inv_server:
  assumes "control_inv d fs sp" "sv_cancel sv' = sv_cancel (sp_server sp)" "sv_reader sv' = sv_reader (sp_server sp)"
    "sv_proc sv' = PGone \<longrightarrow> sp_waiting sp = []"
  shows "control_inv d fs (sp\<lparr>sp_server := sv', sp_clients := cs\<rparr>)"
  using assms unfolding control_inv_def by auto

lemma queue_inv_control:
  "queue_inv d ls (sp\<lparr>sp_server := (sp_server sp)\<lparr>sv_cancel := c\<rparr>, sp_waiting := w, sp_caller := a\<rparr>) = queue_inv d ls sp"
  by (simp add: queue_inv_def server_ok_def wf_bufs_def total_dropped_def)

lemma udp_control:
  assumes "udp_beside_pipe_step ev sv = Some (sv', l)"
  shows "sv_reader sv \<noteq> RExit \<and> (case sv_reader sv' of RTop \<Rightarrow> True | RWait b \<Rightarrow> True | RExit \<Rightarrow> True | _ \<Rightarrow> False)"
  using assms by (auto split: reader_pc.splits reader_event.splits prod.splits sum.splits if_splits)

lemma pipe_server_effect:
  assumes "pipe_server_step ev sp = Some sp'"
  shows "sp_server sp' = sp_server sp \<and> sp_caller sp' = sp_caller sp \<and> sp_waiting sp' = sp_waiting sp \<and>
    sp_pipe sp \<noteq> PsExit \<and> sum_list (map pc_dropped (sp_clients sp')) = sum_list (map pc_dropped (sp_clients sp))"
  using assms by (cases "sp_pipe sp"; cases ev) (auto simp: pipe_client_new_def split: if_splits)

lemma handle_packet_control:
  "sv_cancel (handle_packet D ns clk p sv) = sv_cancel sv" "sv_reader (handle_packet D ns clk p sv) = sv_reader sv"
  "sv_proc (handle_packet D ns clk p sv) = sv_proc sv \<or> sv_proc (handle_packet D ns clk p sv) = PPanicked"
  by (simp_all add: handle_packet_def pool_send_def Let_def split: rust.split)

lemma process_loop_control:
  assumes "process_loop_step D ns pe sv = Some (sv', l)"
  shows "sv_cancel sv' = sv_cancel sv \<and> sv_reader sv' = sv_reader sv \<and> (sv_proc sv' = PGone \<longrightarrow> pe = DropReceiver)"
proof -
  have "sv_proc (handle_packet D ns clk p (sv\<lparr>sv_queue := q\<rparr>)) \<noteq> PGone" if "sv_proc sv \<noteq> PGone" for clk p q
    using that handle_packet_control(3) [of D ns clk p "sv\<lparr>sv_queue := q\<rparr>"] by auto
  then show ?thesis using assms
    by (cases "sv_proc sv"; cases pe; cases "sv_queue sv")
      (auto simp: process_loop_step.simps handle_packet_control split: if_splits)
qed

lemma pipe_server_sources:
  assumes "sources_inv d ls sp" "pipe_server_step pev sp = Some sp'"
  shows "sources_inv d (ls @ [Queue Tau]) sp'"
proof -
  have s: "sp_server sp' = sp_server sp \<and>
      (sp_clients sp' = sp_clients sp \<or> sp_clients sp' = sp_clients sp @ [pipe_client_new (d_buf_size d)])"
    using assms by (cases "sp_pipe sp"; cases pev) (auto simp: sources_inv_def split: if_splits)
  have "client_log (length (sp_clients sp)) ls = []" using assms(1) by (auto simp: sources_inv_def)
  then show ?thesis using assms(1) s client_inv_new [of "d_buf_size d"]
    by (auto simp: sources_inv_def nth_append less_Suc_eq)
qed

lemma client_sources:
  assumes "sources_inv d ls sp" "client_step pipe_name i r sp = Some (sp', l)"
  shows "sources_inv d (ls @ [FromClient i r l]) sp'"
proof -
  have i: "i < length (sp_clients sp)" using assms(2) by (rule_tac ccontr) (simp add: client_step_def)
  have "client_inv (d_buf_size d) (client_log i ls) (sp_clients sp ! i)" "sv_buf_size (sp_server sp) = d_buf_size d"
    using assms(1) i by (auto simp: sources_inv_def)
  from client_step_source [OF assms(2) this(2,1)]
  show ?thesis using assms(1) i by (auto simp: sources_inv_def nth_list_update)
qed

lemma spin_inv_step:
  assumes "spin_inv d ls sp" "spin_step D namespace pipe_name sp l sp'"
  shows "spin_inv d (ls @ [l]) sp'"
proof -
  have q: "queue_inv d (queue_labels ls) sp" and c: "control_inv d (failures ls) sp"
    and src: "sources_inv d ls sp"
    using assms(1) by (simp_all add: spin_inv_def)
  have ok: "server_ok (sp_server sp)" using q by (simp add: queue_inv_def)
  have queue: "queue_inv d (queue_labels ls @ [k]) (sp\<lparr>sp_server := sv'\<rparr>)" if "server_effect (sp_server sp) k sv'" for k sv'
  proof -
    have "packets_processed (queue_labels ls) @ packets_processed [k] @ sv_queue sv' = packets_sent (queue_labels ls @ [k])"
      using q that by (simp add: queue_inv_def server_effect_def)
    moreover have "packets_refused (queue_labels ls @ [k]) = [] \<or> rx_closed sv'"
      using q that by (auto simp: queue_inv_def server_effect_def)
    ultimately show ?thesis using q that by (simp add: queue_inv_def server_effect_def total_dropped_def)
  qed
  have buf: "sv_buf_size (sp_server sp) = d_buf_size d" using src by (simp add: sources_inv_def)
  from assms(2) show ?thesis
  proof cases
    case (udp ev sv' k)
    have "queue_inv d (queue_labels ls @ [k]) (sp\<lparr>sp_server := sv'\<rparr>)" by (rule queue [OF ub.reader_ok [OF udp(3) ok]])
    moreover have "sv_cancel sv' = sv_cancel (sp_server sp)" "sv_proc sv' = sv_proc (sp_server sp)"
      using udp_beside_pipe_effect [OF udp(3)] by (simp_all add: reader_effect_def)
    then have "control_inv d (failures ls) (sp\<lparr>sp_server := sv'\<rparr>)" using c udp_control [OF udp(3)] by (auto simp: control_inv_def)
    moreover have "sv_buf_size sv' = d_buf_size d" using udp_beside_pipe_effect [OF udp(3)] buf by (simp add: reader_effect_def)
    then have "sources_inv d (ls @ [l]) sp'"
      using src udp_beside_pipe_reads [OF udp(3)] ok buf
      by (simp add: sources_inv_def udp(1,2) datagrams_def server_ok_def)
    ultimately show ?thesis by (simp add: spin_inv_def udp)
  next
    case (pipe_server pev)
    note e = pipe_server_effect [OF pipe_server(2)]
    have "queue_inv d (queue_labels ls @ [Tau]) sp'" using q e by (simp add: queue_inv_def total_dropped_def)
    moreover have "control_inv d (failures ls) sp'" using c e unfolding control_inv_def by auto
    moreover have "sources_inv d (ls @ [l]) sp'"
      unfolding pipe_server(1) by (rule pipe_server_sources [OF src pipe_server(2)])
    ultimately show ?thesis by (simp add: spin_inv_def pipe_server(1))
  next
    case (client i r k)
    note e = client_step_effect [OF client(2) ok]
    have "packets_processed (queue_labels ls) @ packets_processed [k] @ sv_queue (sp_server sp') = packets_sent (queue_labels ls @ [k])"
      using q e by (simp add: queue_inv_def)
    moreover have "packets_refused (queue_labels ls @ [k]) = [] \<or> rx_closed (sp_server sp')" using q e by (auto simp: queue_inv_def)
    ultimately have "queue_inv d (queue_labels ls @ [k]) sp'" using q e by (simp add: queue_inv_def)
    moreover have "sources_inv d (ls @ [l]) sp'" unfolding client(1) by (rule client_sources [OF src client(2)])
    moreover obtain qu cs where s: "sp' = sp\<lparr>sp_server := (sp_server sp)\<lparr>sv_queue := qu\<rparr>, sp_clients := cs\<rparr>" using e by blast
    have "control_inv d (failures ls) sp'" unfolding s
      by (rule control_inv_server [OF c]) (use c in \<open>simp_all add: control_inv_def\<close>)
    ultimately show ?thesis by (simp add: spin_inv_def client)
  next
    case (supervise t)
    have "queue_inv d (queue_labels ls) sp'" using q by (auto simp: supervise queue_inv_def server_ok_def wf_bufs_def total_dropped_def)
    moreover have "control_inv d (failures (ls @ [l])) sp'"
      using c supervise(3,4) unfolding supervise(1,2)
      by (cases "sv_cancel (sp_server sp)"; cases t) (auto simp: control_inv_def exited_def)
    moreover have "sources_inv d (ls @ [l]) sp'" using src by (simp add: sources_inv_def supervise)
    ultimately show ?thesis by (simp add: spin_inv_def supervise)
  next
    case (processor pe sv' k)
    note e = process_loop_effect [OF processor(3) ok]
    have "sv_cancel sv' = sv_cancel (sp_server sp)" "sv_reader sv' = sv_reader (sp_server sp)"
      "sv_proc sv' = PGone \<longrightarrow> sp_waiting sp = []"
      using process_loop_control [OF processor(3)] processor(5) by auto
    then have "control_inv d (failures ls) (sp\<lparr>sp_server := sv'\<rparr>)" using control_inv_server [OF c, of sv' "sp_clients sp"] by simp
    moreover have "sources_inv d (ls @ [l]) sp'" using src e by (simp add: sources_inv_def processor server_effect_def)
    ultimately show ?thesis using queue [OF e] by (simp add: spin_inv_def processor)
  qed (use q c src in \<open>auto simp: spin_inv_def queue_inv_def control_inv_def sources_inv_def server_ok_def wf_bufs_def total_dropped_def\<close>)
qed

section \<open>Coming to an end\<close>

text \<open>
  The server is bound to stop once its token is cancelled or a transport has ended; it has stopped when
  \<open>spin_named_pipe\<close> has returned and no client task is left.
\<close>

definition doomed :: "'sk spin \<Rightarrow> bool" where
  "doomed sp \<longleftrightarrow> sv_cancel (sp_server sp) \<or> list_ex (exited sp) (sp_waiting sp)"

definition stopped :: "'sk spin \<Rightarrow> bool" where
  "stopped sp \<longleftrightarrow> sv_proc (sp_server sp) = PGone \<and> \<not> list_ex pc_running (sp_clients sp)"

text \<open>The processor has not made its last check of the queue, or the queue is empty.\<close>

definition drains :: "'sk spin \<Rightarrow> bool" where
  "drains sp \<longleftrightarrow> sv_proc (sp_server sp) = PLoop \<or> sv_proc (sp_server sp) = PDrain \<or> sv_queue (sp_server sp) = []"

definition silent_label :: "spin_label \<Rightarrow> bool" where
  "silent_label l \<longleftrightarrow> (case l of
       FromUdp ev k \<Rightarrow> (ev = Go \<or> ev = SeenCancel) \<and> k = Tau
     | FromClient i r k \<Rightarrow> r = PipeCancelled \<and> k = Tau
     | Queue Tau \<Rightarrow> True | Queue (Processed p) \<Rightarrow> True | Joined t b \<Rightarrow> True | _ \<Rightarrow> False)"

definition stop_work :: "'sk spin \<Rightarrow> nat" where
  "stop_work sp =
     (if sv_reader (sp_server sp) = RExit then 0 else 1) + (if sp_pipe sp = PsExit then 0 else 1) +
     length (filter pc_running (sp_clients sp)) + length (sp_waiting sp) + length (sv_queue (sp_server sp)) +
     (case sv_proc (sp_server sp) of PLoop \<Rightarrow> 3 | PDrain \<Rightarrow> 2 | PDone \<Rightarrow> 1 | _ \<Rightarrow> 0)"

lemmas stop_defs = doomed_def drains_def silent_label_def stop_work_def exited_def

lemma client_stops:
  assumes "i < length (sp_clients sp)" "pc_running (sp_clients sp ! i)" "sv_cancel (sp_server sp)"
  shows "client_step pipe_name i PipeCancelled sp =
    Some (sp\<lparr>sp_clients := (sp_clients sp)[i := (sp_clients sp ! i)\<lparr>pc_running := False\<rparr>]\<rparr>, Tau)"
  using assms by (simp add: client_step_def read_allowed_def pipe_step_def)

lemma filter_update_less:
  "i < length xs \<Longrightarrow> P (xs ! i) \<Longrightarrow> \<not> P x \<Longrightarrow> length (filter P (xs[i := x])) < length (filter P xs)"
  by (induction xs arbitrary: i) (auto simp: nth_Cons split: nat.split)

abbreviation progress :: "'sk deps \<Rightarrow> string option \<Rightarrow> string \<Rightarrow> 'sk spin \<Rightarrow> bool" where
  "progress D namespace pipe_name sp \<equiv> \<exists>l sp'. spin_step D namespace pipe_name sp l sp' \<and> silent_label l \<and>
     (doomed sp', drains sp') = (doomed sp, drains sp) \<and> stop_work sp' < stop_work sp"

lemma progressI:
  assumes "spin_step D namespace pipe_name sp l sp'" "silent_label l" "doomed sp" "doomed sp'" "drains sp' = drains sp"
    "stop_work sp' < stop_work sp"
  shows "progress D namespace pipe_name sp"
  using assms by blast

lemma supervisor_moves:
  assumes "t \<in> set (sp_waiting sp)" "exited sp t"
  shows "progress D namespace pipe_name sp"
proof (rule progressI [OF supervise [OF assms]])
  show "doomed sp" using assms by (auto simp: doomed_def list_ex_iff)
qed (use assms in \<open>auto simp: stop_defs length_remove1 dest: length_pos_if_in_set\<close>)

lemma processor_moves:
  assumes "server_ok (sp_server sp)" "sv_cancel (sp_server sp)" "sp_waiting sp = []" "sv_proc (sp_server sp) \<noteq> PGone"
  shows "progress D namespace pipe_name sp"
proof -
  let ?sv = "sp_server sp"
  have at: "progress D namespace pipe_name sp"
    if "process_loop_step D namespace pe ?sv = Some (?sv\<lparr>sv_proc := pc\<rparr>, Tau)" "sv_proc ?sv = PLoop \<longrightarrow> pe \<noteq> RecvNone"
      "(sv_proc ?sv, pc) \<in> {(PLoop, PDrain), (PDone, PGone)} \<or> (sv_proc ?sv, pc) = (PDrain, PDone) \<and> sv_queue ?sv = []" for pe pc
    by (rule progressI [OF spin_step.processor [OF that(1)]]) (use that assms(2,3) in \<open>auto simp: stop_defs\<close>)
  show ?thesis
  proof (cases "sv_proc ?sv")
    case PLoop
    then show ?thesis using at [of SawCancel PDrain] assms(2) by (simp add: process_loop_step.simps)
  next
    case PDrain
    show ?thesis
    proof (cases "sv_queue ?sv")
      case Nil
      then show ?thesis using at [of RecvNone PDone] PDrain by (simp add: process_loop_step.simps)
    next
      case (Cons p q)
      let ?clk = "\<lambda>i. (0, 0)"
      have "wf_packet (sv_buf_size (?sv\<lparr>sv_queue := q\<rparr>)) p" using assms(1) Cons by (simp add: server_ok_def wf_bufs_def)
      note h = handle_packet_ok [OF this, of D namespace ?clk]
      have s: "process_loop_step D namespace (Recv ?clk) ?sv =
          Some (handle_packet D namespace ?clk p (?sv\<lparr>sv_queue := q\<rparr>), Processed p)"
        using PDrain Cons by (simp add: process_loop_step.simps)
      show ?thesis
        by (rule progressI [OF spin_step.processor [OF s]]) (use PDrain Cons assms(2) in \<open>auto simp: stop_defs h\<close>)
    qed
  next
    case PDone
    then show ?thesis using at [of DropReceiver PGone] by (simp add: process_loop_step.simps)
  qed (use assms in \<open>simp_all add: server_ok_def\<close>)
qed

lemma reader_moves:
  assumes "control_inv d fs sp" "sv_cancel (sp_server sp)" "sv_reader (sp_server sp) \<noteq> RExit"
  shows "progress D namespace pipe_name sp"
proof -
  let ?sv = "sp_server sp"
  have exit: "progress D namespace pipe_name sp"
    if "udp_beside_pipe_step ev ?sv = Some (?sv\<lparr>sv_pool := pool, sv_reader := RExit\<rparr>, Tau)" "ev = Go \<or> ev = SeenCancel" for ev pool
    by (rule progressI [OF udp [OF that(1)]]) (use that(2) assms(2,3) in \<open>auto simp: stop_defs\<close>)
  consider "sv_reader ?sv = RTop" | b where "sv_reader ?sv = RWait b"
    using assms(1,3) by (cases "sv_reader ?sv") (auto simp: control_inv_def)
  then show ?thesis
  proof cases
    case 1
    then show ?thesis using exit [of Go "sv_pool ?sv"] assms(2) by simp
  next
    case 2
    then show ?thesis using exit [of SeenCancel "sv_pool ?sv @ [b]"] assms(2) by (simp add: pool_send_def)
  qed
qed

lemma pipe_server_moves:
  assumes "sv_cancel (sp_server sp)" "sp_pipe sp \<noteq> PsExit"
  shows "progress D namespace pipe_name sp"
proof -
  have "\<exists>ev. pipe_server_step ev sp = Some (sp\<lparr>sp_pipe := PsExit\<rparr>)"
    using assms by (cases "sp_pipe sp") (auto intro: exI [of _ "PsCreate True"] exI [of _ PsSeenCancel])
  then obtain ev where "pipe_server_step ev sp = Some (sp\<lparr>sp_pipe := PsExit\<rparr>)" ..
  then show ?thesis
    by (rule progressI [OF spin_step.pipe_server]) (use assms in \<open>auto simp: stop_defs\<close>)
qed

lemma client_moves:
  assumes "sv_cancel (sp_server sp)" "list_ex pc_running (sp_clients sp)"
  shows "progress D namespace pipe_name sp"
proof -
  obtain i where i: "i < length (sp_clients sp)" "pc_running (sp_clients sp ! i)"
    using assms(2) by (auto simp: list_ex_length)
  from filter_update_less [of i "sp_clients sp" pc_running "(sp_clients sp ! i)\<lparr>pc_running := False\<rparr>"] i
  have "length (filter pc_running ((sp_clients sp)[i := (sp_clients sp ! i)\<lparr>pc_running := False\<rparr>])) <
      length (filter pc_running (sp_clients sp))" by simp
  then show ?thesis
    by (intro progressI [OF spin_step.client [OF client_stops [OF i assms(1)]]]) (use assms(1) in \<open>auto simp: stop_defs\<close>)
qed

lemma doomed_moves:
  assumes "spin_inv d ls sp" "doomed sp" "\<not> stopped sp"
  shows "progress D namespace pipe_name sp"
proof (cases "sv_cancel (sp_server sp)")
  case False
  then obtain t where "t \<in> set (sp_waiting sp)" "exited sp t" using assms(2) by (auto simp: doomed_def list_ex_iff)
  then show ?thesis by (rule supervisor_moves)
next
  case True
  have q: "server_ok (sp_server sp)" "control_inv d (failures ls) sp" using assms(1) by (simp_all add: spin_inv_def queue_inv_def)
  consider (reader) "sv_reader (sp_server sp) \<noteq> RExit" | (pipe) "sp_pipe sp \<noteq> PsExit"
    | (client) "list_ex pc_running (sp_clients sp)"
    | (ended) t where "t \<in> set (sp_waiting sp)" "sv_reader (sp_server sp) = RExit" "sp_pipe sp = PsExit"
    | (processor) "sp_waiting sp = []" "sv_proc (sp_server sp) \<noteq> PGone"
    using assms(3) by (cases "sp_waiting sp") (auto simp: stopped_def)
  then show ?thesis
  proof cases
    case reader
    then show ?thesis by (rule reader_moves [OF q(2) True])
  next
    case pipe
    then show ?thesis by (rule pipe_server_moves [OF True])
  next
    case client
    then show ?thesis by (rule client_moves [OF True])
  next
    case ended
    then have "exited sp t" by (simp add: exited_def split: transport_task.split)
    then show ?thesis by (rule supervisor_moves [OF ended(1)])
  next
    case processor
    then show ?thesis by (rule processor_moves [OF q(1) True])
  qed
qed

interpretation nps: settling_system "spin_step D namespace pipe_name" "spin_named_pipe d mail" "spin_inv d"
  "\<lambda>sp. doomed sp \<longrightarrow> stopped sp" silent_label "\<lambda>sp. (doomed sp, drains sp)" stop_work
  for D :: "'sk deps" and namespace pipe_name d mail
  by unfold_locales (rule spin_inv_init, erule (1) spin_inv_step, use doomed_moves in blast)

section \<open>Properties\<close>

lemma silent_labels:
  "list_all silent_label ks \<Longrightarrow> packets_sent (queue_labels ks) = [] \<and> CallerCancels \<notin> set ks"
  by (induction ks rule: queue_labels.induct) (auto simp: silent_label_def split: label.splits)

text \<open>
  C8. With a named pipe, whatever the UDP reader, the pipe server, its clients, the supervisor, the processor
  and the caller do, nothing is lost on the way to the queue without a trace, nothing is made up: the UDP
  reader hands on its datagrams, each once and in order; every pipe client hands on the lines it reads, in
  order, in packets that end with a newline, and keeps what is not complete while it runs (only a line
  that fills the whole buffer is given up, as \<open>frame_lines\<close> says, and that is not counted). The packets of
  all transports go through one queue within its capacity. Each is processed, in the order it was accepted,
  or is still queued, or was dropped because the queue was full, which the UDP reader or the client counts,
  or was refused, which nobody counts and which happens only when the receiver is gone. The token is
  cancelled exactly when the caller did it or the supervisor saw a transport end on its own, which it
  reports once; and when the server returns, it is cancelled and both transports have ended.
\<close>

theorem transports_share_queue:
  assumes "run (spin_step D namespace pipe_name) (spin_named_pipe d mail) ls sp"
  shows "datagrams (d_buf_size d) (udp_log ls) = map contents (handed_on (map snd (udp_log ls))) \<and>
    (\<forall>i. concat (client_messages (client_log i ls)) = fst (frame_lines (d_buf_size d) [] (client_bytes (client_log i ls))) \<and>
       list_all (\<lambda>m. m \<noteq> [] \<and> last m = newline) (client_messages (client_log i ls)) \<and>
       (if i < length (sp_clients sp) \<and> pc_running (sp_clients sp ! i)
        then pipe_pending (sp_clients sp ! i) = snd (frame_lines (d_buf_size d) [] (client_bytes (client_log i ls))) else True)) \<and>
    mset (handed_on (queue_labels ls)) = mset (packets_processed (queue_labels ls)) + mset (sv_queue (sp_server sp)) +
      mset (packets_lost (queue_labels ls)) + mset (packets_refused (queue_labels ls)) \<and>
    length (sv_queue (sp_server sp)) \<le> d_queue_size d \<and>
    packets_processed (queue_labels ls) @ sv_queue (sp_server sp) = packets_sent (queue_labels ls) \<and>
    total_dropped sp = of_nat (length (packets_lost (queue_labels ls))) \<and>
    (packets_refused (queue_labels ls) = [] \<or> rx_closed (sp_server sp)) \<and>
    sv_proc (sp_server sp) \<noteq> PPanicked \<and> length (failures ls) \<le> 1 \<and>
    sv_cancel (sp_server sp) = (sp_caller sp \<or> failures ls \<noteq> []) \<and>
    (if sv_proc (sp_server sp) = PGone
     then sv_cancel (sp_server sp) \<and> sv_reader (sp_server sp) = RExit \<and> sp_pipe sp = PsExit else True)"
proof -
  have inv: "queue_inv d (queue_labels ls) sp" "control_inv d (failures ls) sp" "sources_inv d ls sp"
    using nps.run_inv [OF assms] by (simp_all add: spin_inv_def)
  have sent: "packets_processed (queue_labels ls) @ sv_queue (sp_server sp) = packets_sent (queue_labels ls)"
    using inv(1) by (simp add: queue_inv_def)
  have "mset (packets_sent (queue_labels ls)) = mset (packets_processed (queue_labels ls)) + mset (sv_queue (sp_server sp))"
    unfolding sent [symmetric] by simp
  then have all: "mset (handed_on (queue_labels ls)) = mset (packets_processed (queue_labels ls)) + mset (sv_queue (sp_server sp)) +
      mset (packets_lost (queue_labels ls)) + mset (packets_refused (queue_labels ls))"
    by (simp add: handed_on_mset)
  have clients: "concat (client_messages (client_log i ls)) = fst (frame_lines (d_buf_size d) [] (client_bytes (client_log i ls))) \<and>
       list_all (\<lambda>m. m \<noteq> [] \<and> last m = newline) (client_messages (client_log i ls)) \<and>
       (if i < length (sp_clients sp) \<and> pc_running (sp_clients sp ! i)
        then pipe_pending (sp_clients sp ! i) = snd (frame_lines (d_buf_size d) [] (client_bytes (client_log i ls))) else True)" for i
  proof (cases "i < length (sp_clients sp)")
    case True
    then have "client_inv (d_buf_size d) (client_log i ls) (sp_clients sp ! i)" using inv(3) by (simp add: sources_inv_def)
    then show ?thesis unfolding client_inv_def by simp
  next
    case False
    then have "client_log i ls = []" using inv(3) by (simp add: sources_inv_def)
    then show ?thesis using False by (simp add: client_messages_def client_bytes_def)
  qed
  show ?thesis using inv sent all clients by (auto simp: queue_inv_def control_inv_def sources_inv_def server_ok_def)
qed

text \<open>
  C15. The server never goes on with one transport: as soon as the UDP reader or the pipe server has ended, or
  the token is cancelled, every task can stop without another packet and without the caller. Unless the
  processor had made its last check of the queue by then, every packet accepted is processed.
\<close>

theorem transports_stop_together:
  assumes "run (spin_step D namespace pipe_name) (spin_named_pipe d mail) ls sp"
    and "sv_cancel (sp_server sp) \<or> list_ex (exited sp) (sp_waiting sp)"
  shows "\<exists>ks sp'. run (spin_step D namespace pipe_name) sp ks sp' \<and> list_all silent_label ks \<and>
    sv_proc (sp_server sp') = PGone \<and> sv_reader (sp_server sp') = RExit \<and> sp_pipe sp' = PsExit \<and>
    \<not> list_ex pc_running (sp_clients sp') \<and>
    (if sv_proc (sp_server sp) = PLoop \<or> sv_proc (sp_server sp) = PDrain
     then packets_processed (queue_labels (ls @ ks)) = packets_sent (queue_labels ls) else True)"
proof -
  obtain ks sp' where k: "run (spin_step D namespace pipe_name) sp ks sp'" "list_all silent_label ks"
      "(doomed sp', drains sp') = (doomed sp, drains sp)" "doomed sp' \<longrightarrow> stopped sp'" "spin_inv d (ls @ ks) sp'"
    by (rule nps.settles [OF assms(1)])
  then have s: "stopped sp'" "drains sp' = drains sp" using assms(2) by (simp_all add: doomed_def)
  have q: "packets_processed (queue_labels (ls @ ks)) @ sv_queue (sp_server sp') = packets_sent (queue_labels ls)"
    "control_inv d (failures (ls @ ks)) sp'"
    using k(5) silent_labels [OF k(2)] by (simp_all add: spin_inv_def queue_inv_def)
  have "sv_proc (sp_server sp) = PLoop \<or> sv_proc (sp_server sp) = PDrain \<Longrightarrow> sv_queue (sp_server sp') = []"
    using s by (auto simp: drains_def stopped_def)
  then show ?thesis using k(1,2) s(1) q
    by (intro exI [of _ ks] exI [of _ sp']) (auto simp: stopped_def control_inv_def)
qed

section \<open>The address of the socket\<close>

text \<open>
  Only the first address a name resolves to is tried, in a socket for IPv4: when binding it fails, the
  others do not help, and without a pipe the start panics. (\<open>tokio::net::UdpSocket::bind\<close>, which the
  comment in the code refers to, tries them all.)
\<close>

lemma or_fail_simps [simp]: "or_fail None k = k" "or_fail (Some e) k = Inl e"
  by (simp_all add: or_fail_def)

lemma or_fail_Inr: "or_fail e k = Inr x \<longleftrightarrow> e = None \<and> k = Inr x"
  by (cases e) auto

lemma socket_first_address:
  assumes "ue_lookup E (c_host config @ '':'' @ show_nat (c_port config)) = Inr (a # as)" "ue_bind E a \<noteq> None"
  shows "dogstatsd_start False E config = Panic"
proof -
  have "create_udp_socket E (c_host config @ '':'' @ show_nat (c_port config)) (c_so_rcvbuf config) \<noteq> Inr s" for s
    using assms by (simp add: create_udp_socket_def or_fail_Inr)
  then show ?thesis
    by (cases "create_udp_socket E (c_host config @ '':'' @ show_nat (c_port config)) (c_so_rcvbuf config)")
      (simp_all add: dogstatsd_start_def dogstatsd_new_def)
qed

text \<open>With a pipe, a socket that cannot be created leaves the pipe alone.\<close>

lemma pipe_starts_alone:
  assumes "c_windows_pipe_name config = Some pipe" "ue_lookup E (c_host config @ '':'' @ show_nat (c_port config)) = Inl e"
  shows "\<exists>d. dogstatsd_start True E config = Ret d \<and> sp_waiting (spin_named_pipe d mail) = [PipeTask]"
  using assms by (simp add: dogstatsd_start_def dogstatsd_new_def create_udp_socket_def spin_named_pipe_def Let_def)

section \<open>Scheduled runs\<close>

datatype spin_action = DoUdp reader_event | DoPipe pipe_event | DoClient nat pipe_read | DoJoin transport_task
  | DoProcess "nat \<Rightarrow> int \<times> int" | DoCallerCancel

fun spin_do :: "'sk deps \<Rightarrow> string option \<Rightarrow> string \<Rightarrow> spin_action \<Rightarrow> 'sk spin \<Rightarrow> ('sk spin \<times> spin_label) option" where
  "spin_do D namespace pipe_name (DoUdp ev) sp =
     map_option (\<lambda>(sv, l). (sp\<lparr>sp_server := sv\<rparr>, FromUdp ev l)) (udp_beside_pipe_step ev (sp_server sp))"
| "spin_do D namespace pipe_name (DoPipe ev) sp = map_option (\<lambda>sp'. (sp', Queue Tau)) (pipe_server_step ev sp)"
| "spin_do D namespace pipe_name (DoClient i r) sp = map_option (\<lambda>(sp', l). (sp', FromClient i r l)) (client_step pipe_name i r sp)"
| "spin_do D namespace pipe_name (DoJoin t) sp =
     (if t \<in> set (sp_waiting sp) \<and> exited sp t
      then Some (sp\<lparr>sp_waiting := remove1 t (sp_waiting sp), sp_server := (sp_server sp)\<lparr>sv_cancel := True\<rparr>\<rparr>,
             Joined t (\<not> sv_cancel (sp_server sp)))
      else None)"
| "spin_do D namespace pipe_name (DoProcess clk) sp =
     map_option (\<lambda>(sv, l). (sp\<lparr>sp_server := sv\<rparr>, Queue l)) (process_loop_step D namespace (Recv clk) (sp_server sp))"
| "spin_do D namespace pipe_name DoCallerCancel sp =
     Some (sp\<lparr>sp_caller := True, sp_server := (sp_server sp)\<lparr>sv_cancel := True\<rparr>\<rparr>, CallerCancels)"

lemma spin_do_step: "spin_do D namespace pipe_name act sp = Some (sp', l) \<Longrightarrow> spin_step D namespace pipe_name sp l sp'"
  by (cases act) (auto split: if_splits intro: spin_step.intros)

fun spin_sched ::
  "'sk deps \<Rightarrow> string option \<Rightarrow> string \<Rightarrow> spin_action list \<Rightarrow> 'sk spin \<Rightarrow> (spin_label list \<times> 'sk spin) option" where
  "spin_sched D namespace pipe_name [] sp = Some ([], sp)"
| "spin_sched D namespace pipe_name (act # acts) sp =
     (case spin_do D namespace pipe_name act sp of
        None \<Rightarrow> None
      | Some (sp', l) \<Rightarrow> map_option (\<lambda>(ls, sp''). (l # ls, sp'')) (spin_sched D namespace pipe_name acts sp'))"

lemma spin_sched_run:
  "spin_sched D namespace pipe_name acts sp = Some (ls, sp') \<Longrightarrow> run (spin_step D namespace pipe_name) sp ls sp'"
proof (induction acts arbitrary: sp ls)
  case (Cons act acts)
  then obtain sp1 l ks where s: "spin_do D namespace pipe_name act sp = Some (sp1, l)"
      "spin_sched D namespace pipe_name acts sp1 = Some (ks, sp')" "ls = l # ks"
    by (auto split: option.splits prod.splits)
  from run_append [OF Cons.IH [OF s(2)] run_single [of "spin_step D namespace pipe_name", OF spin_do_step [OF s(1)]]]
  show ?case using s(3) by simp
qed (simp add: run_nil)

definition pipe_config :: dogstatsd where
  "pipe_config = \<lparr>d_transport = NamedPipe_transport ''p'' True, d_metric_namespace = None, d_buf_size = 16, d_queue_size = 1\<rparr>"

definition pipe_begin :: "fl list spin" where
  "pipe_begin = spin_named_pipe pipe_config \<lparr>mb_queue = [], mb_open = True\<rparr>"

text \<open>
  A client connects and sends a line while the UDP reader gets another, for which the queue has no room;
  then the UDP socket fails.
\<close>

definition pipe_acts :: "spin_action list" where
  "pipe_acts = [DoPipe (PsCreate True), DoPipe (PsConnected True), DoClient 0 (PipeRead (''a:1|c'' @ [newline])),
     DoUdp Go, DoUdp (Got (OsOk ''b:1|c'' ''x'')), DoUdp Go, DoUdp (Got (OsErr OtherError))]"

lemma pipe_acts_run:
  "\<exists>ls sp. run (spin_step sample_deps None ''p'') (spin_named_pipe pipe_config \<lparr>mb_queue = [], mb_open = True\<rparr>) ls sp \<and>
     length (packets_sent (queue_labels ls)) = 1 \<and> length (packets_lost (queue_labels ls)) = 1 \<and>
     exited sp UdpTask \<and> UdpTask \<in> set (sp_waiting sp) \<and> sv_proc (sp_server sp) = PLoop \<and>
     length (sv_queue (sp_server sp)) = 1 \<and> list_ex pc_running (sp_clients sp) \<and> \<not> sp_caller sp"
proof -
  have "case spin_sched sample_deps None ''p'' pipe_acts pipe_begin of
      None \<Rightarrow> False
    | Some (ls, sp) \<Rightarrow> length (packets_sent (queue_labels ls)) = 1 \<and> length (packets_lost (queue_labels ls)) = 1 \<and>
        exited sp UdpTask \<and> UdpTask \<in> set (sp_waiting sp) \<and> sv_proc (sp_server sp) = PLoop \<and>
        length (sv_queue (sp_server sp)) = 1 \<and> list_ex pc_running (sp_clients sp) \<and> \<not> sp_caller sp" by code_simp
  then show ?thesis
    by (auto simp: pipe_begin_def split: option.splits prod.splits dest: spin_sched_run)
qed

theorem transports_share_queue_witness:
  "\<exists>ls sp. run (spin_step sample_deps None ''p'') (spin_named_pipe pipe_config \<lparr>mb_queue = [], mb_open = True\<rparr>) ls sp \<and>
     total_dropped sp = 1 \<and> packets_sent (queue_labels ls) = packets_processed (queue_labels ls) @ sv_queue (sp_server sp)"
  using pipe_acts_run transports_share_queue by (metis of_nat_1)

theorem transports_stop_together_witness:
  "\<exists>ls sp ks sp'. run (spin_step sample_deps None ''p'') (spin_named_pipe pipe_config \<lparr>mb_queue = [], mb_open = True\<rparr>) ls sp \<and>
     \<not> sp_caller sp \<and> run (spin_step sample_deps None ''p'') sp ks sp' \<and> sv_proc (sp_server sp') = PGone \<and>
     \<not> list_ex pc_running (sp_clients sp') \<and> length (packets_processed (queue_labels (ls @ ks))) = 1"
proof -
  obtain ls sp where r: "run (spin_step sample_deps None ''p'') (spin_named_pipe pipe_config \<lparr>mb_queue = [], mb_open = True\<rparr>) ls sp"
      "length (packets_sent (queue_labels ls)) = 1" "list_ex (exited sp) (sp_waiting sp)" "sv_proc (sp_server sp) = PLoop"
      "\<not> sp_caller sp"
    using pipe_acts_run by (auto simp: list_ex_iff)
  then show ?thesis using transports_stop_together [OF r(1)] by (metis (no_types, lifting))
qed

end
