(* ===== verification/Http.thy ===== *)
theory Http
  imports Interfaces
begin

text \<open>
  What the flushers use of the HTTP clients: a request as it is built, the outcome of sending it,
  and the classes of status codes. A status code is its number.
\<close>

record request =
  rq_url :: string
  rq_headers :: "(string \<times> string) list"
  rq_body :: string

text \<open>A response has a status code; a request that fails may carry one.\<close>

datatype send_result = Response nat | SendFailed "nat option"

definition status_success :: "nat \<Rightarrow> bool" where
  "status_success s \<longleftrightarrow> 200 \<le> s \<and> s < 300"

definition client_error :: "nat \<Rightarrow> bool" where
  "client_error s \<longleftrightarrow> 400 \<le> s \<and> s < 500"

fun succeeds :: "send_result \<Rightarrow> bool" where
  "succeeds (Response s) = status_success s"
| "succeeds (SendFailed s) = False"

text \<open>Retry on failure only: the success an answer is, if it is one.\<close>

fun success_of :: "send_result \<Rightarrow> nat option" where
  "success_of (Response s) = (if status_success s then Some s else None)"
| "success_of (SendFailed s) = None"

lemma success_of_None [simp]: "success_of r = None \<longleftrightarrow> \<not> succeeds r"
  by (cases r) auto

end
