(* ===== verification/Dsd_Flusher.thy ===== *)
theory Dsd_Flusher
  imports Dsd_Service Http
begin

text \<open>
  \<^verbatim>\<open>dogstatsd/src/flusher.rs\<close>, \<^verbatim>\<open>datadog/shipping.rs\<close> and \<^verbatim>\<open>datadog/intake.rs\<close>: where
  payloads are sent, how a request is retried, and which batches a flush gives back.

  The network is the parameter \<open>net\<close>: the answer to the k-th attempt at a request. Serialization
  and compression are parameters of the \<open>ship_env\<close> record. Of an error message only its constant
  text is kept.
\<close>

section \<open>Intake URLs\<close>

definition url_char :: "char \<Rightarrow> bool" where
  "url_char c \<longleftrightarrow> is_ascii_alphanumeric c \<or> c \<in> {CHR ''.'', CHR ''_'', CHR '':'', CHR ''-''}"

text \<open>The regular expressions \<open>^[a-zA-Z0-9._:-]+$\<close> and \<open>^https?://[a-zA-Z0-9._:-]+$\<close>.\<close>

definition site_re :: "string \<Rightarrow> bool" where
  "site_re s \<longleftrightarrow> s \<noteq> [] \<and> list_all url_char s"

definition url_prefix_re :: "string \<Rightarrow> bool" where
  "url_prefix_re s \<longleftrightarrow>
     (case strip_prefix ''http://'' s of
        Some r \<Rightarrow> site_re r
      | None \<Rightarrow> (case strip_prefix ''https://'' s of Some r \<Rightarrow> site_re r | None \<Rightarrow> False))"

datatype site = Site string
datatype site_error = SiteError string
datatype url_prefix_error = UrlPrefixError string
datatype dd_url = DdUrl string
datatype dd_dd_url = DdDdUrl string
datatype prefix_override = PrefixOverride string
datatype intake_prefix = IntakePrefix string
datatype missing_intake_url = MissingIntakeUrl

definition site_new :: "string \<Rightarrow> site_error + site" where
  "site_new s = (if site_re s then Inr (Site s) else Inl (SiteError s))"

definition validate_url_prefix :: "string \<Rightarrow> url_prefix_error + unit" where
  "validate_url_prefix prefix = (if url_prefix_re prefix then Inr () else Inl (UrlPrefixError prefix))"

definition dd_url_new :: "string \<Rightarrow> url_prefix_error + dd_url" where
  "dd_url_new prefix = (case validate_url_prefix prefix of Inl e \<Rightarrow> Inl e | Inr _ \<Rightarrow> Inr (DdUrl prefix))"

definition dd_dd_url_new :: "string \<Rightarrow> url_prefix_error + dd_dd_url" where
  "dd_dd_url_new prefix = (case validate_url_prefix prefix of Inl e \<Rightarrow> Inl e | Inr _ \<Rightarrow> Inr (DdDdUrl prefix))"

fun override_maybe_new :: "dd_url option \<Rightarrow> dd_dd_url option \<Rightarrow> prefix_override option" where
  "override_maybe_new None None = None"
| "override_maybe_new u (Some (DdDdUrl d)) = Some (PrefixOverride d)"
| "override_maybe_new (Some (DdUrl u)) None = Some (PrefixOverride u)"

definition new_expect_validated :: "string \<Rightarrow> intake_prefix rust" where
  "new_expect_validated prefix =
     (case validate_url_prefix prefix of Inl e \<Rightarrow> Panic | Inr _ \<Rightarrow> Ret (IntakePrefix prefix))"

fun from_site :: "site \<Rightarrow> intake_prefix" where
  "from_site (Site s) = IntakePrefix (''https://api.'' @ s)"

fun intake_prefix_new ::
  "site option \<Rightarrow> prefix_override option \<Rightarrow> (missing_intake_url + intake_prefix) rust" where
  "intake_prefix_new None None = Ret (Inl MissingIntakeUrl)"
| "intake_prefix_new s (Some (PrefixOverride p)) = bind_rust (new_expect_validated p) (\<lambda>x. Ret (Inr x))"
| "intake_prefix_new (Some s) None = Ret (Inr (from_site s))"

section \<open>Requests\<close>

datatype retry_strategy = Immediate nat | LinearBackoff nat nat

datatype shipping_error = Payload string | Destination "nat option" string

record 'sk ship_env =
  json_series :: "series \<Rightarrow> string option"
  proto_sketches :: "'sk sketch_payload \<Rightarrow> string option"
  zstd :: "nat \<Rightarrow> string \<Rightarrow> string option"
  can_clone :: "request \<Rightarrow> bool"

record dd_api =
  da_api_key :: string
  da_prefix :: intake_prefix
  da_retry :: retry_strategy
  da_compression :: nat

fun max_attempts :: "retry_strategy \<Rightarrow> nat" where
  "max_attempts (Immediate n) = n"
| "max_attempts (LinearBackoff n d) = n"

fun result_status :: "send_result \<Rightarrow> nat option" where
  "result_status (Response s) = Some s"
| "result_status (SendFailed s) = s"

text \<open>
  The loop of \<open>send_with_retry\<close> with \<open>attempts\<close> already made; sleeping between attempts is not
  observable here. The second component counts the requests made.
\<close>

function retry_loop ::
  "retry_strategy \<Rightarrow> bool \<Rightarrow> (nat \<Rightarrow> send_result) \<Rightarrow> nat \<Rightarrow> (shipping_error + nat) \<times> nat" where
  "retry_loop strategy cloneable net attempts =
     (let attempts = attempts + 1 in
      if \<not> cloneable then (Inl (Destination None ''Failed to clone request''), attempts - 1)
      else
        (case net attempts of
           Response s \<Rightarrow>
             if status_success s then (Inr s, attempts)
             else if attempts \<ge> max_attempts strategy
             then (Inl (Destination (Some s) ''Failed to send request''), attempts)
             else retry_loop strategy cloneable net attempts
         | SendFailed s \<Rightarrow>
             if attempts \<ge> max_attempts strategy
             then (Inl (Destination s ''Failed to send request''), attempts)
             else retry_loop strategy cloneable net attempts))"
  by pat_completeness auto
termination
  by (relation "measure (\<lambda>(strategy, c, net, attempts). max_attempts strategy - attempts)") auto

declare retry_loop.simps [simp del]

definition send_with_retry ::
  "'sk ship_env \<Rightarrow> dd_api \<Rightarrow> (request \<Rightarrow> nat \<Rightarrow> send_result) \<Rightarrow> request \<Rightarrow> shipping_error + nat" where
  "send_with_retry E api net rq = fst (retry_loop (da_retry api) (can_clone E rq) (net rq) 0)"

definition ship_data ::
  "'sk ship_env \<Rightarrow> dd_api \<Rightarrow> (request \<Rightarrow> nat \<Rightarrow> send_result) \<Rightarrow> string \<Rightarrow> string \<Rightarrow> string \<Rightarrow> shipping_error + nat" where
  "ship_data E api net url body content_type =
     (let headers = [(''DD-API-KEY'', da_api_key api), (''Content-Type'', content_type)];
          rq = (case zstd E (da_compression api) body of
                  Some compressed \<Rightarrow>
                    \<lparr>rq_url = url, rq_headers = headers @ [(''Content-Encoding'', ''zstd'')], rq_body = compressed\<rparr>
                | None \<Rightarrow> \<lparr>rq_url = url, rq_headers = headers, rq_body = body\<rparr>)
      in send_with_retry E api net rq)"

fun prefix_str :: "intake_prefix \<Rightarrow> string" where
  "prefix_str (IntakePrefix p) = p"

definition ship_series ::
  "'sk ship_env \<Rightarrow> dd_api \<Rightarrow> (request \<Rightarrow> nat \<Rightarrow> send_result) \<Rightarrow> series \<Rightarrow> shipping_error + nat" where
  "ship_series E api net series =
     (case json_series E series of
        None \<Rightarrow> Inl (Payload ''Failed to serialize series'')
      | Some body \<Rightarrow>
          ship_data E api net (prefix_str (da_prefix api) @ ''/api/v2/series'') body ''application/json'')"

definition ship_distributions ::
  "'sk ship_env \<Rightarrow> dd_api \<Rightarrow> (request \<Rightarrow> nat \<Rightarrow> send_result) \<Rightarrow> 'sk sketch_payload \<Rightarrow> shipping_error + nat" where
  "ship_distributions E api net sketches =
     (case proto_sketches E sketches of
        None \<Rightarrow> Inl (Payload ''Failed to serialize sketches'')
      | Some body \<Rightarrow>
          ship_data E api net (prefix_str (da_prefix api) @ ''/api/beta/sketches'') body ''application/x-protobuf'')"

section \<open>Flushing\<close>

text \<open>Whether to go on with the next batch, and whether to give this one back.\<close>

fun should_try_next_batch :: "shipping_error + nat \<Rightarrow> bool \<times> bool" where
  "should_try_next_batch (Inr s) =
     (if s = 202 then (True, False)
      else if client_error s then (True, False) else (False, True))"
| "should_try_next_batch (Inl (Payload msg)) = (True, False)"
| "should_try_next_batch (Inl (Destination sc msg)) =
     (if (case sc of Some s \<Rightarrow> client_error s | None \<Rightarrow> False) then (False, False) else (False, True))"

text \<open>
  The task that ships the batches of one kind: those that failed, and whether one did. The
  i-th batch is shipped by \<open>ship i\<close>, so that equal batches can meet different answers.
\<close>

fun ship_batches ::
  "(nat \<Rightarrow> 'b \<Rightarrow> shipping_error + nat) \<Rightarrow> nat \<Rightarrow> 'b list \<Rightarrow> 'b list \<Rightarrow> bool \<Rightarrow> 'b list \<times> bool" where
  "ship_batches ship i [] failed had_error = (failed, had_error)"
| "ship_batches ship i (a_batch # batches) failed had_error =
     (case should_try_next_batch (ship i a_batch) of (continue_shipping, should_retry) \<Rightarrow>
        let failed' = (if should_retry then failed @ [a_batch] else failed);
            had_error' = (had_error \<or> should_retry)
        in if \<not> continue_shipping then (failed', had_error')
           else ship_batches ship (Suc i) batches failed' had_error')"

record 'sk flusher =
  fl_prefix :: intake_prefix
  fl_retry :: retry_strategy
  fl_compression :: nat
  fl_dd_api :: "dd_api option option"

definition flusher_new :: "intake_prefix \<Rightarrow> retry_strategy \<Rightarrow> nat \<Rightarrow> 'sk flusher" where
  "flusher_new prefix retry compression =
     \<lparr>fl_prefix = prefix, fl_retry = retry, fl_compression = compression, fl_dd_api = None\<rparr>"

text \<open>\<open>key\<close>: what the API key factory returns if it is asked now.\<close>

definition get_dd_api :: "string option \<Rightarrow> 'sk flusher \<Rightarrow> dd_api option \<times> 'sk flusher" where
  "get_dd_api key f =
     (case fl_dd_api f of
        Some api \<Rightarrow> (api, f)
      | None \<Rightarrow>
          let api = map_option (\<lambda>k. \<lparr>da_api_key = k, da_prefix = fl_prefix f, da_retry = fl_retry f,
                                     da_compression = fl_compression f\<rparr>) key
          in (api, f\<lparr>fl_dd_api := Some api\<rparr>))"

text \<open>The network as the two shipping tasks meet it: the task, the batch, the request, the attempt.\<close>

datatype ship_task = SeriesTask | SketchTask

type_synonym network = "ship_task \<Rightarrow> nat \<Rightarrow> request \<Rightarrow> nat \<Rightarrow> send_result"

text \<open>\<open>joined\<close>: neither of the two tasks panicked.\<close>

definition flush_metrics ::
  "'sk ship_env \<Rightarrow> network \<Rightarrow> string option \<Rightarrow> bool \<Rightarrow>
   series list \<Rightarrow> 'sk sketch_payload list \<Rightarrow> 'sk flusher \<Rightarrow>
   (series list \<times> 'sk sketch_payload list) option \<times> 'sk flusher" where
  "flush_metrics E net key joined series distributions f =
     (if length series = 0 \<and> length distributions = 0 then (None, f)
      else
        (case get_dd_api key f of
           (None, f') \<Rightarrow> (Some (series, distributions), f')
         | (Some api, f') \<Rightarrow>
             if \<not> joined then (Some (series, distributions), f')
             else
               let (series_failed, series_had_error) = ship_batches (\<lambda>i. ship_series E api (net SeriesTask i)) 0 series [] False;
                   (sketches_failed, sketches_had_error) =
                     ship_batches (\<lambda>i. ship_distributions E api (net SketchTask i)) 0 distributions [] False
               in if series_failed = [] \<and> sketches_failed = [] then (None, f')
                  else if series_had_error \<or> sketches_had_error
                  then (Some (series_failed, sketches_failed), f')
                  else (None, f')))"

definition flusher_flush ::
  "'sk ship_env \<Rightarrow> network \<Rightarrow> string option \<Rightarrow> bool \<Rightarrow>
   handle_error + 'sk flush_response \<Rightarrow> 'sk flusher \<Rightarrow>
   (series list \<times> 'sk sketch_payload list) option \<times> 'sk flusher" where
  "flusher_flush E net key joined response f =
     (case response of
        Inl e \<Rightarrow> (Some ([], []), f)
      | Inr r \<Rightarrow> flush_metrics E net key joined (fr_series r) (fr_distributions r) f)"

section \<open>Retries\<close>

lemma retry_loop_fail:
  assumes "\<not> succeeds (net (Suc k))"
  shows "retry_loop strategy True net k =
    (if Suc k \<ge> max_attempts strategy
     then (Inl (Destination (result_status (net (Suc k))) ''Failed to send request''), Suc k)
     else retry_loop strategy True net (Suc k))"
  using assms by (subst retry_loop.simps) (cases "net (Suc k)"; simp add: Let_def)

lemma retry_loop_success:
  assumes "net (Suc k) = Response s" "status_success s"
  shows "retry_loop strategy True net k = (Inr s, Suc k)"
  using assms by (subst retry_loop.simps) (simp add: Let_def)

interpretation rt: retrying "retry_loop strategy True" "\<lambda>a. map_option Inr (success_of a)"
    "\<lambda>a. Inl (Destination (result_status a) ''Failed to send request'')" "max_attempts strategy" for strategy
proof
  fix net :: "nat \<Rightarrow> send_result" and k r
  show "map_option Inr (success_of (net (Suc k))) = Some r \<Longrightarrow> retry_loop strategy True net k = (r, Suc k)"
    by (cases "net (Suc k)") (auto simp: retry_loop_success split: if_splits)
qed (auto simp: retry_loop_fail)

text \<open>
  A request is sent until the first success and at most as often as the strategy allows (but
  at least once): the first successful answer is returned, and when there is none the error
  carries the status of the last attempt.
\<close>

theorem send_with_retry_attempts:
  assumes "can_clone E rq" and n_def: "n = max 1 (max_attempts (da_retry api))"
  shows "(\<forall>k s. 1 \<le> k \<and> k \<le> n \<and> net rq k = Response s \<and> status_success s \<and>
      (\<forall>j. 1 \<le> j \<and> j < k \<longrightarrow> \<not> succeeds (net rq j)) \<longrightarrow>
      send_with_retry E api net rq = Inr s \<and> snd (retry_loop (da_retry api) True (net rq) 0) = k) \<and>
    ((\<forall>j. 1 \<le> j \<and> j \<le> n \<longrightarrow> \<not> succeeds (net rq j)) \<longrightarrow>
      send_with_retry E api net rq =
        Inl (Destination (result_status (net rq n)) ''Failed to send request'') \<and>
      snd (retry_loop (da_retry api) True (net rq) 0) = n)"
proof (intro conjI allI impI)
  fix k s
  assume k: "1 \<le> k \<and> k \<le> n \<and> net rq k = Response s \<and> status_success s \<and>
      (\<forall>j. 1 \<le> j \<and> j < k \<longrightarrow> \<not> succeeds (net rq j))"
  then have "retry_loop (da_retry api) True (net rq) 0 = (Inr s, k)"
    unfolding n_def by (intro rt.first_final) auto
  then show "send_with_retry E api net rq = Inr s" "snd (retry_loop (da_retry api) True (net rq) 0) = k"
    using assms(1) by (simp_all add: send_with_retry_def)
next
  assume "\<forall>j. 1 \<le> j \<and> j \<le> n \<longrightarrow> \<not> succeeds (net rq j)"
  then have "retry_loop (da_retry api) True (net rq) 0 =
      (Inl (Destination (result_status (net rq n)) ''Failed to send request''), n)"
    unfolding n_def by (intro rt.no_final) auto
  then show "send_with_retry E api net rq =
        Inl (Destination (result_status (net rq n)) ''Failed to send request'')"
      "snd (retry_loop (da_retry api) True (net rq) 0) = n"
    using assms(1) by (simp_all add: send_with_retry_def)
qed

section \<open>What a flush gives back\<close>

text \<open>The batches that are attempted, with their positions.\<close>

fun attempted :: "(nat \<Rightarrow> 'b \<Rightarrow> shipping_error + nat) \<Rightarrow> nat \<Rightarrow> 'b list \<Rightarrow> (nat \<times> 'b) list" where
  "attempted ship i [] = []"
| "attempted ship i (b # bs) =
     (i, b) # (if fst (should_try_next_batch (ship i b)) then attempted ship (Suc i) bs else [])"

definition to_retry :: "(nat \<Rightarrow> 'b \<Rightarrow> shipping_error + nat) \<Rightarrow> nat \<times> 'b \<Rightarrow> bool" where
  "to_retry ship ib = snd (should_try_next_batch (ship (fst ib) (snd ib)))"

lemma retry_stops: "snd (should_try_next_batch r) \<Longrightarrow> \<not> fst (should_try_next_batch r)"
  by (cases r rule: should_try_next_batch.cases) (auto split: if_splits)

lemma ship_batches_attempted:
  "ship_batches ship i bs failed err =
     (failed @ map snd (filter (to_retry ship) (attempted ship i bs)),
      err \<or> filter (to_retry ship) (attempted ship i bs) \<noteq> [])"
proof (induction bs arbitrary: i failed err)
  case (Cons b bs)
  obtain c r where cr: "should_try_next_batch (ship i b) = (c, r)" by fastforce
  then show ?case using Cons retry_stops [of "ship i b"] by (cases c; cases r) (simp_all add: to_retry_def)
qed simp

lemma to_retry_last:
  "length (filter (to_retry ship) (attempted ship i bs)) \<le> 1 \<and>
   (\<forall>ib\<in>set (attempted ship i bs). to_retry ship ib \<longrightarrow> ib = last (attempted ship i bs))"
proof (induction bs arbitrary: i)
  case (Cons b bs)
  show ?case
  proof (cases "fst (should_try_next_batch (ship i b))")
    case True
    then have "\<not> to_retry ship (i, b)" using retry_stops by (fastforce simp: to_retry_def)
    then show ?thesis using Cons [of "Suc i"] True by (auto simp: last_ConsR)
  qed auto
qed simp

lemma attempted_prefix: "\<exists>rest. bs = map snd (attempted ship i bs) @ rest"
  by (induction bs arbitrary: i) auto

lemma flush_metrics_result:
  assumes "series \<noteq> [] \<or> dists \<noteq> []" "get_dd_api key f = (Some api, f')"
    and fs: "fs = map snd (filter (to_retry (\<lambda>i. ship_series E api (net SeriesTask i)))
      (attempted (\<lambda>i. ship_series E api (net SeriesTask i)) 0 series))"
    and fd: "fd = map snd (filter (to_retry (\<lambda>i. ship_distributions E api (net SketchTask i)))
      (attempted (\<lambda>i. ship_distributions E api (net SketchTask i)) 0 dists))"
  shows "flush_metrics E net key True series dists f =
    (if fs = [] \<and> fd = [] then None else Some (fs, fd), f')"
  using assms(1,2) by (auto simp: flush_metrics_def ship_batches_attempted fs fd Let_def)

text \<open>The batches given back for one kind.\<close>

definition given_back :: "(nat \<Rightarrow> 'b \<Rightarrow> shipping_error + nat) \<Rightarrow> 'b list \<Rightarrow> 'b list \<Rightarrow> bool" where
  "given_back ship bs back \<longleftrightarrow>
     (\<exists>rest. bs = map snd (attempted ship 0 bs) @ rest) \<and>
     back = map snd (filter (to_retry ship) (attempted ship 0 bs)) \<and>
     (back = [] \<or> back = [snd (last (attempted ship 0 bs))]) \<and>
     (\<forall>(i, b)\<in>set (attempted ship 0 bs). ship i b = Inr 202 \<longrightarrow> \<not> to_retry ship (i, b))"

lemma given_back_retry: "given_back ship bs (map snd (filter (to_retry ship) (attempted ship 0 bs)))"
proof -
  let ?r = "filter (to_retry ship) (attempted ship 0 bs)"
  note l = to_retry_last [of ship 0 bs]
  have "map snd ?r = [] \<or> map snd ?r = [snd (last (attempted ship 0 bs))]"
  proof (cases ?r)
    case (Cons x xs)
    then have "xs = []" using l by (cases xs) auto
    moreover have "x \<in> set (attempted ship 0 bs)" "to_retry ship x"
      using Cons by (auto simp: filter_eq_Cons_iff)
    ultimately show ?thesis using Cons l by auto
  qed simp
  then show ?thesis using attempted_prefix by (auto simp: given_back_def to_retry_def)
qed

text \<open>
  What \<open>flush_metrics\<close> returns for retry is exactly what it attempted and what met a
  retryable failure: at most one batch of each kind, the last one attempted of that kind. A batch
  the intake accepted is never given back, so retrying never sends it twice, and when nothing
  failed in that way nothing is given back.
\<close>

theorem flush_gives_back_failed:
  assumes "series \<noteq> [] \<or> dists \<noteq> []" and "get_dd_api key f = (Some api, f')"
  shows "\<exists>fs fd. given_back (\<lambda>i. ship_series E api (net SeriesTask i)) series fs \<and>
    given_back (\<lambda>i. ship_distributions E api (net SketchTask i)) dists fd \<and>
    flush_metrics E net key True series dists f = (if fs = [] \<and> fd = [] then None else Some (fs, fd), f')"
  by (rule exI, rule exI, intro conjI)
     (rule given_back_retry, rule given_back_retry, rule flush_metrics_result [OF assms refl refl])

text \<open>
  The answers after which the next batch is shipped: accepted, a 4xx returned as a response, and a payload that cannot be
  made. The others end the shipping; of these a 4xx reported as an error drops the batch and the rest asks
  for it to be sent again.
\<close>

fun goes_on :: "shipping_error + nat \<Rightarrow> bool" where
  "goes_on (Inr s) = (s = 202 \<or> client_error s)"
| "goes_on (Inl (Payload msg)) = True"
| "goes_on (Inl (Destination sc msg)) = False"

fun again :: "shipping_error + nat \<Rightarrow> bool" where
  "again (Inr s) = (s \<noteq> 202 \<and> \<not> client_error s)"
| "again (Inl (Payload msg)) = False"
| "again (Inl (Destination sc msg)) = (case sc of Some s \<Rightarrow> \<not> client_error s | None \<Rightarrow> True)"

lemma should_try_next_batch_eq: "should_try_next_batch r = (goes_on r, again r)"
  by (cases r rule: should_try_next_batch.cases) (auto split: option.splits)

text \<open>What becomes of the batches of one kind, shipped in order.\<close>

definition shipped_until ::
  "(nat \<Rightarrow> 'b \<Rightarrow> shipping_error + nat) \<Rightarrow> 'b list \<Rightarrow> 'b list \<Rightarrow> bool" where
  "shipped_until ship bs back \<longleftrightarrow>
     (back = [] \<and> attempted ship 0 bs = enumerate 0 bs \<and> list_all (\<lambda>(i, b). goes_on (ship i b)) (enumerate 0 bs)) \<or>
     (\<exists>sent b lost. bs = sent @ b # lost \<and> attempted ship 0 bs = enumerate 0 (sent @ [b]) \<and>
        list_all (\<lambda>(i, b). goes_on (ship i b)) (enumerate 0 sent) \<and> \<not> goes_on (ship (length sent) b) \<and>
        back = (if again (ship (length sent) b) then [b] else []))"

lemma attempted_stops:
  "(attempted ship i bs = enumerate i bs \<and> list_all (\<lambda>(i, b). goes_on (ship i b)) (enumerate i bs)) \<or>
   (\<exists>sent b lost. bs = sent @ b # lost \<and> attempted ship i bs = enumerate i (sent @ [b]) \<and>
      list_all (\<lambda>(i, b). goes_on (ship i b)) (enumerate i sent) \<and> \<not> goes_on (ship (i + length sent) b))"
proof (induction bs arbitrary: i)
  case (Cons b bs)
  show ?case
  proof (cases "goes_on (ship i b)")
    case True
    from Cons [of "Suc i"] show ?thesis
    proof
      assume "\<exists>sent c lost. bs = sent @ c # lost \<and> attempted ship (Suc i) bs = enumerate (Suc i) (sent @ [c]) \<and>
        list_all (\<lambda>(i, b). goes_on (ship i b)) (enumerate (Suc i) sent) \<and> \<not> goes_on (ship (Suc i + length sent) c)"
      then obtain sent c lost where "bs = sent @ c # lost" "attempted ship (Suc i) bs = enumerate (Suc i) (sent @ [c])"
        "list_all (\<lambda>(i, b). goes_on (ship i b)) (enumerate (Suc i) sent)" "\<not> goes_on (ship (Suc i + length sent) c)" by blast
      then show ?thesis using True by (intro disjI2 exI [of _ "b # sent"] exI [of _ c] exI [of _ lost]) (simp add: should_try_next_batch_eq)
    qed (use True in \<open>simp add: should_try_next_batch_eq\<close>)
  next
    case False
    then show ?thesis by (intro disjI2 exI [of _ "[]"] exI [of _ b] exI [of _ bs]) (simp add: should_try_next_batch_eq)
  qed
qed simp

lemma again_stops: "goes_on r \<Longrightarrow> \<not> again r"
  by (cases r rule: goes_on.cases) auto

lemma shipped_until_retry: "shipped_until ship bs (map snd (filter (to_retry ship) (attempted ship 0 bs)))"
proof -
  have none: "filter (to_retry ship) xs = []" if "list_all (\<lambda>(i, b). goes_on (ship i b)) xs" for xs
    using that by (auto simp: filter_empty_conv list_all_iff to_retry_def should_try_next_batch_eq again_stops)
  from attempted_stops [of ship 0 bs] show ?thesis
  proof
    assume "\<exists>sent b lost. bs = sent @ b # lost \<and> attempted ship 0 bs = enumerate 0 (sent @ [b]) \<and>
      list_all (\<lambda>(i, b). goes_on (ship i b)) (enumerate 0 sent) \<and> \<not> goes_on (ship (0 + length sent) b)"
    then obtain sent b lost where k: "bs = sent @ b # lost" "attempted ship 0 bs = enumerate 0 (sent @ [b])"
      "list_all (\<lambda>(i, b). goes_on (ship i b)) (enumerate 0 sent)" "\<not> goes_on (ship (length sent) b)" by auto
    have "map snd (filter (to_retry ship) (attempted ship 0 bs)) = (if again (ship (length sent) b) then [b] else [])"
      unfolding k(2) enumerate_append_eq by (simp add: none [OF k(3)] to_retry_def should_try_next_batch_eq)
    then show ?thesis unfolding shipped_until_def using k by blast
  qed (use none [of "enumerate 0 bs"] in \<open>simp add: shipped_until_def\<close>)
qed

text \<open>
  C34. Of each kind, series and distributions, the batches are shipped in order until one does not get an answer
  after which the code goes on, or to the end. That batch is given back, unless the error carries a 4xx status:
  then it is dropped. The batches behind it are neither attempted nor given back, so they are lost although
  the caller retries what it is given. Nothing else is given back, and when there is nothing to give back the
  flush reports success, whatever it dropped.
\<close>

theorem flush_loses_rest:
  assumes "series \<noteq> [] \<or> dists \<noteq> []" and "get_dd_api key f = (Some api, f')"
  shows "\<exists>back_series back_dists.
    shipped_until (\<lambda>i. ship_series E api (net SeriesTask i)) series back_series \<and>
    shipped_until (\<lambda>i. ship_distributions E api (net SketchTask i)) dists back_dists \<and>
    fst (flush_metrics E net key True series dists f) =
      (if back_series = [] \<and> back_dists = [] then None else Some (back_series, back_dists))"
proof (intro exI conjI)
  show "shipped_until (\<lambda>i. ship_series E api (net SeriesTask i)) series (map snd (filter (to_retry (\<lambda>i. ship_series E api (net SeriesTask i)))
      (attempted (\<lambda>i. ship_series E api (net SeriesTask i)) 0 series)))"
    and "shipped_until (\<lambda>i. ship_distributions E api (net SketchTask i)) dists (map snd (filter (to_retry (\<lambda>i. ship_distributions E api (net SketchTask i)))
      (attempted (\<lambda>i. ship_distributions E api (net SketchTask i)) 0 dists)))"
    by (rule shipped_until_retry)+
qed (simp only: flush_metrics_result [OF assms refl refl] fst_conv)

text \<open>
  The result of the first key lookup is kept for good: when the first flush finds no API key,
  every later flush gives all its batches back unsent, whatever key the factory has by then.
\<close>

theorem no_key_is_forever:
  assumes "series \<noteq> [] \<or> dists \<noteq> []" and "series' \<noteq> [] \<or> dists' \<noteq> []" and "fl_dd_api f = None"
    and "flush_metrics E net None joined series dists f = (r, f')"
  shows "fst (flush_metrics E net' (Some key) joined' series' dists' f') = Some (series', dists')"
  using assms by (auto simp: flush_metrics_def get_dd_api_def Let_def)

text \<open>
  An intake prefix built from validated parts never panics and is a URL of the API: with an
  override, the override (the one for metrics before the general one), otherwise the site's API
  host; without either there is an error.
\<close>

theorem intake_prefix_validated:
  "(\<forall>s u. site_new s = Inr u \<longrightarrow>
      (\<exists>p. intake_prefix_new (Some u) None = Ret (Inr (IntakePrefix p)) \<and> url_prefix_re p \<and>
         p = ''https://api.'' @ s)) \<and>
   (\<forall>s a b u v. dd_url_new a = Inr u \<longrightarrow> dd_dd_url_new b = Inr v \<longrightarrow>
      intake_prefix_new s (override_maybe_new (Some u) (Some v)) = Ret (Inr (IntakePrefix b)) \<and>
      intake_prefix_new s (override_maybe_new (Some u) None) = Ret (Inr (IntakePrefix a)) \<and>
      intake_prefix_new s (override_maybe_new None (Some v)) = Ret (Inr (IntakePrefix b))) \<and>
   intake_prefix_new None (override_maybe_new None None) = Ret (Inl MissingIntakeUrl)"
proof (intro conjI allI impI)
  fix s u assume "site_new s = Inr u"
  then have u: "u = Site s" "s \<noteq> []" "list_all url_char s"
    by (auto simp: site_new_def site_re_def split: if_splits)
  have "list_all url_char ''api.''" by code_simp
  moreover have "strip_prefix ''http://'' (''https://'' @ ''api.'' @ s) = None" by simp
  ultimately have "url_prefix_re (''https://'' @ ''api.'' @ s)"
    using u(3) unfolding url_prefix_re_def by (simp add: site_re_def)
  then show "\<exists>p. intake_prefix_new (Some u) None = Ret (Inr (IntakePrefix p)) \<and> url_prefix_re p \<and>
         p = ''https://api.'' @ s"
    using u(1) by simp
qed (auto simp: dd_url_new_def dd_dd_url_new_def validate_url_prefix_def new_expect_validated_def
    split: if_splits)

section \<open>Concrete instances\<close>

definition sample_ship :: "fl list ship_env" where
  "sample_ship = \<lparr>json_series = (\<lambda>s. Some ''[]''), proto_sketches = (\<lambda>s. None),
     zstd = (\<lambda>n b. Some b), can_clone = (\<lambda>rq. True)\<rparr>"

definition sample_flusher :: "fl list flusher" where
  "sample_flusher = flusher_new (IntakePrefix ''http://x'') (Immediate 3) 6"

definition sample_api :: dd_api where
  "sample_api = \<lparr>da_api_key = ''k'', da_prefix = IntakePrefix ''http://x'', da_retry = Immediate 3, da_compression = 6\<rparr>"

lemma sample_get_api:
  "get_dd_api (Some ''k'') sample_flusher = (Some sample_api, sample_flusher\<lparr>fl_dd_api := Some (Some sample_api)\<rparr>)"
  by (simp add: get_dd_api_def sample_flusher_def flusher_new_def sample_api_def Let_def)

text \<open>The first attempt meets a server error, the second a timeout, the third is accepted.\<close>

definition sample_net :: "request \<Rightarrow> nat \<Rightarrow> send_result" where
  "sample_net rq k = (if k = 1 then Response 503 else if k = 2 then SendFailed None else Response 202)"

theorem send_with_retry_attempts_witness:
  "send_with_retry sample_ship sample_api sample_net \<lparr>rq_url = [], rq_headers = [], rq_body = []\<rparr> = Inr 202"
proof -
  have "\<not> succeeds (sample_net rq j)" if "1 \<le> j \<and> j < 3" for rq j
  proof -
    have "j = 1 \<or> j = 2" using that by auto
    then show ?thesis by (auto simp: sample_net_def status_success_def)
  qed
  then have "1 \<le> (3::nat) \<and> (3::nat) \<le> 3 \<and> sample_net rq 3 = Response 202 \<and> status_success 202 \<and>
      (\<forall>j. 1 \<le> j \<and> j < 3 \<longrightarrow> \<not> succeeds (sample_net rq j))" for rq
    by (simp add: sample_net_def status_success_def)
  moreover have "can_clone sample_ship rq" "3 = max 1 (max_attempts (da_retry sample_api))" for rq
    by (simp_all add: sample_ship_def sample_api_def)
  ultimately show ?thesis
    using send_with_retry_attempts [THEN conjunct1, rule_format, THEN conjunct1] by metis
qed

theorem flush_gives_back_failed_witness:
  "\<exists>fs fd. given_back (\<lambda>i. ship_series sample_ship sample_api sample_net) [[]] fs \<and>
     given_back (\<lambda>i. ship_distributions sample_ship sample_api sample_net) [] fd \<and>
     fst (flush_metrics sample_ship (\<lambda>t i. sample_net) (Some ''k'') True [[]] [] sample_flusher) =
       (if fs = [] \<and> fd = [] then None else Some (fs, fd))"
  using flush_gives_back_failed [OF _ sample_get_api, of "[[]]" "[]" sample_ship "\<lambda>t i. sample_net"]
  by fastforce

theorem flush_loses_rest_witness:
  "fst (flush_metrics sample_ship (\<lambda>t i rq k. SendFailed None) (Some ''k'') True [[], []] [] sample_flusher) =
     Some ([[]], [])"
proof -
  have s: "ship_series sample_ship sample_api (\<lambda>rq k. SendFailed None) [] =
      Inl (Destination None ''Failed to send request'')" by code_simp
  obtain bs bd where b: "shipped_until (\<lambda>i. ship_series sample_ship sample_api (\<lambda>rq k. SendFailed None)) [[], []] bs"
    "shipped_until (\<lambda>i. ship_distributions sample_ship sample_api (\<lambda>rq k. SendFailed None)) [] bd"
    "fst (flush_metrics sample_ship (\<lambda>t i rq k. SendFailed None) (Some ''k'') True [[], []] [] sample_flusher) =
      (if bs = [] \<and> bd = [] then None else Some (bs, bd))"
    using flush_loses_rest [OF _ sample_get_api, of "[[], []]" "[]" sample_ship "\<lambda>t i rq k. SendFailed None"] by blast
  from b(1) have "bs = [[]]" by (auto simp: shipped_until_def s Cons_eq_append_conv)
  moreover from b(2) have "bd = []" by (simp add: shipped_until_def)
  ultimately show ?thesis using b(3) by simp
qed

theorem no_key_is_forever_witness:
  "fst (flush_metrics sample_ship (\<lambda>t i. sample_net) (Some ''k'') True [[]] []
     (snd (flush_metrics sample_ship (\<lambda>t i. sample_net) None True [[]] [] sample_flusher))) = Some ([[]], [])"
proof -
  obtain r f' where "flush_metrics sample_ship (\<lambda>t i. sample_net) None True [[]] [] sample_flusher = (r, f')"
    by fastforce
  from no_key_is_forever [OF _ _ _ this] this show ?thesis
    by (simp add: sample_flusher_def flusher_new_def)
qed

theorem intake_prefix_validated_witness:
  "intake_prefix_new (Some (Site ''datadoghq.com'')) None = Ret (Inr (IntakePrefix ''https://api.datadoghq.com''))"
proof -
  have "site_new ''datadoghq.com'' = Inr (Site ''datadoghq.com'')" by code_simp
  then show ?thesis using intake_prefix_validated by fastforce
qed

end
