(* ===== verification/Api_Key.thy ===== *)
theory Api_Key
  imports Interfaces
begin

text \<open>
  \<^verbatim>\<open>dogstatsd/src/api_key.rs\<close>: the API key factory, whose dynamic variant loads the key through
  a resolver and shares it between tasks: a read-write lock around the key and the time of its
  last load, and an atomic flag so that only one task loads at a time.

  \<open>get_api_key\<close> is a state machine per task; each step is one access to the shared state. The
  resolver's answer and the passing of time (in whole units) are the environment's. A task runs
  to the end: one dropped or panicking while it holds the flag, which would keep it set, is not modelled.
\<close>

section \<open>State\<close>

record api_key_state =
  api_key :: "string option"
  last_load_time :: "nat option"

text \<open>Where a task is inside \<open>get_api_key\<close>.\<close>

datatype key_pc =
    Idle
  | Check              \<comment> \<open>the first \<open>should_load_api_key\<close>\<close>
  | TryLock            \<comment> \<open>\<open>compare_exchange\<close> on the loading flag\<close>
  | Recheck            \<comment> \<open>flag acquired, the second \<open>should_load_api_key\<close>\<close>
  | Resolving          \<comment> \<open>awaiting the resolver\<close>
  | Storing "string option"
  | Unlock             \<comment> \<open>about to store false in the flag\<close>
  | Waiting            \<comment> \<open>another task loads: until there has been a load\<close>
  | Reading            \<comment> \<open>the final read\<close>
  | Finished "string option"

record 't factory =
  f_state :: api_key_state
  f_loading :: bool
  f_now :: nat
  f_pc :: "'t \<Rightarrow> key_pc"

datatype 't key_label =
    KTau | Called 't nat | Loaded "string option" nat | Returned 't "string option"

definition should_load_api_key :: "nat option \<Rightarrow> 't factory \<Rightarrow> bool" where
  "should_load_api_key reload_interval s =
     (case last_load_time (f_state s) of
        None \<Rightarrow> True
      | Some l \<Rightarrow> (case reload_interval of None \<Rightarrow> False | Some i \<Rightarrow> f_now s > l + i))"

definition factory_new :: "nat \<Rightarrow> 't factory" where
  "factory_new now =
     \<lparr>f_state = \<lparr>api_key = None, last_load_time = None\<rparr>, f_loading = False, f_now = now,
      f_pc = (\<lambda>t. Idle)\<rparr>"

abbreviation goto :: "'t \<Rightarrow> key_pc \<Rightarrow> 't factory \<Rightarrow> 't factory" where
  "goto t pc s \<equiv> s\<lparr>f_pc := (f_pc s)(t := pc)\<rparr>"

section \<open>Steps\<close>

text \<open>One step of task \<open>t\<close>; \<open>answer\<close> is what the resolver returns if it is being awaited.\<close>

definition get_api_key_step ::
  "nat option \<Rightarrow> string option \<Rightarrow> 't \<Rightarrow> 't factory \<Rightarrow> ('t factory \<times> 't key_label) option" where
  "get_api_key_step reload answer t s =
     (case f_pc s t of
        Idle \<Rightarrow> Some (goto t Check s, KTau)
      | Check \<Rightarrow> Some (goto t (if should_load_api_key reload s then TryLock else Reading) s, KTau)
      | TryLock \<Rightarrow>
          if \<not> f_loading s then Some ((goto t Recheck s)\<lparr>f_loading := True\<rparr>, KTau)
          else Some (goto t Waiting s, KTau)
      | Recheck \<Rightarrow>
          if should_load_api_key reload s then Some (goto t Resolving s, Called t (f_now s))
          else Some (goto t Unlock s, KTau)
      | Resolving \<Rightarrow> Some (goto t (Storing answer) s, KTau)
      | Storing v \<Rightarrow>
          Some ((goto t Unlock s)\<lparr>f_state := \<lparr>api_key = v, last_load_time = Some (f_now s)\<rparr>\<rparr>,
                Loaded v (f_now s))
      | Unlock \<Rightarrow> Some ((goto t Reading s)\<lparr>f_loading := False\<rparr>, KTau)
      | Waiting \<Rightarrow>
          if last_load_time (f_state s) = None then Some (s, KTau) else Some (goto t Reading s, KTau)
      | Reading \<Rightarrow> Some (goto t (Finished (api_key (f_state s))) s, Returned t (api_key (f_state s)))
      | Finished v \<Rightarrow> Some (goto t Idle s, KTau))"

inductive factory_step :: "nat option \<Rightarrow> 't factory \<Rightarrow> 't key_label \<Rightarrow> 't factory \<Rightarrow> bool" for reload where
  task: "get_api_key_step reload answer t s = Some (s', l) \<Longrightarrow> factory_step reload s l s'"
| clock: "factory_step reload s KTau (s\<lparr>f_now := f_now s + d\<rparr>)"

section \<open>The loading lock\<close>

fun locked_pc :: "key_pc \<Rightarrow> bool" where
  "locked_pc Recheck = True"
| "locked_pc Resolving = True"
| "locked_pc (Storing v) = True"
| "locked_pc Unlock = True"
| "locked_pc _ = False"

fun loading_pc :: "key_pc \<Rightarrow> bool" where
  "loading_pc Resolving = True"
| "loading_pc (Storing v) = True"
| "loading_pc _ = False"

fun loaded_pc :: "key_pc \<Rightarrow> bool" where
  "loaded_pc Unlock = True"
| "loaded_pc Reading = True"
| "loaded_pc (Finished v) = True"
| "loaded_pc _ = False"

text \<open>The task that holds the flag, if there is one.\<close>

definition lock_owner :: "'t option \<Rightarrow> 't factory \<Rightarrow> bool" where
  "lock_owner own s \<longleftrightarrow> (\<forall>t. locked_pc (f_pc s t) \<longleftrightarrow> own = Some t) \<and> (f_loading s \<longleftrightarrow> own \<noteq> None)"

definition load_inv :: "nat option \<Rightarrow> 't factory \<Rightarrow> bool" where
  "load_inv reload s \<longleftrightarrow>
     (\<forall>t. loaded_pc (f_pc s t) \<longrightarrow> last_load_time (f_state s) \<noteq> None) \<and>
     (\<forall>t. f_pc s t = Waiting \<longrightarrow> last_load_time (f_state s) = None \<longrightarrow> f_loading s) \<and>
     (\<forall>t. loading_pc (f_pc s t) \<longrightarrow> should_load_api_key reload s)"

definition key_inv :: "nat option \<Rightarrow> 't factory \<Rightarrow> bool" where
  "key_inv reload s \<longleftrightarrow> (\<exists>own. lock_owner own s) \<and> load_inv reload s"

lemma key_inv_new: "key_inv reload (factory_new now)"
  by (auto simp: key_inv_def lock_owner_def load_inv_def factory_new_def)

lemma should_load_mono:
  "should_load_api_key reload s \<Longrightarrow> should_load_api_key reload (s\<lparr>f_now := f_now s + d\<rparr>)"
  by (auto simp: should_load_api_key_def split: option.splits)

lemma should_load_cong [simp]:
  "should_load_api_key reload (s\<lparr>f_pc := p\<rparr>) = should_load_api_key reload s"
  "should_load_api_key reload (s\<lparr>f_pc := p, f_loading := b\<rparr>) = should_load_api_key reload s"
  by (simp_all add: should_load_api_key_def split: option.splits)

lemma not_should_load: "\<not> should_load_api_key reload s \<Longrightarrow> \<exists>l. last_load_time (f_state s) = Some l"
  by (cases "last_load_time (f_state s)") (simp_all add: should_load_api_key_def)

lemma lock_owner_goto:
  "lock_owner own s \<Longrightarrow> locked_pc pc = locked_pc (f_pc s t) \<Longrightarrow> lock_owner own (goto t pc s)"
  "lock_owner own s \<Longrightarrow> \<not> f_loading s \<Longrightarrow> locked_pc pc \<Longrightarrow>
     lock_owner (Some t) ((goto t pc s)\<lparr>f_loading := True\<rparr>)"
  "lock_owner own s \<Longrightarrow> locked_pc (f_pc s t) \<Longrightarrow> \<not> locked_pc pc \<Longrightarrow>
     lock_owner None ((goto t pc s)\<lparr>f_loading := False\<rparr>)"
  "lock_owner own (s\<lparr>f_state := x\<rparr>) = lock_owner own s"
  by (simp_all add: lock_owner_def)

lemma get_api_key_step_lock:
  assumes "get_api_key_step reload answer t s = Some (s', l)" "lock_owner own s"
  shows "\<exists>own'. lock_owner own' s'"
  using assms(1) lock_owner_goto(1) [OF assms(2), of _ t] lock_owner_goto(2) [OF assms(2), of Recheck t]
    lock_owner_goto(3) [OF assms(2), of t Reading] assms(2)
  by (cases "f_pc s t")
     (force simp: get_api_key_step_def lock_owner_goto(4) split: if_splits)+

lemma load_inv_goto:
  assumes "load_inv reload s" "loaded_pc pc \<Longrightarrow> last_load_time (f_state s) \<noteq> None"
    "pc = Waiting \<Longrightarrow> last_load_time (f_state s) = None \<Longrightarrow> f_loading s"
    "loading_pc pc \<Longrightarrow> should_load_api_key reload s"
  shows "load_inv reload (goto t pc s)"
  using assms unfolding load_inv_def by (auto split: if_splits)

lemma loading_locked: "loading_pc pc \<Longrightarrow> locked_pc pc"
  by (cases pc) auto

lemma get_api_key_step_load:
  assumes "get_api_key_step reload answer t s = Some (s', l)" "lock_owner own s" "load_inv reload s"
  shows "load_inv reload s'"
proof (cases "f_pc s t")
  case TryLock
  have "load_inv reload ((goto t Recheck s)\<lparr>f_loading := True\<rparr>)"
    using assms(3) unfolding load_inv_def by (auto split: if_splits)
  then show ?thesis
    using assms(1) TryLock load_inv_goto [OF assms(3), of Waiting t]
    by (auto simp: get_api_key_step_def split: if_splits)
next
  case (Storing v)
  have "\<not> loading_pc (f_pc s u)" if "u \<noteq> t" for u
    using assms(2) that Storing loading_locked by (fastforce simp: lock_owner_def)
  then show ?thesis
    using assms(1) Storing by (auto simp: get_api_key_step_def load_inv_def split: if_splits)
next
  case Unlock
  then have "last_load_time (f_state s) \<noteq> None"
    using assms(3) by (metis load_inv_def loaded_pc.simps(1))
  then show ?thesis
    using assms(1,3) Unlock by (auto simp: get_api_key_step_def load_inv_def split: if_splits)
next
  case Reading
  then have "last_load_time (f_state s) \<noteq> None"
    using assms(3) by (metis load_inv_def loaded_pc.simps(2))
  then show ?thesis using assms(1) Reading load_inv_goto [OF assms(3), of "Finished (api_key (f_state s))" t]
    by (auto simp: get_api_key_step_def)
next
  case Resolving
  then have "should_load_api_key reload s"
    using assms(3) by (metis load_inv_def loading_pc.simps(1))
  then show ?thesis using assms(1) Resolving load_inv_goto [OF assms(3), of "Storing answer" t]
    by (auto simp: get_api_key_step_def)
qed (use assms(1,3) not_should_load [of reload s] in
     \<open>auto simp: get_api_key_step_def intro!: load_inv_goto split: if_splits\<close>)

lemma factory_step_inv:
  assumes "factory_step reload s l s'" "key_inv reload s"
  shows "key_inv reload s'"
  using assms(1)
proof cases
  case (task answer t)
  then show ?thesis
    using get_api_key_step_lock [OF task] get_api_key_step_load [OF task] assms(2)
    by (auto simp: key_inv_def)
next
  case (clock d)
  then show ?thesis using assms(2) by (auto simp: key_inv_def lock_owner_def load_inv_def should_load_mono)
qed

interpretation factory: safe_system "factory_step reload" "factory_new now" "key_inv reload" for reload now
  by unfold_locales (rule key_inv_new, erule (1) factory_step_inv [rotated])

lemmas reachable_inv = factory.run_inv

lemma locked_unique: "key_inv reload s \<Longrightarrow> locked_pc (f_pc s t) \<Longrightarrow> locked_pc (f_pc s u) \<Longrightarrow> t = u"
  by (auto simp: key_inv_def lock_owner_def)

section \<open>Properties\<close>

text \<open>
  The loading flag is a lock: in every reachable state at most one task is between acquiring
  and releasing it, and the flag is set exactly while such a task exists.
\<close>

theorem one_loader:
  assumes "run (factory_step reload) (factory_new now) ls s"
  shows "(\<forall>t u. locked_pc (f_pc s t) \<and> locked_pc (f_pc s u) \<longrightarrow> t = u) \<and>
    (f_loading s \<longleftrightarrow> (\<exists>t. locked_pc (f_pc s t)))"
  using reachable_inv [OF assms] by (auto simp: key_inv_def lock_owner_def)

text \<open>The values loaded and the resolver calls of a run.\<close>

fun loads :: "'t key_label list \<Rightarrow> (string option \<times> nat) list" where
  "loads [] = []"
| "loads (Loaded v n # ls) = (v, n) # loads ls"
| "loads (_ # ls) = loads ls"

fun calls :: "'t key_label list \<Rightarrow> ('t \<times> nat) list" where
  "calls [] = []"
| "calls (Called t n # ls) = (t, n) # calls ls"
| "calls (_ # ls) = calls ls"

lemma loads_append [simp]: "loads (ls @ ks) = loads ls @ loads ks"
  by (induction ls rule: loads.induct) auto

lemma calls_append [simp]: "calls (ls @ ks) = calls ls @ calls ks"
  by (induction ls rule: calls.induct) auto

text \<open>
  A second call is due only when the interval has passed; without an interval it never is.
\<close>

definition due_after :: "nat option \<Rightarrow> 't \<times> nat \<Rightarrow> 't \<times> nat \<Rightarrow> bool" where
  "due_after reload c d = (case reload of None \<Rightarrow> False | Some i \<Rightarrow> snd c + i < snd d)"

text \<open>The calls of a run so far: one without its load exactly while a task is loading.\<close>

definition calls_inv :: "nat option \<Rightarrow> 't key_label list \<Rightarrow> 't factory \<Rightarrow> bool" where
  "calls_inv reload ls s \<longleftrightarrow>
     sorted_wrt (due_after reload) (calls ls) \<and> list_all (\<lambda>c. snd c \<le> f_now s) (calls ls) \<and>
     (if \<exists>t. loading_pc (f_pc s t) then length (calls ls) = Suc (length (loads ls))
      else length (calls ls) = length (loads ls) \<and>
        (case last_load_time (f_state s) of None \<Rightarrow> calls ls = [] | Some n \<Rightarrow> list_all (\<lambda>c. snd c \<le> n) (calls ls)))"

lemma calls_inv_quiet:
  assumes "get_api_key_step reload answer t s = Some (s', l)" "calls_inv reload ls s"
    "f_pc s t \<noteq> Recheck" "\<not> loading_pc (f_pc s t)"
  shows "calls_inv reload (ls @ [l]) s'"
proof -
  have "calls [l] = [] \<and> loads [l] = [] \<and> f_state s' = f_state s \<and> f_now s' = f_now s \<and>
      (\<forall>u. loading_pc (f_pc s' u) = loading_pc (f_pc s u))"
    using assms(1,3,4) by (cases "f_pc s t") (auto simp: get_api_key_step_def split: if_splits)
  then show ?thesis using assms(2) by (simp add: calls_inv_def split: option.splits)
qed

lemma calls_inv_step:
  assumes "key_inv reload s \<and> calls_inv reload ls s" "factory_step reload s l s'"
  shows "calls_inv reload (ls @ [l]) s'"
  using assms(2)
proof cases
  case (clock d)
  have "list_all (\<lambda>c. snd c \<le> f_now s + d) (calls ls)"
    using assms(1) by (auto simp: calls_inv_def list_all_iff)
  then show ?thesis using assms(1) clock by (simp add: calls_inv_def split: option.splits)
next
  case (task answer t)
  note inv = assms(1) [THEN conjunct1] and c = assms(1) [THEN conjunct2]
  have alone: "\<not> loading_pc (f_pc s u)" if "u \<noteq> t" "locked_pc (f_pc s t)" for u
    using locked_unique [OF inv, of t u] that loading_locked [of "f_pc s u"] by auto
  show ?thesis
  proof (cases "f_pc s t")
    case Recheck
    have none: "\<not> (\<exists>u. loading_pc (f_pc s u))" using alone Recheck by (metis loading_pc.simps(6) locked_pc.simps(1))
    show ?thesis
    proof (cases "should_load_api_key reload s")
      case True
      then have st: "s' = goto t Resolving s" "l = Called t (f_now s)" using task Recheck by (simp_all add: get_api_key_step_def)
      have "\<forall>d\<in>set (calls ls). due_after reload d (t, f_now s)"
        using True c none
        by (auto simp: calls_inv_def due_after_def should_load_api_key_def list_all_iff split: option.splits if_splits)
      moreover have "\<exists>u. loading_pc (f_pc s' u)" by (rule exI [of _ t]) (simp add: st)
      ultimately show ?thesis using c none by (simp add: calls_inv_def st sorted_wrt_append split: option.splits)
    next
      case False
      then have "s' = goto t Unlock s" "l = KTau" using task Recheck by (simp_all add: get_api_key_step_def)
      then show ?thesis using c none by (auto simp: calls_inv_def split: option.splits)
    qed
  next
    case Resolving
    then have st: "s' = goto t (Storing answer) s" "l = KTau" using task by (simp_all add: get_api_key_step_def)
    have "\<exists>u. loading_pc (f_pc s u)" "\<exists>u. loading_pc (f_pc s' u)" by (rule exI [of _ t], simp add: st Resolving)+
    then show ?thesis using c by (simp add: calls_inv_def st)
  next
    case (Storing v)
    then have st: "s' = (goto t Unlock s)\<lparr>f_state := \<lparr>api_key = v, last_load_time = Some (f_now s)\<rparr>\<rparr>" "l = Loaded v (f_now s)"
      using task by (simp_all add: get_api_key_step_def)
    have "\<exists>u. loading_pc (f_pc s u)" by (rule exI [of _ t]) (simp add: Storing)
    moreover have "\<not> (\<exists>u. loading_pc (f_pc s' u))" using alone Storing by (auto simp: st)
    ultimately show ?thesis using c by (simp add: calls_inv_def st)
  qed (use calls_inv_quiet [OF task c] in simp_all)
qed

interpretation calling: logged_system "factory_step reload" "factory_new now"
  "\<lambda>ls s. key_inv reload s \<and> calls_inv reload ls s" for reload now
proof
  show "key_inv reload (factory_new now) \<and> calls_inv reload [] (factory_new now)"
    by (simp add: key_inv_new) (simp add: calls_inv_def factory_new_def)
qed (blast intro: factory_step_inv calls_inv_step)

text \<open>
  C5. However many tasks ask for the key and however they interleave: two calls of the resolver are more
  than the reload interval apart, so that within one interval there is at most one; without an interval
  there is at most one at all; and a call is not followed by another before its answer has been stored.
\<close>

theorem resolver_called_once:
  assumes "run (factory_step reload) (factory_new now) ls s"
  shows "(case reload of
       None \<Rightarrow> length (calls ls) \<le> 1
     | Some i \<Rightarrow> sorted_wrt (\<lambda>(t, n) (u, m). n + i < m) (calls ls)) \<and>
    length (loads ls) \<le> length (calls ls) \<and> length (calls ls) \<le> length (loads ls) + 1"
proof -
  have c: "calls_inv reload ls s" using calling.run_inv [OF assms] by blast
  then have "length (loads ls) \<le> length (calls ls)" "length (calls ls) \<le> length (loads ls) + 1"
    by (auto simp: calls_inv_def split: if_splits)
  moreover have "sorted_wrt (due_after reload) (calls ls)" using c by (simp add: calls_inv_def)
  then have "case reload of None \<Rightarrow> length (calls ls) \<le> 1 | Some i \<Rightarrow> sorted_wrt (\<lambda>(t, n) (u, m). n + i < m) (calls ls)"
  proof (cases reload)
    case None
    then show ?thesis using \<open>sorted_wrt (due_after reload) (calls ls)\<close>
      by (cases "calls ls" rule: remdups_adj.cases) (auto simp: due_after_def)
  next
    case (Some i)
    then show ?thesis using \<open>sorted_wrt (due_after reload) (calls ls)\<close> by (simp add: due_after_def [abs_def] split_def)
  qed
  ultimately show ?thesis by blast
qed

text \<open>
  With a reload interval two loads are always more than the interval apart: whenever a value
  is stored, the previous load, if there was one, is older than the interval. (The second check,
  made under the lock, is what guarantees it.)
\<close>

theorem loads_spaced:
  assumes "run (factory_step (Some interval)) (factory_new now) ls s"
    and "factory_step (Some interval) s (Loaded v n) s'"
    and "last_load_time (f_state s) = Some n0"
  shows "n > n0 + interval \<and> last_load_time (f_state s') = Some n"
  using assms(2)
proof cases
  case (task answer t)
  then obtain w where w: "f_pc s t = Storing w"
    by (auto simp: get_api_key_step_def split: key_pc.splits if_splits)
  have "should_load_api_key (Some interval) s"
    using reachable_inv [OF assms(1)] w by (metis key_inv_def load_inv_def loading_pc.simps(2))
  then show ?thesis using task w assms(3) by (auto simp: get_api_key_step_def should_load_api_key_def)
qed

lemma key_is_last_load:
  assumes "run (factory_step reload) (factory_new now) ls s"
  shows "map_option (\<lambda>n. (api_key (f_state s), n)) (last_load_time (f_state s)) =
    (if loads ls = [] then None else Some (last (loads ls)))"
  using assms
proof (induction "factory_new now :: 'a factory" ls s rule: run.induct)
  case run_nil
  then show ?case by (simp add: factory_new_def)
next
  case (run_snoc ls s l s')
  from run_snoc.hyps(3) show ?case
  proof cases
    case (task answer t)
    then show ?thesis using run_snoc.hyps(2)
      by (auto simp: get_api_key_step_def split: key_pc.splits if_splits)
  next
    case (clock d)
    then show ?thesis using run_snoc.hyps(2) by simp
  qed
qed

text \<open>
  No task returns before the first load is complete, and what a task returns is what the most
  recent load stored.
\<close>

theorem returns_last_load:
  assumes "run (factory_step reload) (factory_new now) ls s"
    and "factory_step reload s (Returned t v) s'"
  shows "loads ls \<noteq> [] \<and> v = fst (last (loads ls))"
  using assms(2)
proof cases
  case (task answer u)
  then have u: "f_pc s u = Reading" "v = api_key (f_state s)"
    by (auto simp: get_api_key_step_def split: key_pc.splits if_splits)
  then have "last_load_time (f_state s) \<noteq> None"
    using reachable_inv [OF assms(1)] by (metis key_inv_def load_inv_def loaded_pc.simps(2))
  then show ?thesis using key_is_last_load [OF assms(1)] u(2) by (auto split: if_splits) (metis fst_conv)
qed

section \<open>No task waits for ever\<close>

definition can_reach :: "nat option \<Rightarrow> 't factory \<Rightarrow> ('t factory \<Rightarrow> bool) \<Rightarrow> bool" where
  "can_reach reload s P \<longleftrightarrow> (\<exists>ls s'. run (factory_step reload) s ls s' \<and> P s')"

lemma can_reach_now: "P s \<Longrightarrow> can_reach reload s P"
  unfolding can_reach_def by (rule exI [of _ "[]"], rule exI [of _ s]) (simp add: run_nil)

lemma can_reach_step:
  assumes "get_api_key_step reload answer t s = Some (s', l)" "can_reach reload s' P"
  shows "can_reach reload s P"
proof -
  obtain ls s'' where r: "run (factory_step reload) s' ls s''" "P s''"
    using assms(2) by (auto simp: can_reach_def)
  have "run (factory_step reload) s [l] s'"
    by (intro run_single factory_step.task [OF assms(1)])
  from run_append [OF r(1) this] show ?thesis unfolding can_reach_def using r(2) by blast
qed

lemma can_reach_trans:
  assumes "can_reach reload s P" "\<And>s'. P s' \<Longrightarrow> can_reach reload s' Q"
  shows "can_reach reload s Q"
  using assms unfolding can_reach_def by (meson run_append)

abbreviation has_loaded :: "'t factory \<Rightarrow> bool" where
  "has_loaded s \<equiv> last_load_time (f_state s) \<noteq> None"

abbreviation finished :: "'t \<Rightarrow> 't factory \<Rightarrow> bool" where
  "finished t s \<equiv> \<exists>v. f_pc s t = Finished v"

lemma reach_finished_Reading: "f_pc s t = Reading \<Longrightarrow> can_reach reload s (finished t)"
proof -
  assume r: "f_pc s t = Reading"
  let ?s = "goto t (Finished (api_key (f_state s))) s"
  have st: "get_api_key_step reload None t s = Some (?s, Returned t (api_key (f_state s)))"
    using r by (simp add: get_api_key_step_def)
  have "can_reach reload ?s (finished t)" by (rule can_reach_now) simp
  then show ?thesis using can_reach_step [OF st] by blast
qed

lemma reach_from_locked:
  assumes "locked_pc (f_pc s t)" "load_inv reload s"
  shows "can_reach reload s (\<lambda>s'. f_pc s' t = Reading \<and> has_loaded s' \<and> (\<forall>u. u \<noteq> t \<longrightarrow> f_pc s' u = f_pc s u))"
    (is "can_reach reload s ?P")
proof -
  have unlock: "can_reach reload s1 ?P"
    if "f_pc s1 t = Unlock" "has_loaded s1" "\<forall>u. u \<noteq> t \<longrightarrow> f_pc s1 u = f_pc s u" for s1
  proof -
    let ?s = "(goto t Reading s1)\<lparr>f_loading := False\<rparr>"
    have st: "get_api_key_step reload None t s1 = Some (?s, KTau)" using that by (simp add: get_api_key_step_def)
    have "can_reach reload ?s ?P" by (rule can_reach_now) (use that in simp)
    then show ?thesis using can_reach_step [OF st] by blast
  qed
  have storing: "can_reach reload s1 ?P"
    if "f_pc s1 t = Storing v" "\<forall>u. u \<noteq> t \<longrightarrow> f_pc s1 u = f_pc s u" for s1 v
  proof -
    let ?s = "(goto t Unlock s1)\<lparr>f_state := \<lparr>api_key = v, last_load_time = Some (f_now s1)\<rparr>\<rparr>"
    have st: "get_api_key_step reload None t s1 = Some (?s, Loaded v (f_now s1))"
      using that by (simp add: get_api_key_step_def)
    have "can_reach reload ?s ?P" by (rule unlock) (use that in simp_all)
    then show ?thesis using can_reach_step [OF st] by blast
  qed
  have resolving: "can_reach reload s1 ?P"
    if "f_pc s1 t = Resolving" "\<forall>u. u \<noteq> t \<longrightarrow> f_pc s1 u = f_pc s u" for s1
  proof -
    let ?s = "goto t (Storing None) s1"
    have st: "get_api_key_step reload None t s1 = Some (?s, KTau)" using that by (simp add: get_api_key_step_def)
    have "can_reach reload ?s ?P" by (rule storing) (use that in simp_all)
    then show ?thesis using can_reach_step [OF st] by blast
  qed
  have recheck: "can_reach reload s ?P" if "f_pc s t = Recheck"
  proof (cases "should_load_api_key reload s")
    case True
    have "can_reach reload (goto t Resolving s) ?P" by (rule resolving) auto
    then show ?thesis using can_reach_step [of reload None t s] that True by (simp add: get_api_key_step_def)
  next
    case False
    have "can_reach reload (goto t Unlock s) ?P" by (rule unlock) (use not_should_load [OF False] in auto)
    then show ?thesis using can_reach_step [of reload None t s] that False by (simp add: get_api_key_step_def)
  qed
  show ?thesis
  proof (cases "f_pc s t")
    case Unlock
    then have "has_loaded s" using assms(2) by (metis load_inv_def loaded_pc.simps(1))
    then show ?thesis using unlock Unlock by blast
  qed (use assms(1) recheck resolving storing in auto)
qed

lemma reach_finished_locked:
  assumes "locked_pc (f_pc s t)" "key_inv reload s"
  shows "can_reach reload s (finished t)"
proof (rule can_reach_trans [OF reach_from_locked [OF assms(1)]])
  show "load_inv reload s" using assms(2) by (simp add: key_inv_def)
qed (auto intro: reach_finished_Reading)

lemma reach_finished_Waiting:
  assumes "f_pc s t = Waiting" "key_inv reload s"
  shows "can_reach reload s (finished t)"
proof -
  have loaded: "can_reach reload s1 (finished t)" if "f_pc s1 t = Waiting" "has_loaded s1" for s1
  proof -
    have st: "get_api_key_step reload None t s1 = Some (goto t Reading s1, KTau)"
      using that by (auto simp: get_api_key_step_def)
    show ?thesis using can_reach_step [OF st] reach_finished_Reading [of "goto t Reading s1" t] by simp
  qed
  show ?thesis
  proof (cases "has_loaded s")
    case False
    then have "f_loading s" using assms by (auto simp: key_inv_def load_inv_def)
    then obtain u where u: "locked_pc (f_pc s u)" using assms(2) by (auto simp: key_inv_def lock_owner_def)
    then have "u \<noteq> t" using assms(1) by auto
    have "load_inv reload s" using assms(2) by (simp add: key_inv_def)
    show ?thesis
      by (rule can_reach_trans [OF reach_from_locked [OF u \<open>load_inv reload s\<close>]])
         (use loaded assms(1) \<open>u \<noteq> t\<close> in simp)
  qed (use loaded assms(1) in blast)
qed

lemma reach_finished_TryLock:
  assumes "f_pc s t = TryLock" "key_inv reload s"
  shows "can_reach reload s (finished t)"
proof (cases "f_loading s")
  case True
  let ?s = "goto t Waiting s"
  have st: "get_api_key_step reload None t s = Some (?s, KTau)" using assms(1) True by (simp add: get_api_key_step_def)
  have "key_inv reload ?s" using factory_step_inv [OF factory_step.task [OF st] assms(2)] .
  then show ?thesis using can_reach_step [OF st] reach_finished_Waiting [of ?s t] by simp
next
  case False
  let ?s = "(goto t Recheck s)\<lparr>f_loading := True\<rparr>"
  have st: "get_api_key_step reload None t s = Some (?s, KTau)" using assms(1) False by (simp add: get_api_key_step_def)
  have inv: "key_inv reload ?s" using factory_step_inv [OF factory_step.task [OF st] assms(2)] .
  then have "can_reach reload ?s (finished t)" by (intro reach_finished_locked) simp_all
  then show ?thesis using can_reach_step [OF st] by blast
qed

text \<open>
  C35. No deadlock: from every reachable state every task that is inside \<open>get_api_key\<close> can get
  its result; in particular a task that lost the race for the lock never waits for a load that
  nobody makes.
\<close>

theorem get_api_key_finishes:
  assumes "run (factory_step reload) (factory_new now) ls s"
  shows "\<exists>ks s' v. run (factory_step reload) s ks s' \<and> f_pc s' t = Finished v"
proof -
  have inv: "key_inv reload s" by (rule reachable_inv [OF assms])
  have check: "can_reach reload s1 (finished t)" if "f_pc s1 t = Check" "key_inv reload s1" for s1
  proof -
    let ?s = "goto t (if should_load_api_key reload s1 then TryLock else Reading) s1"
    have st: "get_api_key_step reload None t s1 = Some (?s, KTau)" using that(1) by (simp add: get_api_key_step_def)
    have "key_inv reload ?s" using factory_step_inv [OF factory_step.task [OF st] that(2)] .
    then have "can_reach reload ?s (finished t)"
      using reach_finished_TryLock [of ?s t] reach_finished_Reading [of ?s t]
      by (cases "should_load_api_key reload s1") simp_all
    then show ?thesis using can_reach_step [OF st] by blast
  qed
  have "can_reach reload s (finished t)"
  proof (cases "f_pc s t")
    case Idle
    then have st: "get_api_key_step reload None t s = Some (goto t Check s, KTau)" by (simp add: get_api_key_step_def)
    have "key_inv reload (goto t Check s)" using factory_step_inv [OF factory_step.task [OF st] inv] .
    then show ?thesis using can_reach_step [OF st] check [of "goto t Check s"] by simp
  next
    case (Finished v)
    then show ?thesis by (auto intro!: can_reach_now)
  next
    case Check
    then show ?thesis using check inv by blast
  next
    case TryLock
    then show ?thesis by (rule reach_finished_TryLock [OF _ inv])
  next
    case Waiting
    then show ?thesis by (rule reach_finished_Waiting [OF _ inv])
  next
    case Reading
    then show ?thesis by (rule reach_finished_Reading)
  qed (rule reach_finished_locked; use inv in simp)+
  then show ?thesis by (auto simp: can_reach_def)
qed

section \<open>Concrete instances\<close>

text \<open>Scheduled runs of numbered tasks.\<close>

datatype key_act = KTask "string option" nat | KTick nat

fun key_sched :: "nat option \<Rightarrow> key_act list \<Rightarrow> nat factory \<Rightarrow> (nat key_label list \<times> nat factory) option" where
  "key_sched reload [] s = Some ([], s)"
| "key_sched reload (act # acts) s =
     (case (case act of
              KTask answer t \<Rightarrow> get_api_key_step reload answer t s
            | KTick d \<Rightarrow> Some (s\<lparr>f_now := f_now s + d\<rparr>, KTau)) of
        None \<Rightarrow> None
      | Some (s', l) \<Rightarrow>
          (case key_sched reload acts s' of None \<Rightarrow> None | Some (ls, s'') \<Rightarrow> Some (l # ls, s'')))"

lemma key_sched_run: "key_sched reload acts s = Some (ls, s') \<Longrightarrow> run (factory_step reload) s ls s'"
proof (induction acts arbitrary: s ls)
  case (Cons act acts)
  then obtain s1 l ks where s: "(case act of
              KTask answer t \<Rightarrow> get_api_key_step reload answer t s
            | KTick d \<Rightarrow> Some (s\<lparr>f_now := f_now s + d\<rparr>, KTau)) = Some (s1, l)"
      "key_sched reload acts s1 = Some (ks, s')" "ls = l # ks"
    by (auto split: option.splits prod.splits)
  have "factory_step reload s l s1"
    using s(1) by (cases act) (auto intro: factory_step.intros)
  from run_append [OF Cons.IH [OF s(2)] run_single [of "factory_step reload", OF this]]
  show ?case using s(3) by simp
qed (simp add: run_nil)

text \<open>Task 0 takes the lock and is awaiting the resolver when task 1 starts to wait for it.\<close>

definition race_acts :: "key_act list" where
  "race_acts = map (KTask None) [0, 1, 0, 1, 0, 0, 1]"

definition race_state :: "nat factory" where
  "race_state = snd (the (key_sched None race_acts (factory_new 0)))"

definition race_labels :: "nat key_label list" where
  "race_labels = fst (the (key_sched None race_acts (factory_new 0)))"

lemma race_run: "run (factory_step None) (factory_new 0) race_labels race_state"
proof -
  have "key_sched None race_acts (factory_new 0) \<noteq> None" by code_simp
  then have "key_sched None race_acts (factory_new 0) = Some (race_labels, race_state)"
    by (auto simp: race_labels_def race_state_def)
  then show ?thesis by (rule key_sched_run)
qed

theorem one_loader_witness: "f_pc race_state 0 = Resolving \<and> f_pc race_state 1 = Waiting \<and> f_loading race_state"
proof -
  have pc: "f_pc race_state 0 = Resolving" "f_pc race_state 1 = Waiting" by code_simp+
  then have "\<exists>t. locked_pc (f_pc race_state t)" by (metis locked_pc.simps(2))
  then show ?thesis using pc one_loader [OF race_run] by blast
qed

text \<open>Task 0 loads, and loads again after more than the interval; two calls, at 5 and at 16.\<close>

definition twice_acts :: "key_act list" where
  "twice_acts = map (KTask (Some ''a'')) (replicate 9 0) @ [KTick 11] @ map (KTask (Some ''b'')) (replicate 5 0)"

theorem resolver_called_once_witness:
  "case key_sched (Some 10) twice_acts (factory_new 5) of
     Some (ls, s) \<Rightarrow> calls ls = [(0, 5), (0, 16)] \<and> sorted_wrt (\<lambda>(t, n) (u, m). n + 10 < m) (calls ls) | None \<Rightarrow> False"
proof -
  have "case key_sched (Some 10) twice_acts (factory_new 5) of Some (ls, s) \<Rightarrow> calls ls = [(0, 5), (0, 16)] | None \<Rightarrow> False"
    by code_simp
  then obtain ls s where k: "key_sched (Some 10) twice_acts (factory_new 5) = Some (ls, s)" "calls ls = [(0, 5), (0, 16)]"
    by (auto split: option.splits)
  then show ?thesis using resolver_called_once [OF key_sched_run [OF k(1)]] by simp
qed

theorem get_api_key_finishes_witness:
  "\<exists>ks s' v. run (factory_step None) race_state ks s' \<and> f_pc s' 1 = Finished v"
  by (rule get_api_key_finishes [OF race_run])

text \<open>Task 0 loads, time passes beyond the interval, and task 0 is about to store a second key.\<close>

definition reload_acts :: "key_act list" where
  "reload_acts = map (KTask (Some ''a'')) (replicate 9 0) @ [KTick 11] @ map (KTask (Some ''b'')) (replicate 5 0)"

definition reload_state :: "nat factory" where
  "reload_state = snd (the (key_sched (Some 10) reload_acts (factory_new 5)))"

lemma reload_run: "\<exists>ls. run (factory_step (Some 10)) (factory_new 5) ls reload_state"
proof -
  have "key_sched (Some 10) reload_acts (factory_new 5) \<noteq> None" by code_simp
  then obtain ls where "key_sched (Some 10) reload_acts (factory_new 5) = Some (ls, reload_state)"
    by (auto simp: reload_state_def)
  then show ?thesis using key_sched_run by blast
qed

lemma reload_pc: "f_pc reload_state 0 = Storing (Some ''b'')" "f_now reload_state = 16"
    "last_load_time (f_state reload_state) = Some 5"
  by code_simp+

theorem loads_spaced_witness:
  "\<exists>s'. factory_step (Some 10) reload_state (Loaded (Some ''b'') 16) s' \<and>
     last_load_time (f_state s') = Some 16"
proof -
  obtain s' where "get_api_key_step (Some 10) None 0 reload_state = Some (s', Loaded (Some ''b'') 16)"
    using reload_pc(1,2) by (auto simp: get_api_key_step_def)
  then have st: "factory_step (Some 10) reload_state (Loaded (Some ''b'') 16) s'" by (rule factory_step.task)
  obtain ls where "run (factory_step (Some 10)) (factory_new 5) ls reload_state" using reload_run by blast
  from loads_spaced [OF this st reload_pc(3)] st show ?thesis by blast
qed

definition read_acts :: "key_act list" where
  "read_acts = map (KTask (Some ''a'')) (replicate 7 0)"

theorem returns_last_load_witness:
  "case key_sched None read_acts (factory_new 0) of
     Some (ls, s) \<Rightarrow> (\<exists>s'. factory_step None s (Returned 0 (Some ''a'')) s') \<and> fst (last (loads ls)) = Some ''a''
   | None \<Rightarrow> False"
proof -
  have "case key_sched None read_acts (factory_new 0) of
      Some (ls, s) \<Rightarrow> f_pc s 0 = Reading \<and> api_key (f_state s) = Some ''a'' | None \<Rightarrow> False"
    by code_simp
  then obtain ls s where k: "key_sched None read_acts (factory_new 0) = Some (ls, s)"
      "f_pc s 0 = Reading" "api_key (f_state s) = Some ''a''"
    by (auto split: option.splits)
  have "get_api_key_step None None 0 s = Some (goto 0 (Finished (Some ''a'')) s, Returned 0 (Some ''a''))"
    using k(2,3) by (simp add: get_api_key_step_def)
  then have st: "factory_step None s (Returned 0 (Some ''a'')) (goto 0 (Finished (Some ''a'')) s)"
    by (rule factory_step.task)
  from returns_last_load [OF key_sched_run [OF k(1)] st] st show ?thesis using k(1) by auto
qed

end
