(* ===== verification/Logs_Aggregator.thy ===== *)
theory Logs_Aggregator
  imports Interfaces
begin

text \<open>
  The crate \<^verbatim>\<open>datadog-logs-agent\<close>, first part: \<^verbatim>\<open>intake_entry.rs\<close>, \<^verbatim>\<open>aggregator/core.rs\<close> (the
  queue of serialized entries and the batches drained from it) and \<^verbatim>\<open>aggregator/service.rs\<close> (the
  task that owns it).

  JSON serialization of an entry is a parameter; a string and a byte buffer are lists of bytes;
  sizes are natural numbers (a \<open>usize\<close> cannot overflow by counting bytes held in memory).
\<close>

section \<open>Entries and limits\<close>

record 'v intake_entry =
  ie_message :: string
  ie_timestamp :: int
  ie_hostname :: "string option"
  ie_service :: "string option"
  ie_ddsource :: "string option"
  ie_ddtags :: "string option"
  ie_status :: "string option"
  ie_attributes :: "(string \<times> 'v) list"

definition from_message :: "string \<Rightarrow> int \<Rightarrow> 'v intake_entry" where
  "from_message message timestamp =
     \<lparr>ie_message = message, ie_timestamp = timestamp, ie_hostname = None, ie_service = None,
      ie_ddsource = None, ie_ddtags = None, ie_status = None, ie_attributes = []\<rparr>"

definition MAX_BATCH_ENTRIES :: nat where "MAX_BATCH_ENTRIES = 1000"
definition MAX_CONTENT_BYTES :: nat where "MAX_CONTENT_BYTES = 5 * 1024 * 1024"
definition MAX_LOG_BYTES :: nat where "MAX_LOG_BYTES = 1024 * 1024"

datatype logs_error = EntryTooLarge nat nat | Serialization string

section \<open>The aggregator\<close>

record logs_agg =
  la_messages :: "string list"
  la_current_size_bytes :: nat

definition logs_new :: logs_agg where
  "logs_new = \<lparr>la_messages = [], la_current_size_bytes = 0\<rparr>"

definition logs_is_full :: "logs_agg \<Rightarrow> bool" where
  "logs_is_full a =
     (let n = length (la_messages a);
          framing = (if n = 0 then 0 else 2 + (n - 1))
      in n \<ge> MAX_BATCH_ENTRIES \<or> la_current_size_bytes a + framing \<ge> MAX_CONTENT_BYTES)"

definition logs_is_empty :: "logs_agg \<Rightarrow> bool" where
  "logs_is_empty a \<longleftrightarrow> la_messages a = []"

definition logs_len :: "logs_agg \<Rightarrow> nat" where
  "logs_len a = length (la_messages a)"

type_synonym 'v to_json = "'v intake_entry \<Rightarrow> string + string"

definition logs_insert :: "'v to_json \<Rightarrow> 'v intake_entry \<Rightarrow> logs_agg \<Rightarrow> logs_agg \<times> (logs_error + bool)" where
  "logs_insert to_json entry a =
     (case to_json entry of
        Inl e \<Rightarrow> (a, Inl (Serialization e))
      | Inr serialized \<Rightarrow>
          let len = length serialized in
          if len > MAX_LOG_BYTES then (a, Inl (EntryTooLarge len MAX_LOG_BYTES))
          else
            let a = a\<lparr>la_messages := la_messages a @ [serialized],
                      la_current_size_bytes := la_current_size_bytes a + len\<rparr>
            in (a, Inr (logs_is_full a)))"

text \<open>
  The loop of \<open>get_batch\<close>: the queue, the bytes queued, the bytes and the entries in the batch and
  the output so far; it gives the queue, the bytes queued and the output after the loop.
\<close>

fun batch_loop :: "string list \<Rightarrow> nat \<Rightarrow> nat \<Rightarrow> nat \<Rightarrow> string \<Rightarrow> string list \<times> nat \<times> string" where
  "batch_loop [] size_bytes bytes_in_batch entry_count out = ([], size_bytes, out)"
| "batch_loop (msg # messages) size_bytes bytes_in_batch entry_count out =
     (let separator = (if entry_count = 0 then 0 else 1) in
      if entry_count \<ge> MAX_BATCH_ENTRIES then (msg # messages, size_bytes, out)
      else if bytes_in_batch + separator + length msg + 2 > MAX_CONTENT_BYTES
      then (msg # messages, size_bytes, out)
      else
        let (out, bytes_in_batch) =
              (if entry_count > 0 then (out @ '','', bytes_in_batch + 1) else (out, bytes_in_batch))
        in batch_loop messages (saturating_sub size_bytes (length msg)) (bytes_in_batch + length msg)
             (entry_count + 1) (out @ msg))"

definition logs_get_batch :: "logs_agg \<Rightarrow> (string \<times> logs_agg) option" where
  "logs_get_batch a =
     (if la_messages a = [] then None
      else
        let (messages, size_bytes, out) =
              batch_loop (la_messages a) (la_current_size_bytes a) 0 0 ''[''
        in Some (out @ '']'', \<lparr>la_messages = messages, la_current_size_bytes = size_bytes\<rparr>))"

definition logs_get_all_batches :: "logs_agg \<Rightarrow> (string list \<times> logs_agg) option" where
  "logs_get_all_batches a = drain logs_get_batch a"

section \<open>The service\<close>

datatype 'v logs_command = LogsInsertBatch "'v intake_entry list" | LogsGetBatches nat | LogsShutdown

text \<open>
  A one-shot response channel is named by a number. The state is \<open>None\<close> once the task is in a loop
  that never ends.
\<close>

type_synonym logs_reply = "nat \<times> string list"

definition logs_insert_all :: "'v to_json \<Rightarrow> 'v intake_entry list \<Rightarrow> logs_agg \<Rightarrow> logs_agg" where
  "logs_insert_all to_json entries a = fold (\<lambda>entry a. fst (logs_insert to_json entry a)) entries a"

fun logs_service_step ::
  "'v to_json \<Rightarrow> logs_agg option \<Rightarrow> 'v logs_command \<Rightarrow> logs_agg option \<times> logs_reply list" where
  "logs_service_step to_json None c = (None, [])"
| "logs_service_step to_json (Some a) (LogsInsertBatch entries) = (Some (logs_insert_all to_json entries a), [])"
| "logs_service_step to_json (Some a) (LogsGetBatches response_tx) =
     (case logs_get_all_batches a of
        None \<Rightarrow> (None, [])
      | Some (batches, a') \<Rightarrow> (Some a', [(response_tx, batches)]))"
| "logs_service_step to_json (Some a) LogsShutdown = (Some a, [])"

fun is_logs_shutdown :: "'v logs_command \<Rightarrow> bool" where
  "is_logs_shutdown LogsShutdown = True"
| "is_logs_shutdown _ = False"

definition logs_service_run ::
  "'v to_json \<Rightarrow> logs_agg option \<Rightarrow> 'v logs_command list \<Rightarrow> logs_agg option \<times> logs_reply list" where
  "logs_service_run to_json = serve (logs_service_step to_json) is_logs_shutdown"

text \<open>The channel behind the handle, as seen by the tasks that hold a handle.\<close>

record 'v logs_mailbox =
  lm_queue :: "'v logs_command list"
  lm_open :: bool

definition logs_service_new :: "logs_agg \<times> 'v logs_mailbox" where
  "logs_service_new = (logs_new, \<lparr>lm_queue = [], lm_open = True\<rparr>)"

datatype logs_handle_error = FailedToSendLogs string | FailedToReceiveLogs

definition logs_send :: "string \<Rightarrow> 'v logs_command \<Rightarrow> 'v logs_mailbox \<Rightarrow> 'v logs_mailbox \<times> (logs_handle_error + unit)" where
  "logs_send what c mb =
     (if lm_open mb then (mb\<lparr>lm_queue := lm_queue mb @ [c]\<rparr>, Inr ()) else (mb, Inl (FailedToSendLogs what)))"

definition logs_insert_batch ::
  "'v intake_entry list \<Rightarrow> 'v logs_mailbox \<Rightarrow> 'v logs_mailbox \<times> (logs_handle_error + unit)" where
  "logs_insert_batch entries mb = logs_send ''InsertBatch'' (LogsInsertBatch entries) mb"

definition logs_shutdown :: "'v logs_mailbox \<Rightarrow> 'v logs_mailbox \<times> (logs_handle_error + unit)" where
  "logs_shutdown mb = logs_send ''Shutdown'' LogsShutdown mb"

text \<open>
  \<open>get_batches\<close> against the service in state \<open>s\<close>: the service works through the commands queued
  before and then answers, unless it ends first.
\<close>

definition logs_get_batches ::
  "'v to_json \<Rightarrow> nat \<Rightarrow> logs_agg option \<Rightarrow> 'v logs_mailbox \<Rightarrow> logs_handle_error + string list" where
  "logs_get_batches to_json tx s mb =
     (case logs_send ''GetBatches'' (LogsGetBatches tx) mb of
        (mb', Inl e) \<Rightarrow> Inl e
      | (mb', Inr _) \<Rightarrow>
          (case map_of (snd (logs_service_run to_json s (lm_queue mb'))) tx of
             None \<Rightarrow> Inl FailedToReceiveLogs | Some batches \<Rightarrow> Inr batches))"

section \<open>Batches\<close>

text \<open>A JSON array of serialized entries.\<close>

definition json_array :: "string list \<Rightarrow> string" where
  "json_array msgs = ''['' @ join_with '','' msgs @ '']''"

definition good_batch :: "string \<Rightarrow> string list \<Rightarrow> bool" where
  "good_batch b msgs \<longleftrightarrow> b = json_array msgs \<and> length b \<le> MAX_CONTENT_BYTES \<and> length msgs \<le> MAX_BATCH_ENTRIES"

definition logs_inv :: "logs_agg \<Rightarrow> bool" where
  "logs_inv a \<longleftrightarrow> (\<forall>m\<in>set (la_messages a). length m \<le> MAX_LOG_BYTES) \<and>
     la_current_size_bytes a = sum_list (map length (la_messages a))"

lemma join_with_snoc: "join_with s (xs @ [x]) = (if xs = [] then x else join_with s xs @ s @ x)"
  by (induction s xs rule: join_with.induct) auto

lemma length_join: "length (join_with '','' xs) = sum_list (map length xs) + (length xs - 1)"
  by (induction "'',''" xs rule: join_with.induct) auto

text \<open>The loop takes a prefix of the queue, stops only at a limit, and keeps the byte counts exact.\<close>

lemma batch_loop_correct:
  assumes "batch_loop msgs sz (length (join_with '','' done)) (length done) (''['' @ join_with '','' done) = (rest, sz', out)"
    and "length done \<le> MAX_BATCH_ENTRIES" "length (join_with '','' done) + 2 \<le> MAX_CONTENT_BYTES"
    and "sz = sum_list (map length msgs)"
  shows "\<exists>took. msgs = took @ rest \<and> out = ''['' @ join_with '','' (done @ took) \<and>
    length (done @ took) \<le> MAX_BATCH_ENTRIES \<and> length out + 1 \<le> MAX_CONTENT_BYTES \<and>
    sz' = sum_list (map length rest) \<and>
    (rest \<noteq> [] \<longrightarrow> length (done @ took) = MAX_BATCH_ENTRIES \<or>
       length (json_array (done @ took @ [hd rest])) > MAX_CONTENT_BYTES)"
  using assms
proof (induction msgs arbitrary: sz "done")
  case (Cons msg msgs)
  let ?sep = "if length done = 0 then 0 else 1 :: nat"
  have step: "length (join_with '','' (done @ [msg])) = length (join_with '','' done) + ?sep + length msg"
    by (simp add: join_with_snoc)
  show ?case
  proof (cases "length done \<ge> MAX_BATCH_ENTRIES \<or> length (join_with '','' done) + ?sep + length msg + 2 > MAX_CONTENT_BYTES")
    case True
    then have eq: "rest = msg # msgs" "sz' = sz" "out = ''['' @ join_with '','' done"
      using Cons.prems(1) by (auto simp: Let_def split: if_splits)
    show ?thesis
      using True eq Cons.prems(2-4) step by (intro exI [of _ "[]"]) (auto simp: json_array_def)
  next
    case False
    have "batch_loop msgs (sz - length msg) (length (join_with '','' (done @ [msg]))) (length (done @ [msg]))
        (''['' @ join_with '','' (done @ [msg])) = (rest, sz', out)"
      using Cons.prems(1) False by (cases "done = []") (simp_all add: Let_def join_with_snoc add.assoc)
    from Cons.IH [OF this] obtain took where "msgs = took @ rest" "out = ''['' @ join_with '','' ((done @ [msg]) @ took)"
      "length ((done @ [msg]) @ took) \<le> MAX_BATCH_ENTRIES" "length out + 1 \<le> MAX_CONTENT_BYTES"
      "sz' = sum_list (map length rest)"
      "rest \<noteq> [] \<longrightarrow> length ((done @ [msg]) @ took) = MAX_BATCH_ENTRIES \<or>
        length (json_array ((done @ [msg]) @ took @ [hd rest])) > MAX_CONTENT_BYTES"
      using False step Cons.prems(4) by auto
    then show ?thesis by (intro exI [of _ "msg # took"]) auto
  qed
qed (auto simp: json_array_def)

lemma get_batch_correct:
  assumes "logs_inv a" "logs_get_batch a = Some (b, a')"
  shows "\<exists>msgs. msgs \<noteq> [] \<and> good_batch b msgs \<and> la_messages a = msgs @ la_messages a' \<and> logs_inv a' \<and>
    (la_messages a' \<noteq> [] \<longrightarrow> length msgs = MAX_BATCH_ENTRIES \<or>
       length (json_array (msgs @ [hd (la_messages a')])) > MAX_CONTENT_BYTES)"
proof -
  obtain rest sz' out where l: "batch_loop (la_messages a) (la_current_size_bytes a) 0 0 ''['' = (rest, sz', out)"
    by (cases "batch_loop (la_messages a) (la_current_size_bytes a) 0 0 ''[''") auto
  have ne: "la_messages a \<noteq> []" using assms(2) by (auto simp: logs_get_batch_def split: if_splits)
  have b: "b = out @ '']''" "a' = \<lparr>la_messages = rest, la_current_size_bytes = sz'\<rparr>"
    using assms(2) l ne by (auto simp: logs_get_batch_def)
  obtain took where t: "la_messages a = took @ rest" "out = ''['' @ join_with '','' took"
    "length took \<le> MAX_BATCH_ENTRIES" "length out + 1 \<le> MAX_CONTENT_BYTES"
    "sz' = sum_list (map length rest)"
    "rest \<noteq> [] \<longrightarrow> length took = MAX_BATCH_ENTRIES \<or> length (json_array (took @ [hd rest])) > MAX_CONTENT_BYTES"
    using batch_loop_correct [of "la_messages a" "la_current_size_bytes a" "[]" rest sz' out] l assms(1)
    by (auto simp: logs_inv_def MAX_CONTENT_BYTES_def)
  have "took \<noteq> []"
  proof
    assume "took = []"
    moreover have "length (hd rest) \<le> MAX_LOG_BYTES" if "rest \<noteq> []"
      using assms(1) t(1) that by (auto simp: logs_inv_def)
    ultimately show False
      using ne t(1,6) by (auto simp: json_array_def MAX_BATCH_ENTRIES_def MAX_CONTENT_BYTES_def MAX_LOG_BYTES_def)
  qed
  then show ?thesis
    using t b assms(1) by (intro exI [of _ took]) (auto simp: good_batch_def json_array_def logs_inv_def)
qed

interpretation lq: batch_queue logs_get_batch la_messages good_batch logs_inv
proof
  show "logs_get_batch s = None \<longleftrightarrow> la_messages s = []" for s
    by (auto simp: logs_get_batch_def split_beta Let_def)
qed (use get_batch_correct in blast)+

lemma logs_insert_inv: "logs_inv a \<Longrightarrow> logs_inv (fst (logs_insert to_json entry a))"
  by (auto simp: logs_inv_def logs_insert_def Let_def split: sum.splits)

text \<open>The serialized entries the aggregator accepts, in order.\<close>

definition accepted :: "'v to_json \<Rightarrow> 'v intake_entry list \<Rightarrow> string list" where
  "accepted to_json entries =
     List.map_filter (\<lambda>entry. case to_json entry of
       Inl e \<Rightarrow> None | Inr s \<Rightarrow> if length s \<le> MAX_LOG_BYTES then Some s else None) entries"

lemma accepted_simps [simp]:
  "accepted to_json [] = []"
  "accepted to_json (xs @ ys) = accepted to_json xs @ accepted to_json ys"
  by (simp_all add: accepted_def List.map_filter_def)

lemma insert_all_inv: "logs_inv a \<Longrightarrow> logs_inv (logs_insert_all to_json entries a)"
  unfolding logs_insert_all_def by (induction entries arbitrary: a) (auto simp: logs_insert_inv)

lemma insert_all_messages:
  "la_messages (logs_insert_all to_json entries a) = la_messages a @ accepted to_json entries"
proof (induction entries arbitrary: a)
  case (Cons entry entries)
  have "la_messages (fst (logs_insert to_json entry a)) = la_messages a @ accepted to_json [entry]"
    by (auto simp: logs_insert_def accepted_def List.map_filter_def Let_def split: sum.splits)
  then show ?case
    using Cons.IH [of "fst (logs_insert to_json entry a)"] accepted_simps(2) [of to_json "[entry]" entries]
    by (simp add: logs_insert_all_def)
qed (simp add: logs_insert_all_def)

lemma logs_new_inv: "logs_inv logs_new"
  by (simp add: logs_inv_def logs_new_def)

text \<open>
  Whatever entries arrive, draining ends: the batches are JSON arrays of at most 1000 entries
  and 5 MiB that hold exactly the entries that serialize to at most 1 MiB, in the order of arrival,
  none empty, and nothing is left behind.
\<close>

theorem logs_drained:
  "\<exists>batches groups a'. logs_get_all_batches (logs_insert_all to_json entries logs_new) = Some (batches, a') \<and>
     list_all2 good_batch batches groups \<and> concat groups = accepted to_json entries \<and>
     [] \<notin> set groups \<and> a' = logs_new"
proof -
  let ?a = "logs_insert_all to_json entries logs_new"
  obtain bs s' xss where d: "drain logs_get_batch ?a = Some (bs, s')" "list_all2 good_batch bs xss"
      "concat xss = la_messages ?a" "[] \<notin> set xss" "la_messages s' = []" "logs_inv s'"
    using lq.drain_all [OF insert_all_inv [OF logs_new_inv]] by blast
  then have "s' = logs_new" by (simp add: logs_inv_def logs_new_def)
  moreover have "la_messages ?a = accepted to_json entries" by (simp add: insert_all_messages logs_new_def)
  ultimately show ?thesis using d unfolding logs_get_all_batches_def by metis
qed

text \<open>
  An insertion is refused exactly for an entry that does not serialize or is over 1 MiB, and
  then changes nothing; otherwise it says whether all that is queued, written as one JSON array,
  has reached a limit.
\<close>

theorem logs_insert_outcome:
  assumes "logs_inv a" and "logs_insert to_json entry a = (a', r)"
  shows "logs_inv a' \<and>
    (case r of
       Inl e \<Rightarrow> a' = a \<and> (case to_json entry of Inl m \<Rightarrow> e = Serialization m
                            | Inr s \<Rightarrow> length s > MAX_LOG_BYTES \<and> e = EntryTooLarge (length s) MAX_LOG_BYTES)
     | Inr full \<Rightarrow> \<exists>s. to_json entry = Inr s \<and> length s \<le> MAX_LOG_BYTES \<and>
         la_messages a' = la_messages a @ [s] \<and>
         (full \<longleftrightarrow> length (la_messages a') \<ge> MAX_BATCH_ENTRIES \<or>
            length (json_array (la_messages a')) \<ge> MAX_CONTENT_BYTES))"
proof -
  have inv: "logs_inv a'" using logs_insert_inv [OF assms(1), of to_json entry] assms(2) by simp
  show ?thesis
  proof (cases "to_json entry")
    case (Inr s)
    show ?thesis
    proof (cases "length s > MAX_LOG_BYTES")
      case False
      then have "a' = a\<lparr>la_messages := la_messages a @ [s],
          la_current_size_bytes := la_current_size_bytes a + length s\<rparr>" "r = Inr (logs_is_full a')"
        using assms(2) Inr by (auto simp: logs_insert_def Let_def)
      then show ?thesis using inv Inr False
        by (auto simp: logs_is_full_def Let_def json_array_def length_join logs_inv_def)
    qed (use assms inv Inr in \<open>auto simp: logs_insert_def Let_def\<close>)
  qed (use assms inv in \<open>auto simp: logs_insert_def\<close>)
qed

theorem logs_insert_outcome_witness:
  "logs_inv (fst (logs_insert (\<lambda>e. Inr (ie_message e)) (from_message ''hi'' 0 :: nat intake_entry) logs_new))"
proof -
  have ins: "logs_insert (\<lambda>e. Inr (ie_message e)) (from_message ''hi'' 0 :: nat intake_entry) logs_new =
      (\<lparr>la_messages = [''hi''], la_current_size_bytes = 2\<rparr>, Inr False)"
    by (simp add: logs_insert_def from_message_def logs_new_def MAX_LOG_BYTES_def logs_is_full_def
        MAX_BATCH_ENTRIES_def MAX_CONTENT_BYTES_def)
  from logs_insert_outcome [OF logs_new_inv ins] show ?thesis using ins by simp
qed

text \<open>
  Batches are as large as the limits allow: a batch is left before the queue is empty only
  when it has 1000 entries or the next entry would take it over 5 MiB.
\<close>

theorem logs_batch_maximal:
  assumes "logs_inv a" and "logs_get_batch a = Some (b, a')" and "la_messages a' \<noteq> []"
  shows "\<exists>msgs. good_batch b msgs \<and> la_messages a = msgs @ la_messages a' \<and>
    (length msgs = MAX_BATCH_ENTRIES \<or> length (json_array (msgs @ [hd (la_messages a')])) > MAX_CONTENT_BYTES)"
  using get_batch_correct [OF assms(1,2)] assms(3) by blast

theorem logs_batch_maximal_witness:
  "\<exists>b a' msgs. logs_get_batch \<lparr>la_messages = replicate 1001 ''{}'', la_current_size_bytes = 2002\<rparr> = Some (b, a') \<and>
     good_batch b msgs \<and> length msgs = MAX_BATCH_ENTRIES"
proof -
  define a where "a = \<lparr>la_messages = replicate 1001 ''{}'', la_current_size_bytes = 2002\<rparr>"
  have inv: "logs_inv a"
    by (simp add: logs_inv_def a_def MAX_LOG_BYTES_def map_replicate_const sum_list_replicate)
  have "la_messages a \<noteq> []" unfolding a_def by simp
  then obtain b a' where b: "logs_get_batch a = Some (b, a')"
    by (auto simp: logs_get_batch_def split_beta Let_def)
  obtain ms where ms: "good_batch b ms" "la_messages a = ms @ la_messages a'"
    using get_batch_correct [OF inv b] by blast
  have len: "length (la_messages a) = 1001" by (simp add: a_def)
  have "la_messages a' \<noteq> []" using ms len by (auto simp: good_batch_def MAX_BATCH_ENTRIES_def)
  from logs_batch_maximal [OF inv b this] obtain msgs where m: "good_batch b msgs" "la_messages a = msgs @ la_messages a'"
    "length msgs = MAX_BATCH_ENTRIES \<or> length (json_array (msgs @ [hd (la_messages a')])) > MAX_CONTENT_BYTES" by blast
  have "\<forall>m\<in>set (la_messages a). length m = 2" by (simp add: a_def)
  then have "\<forall>m\<in>set (msgs @ [hd (la_messages a')]). length m = 2" using m(2) \<open>la_messages a' \<noteq> []\<close> by auto
  then have "sum_list (map length (msgs @ [hd (la_messages a')])) = 2 * length (msgs @ [hd (la_messages a')])"
    by (simp add: sum_list_triv cong: map_cong)
  then have "length (json_array (msgs @ [hd (la_messages a')])) = 3 * length msgs + 4"
    unfolding json_array_def by (simp add: length_join)
  then have "length msgs = MAX_BATCH_ENTRIES" using m(1,3) by (auto simp: good_batch_def MAX_CONTENT_BYTES_def MAX_BATCH_ENTRIES_def)
  then show ?thesis using b m(1) unfolding a_def by blast
qed

section \<open>The service delivers every entry once\<close>

fun command_entries :: "'v logs_command \<Rightarrow> 'v intake_entry list" where
  "command_entries (LogsInsertBatch entries) = entries"
| "command_entries _ = []"

fun command_requests :: "'v logs_command \<Rightarrow> nat list" where
  "command_requests (LogsGetBatches tx) = [tx]"
| "command_requests _ = []"

definition logs_running :: "logs_agg option \<Rightarrow> bool" where
  "logs_running s \<longleftrightarrow> (\<exists>a. s = Some a \<and> logs_inv a)"

text \<open>One command: what was pending and what it inserts is what it delivers and what is pending after it.\<close>

lemma service_step_delivers:
  assumes "logs_inv a"
  shows "\<exists>a' rs groups. logs_service_step to_json (Some a) c = (Some a', rs) \<and> logs_inv a' \<and>
    list_all2 good_batch (concat (map snd rs)) groups \<and> map fst rs = command_requests c \<and>
    concat groups @ la_messages a' = la_messages a @ accepted to_json (command_entries c)"
proof (cases c)
  case (LogsInsertBatch entries)
  then show ?thesis using assms by (auto simp: insert_all_inv insert_all_messages intro!: exI [of _ "[]"])
next
  case (LogsGetBatches tx)
  obtain bs a' xss where "drain logs_get_batch a = Some (bs, a')" "list_all2 good_batch bs xss"
      "concat xss = la_messages a" "la_messages a' = []" "logs_inv a'"
    using lq.drain_all [OF assms] by blast
  then show ?thesis using LogsGetBatches
    by (intro exI [of _ a'] exI [of _ "[(tx, bs)]"] exI [of _ xss]) (simp add: logs_get_all_batches_def)
qed (use assms in \<open>auto intro!: exI [of _ "[]"]\<close>)

interpretation lsrv: command_server "logs_service_step to_json" is_logs_shutdown logs_running "\<lambda>c. True"
proof
  fix s c
  assume "logs_running s"
  then show "logs_running (fst (logs_service_step to_json s c))"
    using service_step_delivers [of _ to_json c] unfolding logs_running_def by force
qed

lemma service_run_delivers:
  assumes "logs_inv a" "\<forall>c\<in>set cmds. \<not> is_logs_shutdown c"
  shows "\<exists>a' rs groups. serve (logs_service_step to_json) is_logs_shutdown (Some a) cmds = (Some a', rs) \<and> logs_inv a' \<and>
    list_all2 good_batch (concat (map snd rs)) groups \<and> map fst rs = concat (map command_requests cmds) \<and>
    concat groups @ la_messages a' = la_messages a @ accepted to_json (concat (map command_entries cmds))"
  using assms
proof (induction cmds arbitrary: a)
  case (Cons c cmds)
  obtain a1 rs1 g1 where 1: "logs_service_step to_json (Some a) c = (Some a1, rs1)" "logs_inv a1"
    "list_all2 good_batch (concat (map snd rs1)) g1" "map fst rs1 = command_requests c"
    "concat g1 @ la_messages a1 = la_messages a @ accepted to_json (command_entries c)"
    using service_step_delivers [OF Cons.prems(1)] by metis
  obtain a2 rs2 g2 where 2: "serve (logs_service_step to_json) is_logs_shutdown (Some a1) cmds = (Some a2, rs2)" "logs_inv a2"
    "list_all2 good_batch (concat (map snd rs2)) g2" "map fst rs2 = concat (map command_requests cmds)"
    "concat g2 @ la_messages a2 = la_messages a1 @ accepted to_json (concat (map command_entries cmds))"
    using Cons.IH [OF 1(2)] Cons.prems(2) by auto
  have "concat (g1 @ g2) @ la_messages a2 =
      (concat g1 @ la_messages a1) @ accepted to_json (concat (map command_entries cmds))"
    using 2(5) by simp
  then have "concat (g1 @ g2) @ la_messages a2 =
      la_messages a @ accepted to_json (concat (map command_entries (c # cmds)))" using 1(5) by simp
  moreover have "list_all2 good_batch (concat (map snd (rs1 @ rs2))) (g1 @ g2)"
    using 1(3) 2(3) by (simp add: list_all2_appendI)
  ultimately show ?case using 1 2 Cons.prems(2)
    by (intro exI [of _ a2] exI [of _ "rs1 @ rs2"] exI [of _ "g1 @ g2"]) (simp add: split_beta)
qed (auto intro!: exI [of _ "[]"])

text \<open>
  C4. For every sequence of commands the service answers each request for batches served before a
  shutdown, in order, and delivers exactly once: the entries of the batches it hands out, followed
  by those still queued, are the accepted entries of all insertions in their order. It never hangs.
\<close>

theorem logs_exactly_once:
  "\<exists>a replies groups. logs_service_run to_json (Some logs_new) cmds = (Some a, replies) \<and>
     map fst replies = concat (map command_requests (takeWhile (\<lambda>c. \<not> is_logs_shutdown c) cmds)) \<and>
     list_all2 good_batch (concat (map snd replies)) groups \<and>
     concat groups @ la_messages a =
       accepted to_json (concat (map command_entries (takeWhile (\<lambda>c. \<not> is_logs_shutdown c) cmds)))"
proof -
  let ?served = "takeWhile (\<lambda>c. \<not> is_logs_shutdown c) cmds"
  have "serve (logs_service_step to_json) is_logs_shutdown (Some logs_new) cmds =
      serve (logs_service_step to_json) is_logs_shutdown (Some logs_new) ?served"
  proof (cases "dropWhile (\<lambda>c. \<not> is_logs_shutdown c) cmds")
    case Nil
    then show ?thesis by (metis append_Nil2 takeWhile_dropWhile_id)
  next
    case (Cons c rest)
    then have "is_logs_shutdown c" by (metis hd_dropWhile list.sel(1) list.distinct(1))
    moreover have "cmds = ?served @ c # rest" using Cons by (metis takeWhile_dropWhile_id)
    ultimately show ?thesis using lsrv.serve_stop [of c to_json "Some logs_new" ?served rest] by metis
  qed
  moreover have "\<forall>c\<in>set ?served. \<not> is_logs_shutdown c" by (auto dest: set_takeWhileD)
  ultimately show ?thesis
    using service_run_delivers [OF logs_new_inv, of ?served to_json] by (auto simp: logs_service_run_def logs_new_def)
qed

end
