(* ===== verification/Logs_Flusher.thy ===== *)
theory Logs_Flusher
  imports Logs_Aggregator Http Decimal
begin

text \<open>
  The crate \<^verbatim>\<open>datadog-logs-agent\<close>, second part: \<^verbatim>\<open>config.rs\<close>, \<^verbatim>\<open>logs_additional_endpoint.rs\<close>,
  \<^verbatim>\<open>flusher.rs\<close> (drained batches are shipped, what failed is given back for the next flush) and
  the request handler of \<^verbatim>\<open>server.rs\<close>.

  JSON parsing, compression and the HTTP client are parameters; the answers of the network are
  given for every request and attempt.
\<close>

section \<open>Configuration\<close>

datatype destination = Datadog | ObservabilityPipelinesWorker string

record logs_endpoint =
  le_api_key :: string
  le_url :: string
  le_is_reliable :: bool

record raw_endpoint =
  re_api_key :: string
  re_host :: string
  re_port :: nat
  re_is_reliable :: bool

definition endpoint_from_raw :: "raw_endpoint \<Rightarrow> logs_endpoint" where
  "endpoint_from_raw r =
     \<lparr>le_api_key = re_api_key r,
      le_url = ''https://'' @ re_host r @ '':'' @ show_nat (re_port r) @ ''/api/v2/logs'',
      le_is_reliable = re_is_reliable r\<rparr>"

definition parse_additional_endpoints ::
  "(string \<Rightarrow> string + raw_endpoint list) \<Rightarrow> string \<Rightarrow> logs_endpoint list" where
  "parse_additional_endpoints from_json s =
     (case from_json s of Inr raw \<Rightarrow> map endpoint_from_raw raw | Inl e \<Rightarrow> [])"

record logs_config =
  lc_api_key :: string
  lc_site :: string
  lc_mode :: destination
  lc_additional_endpoints :: "logs_endpoint list"
  lc_use_compression :: bool
  lc_compression_level :: int
  lc_flush_timeout :: nat

definition DEFAULT_SITE :: string where "DEFAULT_SITE = ''datadoghq.com''"
definition DEFAULT_FLUSH_TIMEOUT_SECS :: nat where "DEFAULT_FLUSH_TIMEOUT_SECS = 5"
definition DEFAULT_COMPRESSION_LEVEL :: int where "DEFAULT_COMPRESSION_LEVEL = 3"

definition logs_config_from_env :: "(string \<Rightarrow> string + raw_endpoint list) \<Rightarrow> env_vars \<Rightarrow> logs_config" where
  "logs_config_from_env from_json env =
     (let api_key = case_option [] id (env ''DD_API_KEY'');
          site = case_option DEFAULT_SITE id (env ''DD_SITE'');
          use_compression = case_option True (\<lambda>v. \<not> lower_is v ''false'') (env ''DD_LOGS_CONFIG_USE_COMPRESSION'');
          compression_level = case_option DEFAULT_COMPRESSION_LEVEL id
            (Option.bind (env ''DD_LOGS_CONFIG_COMPRESSION_LEVEL'') (parse_signed i32_min i32_max));
          flush_timeout_secs = case_option DEFAULT_FLUSH_TIMEOUT_SECS id
            (Option.bind (env ''DD_FLUSH_TIMEOUT'') (parse_unsigned (2 ^ 64 - 1)));
          opw_enabled = case_option False (\<lambda>v. lower_is v ''true'')
            (env ''DD_OBSERVABILITY_PIPELINES_WORKER_LOGS_ENABLED'');
          mode = (if opw_enabled
                  then ObservabilityPipelinesWorker
                    (case_option [] id (env ''DD_OBSERVABILITY_PIPELINES_WORKER_LOGS_URL''))
                  else Datadog)
      in \<lparr>lc_api_key = api_key, lc_site = site, lc_mode = mode,
          lc_additional_endpoints =
            case_option [] (parse_additional_endpoints from_json) (env ''DD_LOGS_CONFIG_ADDITIONAL_ENDPOINTS''),
          lc_use_compression = use_compression, lc_compression_level = compression_level,
          lc_flush_timeout = flush_timeout_secs\<rparr>)"

section \<open>Sending with retries\<close>

definition MAX_FLUSH_ATTEMPTS :: nat where "MAX_FLUSH_ATTEMPTS = 3"

record builder = request +
  rq_timeout :: nat

definition retryable_4xx :: "nat \<Rightarrow> bool" where
  "retryable_4xx s \<longleftrightarrow> s \<in> {408, 425, 429}"

text \<open>
  The loop of \<open>send_with_retry\<close> after \<open>attempts\<close> attempts: \<open>Inl\<close> gives the builder back. The
  second component counts the requests made.
\<close>

function logs_retry_loop :: "bool \<Rightarrow> builder \<Rightarrow> (nat \<Rightarrow> send_result) \<Rightarrow> nat \<Rightarrow> (builder + unit) \<times> nat" where
  "logs_retry_loop cloneable b net attempts =
     (let attempts = attempts + 1 in
      if \<not> cloneable then (Inr (), attempts - 1)
      else
        (case net attempts of
           Response status \<Rightarrow>
             if status_success status then (Inr (), attempts)
             else if status \<ge> 400 \<and> status < 500 \<and> \<not> retryable_4xx status then (Inr (), attempts)
             else if attempts \<ge> MAX_FLUSH_ATTEMPTS then (Inl b, attempts)
             else logs_retry_loop cloneable b net attempts
         | SendFailed _ \<Rightarrow>
             if attempts \<ge> MAX_FLUSH_ATTEMPTS then (Inl b, attempts)
             else logs_retry_loop cloneable b net attempts))"
  by pat_completeness auto
termination
  by (relation "measure (\<lambda>(c, b, net, attempts). MAX_FLUSH_ATTEMPTS - attempts)") auto

declare logs_retry_loop.simps [simp del]

record logs_env =
  le_zstd :: "int \<Rightarrow> string \<Rightarrow> string option"
  le_can_clone :: "builder \<Rightarrow> bool"

definition logs_send_with_retry :: "logs_env \<Rightarrow> (nat \<Rightarrow> send_result) \<Rightarrow> builder \<Rightarrow> builder + unit" where
  "logs_send_with_retry E net b = fst (logs_retry_loop (le_can_clone E b) b net 0)"

section \<open>Shipping batches\<close>

definition resolve_endpoint :: "logs_config \<Rightarrow> string \<times> bool" where
  "resolve_endpoint c =
     (case lc_mode c of
        Datadog \<Rightarrow> (''https://http-intake.logs.'' @ lc_site c @ ''/api/v2/logs'', lc_use_compression c)
      | ObservabilityPipelinesWorker url \<Rightarrow> (url, False))"

text \<open>The request \<open>ship_batch\<close> builds.\<close>

definition batch_request :: "logs_env \<Rightarrow> logs_config \<Rightarrow> string \<Rightarrow> string \<Rightarrow> bool \<Rightarrow> string \<Rightarrow> bool \<Rightarrow> builder" where
  "batch_request E c batch url compress api_key is_datadog_intake =
     (let (body, content_encoding) =
            (if compress
             then (case le_zstd E (lc_compression_level c) batch of
                     Some compressed \<Rightarrow> (compressed, Some ''zstd'')
                   | None \<Rightarrow> (batch, None))
             else (batch, None));
          headers = [(''DD-API-KEY'', api_key), (''Content-Type'', ''application/json'')];
          headers = (if is_datadog_intake then headers @ [(''DD-PROTOCOL'', ''agent-json'')] else headers);
          headers = (case content_encoding of
                       Some enc \<Rightarrow> headers @ [(''Content-Encoding'', enc)] | None \<Rightarrow> headers)
      in \<lparr>rq_url = url, rq_headers = headers, rq_body = body, rq_timeout = lc_flush_timeout c\<rparr>)"

definition ship_batch ::
  "logs_env \<Rightarrow> (nat \<Rightarrow> send_result) \<Rightarrow> logs_config \<Rightarrow> string \<Rightarrow> string \<Rightarrow> bool \<Rightarrow> string \<Rightarrow> bool \<Rightarrow> builder + unit" where
  "ship_batch E net c batch url compress api_key is_datadog_intake =
     logs_send_with_retry E net (batch_request E c batch url compress api_key is_datadog_intake)"

text \<open>
  The transfers of one flush: the i-th request of the previous flush, the i-th batch to the
  primary endpoint, the i-th batch to the j-th additional endpoint.
\<close>

datatype transfer = Redrive nat | Primary nat | Extra nat nat

type_synonym logs_network = "transfer \<Rightarrow> nat \<Rightarrow> send_result"

definition is_primary_datadog :: "logs_config \<Rightarrow> bool" where
  "is_primary_datadog c \<longleftrightarrow> lc_mode c = Datadog"

text \<open>\<open>Vec\<close> of the builders that came back.\<close>

definition given_back_of :: "(builder + unit) list \<Rightarrow> builder list" where
  "given_back_of rs = concat (map (\<lambda>r. case r of Inl b \<Rightarrow> [b] | Inr _ \<Rightarrow> []) rs)"

definition primary_result :: "logs_env \<Rightarrow> logs_network \<Rightarrow> logs_config \<Rightarrow> nat \<Rightarrow> string \<Rightarrow> builder + unit" where
  "primary_result E net c i batch =
     (let (primary_url, primary_use_compression) = resolve_endpoint c
      in ship_batch E (net (Primary i)) c batch primary_url primary_use_compression (lc_api_key c) (is_primary_datadog c))"

definition extra_results :: "logs_env \<Rightarrow> logs_network \<Rightarrow> logs_config \<Rightarrow> nat \<Rightarrow> string \<Rightarrow> (builder + unit) list" where
  "extra_results E net c i batch =
     map (\<lambda>(j, endpoint). ship_batch E (net (Extra i j)) c batch (le_url endpoint) (lc_use_compression c)
            (le_api_key endpoint) True)
       (enumerate 0 (lc_additional_endpoints c))"

text \<open>
  \<open>flush\<close>: the builders given back, and for every batch how its transfers to the additional
  endpoints ended, which is only logged.
\<close>

definition logs_flush ::
  "logs_env \<Rightarrow> logs_network \<Rightarrow> logs_config \<Rightarrow> logs_handle_error + string list \<Rightarrow> builder list \<Rightarrow>
   builder list \<times> (builder + unit) list list" where
  "logs_flush E net c batches_result retry_requests =
     (let failed = given_back_of (map (\<lambda>(i, b). logs_send_with_retry E (net (Redrive i)) b) (enumerate 0 retry_requests))
      in case batches_result of
           Inl e \<Rightarrow> (failed, [])
         | Inr batches \<Rightarrow>
             if batches = [] then (failed, [])
             else (failed @ given_back_of (map (\<lambda>(i, batch). primary_result E net c i batch) (enumerate 0 batches)),
                   map (\<lambda>(i, batch). extra_results E net c i batch) (enumerate 0 batches)))"

section \<open>The intake server\<close>

definition LOG_INTAKE_PATH :: string where "LOG_INTAKE_PATH = ''/v1/input''"
definition MAX_BODY_BYTES :: nat where "MAX_BODY_BYTES = 4 * 1024 * 1024"

text \<open>\<open>hr_content_length\<close>: the header when it is present and readable; \<open>hr_body\<close>: \<open>None\<close> when reading fails.\<close>

record http_request =
  hr_method :: string
  hr_path :: string
  hr_content_length :: "string option"
  hr_body :: "string option"

type_synonym http_response = "nat \<times> string"

definition logs_handle_request ::
  "(string \<Rightarrow> string + 'v intake_entry list) \<Rightarrow> http_request \<Rightarrow> 'v logs_mailbox \<Rightarrow> http_response \<times> 'v logs_mailbox" where
  "logs_handle_request from_json req mb =
     (if hr_method req \<noteq> ''POST'' then ((405, ''method not allowed''), mb)
      else if hr_path req \<noteq> LOG_INTAKE_PATH then ((404, ''not found''), mb)
      else if (case Option.bind (hr_content_length req) (parse_unsigned usize_max) of
                 Some content_length \<Rightarrow> content_length > MAX_BODY_BYTES | None \<Rightarrow> False)
      then ((413, ''payload too large''), mb)
      else
        (case hr_body req of
           None \<Rightarrow> ((400, ''failed to read body''), mb)
         | Some bytes \<Rightarrow>
             if length bytes > MAX_BODY_BYTES then ((413, ''payload too large''), mb)
             else
               (case from_json bytes of
                  Inl e \<Rightarrow> ((400, ''invalid JSON: '' @ e), mb)
                | Inr entries \<Rightarrow>
                    if entries = [] then ((200, ''ok''), mb)
                    else
                      (case logs_insert_batch entries mb of
                         (mb', Inl e) \<Rightarrow> ((500, ''aggregator unavailable''), mb')
                       | (mb', Inr _) \<Rightarrow> ((200, ''ok''), mb')))))"

text \<open>
  \<open>LogServer::serve\<close>: a server that cannot bind returns. The connections are served concurrently; a request
  touches the shared channel once, and \<open>events\<close> lists the failed accepts and the requests in this order.
\<close>

datatype accept_event = AcceptError | Accepted http_request

fun log_server_loop ::
  "(string \<Rightarrow> string + 'v intake_entry list) \<Rightarrow> accept_event list \<Rightarrow> 'v logs_mailbox \<Rightarrow> http_response list \<times> 'v logs_mailbox" where
  "log_server_loop from_json [] mb = ([], mb)"
| "log_server_loop from_json (AcceptError # events) mb = log_server_loop from_json events mb"
| "log_server_loop from_json (Accepted req # events) mb =
     (case logs_handle_request from_json req mb of
        (response, mb') \<Rightarrow> (case log_server_loop from_json events mb' of (rs, mb'') \<Rightarrow> (response # rs, mb'')))"

definition log_server_serve ::
  "(string \<Rightarrow> string + 'v intake_entry list) \<Rightarrow> bool \<Rightarrow> accept_event list \<Rightarrow> 'v logs_mailbox \<Rightarrow> http_response list \<times> 'v logs_mailbox" where
  "log_server_serve from_json bind_ok events mb = (if \<not> bind_ok then ([], mb) else log_server_loop from_json events mb)"

section \<open>What a flush gives back\<close>

text \<open>An answer after which the request is tried again.\<close>

fun transient :: "send_result \<Rightarrow> bool" where
  "transient (Response s) \<longleftrightarrow> \<not> status_success s \<and> (client_error s \<longrightarrow> retryable_4xx s)"
| "transient (SendFailed s) \<longleftrightarrow> True"

lemma logs_retry_step:
  "logs_retry_loop True b net k =
     (if \<not> transient (net (Suc k)) then (Inr (), Suc k)
      else if Suc k \<ge> MAX_FLUSH_ATTEMPTS then (Inl b, Suc k)
      else logs_retry_loop True b net (Suc k))"
  by (subst logs_retry_loop.simps) (cases "net (Suc k)"; auto simp: Let_def client_error_def)

interpretation lrt: retrying "logs_retry_loop True b" "\<lambda>a. if transient a then None else Some (Inr ())"
    "\<lambda>a. Inl b" MAX_FLUSH_ATTEMPTS for b
  by unfold_locales (subst logs_retry_step; simp split: if_splits)+

definition undelivered :: "logs_env \<Rightarrow> (nat \<Rightarrow> send_result) \<Rightarrow> builder \<Rightarrow> bool" where
  "undelivered E net b \<longleftrightarrow> le_can_clone E b \<and> transient (net 1) \<and> transient (net 2) \<and> transient (net 3)"

lemma send_iff_undelivered:
  "logs_send_with_retry E net b = (if undelivered E net b then Inl b else Inr ())"
proof (cases "le_can_clone E b")
  case True
  have three: "(\<forall>j. 1 \<le> j \<and> j \<le> max 1 MAX_FLUSH_ATTEMPTS \<longrightarrow> transient (net j)) \<longleftrightarrow>
      transient (net 1) \<and> transient (net 2) \<and> transient (net 3)"
    by (auto simp: MAX_FLUSH_ATTEMPTS_def le_Suc_eq numeral_3_eq_3 numeral_2_eq_2)
  show ?thesis
  proof (cases rule: lrt.attempt_cases [of net b])
    case (final k r)
    then show ?thesis using True three
      by (auto simp: logs_send_with_retry_def undelivered_def split: if_splits)
  next
    case none
    then show ?thesis using True three
      by (auto simp: logs_send_with_retry_def undelivered_def split: if_splits)
  qed
qed (simp add: logs_send_with_retry_def undelivered_def logs_retry_loop.simps Let_def)

definition primary_request :: "logs_env \<Rightarrow> logs_config \<Rightarrow> string \<Rightarrow> builder" where
  "primary_request E c batch =
     batch_request E c batch (fst (resolve_endpoint c)) (snd (resolve_endpoint c)) (lc_api_key c) (is_primary_datadog c)"

lemma primary_result_eq:
  "primary_result E net c i batch = logs_send_with_retry E (net (Primary i)) (primary_request E c batch)"
  by (simp add: primary_result_def primary_request_def ship_batch_def split_beta)

lemma given_back_filter:
  "given_back_of (map (\<lambda>(i, x). logs_send_with_retry E (net i) (f x)) xs) =
     map (\<lambda>(i, x). f x) (filter (\<lambda>(i, x). undelivered E (net i) (f x)) xs)"
  by (induction xs) (auto simp: given_back_of_def send_iff_undelivered)

text \<open>
  A flush gives back exactly the requests whose three attempts all met a transient answer (a
  server error, 408, 425, 429 or a network failure): those of the previous flush unchanged and
  first, then those of the new batches, in order. Neither an additional endpoint nor a batch that
  was accepted or permanently refused adds to them; without batches only the old ones are sent.
\<close>

theorem logs_flush_gives_back:
  "fst (logs_flush E net c batches_result retry_requests) =
     map snd (filter (\<lambda>(i, b). undelivered E (net (Redrive i)) b) (enumerate 0 retry_requests)) @
     (case batches_result of
        Inl e \<Rightarrow> []
      | Inr batches \<Rightarrow> map (\<lambda>(i, batch). primary_request E c batch)
          (filter (\<lambda>(i, batch). undelivered E (net (Primary i)) (primary_request E c batch)) (enumerate 0 batches)))"
  using given_back_filter [of E "\<lambda>i. net (Redrive i)" "\<lambda>b. b" "enumerate 0 retry_requests"]
    given_back_filter [of E "\<lambda>i. net (Primary i)" "primary_request E c"]
  by (auto simp: logs_flush_def Let_def primary_result_eq split_def split: sum.splits)

text \<open>What an intake reads from a request.\<close>

definition received_body :: "(string \<Rightarrow> string) \<Rightarrow> builder \<Rightarrow> string" where
  "received_body unzstd b =
     (if (''Content-Encoding'', ''zstd'') \<in> set (rq_headers b) then unzstd (rq_body b) else rq_body b)"

lemma received_batch:
  assumes "\<And>l x y. le_zstd E l x = Some y \<Longrightarrow> unzstd y = x"
  shows "received_body unzstd (batch_request E c batch url compress key dd) = batch"
  using assms by (auto simp: received_body_def batch_request_def Let_def split: option.splits)

text \<open>
  C14. From entries to the intake: when what was collected is flushed, every entry that serializes
  within the limit is in exactly one request, in order, whose body the intake reads as a JSON
  array within the limits, and each such request is accepted, permanently refused, or given back
  for the next flush. Decompression is assumed to invert compression.
\<close>

theorem logs_end_to_end:
  assumes "\<And>l x y. le_zstd E l x = Some y \<Longrightarrow> unzstd y = x" and "\<And>b. le_can_clone E b"
    and "logs_get_all_batches (logs_insert_all to_json entries logs_new) = Some (batches, a')"
    and "failed = fst (logs_flush E net c (Inr batches) retry_requests)"
  shows "\<exists>groups. length groups = length batches \<and> concat groups = accepted to_json entries \<and>
    (\<forall>i < length batches. good_batch (received_body unzstd (primary_request E c (batches ! i))) (groups ! i) \<and>
       (primary_request E c (batches ! i) \<in> set failed \<or>
        (\<exists>k. 1 \<le> k \<and> k \<le> MAX_FLUSH_ATTEMPTS \<and> \<not> transient (net (Primary i) k))))"
proof -
  obtain bs groups s' where d: "drain logs_get_batch (logs_insert_all to_json entries logs_new) = Some (bs, s')"
      "list_all2 good_batch bs groups" "concat groups = la_messages (logs_insert_all to_json entries logs_new)"
    using lq.drain_all [OF insert_all_inv [OF logs_new_inv]] by blast
  have bs: "bs = batches" using d(1) assms(3) by (simp add: logs_get_all_batches_def)
  have gb: "primary_request E c (batches ! i) \<in> set failed" if "i < length batches" "undelivered E (net (Primary i)) (primary_request E c (batches ! i))" for i
  proof -
    have "(i, batches ! i) \<in> set (enumerate 0 batches)" using that(1) by (simp add: in_set_enumerate_eq)
    then have "primary_request E c (batches ! i) \<in> set (map (\<lambda>(i, batch). primary_request E c batch)
        (filter (\<lambda>(i, batch). undelivered E (net (Primary i)) (primary_request E c batch)) (enumerate 0 batches)))"
      using that(2) by force
    moreover have "batches \<noteq> []" using that(1) by auto
    ultimately show ?thesis
      using given_back_filter [of E "\<lambda>i. net (Primary i)" "primary_request E c" "enumerate 0 batches"] assms(4)
      by (simp add: logs_flush_def Let_def primary_result_eq split_def)
  qed
  have "primary_request E c (batches ! i) \<in> set failed \<or>
      (\<exists>k. 1 \<le> k \<and> k \<le> MAX_FLUSH_ATTEMPTS \<and> \<not> transient (net (Primary i) k))" if "i < length batches" for i
  proof (cases "undelivered E (net (Primary i)) (primary_request E c (batches ! i))")
    case False
    then have "\<exists>k\<in>{1, 2, 3}. \<not> transient (net (Primary i) k)" using assms(2) by (auto simp: undelivered_def)
    then show ?thesis by (fastforce simp: MAX_FLUSH_ATTEMPTS_def)
  qed (use that gb in blast)
  moreover have "received_body unzstd (primary_request E c b) = b" for b
    unfolding primary_request_def by (rule received_batch [OF assms(1)])
  ultimately show ?thesis
    using d bs by (intro exI [of _ groups]) (auto simp: list_all2_conv_all_nth insert_all_messages logs_new_def)
qed

theorem logs_end_to_end_witness:
  "\<exists>groups. concat groups = [''hi''] \<and>
     good_batch (received_body id (primary_request \<lparr>le_zstd = (\<lambda>l x. Some x), le_can_clone = (\<lambda>b. True)\<rparr>
        (logs_config_from_env (\<lambda>s. Inr []) (\<lambda>v. None)) ''[hi]'')) (groups ! 0)"
proof -
  let ?E = "\<lparr>le_zstd = (\<lambda>l x. Some x), le_can_clone = (\<lambda>b. True)\<rparr>"
  let ?c = "logs_config_from_env (\<lambda>s. Inr []) (\<lambda>v. None)"
  let ?to_json = "\<lambda>e :: nat intake_entry. Inr (ie_message e) :: string + string"
  let ?a = "logs_insert_all ?to_json [from_message ''hi'' 0] logs_new"
  have a: "?a = \<lparr>la_messages = [''hi''], la_current_size_bytes = 2\<rparr>"
    by (simp add: logs_insert_all_def logs_insert_def from_message_def logs_new_def MAX_LOG_BYTES_def Let_def)
  have g: "logs_get_batch \<lparr>la_messages = [''hi''], la_current_size_bytes = 2\<rparr> = Some (''[hi]'', logs_new)"
    by (simp add: logs_get_batch_def MAX_BATCH_ENTRIES_def MAX_CONTENT_BYTES_def logs_new_def)
  have "drain logs_get_batch logs_new = Some ([], logs_new)"
    by (subst drain.simps) (simp add: logs_get_batch_def logs_new_def)
  then have "logs_get_all_batches ?a = Some ([''[hi]''], logs_new)"
    unfolding logs_get_all_batches_def a by (subst drain.simps) (simp add: g)
  from logs_end_to_end [where E = ?E and unzstd = id and net = "\<lambda>t k. Response 202" and c = ?c and retry_requests = "[]", OF _ _ this refl]
  show ?thesis by (force simp: accepted_def List.map_filter_def from_message_def MAX_LOG_BYTES_def)
qed

section \<open>What the server accepts\<close>

definition declared_too_large :: "http_request \<Rightarrow> bool" where
  "declared_too_large req \<longleftrightarrow>
     (case Option.bind (hr_content_length req) (parse_unsigned usize_max) of
        Some content_length \<Rightarrow> content_length > MAX_BODY_BYTES | None \<Rightarrow> False)"

text \<open>The entries of a request, when it is one the server can take.\<close>

definition request_entries :: "(string \<Rightarrow> string + 'v intake_entry list) \<Rightarrow> http_request \<Rightarrow> 'v intake_entry list option" where
  "request_entries from_json req =
     (if hr_method req = ''POST'' \<and> hr_path req = LOG_INTAKE_PATH \<and> \<not> declared_too_large req
      then Option.bind (hr_body req) (\<lambda>bytes.
        if length bytes \<le> MAX_BODY_BYTES
        then (case from_json bytes of Inl e \<Rightarrow> None | Inr entries \<Rightarrow> Some entries) else None)
      else None)"

lemma handle_request_None:
  assumes "request_entries from_json req = None"
  shows "snd (logs_handle_request from_json req mb) = mb" "client_error (fst (fst (logs_handle_request from_json req mb)))"
  using assms
  by (auto simp: logs_handle_request_def request_entries_def declared_too_large_def [symmetric] client_error_def
      split: option.splits sum.splits if_splits)

lemma handle_request_Some:
  assumes "request_entries from_json req = Some entries"
  shows "logs_handle_request from_json req mb =
    (if entries = [] then ((200, ''ok''), mb)
     else if lm_open mb then ((200, ''ok''), mb\<lparr>lm_queue := lm_queue mb @ [LogsInsertBatch entries]\<rparr>)
     else ((500, ''aggregator unavailable''), mb))"
proof -
  have "hr_method req = ''POST''" "hr_path req = LOG_INTAKE_PATH" "\<not> declared_too_large req"
    using assms by (auto simp: request_entries_def split: if_splits)
  moreover from this obtain bytes where "hr_body req = Some bytes" "length bytes \<le> MAX_BODY_BYTES" "from_json bytes = Inr entries"
    using assms by (cases "hr_body req") (auto simp: request_entries_def split: if_splits sum.splits)
  ultimately show ?thesis
    by (simp add: logs_handle_request_def declared_too_large_def [symmetric] logs_insert_batch_def logs_send_def)
qed

text \<open>
  While the aggregator runs, the server queues the entries of its valid requests in the order it handled
  them, one command for each that has entries, whatever failed in between.
\<close>

theorem log_server_queue:
  "snd (log_server_serve from_json True events (mb\<lparr>lm_open := True\<rparr>)) =
     mb\<lparr>lm_open := True, lm_queue := lm_queue mb @ map LogsInsertBatch (filter (\<lambda>es. es \<noteq> [])
       (List.map_filter (\<lambda>ev. case ev of AcceptError \<Rightarrow> None | Accepted req \<Rightarrow> request_entries from_json req) events))\<rparr>"
proof -
  have "lm_open mb \<Longrightarrow> snd (log_server_loop from_json events mb) =
      mb\<lparr>lm_queue := lm_queue mb @ map LogsInsertBatch (filter (\<lambda>es. es \<noteq> [])
        (List.map_filter (\<lambda>ev. case ev of AcceptError \<Rightarrow> None | Accepted req \<Rightarrow> request_entries from_json req) events))\<rparr>" for mb
  proof (induction events arbitrary: mb)
    case (Cons ev events)
    show ?case
    proof (cases ev)
      case (Accepted req)
      show ?thesis
      proof (cases "request_entries from_json req")
        case None
        then show ?thesis using Cons.IH [OF Cons.prems] handle_request_None(1) [OF None, of mb]
          by (cases "logs_handle_request from_json req mb"; cases "log_server_loop from_json events mb")
            (simp add: Accepted map_filter_simps)
      next
        case (Some entries)
        define mb' where "mb' = (if entries = [] then mb else mb\<lparr>lm_queue := lm_queue mb @ [LogsInsertBatch entries]\<rparr>)"
        have "lm_open mb'" "logs_handle_request from_json req mb = ((200, ''ok''), mb')"
          using Cons.prems handle_request_Some [OF Some, of mb] by (simp_all add: mb'_def)
        then show ?thesis using Cons.IH [of mb'] Some
          by (cases "log_server_loop from_json events mb'") (simp add: Accepted map_filter_simps mb'_def)
      qed
    qed (use Cons in \<open>simp add: map_filter_simps\<close>)
  qed (simp add: map_filter_simps)
  from this [of "mb\<lparr>lm_open := True\<rparr>"] show ?thesis by (simp add: log_server_serve_def)
qed

text \<open>
  C31. The server answers 200 exactly for a \<open>POST\<close> to the intake path whose body, neither declared
  nor found to exceed 4 MiB, is a JSON array of entries, while the aggregator runs or the array is
  empty; then, and only then, it queues its entries, in one command. A valid request to a stopped
  aggregator is answered with 500, every other request with a client error, and neither changes the queue.
\<close>

theorem logs_request_outcome:
  "(case request_entries from_json req of
      Some entries \<Rightarrow> fst (logs_handle_request from_json req mb) =
        (if entries = [] \<or> lm_open mb then (200, ''ok'') else (500, ''aggregator unavailable''))
    | None \<Rightarrow> client_error (fst (fst (logs_handle_request from_json req mb)))) \<and>
   snd (logs_handle_request from_json req mb) =
     (case request_entries from_json req of
        Some entries \<Rightarrow> if entries \<noteq> [] \<and> lm_open mb then mb\<lparr>lm_queue := lm_queue mb @ [LogsInsertBatch entries]\<rparr> else mb
      | None \<Rightarrow> mb)"
proof (cases "request_entries from_json req")
  case None
  then show ?thesis using handle_request_None [OF None, of mb] by simp
qed (simp add: handle_request_Some client_error_def)

text \<open>A sequence of requests, as the connections of the server hand them to the handler.\<close>

fun logs_posts ::
  "(string \<Rightarrow> string + 'v intake_entry list) \<Rightarrow> http_request list \<Rightarrow> 'v logs_mailbox \<Rightarrow> http_response list \<times> 'v logs_mailbox" where
  "logs_posts from_json [] mb = ([], mb)"
| "logs_posts from_json (req # reqs) mb =
     (let (resp, mb') = logs_handle_request from_json req mb;
          (resps, mb'') = logs_posts from_json reqs mb'
      in (resp # resps, mb''))"

definition taken :: "'v intake_entry list option \<Rightarrow> 'v intake_entry list" where
  "taken r = (case r of Some entries \<Rightarrow> entries | None \<Rightarrow> [])"

lemma posts_queue:
  assumes "lm_open mb"
  shows "\<exists>cmds. snd (logs_posts from_json reqs mb) = mb\<lparr>lm_queue := lm_queue mb @ cmds\<rparr> \<and>
    concat (map command_entries cmds) = concat (map (\<lambda>req. taken (request_entries from_json req)) reqs) \<and>
    concat (map command_requests cmds) = [] \<and> (\<forall>c\<in>set cmds. \<not> is_logs_shutdown c)"
  using assms
proof (induction reqs arbitrary: mb)
  case (Cons req reqs)
  let ?es = "taken (request_entries from_json req)"
  define cmd where "cmd = (if ?es = [] then [] else [LogsInsertBatch ?es])"
  have mb': "snd (logs_handle_request from_json req mb) = mb\<lparr>lm_queue := lm_queue mb @ cmd\<rparr>"
    using Cons.prems by (cases "request_entries from_json req")
      (simp_all add: cmd_def taken_def handle_request_None handle_request_Some)
  obtain cmds where "snd (logs_posts from_json reqs (mb\<lparr>lm_queue := lm_queue mb @ cmd\<rparr>)) =
      mb\<lparr>lm_queue := (lm_queue mb @ cmd) @ cmds\<rparr>"
    "concat (map command_entries cmds) = concat (map (\<lambda>req. taken (request_entries from_json req)) reqs)"
    "concat (map command_requests cmds) = []" "\<forall>c\<in>set cmds. \<not> is_logs_shutdown c"
    using Cons.IH [of "mb\<lparr>lm_queue := lm_queue mb @ cmd\<rparr>"] Cons.prems by auto
  then show ?case using mb'
    by (intro exI [of _ "cmd @ cmds"]) (auto simp: split_beta cmd_def)
qed (auto intro!: exI [of _ "[]"])

text \<open>
  Whatever requests a running server receives, draining the aggregator afterwards hands out
  the entries of exactly the requests answered with 200, in the order of the requests, each entry
  within the size limit once, in JSON arrays within the limits, and leaves nothing behind.
\<close>

theorem logs_posted_delivered:
  fixes from_json :: "string \<Rightarrow> string + 'v intake_entry list"
  shows "\<exists>batches groups. logs_service_run to_json (Some logs_new)
        (lm_queue (snd (logs_posts from_json reqs (snd logs_service_new))) @ [LogsGetBatches tx]) = (Some logs_new, [(tx, batches)]) \<and>
    list_all2 good_batch batches groups \<and>
    concat groups = accepted to_json (concat (map (\<lambda>req. taken (request_entries from_json req)) reqs))"
proof -
  obtain cmds :: "'v logs_command list" where c: "lm_queue (snd (logs_posts from_json reqs (snd logs_service_new))) = cmds" "concat (map command_entries cmds) = concat (map (\<lambda>req. taken (request_entries from_json req)) reqs)"
    "concat (map command_requests cmds) = []" "\<forall>c\<in>set cmds. \<not> is_logs_shutdown c"
    using posts_queue [of "snd logs_service_new" from_json reqs] by (auto simp: logs_service_new_def)
  obtain a rs g where r: "serve (logs_service_step to_json) is_logs_shutdown (Some logs_new) cmds = (Some a, rs)" "logs_inv a"
    "list_all2 good_batch (concat (map snd rs)) g" "map fst rs = concat (map command_requests cmds)"
    "concat g @ la_messages a = la_messages logs_new @ accepted to_json (concat (map command_entries cmds))"
    using service_run_delivers [OF logs_new_inv c(4)] by metis
  have rs: "rs = []" "g = []" using r(3,4) c(3) by auto
  obtain bs a' xss where d: "drain logs_get_batch a = Some (bs, a')" "list_all2 good_batch bs xss"
      "concat xss = la_messages a" "la_messages a' = []" "logs_inv a'"
    using lq.drain_all [OF r(2)] by blast
  then have "a' = logs_new" by (simp add: logs_inv_def logs_new_def)
  moreover have "logs_service_run to_json (Some logs_new) (cmds @ [LogsGetBatches tx]) = (Some a', [(tx, bs)])"
    unfolding logs_service_run_def by (subst lsrv.serve_append [OF c(4)]) (simp add: r(1) rs logs_get_all_batches_def d(1))
  ultimately show ?thesis using d r(5) rs c by (auto simp: logs_service_new_def logs_new_def)
qed

end
