(* ===== verification/Score_Sampler.thy ===== *)
theory Score_Sampler
  imports Floats
begin

text \<open>
  The crate \<^verbatim>\<open>datadog-agent-trace-sampler\<close> (\<^verbatim>\<open>lib.rs\<close>, \<^verbatim>\<open>signature.rs\<close>, \<^verbatim>\<open>score_sampler.rs\<close>):
  the error sampler that gives a trace the agent is about to drop a second chance.

  A hash map is an association list with distinct keys in its iteration order; the counts are
  \<open>f32\<close> and the rates \<open>f64\<close> values of \<open>Floats\<close>; identifiers and signatures are 64-bit words.
\<close>

unbundle bit_operations_syntax

section \<open>Views and configuration\<close>

record span_view =
  sp_service :: string
  sp_name :: string
  sp_resource :: string
  sp_error :: bool
  sp_http_status_code :: "string option"
  sp_error_type :: "string option"

record trace_view =
  tr_env :: string
  tr_trace_id :: u64
  tr_root_index :: nat
  tr_root_global_sample_rate :: fl
  tr_spans :: "span_view list"

datatype error_sampler_mode = AlwaysKeepMode | RateLimitedMode

record error_sampler_config =
  cfg_mode :: error_sampler_mode
  cfg_target_tps :: fl
  cfg_extra_sample_rate :: fl

abbreviation f_one :: fl where "f_one \<equiv> Fin False 1"
abbreviation f_zero :: fl where "f_zero \<equiv> Fin False 0"

definition default_config :: error_sampler_config where
  "default_config = \<lparr>cfg_mode = RateLimitedMode, cfg_target_tps = Fin False 10, cfg_extra_sample_rate = f_one\<rparr>"

datatype sample_decision = Keep fl | Drop

section \<open>Signatures\<close>

type_synonym signature = u64

definition OFFSET32 :: u32 where "OFFSET32 = 2166136261"
definition PRIME32 :: u32 where "PRIME32 = 16777619"
definition SAMPLER_HASHER :: u64 where "SAMPLER_HASHER = 1111111111111111111"

definition fnv_write_char :: "nat \<Rightarrow> u32 \<Rightarrow> u32" where
  "fnv_write_char c hash = (hash XOR of_nat c) * PRIME32"

definition fnv_write :: "string \<Rightarrow> u32 \<Rightarrow> u32" where
  "fnv_write data hash = fold (\<lambda>c. fnv_write_char (byte c)) data hash"

definition compute_span_hash :: "span_view \<Rightarrow> string \<Rightarrow> bool \<Rightarrow> u32" where
  "compute_span_hash sp env with_resource =
     (let h = fnv_write env OFFSET32;
          h = fnv_write (sp_service sp) h;
          h = fnv_write (sp_name sp) h;
          h = fnv_write_char (if sp_error sp then 1 else 0) h;
          h = (if with_resource then fnv_write (sp_resource sp) h else h);
          h = (case sp_http_status_code sp of Some code \<Rightarrow> fnv_write code h | None \<Rightarrow> h)
      in case sp_error_type sp of Some typ \<Rightarrow> fnv_write typ h | None \<Rightarrow> h)"

text \<open>The loop over the sorted hashes, which skips repetitions.\<close>

fun merge_hashes :: "u32 \<Rightarrow> u32 \<Rightarrow> u32 list \<Rightarrow> u32" where
  "merge_hashes last_hash trace_hash [] = trace_hash"
| "merge_hashes last_hash trace_hash (hash # hashes) =
     (if hash \<noteq> last_hash then merge_hashes hash (trace_hash XOR hash) hashes
      else merge_hashes last_hash trace_hash hashes)"

definition compute_signature_with_root_and_env :: "span_view list \<Rightarrow> nat \<Rightarrow> string \<Rightarrow> signature" where
  "compute_signature_with_root_and_env spans root_index env =
     (let root_hash = compute_span_hash (spans ! root_index) env True;
          span_hashes = sort_by (\<le>) (map (\<lambda>sp. compute_span_hash sp env False) spans);
          last_hash = hd span_hashes
      in ucast (merge_hashes last_hash (last_hash XOR root_hash) (tl span_hashes)))"

definition U64_MAX_F64 :: fl where
  "U64_MAX_F64 = f64_of_nat (2 ^ 64 - 1)"

definition sample_by_rate :: "u64 \<Rightarrow> fl \<Rightarrow> bool" where
  "sample_by_rate trace_id rate =
     (if flt rate f_one then trace_id * SAMPLER_HASHER < as_u64 (fmul round64 rate U64_MAX_F64)
      else True)"

section \<open>Rates\<close>

definition BUCKET_DURATION_SECS :: int where "BUCKET_DURATION_SECS = 5"
definition NUM_BUCKETS :: nat where "NUM_BUCKETS = 6"
definition MAX_RATE_INCREASE :: fl where "MAX_RATE_INCREASE = round64 False (12 / 10)"
definition SHRINK_CARDINALITY :: nat where "SHRINK_CARDINALITY = 200"

record sampler =
  ss_seen :: "(signature \<times> fl list) list"
  ss_all_sigs_seen :: "fl list"
  ss_last_bucket_id :: int
  ss_rates :: "(signature \<times> fl) list"
  ss_lowest_rate :: fl
  ss_target_tps :: fl
  ss_extra_rate :: fl

definition zero_buckets :: "fl list" where
  "zero_buckets = replicate NUM_BUCKETS f_zero"

definition sampler_new :: "fl \<Rightarrow> fl \<Rightarrow> sampler" where
  "sampler_new extra_rate target_tps =
     \<lparr>ss_seen = [], ss_all_sigs_seen = zero_buckets, ss_last_bucket_id = 0, ss_rates = [],
      ss_lowest_rate = f_zero, ss_target_tps = target_tps, ss_extra_rate = extra_rate\<rparr>"

text \<open>\<open>rem_euclid\<close> is HOL's \<open>mod\<close> for a positive divisor.\<close>

definition bucket_index :: "int \<Rightarrow> nat" where
  "bucket_index bucket_id = nat (bucket_id mod int NUM_BUCKETS)"

text \<open>The loop of \<open>zero_and_get_max\<close> over the \<open>k\<close> remaining bucket identifiers from \<open>i\<close>.\<close>

fun zero_loop :: "nat \<Rightarrow> int \<Rightarrow> int \<Rightarrow> fl list \<Rightarrow> fl \<Rightarrow> fl \<times> fl list" where
  "zero_loop 0 i new_bucket buckets max_bucket = (max_bucket, buckets)"
| "zero_loop (Suc k) i new_bucket buckets max_bucket =
     (let index = bucket_index i in
      if i < new_bucket then zero_loop k (i + 1) new_bucket (buckets[index := f_zero]) max_bucket
      else
        let value = buckets ! index;
            max_bucket = (if flt max_bucket value then value else max_bucket);
            buckets = (if i = new_bucket then buckets[index := f_zero] else buckets)
        in zero_loop k (i + 1) new_bucket buckets max_bucket)"

definition zero_and_get_max :: "fl list \<Rightarrow> int \<Rightarrow> int \<Rightarrow> fl \<times> fl list" where
  "zero_and_get_max buckets previous_bucket new_bucket =
     zero_loop NUM_BUCKETS (previous_bucket + 1) new_bucket buckets f_zero"

text \<open>\<open>partial_cmp\<close> with \<open>Equal\<close> for incomparable values, as a sorting order.\<close>

definition cmp_le :: "fl \<Rightarrow> fl \<Rightarrow> bool" where
  "cmp_le a b \<longleftrightarrow> \<not> flt b a"

fun tps_loop :: "fl list \<Rightarrow> fl \<Rightarrow> fl \<Rightarrow> fl" where
  "tps_loop [] target_tps sig_target = sig_target"
| "tps_loop (c # cs) target_tps sig_target =
     (if fle sig_target c \<or> cs = [] then sig_target
      else
        let target_tps = fsub round64 target_tps c
        in tps_loop cs target_tps (fdiv round64 target_tps (f64_of_nat (length cs))))"

definition compute_tps_per_sig :: "fl \<Rightarrow> fl list \<Rightarrow> fl" where
  "compute_tps_per_sig target_tps seen =
     (let sorted = sort_by cmp_le seen
      in tps_loop sorted target_tps (fdiv round64 target_tps (f64_of_nat (length sorted))))"

definition sig_rate :: "fl \<Rightarrow> fl \<Rightarrow> fl option \<Rightarrow> fl" where
  "sig_rate tps_per_sig seen prev =
     (let rate = (if flt tps_per_sig seen \<and> flt f_zero seen then fdiv round64 tps_per_sig seen else f_one);
          rate = (case prev of
                    Some prev_rate \<Rightarrow>
                      if \<not> feq prev_rate f_zero \<and> flt MAX_RATE_INCREASE (fdiv round64 rate prev_rate)
                      then fmul round64 prev_rate MAX_RATE_INCREASE else rate
                  | None \<Rightarrow> rate)
      in if flt f_one rate then f_one else rate)"

text \<open>
  The second loop of \<open>update_rates\<close>: the lowest rate, the new rates and the signatures removed
  from \<open>seen\<close>.
\<close>

fun rate_loop ::
  "fl \<Rightarrow> (signature \<times> fl) list \<Rightarrow> (signature \<times> fl) list \<Rightarrow> fl \<Rightarrow>
   fl \<times> (signature \<times> fl) list \<times> signature list" where
  "rate_loop tps_per_sig prev_rates [] lowest_rate = (lowest_rate, [], [])"
| "rate_loop tps_per_sig prev_rates ((sig, seen) # rest) lowest_rate =
     (let rate = sig_rate tps_per_sig seen (map_of prev_rates sig) in
      if feq rate f_one \<and> feq seen f_zero
      then (case rate_loop tps_per_sig prev_rates rest lowest_rate of
              (l, rates, removed) \<Rightarrow> (l, rates, sig # removed))
      else (case rate_loop tps_per_sig prev_rates rest (if flt rate lowest_rate then rate else lowest_rate) of
              (l, rates, removed) \<Rightarrow> (l, (sig, rate) # rates, removed)))"

definition bucket_tps :: "fl \<Rightarrow> fl" where
  "bucket_tps max_bucket = fdiv round64 (f64_from_f32 max_bucket) (Fin False (of_int BUCKET_DURATION_SECS))"

definition update_rates :: "int \<Rightarrow> int \<Rightarrow> sampler \<Rightarrow> sampler" where
  "update_rates previous_bucket new_bucket s =
     (if ss_seen s = [] then s
      else
        let maxes = map (\<lambda>(sig, buckets). (sig, bucket_tps (fst (zero_and_get_max buckets previous_bucket new_bucket))))
                      (ss_seen s);
            seen = map (\<lambda>(sig, buckets). (sig, snd (zero_and_get_max buckets previous_bucket new_bucket))) (ss_seen s);
            all_sigs_seen = snd (zero_and_get_max (ss_all_sigs_seen s) previous_bucket new_bucket);
            tps_per_sig = compute_tps_per_sig (ss_target_tps s) (map snd maxes);
            (lowest_rate, rates, removed) = rate_loop tps_per_sig (ss_rates s) maxes f_one
        in s\<lparr>ss_seen := filter (\<lambda>(sig, b). sig \<notin> set removed) seen, ss_all_sigs_seen := all_sigs_seen,
             ss_rates := rates, ss_lowest_rate := lowest_rate\<rparr>)"

text \<open>\<open>HashMap::entry(sig).or_insert(default)\<close> followed by an update of the entry.\<close>

fun upsert :: "signature \<Rightarrow> 'v \<Rightarrow> ('v \<Rightarrow> 'v) \<Rightarrow> (signature \<times> 'v) list \<Rightarrow> (signature \<times> 'v) list" where
  "upsert k d f [] = [(k, f d)]"
| "upsert k d f ((k', v) # rest) = (if k' = k then (k', f v) # rest else (k', v) # upsert k d f rest)"

definition count_weighted_sig :: "int \<Rightarrow> signature \<Rightarrow> fl \<Rightarrow> sampler \<Rightarrow> bool \<times> sampler" where
  "count_weighted_sig now_unix_secs signature n s =
     (let bucket_id = trunc_div now_unix_secs BUCKET_DURATION_SECS;
          prev_bucket_id = ss_last_bucket_id s;
          s = s\<lparr>ss_last_bucket_id := bucket_id\<rparr>;
          update = (prev_bucket_id \<noteq> bucket_id);
          s = (if update then update_rates prev_bucket_id bucket_id s else s);
          idx = bucket_index bucket_id;
          add = (\<lambda>buckets. buckets[idx := fadd round32 (buckets ! idx) n])
      in (update, s\<lparr>ss_seen := upsert signature zero_buckets add (ss_seen s),
                    ss_all_sigs_seen := add (ss_all_sigs_seen s)\<rparr>))"

text \<open>\<open>f32::max\<close> ignores a NaN operand.\<close>

fun fmax :: "fl \<Rightarrow> fl \<Rightarrow> fl" where
  "fmax NaN y = y"
| "fmax x NaN = x"
| "fmax x y = (if flt x y then y else x)"

definition default_rate :: "sampler \<Rightarrow> fl" where
  "default_rate s =
     (if feq (ss_target_tps s) f_zero then f_zero
      else
        let max_seen = foldl fmax f_zero (ss_all_sigs_seen s);
            seen_tps = bucket_tps max_seen;
            rate = (if flt (ss_target_tps s) seen_tps \<and> flt f_zero seen_tps
                    then fdiv round64 (ss_target_tps s) seen_tps else f_one)
        in if flt (ss_lowest_rate s) rate \<and> \<not> feq (ss_lowest_rate s) f_zero then ss_lowest_rate s else rate)"

definition get_signature_sample_rate :: "sampler \<Rightarrow> signature \<Rightarrow> fl" where
  "get_signature_sample_rate s sig =
     (case map_of (ss_rates s) sig of
        Some rate \<Rightarrow> fmul round64 rate (ss_extra_rate s)
      | None \<Rightarrow> default_rate s)"

definition sampler_size :: "sampler \<Rightarrow> nat" where
  "sampler_size s = length (ss_seen s)"

section \<open>The error sampler\<close>

record rate_limited =
  rl_sampler :: sampler
  rl_disabled :: bool
  rl_shrink_allow_list :: "signature list option"

datatype errors_sampler = AlwaysKeep bool | RateLimited rate_limited

definition client_rate :: "trace_view \<Rightarrow> fl" where
  "client_rate trace =
     (let rate = tr_root_global_sample_rate trace
      in if \<not> is_finite rate \<or> fle rate f_zero \<or> flt f_one rate then f_one else rate)"

definition weight_root :: "trace_view \<Rightarrow> fl" where
  "weight_root trace = f32_of_f64 (fdiv round64 f_one (client_rate trace))"

definition rate_limited_new :: "error_sampler_config \<Rightarrow> rate_limited" where
  "rate_limited_new config =
     \<lparr>rl_sampler = sampler_new (cfg_extra_sample_rate config) (cfg_target_tps config),
      rl_disabled = fle (cfg_target_tps config) f_zero, rl_shrink_allow_list = None\<rparr>"

definition shrink :: "signature \<Rightarrow> rate_limited \<Rightarrow> signature \<times> rate_limited" where
  "shrink sig r =
     (if sampler_size (rl_sampler r) < SHRINK_CARDINALITY div 2
      then (sig, r\<lparr>rl_shrink_allow_list := None\<rparr>)
      else
        let allow_list = (case rl_shrink_allow_list r of
                            Some l \<Rightarrow> l | None \<Rightarrow> map fst (ss_rates (rl_sampler r)));
            r = r\<lparr>rl_shrink_allow_list := Some allow_list\<rparr>
        in if sig \<in> set allow_list then (sig, r)
           else (sig mod of_nat (SHRINK_CARDINALITY div 2), r))"

definition apply_sample_rate :: "trace_view \<Rightarrow> fl \<Rightarrow> sample_decision" where
  "apply_sample_rate trace rate =
     (let new_rate = fmul round64 (client_rate trace) rate
      in if sample_by_rate (tr_trace_id trace) new_rate then Keep rate else Drop)"

definition rate_limited_sample :: "int \<Rightarrow> trace_view \<Rightarrow> rate_limited \<Rightarrow> sample_decision \<times> rate_limited" where
  "rate_limited_sample now_unix_secs trace r =
     (if rl_disabled r \<or> tr_root_index trace \<ge> length (tr_spans trace) then (Drop, r)
      else
        let signature = compute_signature_with_root_and_env (tr_spans trace) (tr_root_index trace) (tr_env trace);
            (signature, r) = shrink signature r;
            (_, s) = count_weighted_sig now_unix_secs signature (weight_root trace) (rl_sampler r);
            rate = get_signature_sample_rate s signature
        in (apply_sample_rate trace rate, r\<lparr>rl_sampler := s\<rparr>))"

definition errors_sampler_new :: "error_sampler_config \<Rightarrow> errors_sampler" where
  "errors_sampler_new config =
     (case cfg_mode config of
        AlwaysKeepMode \<Rightarrow> AlwaysKeep (fle (cfg_target_tps config) f_zero)
      | RateLimitedMode \<Rightarrow> RateLimited (rate_limited_new config))"

fun is_disabled :: "errors_sampler \<Rightarrow> bool" where
  "is_disabled (AlwaysKeep disabled) = disabled"
| "is_disabled (RateLimited r) = rl_disabled r"

fun sample :: "int \<Rightarrow> trace_view \<Rightarrow> errors_sampler \<Rightarrow> sample_decision \<times> errors_sampler" where
  "sample now_unix_secs trace (AlwaysKeep disabled) =
     (if disabled \<or> tr_root_index trace \<ge> length (tr_spans trace) then (Drop, AlwaysKeep disabled)
      else (Keep f_one, AlwaysKeep disabled))"
| "sample now_unix_secs trace (RateLimited r) =
     (case rate_limited_sample now_unix_secs trace r of (d, r') \<Rightarrow> (d, RateLimited r'))"

section \<open>Signatures depend on the set of spans\<close>

lemma merge_hashes_foldl:
  "merge_hashes l x hs = foldl (XOR) x (tl (remdups_adj (l # hs)))"
proof (induction hs arbitrary: l x)
  case (Cons h hs)
  show ?case
  proof (cases "h = l")
    case False
    have "remdups_adj (h # hs) = h # tl (remdups_adj (h # hs))" by simp
    then have "foldl (XOR) x (remdups_adj (h # hs)) = foldl (XOR) (x XOR h) (tl (remdups_adj (h # hs)))"
      by (metis foldl_Cons)
    then show ?thesis using False Cons.IH [of h "x XOR h"] by simp
  qed (simp add: Cons.IH)
qed simp

lemma remdups_adj_sorted:
  fixes xs :: "'a::linorder list"
  assumes "sorted xs"
  shows "sorted (remdups_adj xs) \<and> distinct (remdups_adj xs)"
  using assms
proof (induction xs rule: remdups_adj.induct)
  case (3 x y xs)
  then show ?case by (auto simp: less_le)
qed auto

lemma sort_by_le: "sort_by (\<le>) xs = sort (xs :: 'a::linorder list)"
proof (rule sort_unique)
  show "total_le ((\<le>) :: 'a \<Rightarrow> 'a \<Rightarrow> bool)" by (auto simp: total_le_def)
  then show "sorted_wrt (\<le>) (sort_by (\<le>) xs)" by (rule sorted_sort_by)
qed simp_all

lemma remdups_adj_sort_cong:
  assumes "set xs = set (ys :: 'a::linorder list)"
  shows "remdups_adj (sort xs) = remdups_adj (sort ys)"
  by (rule sorted_distinct_set_unique) (use remdups_adj_sorted [OF sorted_sort] assms in auto)

lemma signature_foldl:
  assumes "spans \<noteq> []"
  shows "compute_signature_with_root_and_env spans ri env =
    ucast (foldl (XOR) (compute_span_hash (spans ! ri) env True)
      (remdups_adj (sort (map (\<lambda>sp. compute_span_hash sp env False) spans))))"
proof -
  let ?hs = "sort (map (\<lambda>sp. compute_span_hash sp env False) spans)"
  obtain h hs where h: "?hs = h # hs" using assms by (cases ?hs) (auto dest: arg_cong [of _ _ length])
  obtain gs where "remdups_adj (h # hs) = h # gs" by (metis remdups_adj_Cons_alt)
  then show ?thesis
    by (simp add: compute_signature_with_root_and_env_def Let_def sort_by_le h merge_hashes_foldl xor.commute)
qed

text \<open>
  The signature of a trace depends only on its root span and on which spans it has: neither
  their order nor their multiplicity matters, so similar traces share a signature.
\<close>

theorem signature_similar:
  assumes "ri < length spans" and "ri' < length spans'"
    and "spans ! ri = spans' ! ri'" and "set spans = set spans'"
  shows "compute_signature_with_root_and_env spans ri env =
    compute_signature_with_root_and_env spans' ri' env"
proof -
  have "spans \<noteq> []" "spans' \<noteq> []" using assms(1,2) by auto
  moreover have "remdups_adj (sort (map (\<lambda>sp. compute_span_hash sp env False) spans)) =
      remdups_adj (sort (map (\<lambda>sp. compute_span_hash sp env False) spans'))"
    by (rule remdups_adj_sort_cong) (simp add: assms(4))
  ultimately show ?thesis using assms(3) by (simp add: signature_foldl)
qed

section \<open>Sampling is monotone in the rate\<close>

lemma U64_MAX_F64_eq: "U64_MAX_F64 = Fin False (2 ^ 64)"
proof -
  define n :: rat where "n = of_nat (2 ^ 64 - 1)"
  have n: "n = of_int 18446744073709551615" by (simp add: n_def)
  have f: "flog2 n = 63" by (rule flog2_unique) (simp_all add: n)
  have u: "ulp_exp 53 (-1074) n = 11" by (simp add: ulp_exp_def f)
  have q: "n / 2 powi 11 = of_int 18446744073709551615 / of_int 2048" by (simp add: n)
  have fl: "\<lfloor>n / 2 powi 11\<rfloor> = 9007199254740991" unfolding q floor_divide_of_int_eq by simp
  have "rne (n / 2 powi 11) = 9007199254740992" unfolding rne_def fl by (simp add: n)
  moreover have "\<not> n \<le> 0" by (simp add: n)
  ultimately have "round_mag 53 (-1074) n = 2 ^ 64" unfolding round_mag_def u Let_def by simp
  moreover have "flog2 ((2::rat) ^ 64) = 64" by (rule flog2_unique) simp_all
  ultimately show ?thesis
    unfolding U64_MAX_F64_def f64_of_nat_def n_def [symmetric] by (simp add: round_fl_def)
qed

lemma sat_mono: "x \<le> y \<Longrightarrow> sat lo hi x \<le> sat lo hi y"
  by (auto simp: sat_def)

lemma as_u64_mono:
  assumes "a \<le> b"
  shows "as_u64 (Fin False a) \<le> as_u64 (Fin False b)"
proof -
  let ?f = "\<lambda>q. sat 0 u64_max \<lfloor>q::rat\<rfloor>"
  have r: "0 \<le> ?f q" "?f q < 2 ^ 64" for q by (auto simp: sat_def u64_max_def)
  have "?f a \<le> ?f b" using assms by (intro sat_mono floor_mono)
  then show ?thesis
    using r [of a] r [of b] by (simp add: as_u64_def word_le_def uint_word_of_int)
qed

lemma rate_threshold:
  assumes "0 \<le> q" "q < 1"
  shows "fmul round64 (Fin False q) U64_MAX_F64 = Fin False (round_mag 53 (-1074) (q * 2 ^ 64))"
proof -
  have "representable 53 (-1074) (2 ^ 64)"
    unfolding representable_def by (intro exI [of _ 1] exI [of _ 64]) simp
  then have "round_mag 53 (-1074) (q * 2 ^ 64) \<le> 2 ^ 64"
    using assms by (intro f64.round_le) (simp add: mult_left_le_one_le)
  also have "(2::rat) ^ 64 = 2 powi 64" by simp
  also have "\<dots> < 2 powi 1024" by (subst powi_less_iff) simp
  finally show ?thesis
    using f64.overflow_iff [of "round_mag 53 (-1074) (q * 2 ^ 64)"]
    by (simp add: U64_MAX_F64_eq round_fl_def Let_def)
qed

text \<open>
  Rates are applied to the trace identifier, so decisions are consistent: a trace kept at one
  rate is kept at every higher rate. Two chunks of one trace are therefore kept together with
  the smaller of their two probabilities.
\<close>

theorem sample_by_rate_mono:
  assumes "0 \<le> q" and "q \<le> q'" and "sample_by_rate trace_id (Fin False q)"
  shows "sample_by_rate trace_id (Fin False q')"
proof (cases "q' < 1")
  case True
  have "round_mag 53 (-1074) (q * 2 ^ 64) \<le> round_mag 53 (-1074) (q' * 2 ^ 64)"
    using assms(2) by (intro f64.round_mono) simp
  from as_u64_mono [OF this] show ?thesis
    using assms True by (auto simp: sample_by_rate_def rate_threshold)
qed (simp add: sample_by_rate_def)

text \<open>
  A rate of one or more keeps every trace, a rate of zero keeps none.
\<close>

lemma sample_by_rate_ends:
  "\<not> sample_by_rate trace_id f_zero" "sample_by_rate trace_id f_one"
  by (simp_all add: sample_by_rate_def rate_threshold round_mag_def as_u64_def sat_def u64_max_def)

section \<open>The window of buckets\<close>

lemma bucket_index_less [simp]: "bucket_index i < 6"
  by (simp add: bucket_index_def NUM_BUCKETS_def nat_less_iff)

lemma bucket_index_eq: "bucket_index i = bucket_index j \<longleftrightarrow> i mod 6 = j mod 6"
  by (simp add: bucket_index_def NUM_BUCKETS_def eq_nat_nat_iff)

lemma zero_loop_buckets:
  assumes "length buckets = 6" "j < 6"
  shows "length (snd (zero_loop k i new buckets m)) = 6 \<and>
    snd (zero_loop k i new buckets m) ! j =
      (if \<exists>i'. i \<le> i' \<and> i' < i + int k \<and> bucket_index i' = j \<and> i' \<le> new then f_zero else buckets ! j)"
  using assms
proof (induction k arbitrary: i buckets m)
  case (Suc k)
  have split: "(\<exists>i'. i \<le> i' \<and> i' < i + int (Suc k) \<and> P i') \<longleftrightarrow>
      P i \<or> (\<exists>i'. i + 1 \<le> i' \<and> i' < (i + 1) + int k \<and> P i')" for P
  proof
    assume "\<exists>i'. i \<le> i' \<and> i' < i + int (Suc k) \<and> P i'"
    then obtain i' where "i \<le> i'" "i' < i + int (Suc k)" "P i'" by blast
    then show "P i \<or> (\<exists>i'. i + 1 \<le> i' \<and> i' < (i + 1) + int k \<and> P i')" by (cases "i' = i") auto
  next
    assume "P i \<or> (\<exists>i'. i + 1 \<le> i' \<and> i' < (i + 1) + int k \<and> P i')"
    then show "\<exists>i'. i \<le> i' \<and> i' < i + int (Suc k) \<and> P i'"
    proof
      assume "\<exists>i'. i + 1 \<le> i' \<and> i' < (i + 1) + int k \<and> P i'"
      then obtain i' where "i + 1 \<le> i'" "i' < (i + 1) + int k" "P i'" by blast
      then show ?thesis by (intro exI [of _ i']) simp
    qed (rule exI [of _ i], simp)
  qed
  show ?case
    unfolding split using Suc.prems
    by (auto simp: Let_def Suc.IH nth_list_update)
qed auto

lemma zero_loop_max:
  assumes "length buckets = 6" "k \<le> 6"
  shows "fst (zero_loop k i new buckets m) =
    foldl (\<lambda>m v. if flt m v then v else m) m
      (map (\<lambda>i'. buckets ! bucket_index i') (filter (\<lambda>i'. new \<le> i') [i..i + int k - 1]))"
  using assms
proof (induction k arbitrary: i buckets m)
  case (Suc k)
  have upto: "[i..i + int (Suc k) - 1] = i # [i + 1..i + int k]" by (simp add: upto_rec1)
  have ne: "bucket_index i' \<noteq> bucket_index i" if "i' \<in> set [i + 1..i + int k]" for i'
  proof -
    have "i < i'" "i' < i + 6" using that Suc.prems(2) by auto
    then have "i' mod 6 \<noteq> i mod 6" by presburger
    then show ?thesis by (simp add: bucket_index_eq)
  qed
  let ?vals = "\<lambda>b. map (\<lambda>i'. b ! bucket_index i') (filter (\<lambda>i'. new \<le> i') [i + 1..i + int k])"
  have same: "?vals (buckets[bucket_index i := v]) = ?vals buckets" for v
    by (intro map_cong refl nth_list_update_neq not_sym [OF ne]) simp
  have IH: "fst (zero_loop k (i + 1) new b m) = foldl (\<lambda>m v. if flt m v then v else m) m (?vals b)"
    if "length b = 6" for b m
    using Suc.IH [OF that, of "i + 1" m] Suc.prems(2) by simp
  show ?case
  proof (cases "i < new")
    case True
    then show ?thesis unfolding upto by (simp add: IH Suc.prems same)
  next
    case False
    define b' where "b' = (if i = new then buckets[bucket_index i := f_zero] else buckets)"
    have "b' = buckets[bucket_index i := f_zero] \<or> b' = buckets" by (simp add: b'_def)
    then have b': "length b' = 6" "?vals b' = ?vals buckets"
      using Suc.prems by (elim disjE, simp_all only: same length_list_update)+
    have "fst (zero_loop (Suc k) i new buckets m) =
        fst (zero_loop k (i + 1) new b' (if flt m (buckets ! bucket_index i) then buckets ! bucket_index i else m))"
      using False by (simp add: Let_def b'_def)
    then show ?thesis unfolding upto IH [OF b'(1)] b'(2) using False by simp
  qed
qed simp

text \<open>
  Rotating the window from bucket \<open>prev\<close> to a later bucket \<open>new\<close>: every bucket of the new
  window keeps its count when it already existed and is zero otherwise, also when the gap is
  longer than the whole window.
\<close>

theorem rotate_window:
  assumes "length buckets = 6" and "prev < new" and "new - 5 \<le> k" and "k \<le> new"
  shows "snd (zero_and_get_max buckets prev new) ! bucket_index k =
    (if k \<le> prev then buckets ! bucket_index k else f_zero)"
proof -
  have "(\<exists>i'. prev + 1 \<le> i' \<and> i' < prev + 1 + 6 \<and> bucket_index i' = bucket_index k \<and> i' \<le> new) \<longleftrightarrow> prev < k"
    unfolding bucket_index_eq
  proof
    assume "\<exists>i'. prev + 1 \<le> i' \<and> i' < prev + 1 + 6 \<and> i' mod 6 = k mod 6 \<and> i' \<le> new"
    then obtain i' where i': "prev + 1 \<le> i'" "i' \<le> new" "i' mod 6 = k mod 6" by auto
    from i'(3) have "6 dvd i' - k" by (simp add: mod_eq_dvd_iff)
    then obtain d where "i' - k = 6 * d" by (rule dvdE)
    then show "prev < k" using assms(3) i'(1,2) by (cases "d \<le> 0") linarith+
  next
    assume "prev < k"
    define i' where "i' = prev + 1 + (k - (prev + 1)) mod 6"
    have "i' mod 6 = k mod 6" unfolding i'_def by (simp add: mod_simps)
    moreover have "prev + 1 \<le> i'" "i' < prev + 1 + 6" by (simp_all add: i'_def)
    moreover have "i' \<le> k" using \<open>prev < k\<close> zmod_le_nonneg_dividend [of "k - (prev + 1)" 6] unfolding i'_def by simp
    ultimately show "\<exists>i'. prev + 1 \<le> i' \<and> i' < prev + 1 + 6 \<and> i' mod 6 = k mod 6 \<and> i' \<le> new"
      using assms(4) by force
  qed
  then show ?thesis
    using zero_loop_buckets [OF assms(1), of "bucket_index k" 6 "prev + 1" new f_zero]
    by (simp add: zero_and_get_max_def NUM_BUCKETS_def)
qed

section \<open>A bounded number of signatures\<close>

lemma zero_and_get_max_length: "length buckets = 6 \<Longrightarrow> length (snd (zero_and_get_max buckets p n)) = 6"
  using zero_loop_buckets [of buckets 0 6 "p + 1" n f_zero]
  by (simp add: zero_and_get_max_def NUM_BUCKETS_def)

lemma rate_loop_keys:
  "rate_loop tps prev maxes lo = (l, rates, removed) \<Longrightarrow>
   set (map fst rates) \<union> set removed = set (map fst maxes) \<and>
   (distinct (map fst maxes) \<longrightarrow> set (map fst rates) \<inter> set removed = {})"
proof (induction maxes arbitrary: lo l rates removed)
  case (Cons m maxes)
  obtain sig seen where m: "m = (sig, seen)" by force
  let ?rate = "sig_rate tps seen (map_of prev sig)"
  show ?case
  proof (cases "feq ?rate f_one \<and> feq seen f_zero")
    case True
    obtain l' rs rm where r: "rate_loop tps prev maxes lo = (l', rs, rm)" by (cases "rate_loop tps prev maxes lo") auto
    have "rates = rs" "removed = sig # rm" using Cons.prems True m r by (auto simp: Let_def)
    then show ?thesis using Cons.IH [OF r] m by simp blast
  next
    case False
    obtain l' rs rm where r: "rate_loop tps prev maxes (if flt ?rate lo then ?rate else lo) = (l', rs, rm)"
      by (cases "rate_loop tps prev maxes (if flt ?rate lo then ?rate else lo)") auto
    have "rates = (sig, ?rate) # rs" "removed = rm" using Cons.prems False m r by (auto simp: Let_def)
    then show ?thesis using Cons.IH [OF r] m by simp blast
  qed
qed simp

definition sig_keys :: "sampler \<Rightarrow> signature set" where
  "sig_keys s = fst ` set (ss_seen s)"

text \<open>The keys of the two maps: no signature twice, and a rate only for a signature that is counted.\<close>

definition keys_ok :: "sampler \<Rightarrow> bool" where
  "keys_ok s \<longleftrightarrow> distinct (map fst (ss_seen s)) \<and> fst ` set (ss_rates s) \<subseteq> sig_keys s"

lemma filter_keys: "fst ` set (filter (\<lambda>(k, v). k \<notin> R) xs) = fst ` set xs - R"
  by (induction xs) auto

lemma update_rates_keys:
  assumes "keys_ok s"
  shows "keys_ok (update_rates p n s) \<and> sig_keys (update_rates p n s) \<subseteq> sig_keys s"
proof (cases "ss_seen s = []")
  case False
  define maxes where "maxes = map (\<lambda>(sig, buckets). (sig, bucket_tps (fst (zero_and_get_max buckets p n)))) (ss_seen s)"
  define seen where "seen = map (\<lambda>(sig, buckets). (sig, snd (zero_and_get_max buckets p n))) (ss_seen s)"
  obtain l rates removed where r: "rate_loop (compute_tps_per_sig (ss_target_tps s) (map snd maxes)) (ss_rates s)
      maxes f_one = (l, rates, removed)"
    by (cases "rate_loop (compute_tps_per_sig (ss_target_tps s) (map snd maxes)) (ss_rates s) maxes f_one") auto
  have u: "update_rates p n s = s\<lparr>ss_seen := filter (\<lambda>(sig, b). sig \<notin> set removed) seen,
      ss_all_sigs_seen := snd (zero_and_get_max (ss_all_sigs_seen s) p n), ss_rates := rates, ss_lowest_rate := l\<rparr>"
    using False r by (simp add: update_rates_def maxes_def [symmetric] seen_def [symmetric] Let_def)
  have keys: "map fst maxes = map fst (ss_seen s)" "map fst seen = map fst (ss_seen s)"
    by (auto simp: maxes_def seen_def)
  note rk = rate_loop_keys [OF r, unfolded keys]
  have d: "distinct (map fst (ss_seen s))" using assms by (simp add: keys_ok_def)
  have "distinct (map fst (filter (\<lambda>(sig, b). sig \<notin> set removed) seen))"
    using d keys(2) by (metis distinct_map_filter)
  moreover have fs: "fst ` set (filter (\<lambda>(sig, b). sig \<notin> set removed) seen) = fst ` set (ss_seen s) - set removed"
    using arg_cong [OF keys(2), of set] unfolding filter_keys by simp
  moreover have "fst ` set rates \<subseteq> fst ` set (ss_seen s) - set removed" using rk d by auto
  ultimately show ?thesis by (auto simp: keys_ok_def sig_keys_def u)
qed (use assms in \<open>simp add: update_rates_def\<close>)

lemma upsert_keys:
  "fst ` set (upsert k d f xs) = insert k (fst ` set xs)"
  "distinct (map fst xs) \<Longrightarrow> distinct (map fst (upsert k d f xs))"
proof -
  show keys: "fst ` set (upsert k d f xs) = insert k (fst ` set xs)" for xs
  proof (induction xs)
    case (Cons x xs)
    then show ?case by (cases x) (simp add: insert_commute)
  qed simp
  show "distinct (map fst xs) \<Longrightarrow> distinct (map fst (upsert k d f xs))"
  proof (induction xs)
    case (Cons x xs)
    then show ?case using keys [of xs] by (cases x) (auto simp del: split_paired_all simp: image_iff)
  qed simp
qed

lemma count_weighted_sig_keys:
  assumes "keys_ok s" "count_weighted_sig now sig n s = (u, s')"
  shows "keys_ok s' \<and> sig_keys s' \<subseteq> insert sig (sig_keys s)"
proof -
  let ?b = "trunc_div now BUCKET_DURATION_SECS"
  define s1 where "s1 = (if ss_last_bucket_id s \<noteq> ?b
    then update_rates (ss_last_bucket_id s) ?b (s\<lparr>ss_last_bucket_id := ?b\<rparr>) else s\<lparr>ss_last_bucket_id := ?b\<rparr>)"
  have "keys_ok (s\<lparr>ss_last_bucket_id := ?b\<rparr>)" "sig_keys (s\<lparr>ss_last_bucket_id := ?b\<rparr>) = sig_keys s"
    using assms(1) by (simp_all add: keys_ok_def sig_keys_def)
  then have k: "keys_ok s1" "sig_keys s1 \<subseteq> sig_keys s"
    using update_rates_keys [of "s\<lparr>ss_last_bucket_id := ?b\<rparr>" "ss_last_bucket_id s" ?b]
    by (auto simp: s1_def)
  obtain f a where s': "s' = s1\<lparr>ss_seen := upsert sig zero_buckets f (ss_seen s1), ss_all_sigs_seen := a\<rparr>"
    using assms(2) by (auto simp: count_weighted_sig_def Let_def s1_def)
  have s1': "sig_keys s' = insert sig (sig_keys s1)" "ss_rates s' = ss_rates s1"
      "distinct (map fst (ss_seen s'))"
    using k(1) by (simp_all add: s' sig_keys_def keys_ok_def upsert_keys)
  have "fst ` set (ss_rates s1) \<subseteq> sig_keys s1" using k(1) by (simp add: keys_ok_def)
  then show ?thesis using s1' k(2) unfolding keys_ok_def s1'(1,2) by (simp add: subset_insertI2 insert_mono)
qed

text \<open>
  While there is an allow list, what is counted is among at most a hundred signatures that were
  counted when the list was made, or is one of the hundred values signatures are folded onto.
\<close>

definition shrink_inv :: "rate_limited \<Rightarrow> bool" where
  "shrink_inv r \<longleftrightarrow> keys_ok (rl_sampler r) \<and>
     (case rl_shrink_allow_list r of
        None \<Rightarrow> card (sig_keys (rl_sampler r)) \<le> 100
      | Some allow \<Rightarrow> \<exists>S. finite S \<and> card S \<le> 100 \<and> set allow \<subseteq> S \<and>
          sig_keys (rl_sampler r) \<subseteq> S \<union> {sig. sig < 100})"

lemma finite_sig_keys [simp]: "finite (sig_keys s)"
  by (simp add: sig_keys_def)

lemma card_sig_keys: "keys_ok s \<Longrightarrow> card (sig_keys s) = sampler_size s"
  using distinct_card [of "map fst (ss_seen s)"] by (simp add: keys_ok_def sig_keys_def sampler_size_def)

lemma card_folded: "card {sig :: u64. sig < 100} = 100"
proof -
  have "{sig :: u64. sig < 100} = of_nat ` {..<100}"
  proof (rule set_eqI)
    fix x :: u64
    show "x \<in> {sig. sig < 100} \<longleftrightarrow> x \<in> of_nat ` {..<100}"
    proof
      assume "x \<in> {sig. sig < 100}"
      then have "x = of_nat (unat x)" "unat x < 100" by (auto simp: word_less_nat_alt)
      then show "x \<in> of_nat ` {..<100}" by blast
    qed (auto simp: word_less_nat_alt unat_of_nat)
  qed
  moreover have "inj_on (of_nat :: nat \<Rightarrow> u64) {..<100}"
    by (auto simp: inj_on_def word_unat_eq_iff unat_of_nat)
  ultimately show ?thesis by (simp add: card_image)
qed

lemma shrink_inv_size:
  assumes "shrink_inv r"
  shows "sampler_size (rl_sampler r) \<le> 200"
proof -
  have "card (sig_keys (rl_sampler r)) \<le> 200"
  proof (cases "rl_shrink_allow_list r")
    case None
    then show ?thesis using assms by (simp add: shrink_inv_def)
  next
    case (Some allow)
    then obtain S where S: "finite S" "card S \<le> 100" "sig_keys (rl_sampler r) \<subseteq> S \<union> {sig. sig < 100}"
      using assms by (auto simp: shrink_inv_def)
    have "card (sig_keys (rl_sampler r)) \<le> card (S \<union> {sig. sig < 100})"
      using S by (intro card_mono) auto
    also have "\<dots> \<le> card S + card {sig :: u64. sig < 100}" by (rule card_Un_le)
    finally show ?thesis using S(2) card_folded by simp
  qed
  then show ?thesis using assms card_sig_keys by (simp add: shrink_inv_def)
qed

lemma shrink_step:
  assumes "shrink_inv r" "shrink sig r = (sig', r')"
  shows "rl_sampler r' = rl_sampler r \<and>
    (case rl_shrink_allow_list r' of
       None \<Rightarrow> card (insert sig' (sig_keys (rl_sampler r))) \<le> 100
     | Some allow \<Rightarrow> \<exists>S. finite S \<and> card S \<le> 100 \<and> set allow \<subseteq> S \<and>
         insert sig' (sig_keys (rl_sampler r)) \<subseteq> S \<union> {sig. sig < 100})"
proof (cases "sampler_size (rl_sampler r) < 100")
  case True
  then have "card (sig_keys (rl_sampler r)) < 100"
    using assms(1) card_sig_keys by (simp add: shrink_inv_def)
  then have "card (insert sig' (sig_keys (rl_sampler r))) \<le> 100"
    by (simp add: card_insert_if)
  then show ?thesis using assms(2) True by (auto simp: shrink_def SHRINK_CARDINALITY_def)
next
  case False
  define allow where "allow = (case rl_shrink_allow_list r of
      Some l \<Rightarrow> l | None \<Rightarrow> map fst (ss_rates (rl_sampler r)))"
  have "\<exists>S. finite S \<and> card S \<le> 100 \<and> set allow \<subseteq> S \<and> sig_keys (rl_sampler r) \<subseteq> S \<union> {sig. sig < 100}"
  proof (cases "rl_shrink_allow_list r")
    case None
    then show ?thesis
      using assms(1) by (intro exI [of _ "sig_keys (rl_sampler r)"]) (auto simp: allow_def shrink_inv_def keys_ok_def)
  next
    case (Some l)
    then show ?thesis using assms(1) by (auto simp: allow_def shrink_inv_def)
  qed
  moreover have "sig' \<in> set allow \<or> sig' < 100"
    using assms(2) False word_mod_less_divisor [of "100 :: u64" sig]
    by (auto simp: shrink_def SHRINK_CARDINALITY_def Let_def allow_def split: if_splits)
  moreover have "r' = r\<lparr>rl_shrink_allow_list := Some allow\<rparr>"
    using assms(2) False by (auto simp: shrink_def SHRINK_CARDINALITY_def Let_def allow_def split: if_splits)
  ultimately show ?thesis by auto
qed

lemma rate_limited_sample_inv:
  assumes "shrink_inv r"
  shows "shrink_inv (snd (rate_limited_sample now trace r))"
proof -
  let ?sig = "compute_signature_with_root_and_env (tr_spans trace) (tr_root_index trace) (tr_env trace)"
  obtain sig r1 where s1: "shrink ?sig r = (sig, r1)" by fastforce
  obtain u s where c: "count_weighted_sig now sig (weight_root trace) (rl_sampler r1) = (u, s)" by fastforce
  note st = shrink_step [OF assms s1]
  have k: "keys_ok s" "sig_keys s \<subseteq> insert sig (sig_keys (rl_sampler r))"
    using count_weighted_sig_keys [OF _ c] st assms by (auto simp: shrink_inv_def)
  have "shrink_inv (r1\<lparr>rl_sampler := s\<rparr>)"
  proof (cases "rl_shrink_allow_list r1")
    case None
    have "card (sig_keys s) \<le> card (insert sig (sig_keys (rl_sampler r)))" using k(2) by (intro card_mono) auto
    then show ?thesis using None st k(1) by (simp add: shrink_inv_def)
  next
    case (Some allow)
    then obtain S where "finite S" "card S \<le> 100" "set allow \<subseteq> S"
        "insert sig (sig_keys (rl_sampler r)) \<subseteq> S \<union> {sig. sig < 100}"
      using st by auto
    then show ?thesis using Some k by (auto simp: shrink_inv_def intro!: exI [of _ S])
  qed
  then show ?thesis using assms s1 c by (simp add: rate_limited_sample_def Let_def)
qed

text \<open>The state after a sequence of traces with their arrival times.\<close>

definition rate_limited_run :: "(int \<times> trace_view) list \<Rightarrow> rate_limited \<Rightarrow> rate_limited" where
  "rate_limited_run evs r = fold (\<lambda>(now, trace) r. snd (rate_limited_sample now trace r)) evs r"

text \<open>
  C28. The memory of the sampler is bounded: whatever traces arrive, at whatever times, it never
  counts more than \<^const>\<open>SHRINK_CARDINALITY\<close> signatures.
\<close>

theorem signatures_bounded:
  "sampler_size (rl_sampler (rate_limited_run evs (rate_limited_new config))) \<le> SHRINK_CARDINALITY"
proof -
  have "shrink_inv (rate_limited_run evs r)" if "shrink_inv r" for r
    using that unfolding rate_limited_run_def
    by (induction evs arbitrary: r) (auto simp: rate_limited_sample_inv)
  moreover have "shrink_inv (rate_limited_new config)"
    by (simp add: shrink_inv_def rate_limited_new_def sampler_new_def keys_ok_def sig_keys_def)
  ultimately show ?thesis using shrink_inv_size by (simp add: SHRINK_CARDINALITY_def)
qed

section \<open>Rates stay in the unit interval\<close>

fun nonneg_fl :: "fl \<Rightarrow> bool" where
  "nonneg_fl (Fin s q) \<longleftrightarrow> \<not> s \<and> 0 \<le> q"
| "nonneg_fl (Inf s) \<longleftrightarrow> \<not> s"
| "nonneg_fl NaN \<longleftrightarrow> False"

fun unit_fl :: "fl \<Rightarrow> bool" where
  "unit_fl (Fin s q) \<longleftrightarrow> \<not> s \<and> 0 \<le> q \<and> q \<le> 1"
| "unit_fl _ \<longleftrightarrow> False"

lemma unit_flE: "unit_fl x \<Longrightarrow> (\<And>q. x = Fin False q \<Longrightarrow> 0 \<le> q \<Longrightarrow> q \<le> 1 \<Longrightarrow> P) \<Longrightarrow> P"
  by (cases x) auto

lemma nonneg_flE:
  "nonneg_fl x \<Longrightarrow> (\<And>q. x = Fin False q \<Longrightarrow> 0 \<le> q \<Longrightarrow> P) \<Longrightarrow> (x = Inf False \<Longrightarrow> P) \<Longrightarrow> P"
  by (cases x) auto

lemma round_nonneg_fl: "nonneg_fl (round64 False q)" "nonneg_fl (round32 False q)"
  by (simp_all add: round_fl_def Let_def f64.round_nonneg f32.round_nonneg)

lemma round64_unit: "q \<le> 1 \<Longrightarrow> unit_fl (round64 False q)"
  using f64.round_le [of q 1] f64.representable_nat [of 1]
  by (simp add: f64.round_fl_small f64.round_nonneg)

text \<open>A magnitude that is a finite \<open>f64\<close> value.\<close>

definition f64_mag :: "rat \<Rightarrow> bool" where
  "f64_mag t \<longleftrightarrow> 0 \<le> t \<and> representable 53 (-1074) t \<and> t < 2 powi 1024"

lemma round64_le:
  assumes "f64_mag t" "q \<le> t"
  shows "\<exists>r. round64 False q = Fin False r \<and> f64_mag r \<and> r \<le> t"
proof -
  have "round_mag 53 (-1074) q \<le> t" using assms by (intro f64.round_le) (auto simp: f64_mag_def)
  moreover have "round_mag 53 (-1074) q < 2 powi 1024" using calculation assms(1) by (simp add: f64_mag_def)
  ultimately show ?thesis
    using f64.overflow_iff [of "round_mag 53 (-1074) q"] f64.representable_round f64.round_nonneg
    by (auto simp: round_fl_def Let_def f64_mag_def)
qed

lemma div_by_count:
  assumes "f64_mag t" "1 \<le> n"
  shows "\<exists>g. fdiv round64 (Fin False t) (f64_of_nat n) = Fin False g \<and> 0 \<le> g \<and> g \<le> t"
proof (cases "f64_of_nat n")
  case (Fin s m)
  have "1 \<le> round_mag 53 (-1074) (of_nat n)"
    using f64.round_ge [of 1 "of_nat n"] f64.representable_nat [of 1] assms(2) by simp
  then have m: "1 \<le> m" "\<not> s" using Fin by (auto simp: f64_of_nat_def round_fl_def Let_def split: if_splits)
  have "t / m \<le> t" using assms(1) m(1) by (simp add: f64_mag_def divide_le_eq mult_le_cancel_left1)
  from round64_le [OF assms(1) this] show ?thesis using Fin m by (auto simp: f64_mag_def)
qed (use assms in \<open>auto simp: f64_of_nat_def round_fl_def Let_def f64_mag_def split: if_splits\<close>)

lemma sub_count:
  assumes "f64_mag t" "0 \<le> v" "v < t"
  shows "\<exists>r. fsub round64 (Fin False t) (Fin False v) = Fin False r \<and> f64_mag r"
  using round64_le [OF assms(1), of "t - v"] assms by (auto simp: fsub_def Let_def)

lemma tps_loop_nonneg:
  assumes "f64_mag t" "0 \<le> g" "g \<le> t" "list_all nonneg_fl cs"
  shows "\<exists>h. tps_loop cs (Fin False t) (Fin False g) = Fin False h \<and> 0 \<le> h"
  using assms
proof (induction cs arbitrary: t g)
  case (Cons c cs)
  show ?case
  proof (cases "fle (Fin False g) c \<or> cs = []")
    case False
    then obtain v where c: "c = Fin False v" "0 \<le> v" "v < g"
      using Cons.prems(4) by (auto simp: fle_def elim!: nonneg_flE)
    obtain r where r: "fsub round64 (Fin False t) c = Fin False r" "f64_mag r"
      using sub_count [OF Cons.prems(1)] c Cons.prems(3) by fastforce
    obtain g' where g': "fdiv round64 (Fin False r) (f64_of_nat (length cs)) = Fin False g'" "0 \<le> g'" "g' \<le> r"
      using div_by_count [OF r(2), of "length cs"] False by (cases cs) auto
    show ?thesis using Cons.IH [OF r(2) g'(2,3)] Cons.prems(4) False r(1) g'(1) by (simp add: Let_def)
  qed (use Cons.prems in auto)
qed simp

lemma compute_tps_nonneg:
  assumes "f64_mag t" "list_all nonneg_fl seen" "seen \<noteq> []"
  shows "\<exists>h. compute_tps_per_sig (Fin False t) seen = Fin False h \<and> 0 \<le> h"
proof -
  have "1 \<le> length seen" using assms(3) by (cases seen) auto
  from div_by_count [OF assms(1) this] obtain g where
    "fdiv round64 (Fin False t) (f64_of_nat (length seen)) = Fin False g" "0 \<le> g" "g \<le> t" by blast
  then show ?thesis
    using tps_loop_nonneg [OF assms(1), of g "sort_by cmp_le seen"] assms(2)
    by (simp add: compute_tps_per_sig_def list_all_iff)
qed

lemma share_unit:
  assumes "0 \<le> h" "nonneg_fl seen" "flt (Fin False h) seen"
  shows "unit_fl (fdiv round64 (Fin False h) seen)"
  using assms by (cases seen) (auto intro!: round64_unit simp: divide_le_eq_1)

lemma max_increase: "MAX_RATE_INCREASE = Fin False m \<Longrightarrow> 0 \<le> m \<and> m \<le> 2"
  unfolding MAX_RATE_INCREASE_def
  using f64.round_le [of "12 / 10" 2] f64.representable_nat [of 2] f64.round_nonneg
  by (auto simp: round_fl_def Let_def split: if_splits)

lemma sig_rate_unit:
  assumes "0 \<le> h" "nonneg_fl seen" "\<forall>p. prev = Some p \<longrightarrow> unit_fl p"
  shows "unit_fl (sig_rate (Fin False h) seen prev)"
proof -
  have cap: "unit_fl (if flt f_one x then f_one else x)" if "nonneg_fl x" for x
    using that by (auto elim!: nonneg_flE)
  have mag2: "f64_mag 2"
    using f64.representable_nat [of 2] powi_less_iff [of 1 1024] by (simp add: f64_mag_def)
  obtain m where m: "MAX_RATE_INCREASE = Fin False m" "0 \<le> m" "m \<le> 2"
  proof -
    obtain r where "MAX_RATE_INCREASE = Fin False r"
      unfolding MAX_RATE_INCREASE_def using round64_le [OF mag2, of "12 / 10"] by auto
    then show ?thesis using max_increase that by blast
  qed
  have inc: "nonneg_fl (fmul round64 p MAX_RATE_INCREASE)" if "unit_fl p" for p
    using that by (auto simp: m(1) round_nonneg_fl elim!: unit_flE)
  have base: "nonneg_fl (if flt (Fin False h) seen \<and> flt f_zero seen then fdiv round64 (Fin False h) seen else f_one)"
    using share_unit [OF assms(1,2)] by (auto elim!: unit_flE)
  show ?thesis
    unfolding sig_rate_def Let_def
    using base inc assms(3) by (intro cap) (auto split: option.splits)
qed

lemma rate_loop_unit:
  assumes "0 \<le> h" "list_all (\<lambda>(k, x). nonneg_fl x) maxes" "list_all (\<lambda>(k, r). unit_fl r) prev" "unit_fl lo"
    and "rate_loop (Fin False h) prev maxes lo = (l, rates, removed)"
  shows "unit_fl l \<and> list_all (\<lambda>(k, r). unit_fl r) rates"
  using assms(2,4,5)
proof (induction maxes arbitrary: lo l rates removed)
  case (Cons m maxes)
  obtain sig seen where m: "m = (sig, seen)" by force
  define rate where "rate = sig_rate (Fin False h) seen (map_of prev sig)"
  have u: "unit_fl rate"
    unfolding rate_def using Cons.prems(1) m assms(3)
    by (intro sig_rate_unit [OF assms(1)]) (auto simp: list_all_iff dest!: map_of_SomeD)
  show ?case
  proof (cases "feq rate f_one \<and> feq seen f_zero")
    case True
    obtain l' rs rm where r: "rate_loop (Fin False h) prev maxes lo = (l', rs, rm)"
      by (cases "rate_loop (Fin False h) prev maxes lo") auto
    have "l = l'" "rates = rs" using Cons.prems(3) True m r by (auto simp: Let_def simp flip: rate_def)
    then show ?thesis using Cons.IH [OF _ Cons.prems(2) r] Cons.prems(1) by simp
  next
    case False
    let ?lo = "if flt rate lo then rate else lo"
    obtain l' rs rm where r: "rate_loop (Fin False h) prev maxes ?lo = (l', rs, rm)"
      by (cases "rate_loop (Fin False h) prev maxes ?lo") auto
    have "l = l'" "rates = (sig, rate) # rs" using Cons.prems(3) False m r by (auto simp: Let_def simp flip: rate_def)
    moreover have "unit_fl ?lo" using u Cons.prems(2) by simp
    ultimately show ?thesis using Cons.IH [OF _ _ r] Cons.prems(1) u by simp
  qed
qed simp

definition buckets_ok :: "fl list \<Rightarrow> bool" where
  "buckets_ok b \<longleftrightarrow> length b = 6 \<and> list_all nonneg_fl b"

lemma zero_loop_ok:
  assumes "buckets_ok b" "nonneg_fl m"
  shows "nonneg_fl (fst (zero_loop k i new b m)) \<and> buckets_ok (snd (zero_loop k i new b m))"
  using assms
proof (induction k arbitrary: i b m)
  case (Suc k)
  have z: "buckets_ok (b[bucket_index j := f_zero])" "nonneg_fl (b ! bucket_index j)" for j
    using Suc.prems(1) set_update_subset_insert [of b "bucket_index j" f_zero]
    by (auto simp: buckets_ok_def list_all_iff)
  show ?case using Suc.IH Suc.prems z by (simp add: Let_def)
qed simp

lemma zero_and_get_max_ok:
  "buckets_ok b \<Longrightarrow> nonneg_fl (fst (zero_and_get_max b p n)) \<and> buckets_ok (snd (zero_and_get_max b p n))"
  using zero_loop_ok [of b f_zero] by (simp add: zero_and_get_max_def)

lemma bucket_tps_nonneg: "nonneg_fl x \<Longrightarrow> nonneg_fl (bucket_tps x)"
  by (auto simp: bucket_tps_def f64_from_f32_def BUCKET_DURATION_SECS_def round_nonneg_fl elim!: nonneg_flE)

lemma fadd_nonneg: "nonneg_fl x \<Longrightarrow> nonneg_fl y \<Longrightarrow> nonneg_fl (fadd round32 x y)"
  by (auto simp: Let_def round_nonneg_fl elim!: nonneg_flE)

definition fl_inv :: "sampler \<Rightarrow> bool" where
  "fl_inv s \<longleftrightarrow> list_all (\<lambda>(k, b). buckets_ok b) (ss_seen s) \<and> buckets_ok (ss_all_sigs_seen s) \<and>
     list_all (\<lambda>(k, r). unit_fl r) (ss_rates s) \<and> unit_fl (ss_lowest_rate s) \<and>
     (\<exists>t. ss_target_tps s = Fin False t \<and> 0 < t \<and> f64_mag t) \<and> ss_extra_rate s = f_one"

lemma update_rates_fl_inv:
  assumes "fl_inv s"
  shows "fl_inv (update_rates p n s)"
proof (cases "ss_seen s = []")
  case False
  define maxes where "maxes = map (\<lambda>(sig, buckets). (sig, bucket_tps (fst (zero_and_get_max buckets p n)))) (ss_seen s)"
  define seen where "seen = map (\<lambda>(sig, buckets). (sig, snd (zero_and_get_max buckets p n))) (ss_seen s)"
  obtain t where t: "ss_target_tps s = Fin False t" "0 < t" "f64_mag t" using assms by (auto simp: fl_inv_def)
  have sn: "list_all (\<lambda>(k, b). buckets_ok b) (ss_seen s)" using assms by (simp add: fl_inv_def)
  have mx: "list_all (\<lambda>(k, x). nonneg_fl x) maxes"
    using sn by (auto simp: maxes_def list_all_iff zero_and_get_max_ok intro!: bucket_tps_nonneg)
  have sb: "list_all (\<lambda>(k, b). buckets_ok b) seen"
    using sn by (auto simp: seen_def list_all_iff zero_and_get_max_ok)
  have "list_all nonneg_fl (map snd maxes)" "map snd maxes \<noteq> []"
    using mx False by (auto simp: list_all_iff) (simp add: maxes_def)
  from compute_tps_nonneg [OF t(3) this] obtain h where
    h: "compute_tps_per_sig (ss_target_tps s) (map snd maxes) = Fin False h" "0 \<le> h"
    unfolding t(1) by blast
  obtain l rates removed where r: "rate_loop (Fin False h) (ss_rates s) maxes f_one = (l, rates, removed)"
    by (cases "rate_loop (Fin False h) (ss_rates s) maxes f_one") auto
  have "update_rates p n s = s\<lparr>ss_seen := filter (\<lambda>(sig, b). sig \<notin> set removed) seen,
      ss_all_sigs_seen := snd (zero_and_get_max (ss_all_sigs_seen s) p n), ss_rates := rates, ss_lowest_rate := l\<rparr>"
    using False r h(1) by (simp add: update_rates_def maxes_def [symmetric] seen_def [symmetric] Let_def)
  moreover have "unit_fl l \<and> list_all (\<lambda>(k, r). unit_fl r) rates"
    using rate_loop_unit [OF h(2) mx _ _ r] assms by (simp add: fl_inv_def)
  ultimately show ?thesis
    using assms sb by (auto simp: fl_inv_def zero_and_get_max_ok list_all_iff)
qed (use assms in \<open>simp add: update_rates_def\<close>)

lemma upsert_all:
  assumes "list_all (\<lambda>(k, v). P v) xs" "P d" "\<And>v. P v \<Longrightarrow> P (f v)"
  shows "list_all (\<lambda>(k, v). P v) (upsert k d f xs)"
  using assms(1) by (induction xs) (auto simp: assms(2,3))

lemma add_count_ok: "buckets_ok b \<Longrightarrow> nonneg_fl n \<Longrightarrow> buckets_ok (b[bucket_index i := fadd round32 (b ! bucket_index i) n])"
  using set_update_subset_insert [of b "bucket_index i" "fadd round32 (b ! bucket_index i) n"]
  by (auto simp: buckets_ok_def list_all_iff fadd_nonneg)

lemma zero_buckets_ok: "buckets_ok zero_buckets"
  by (simp add: buckets_ok_def zero_buckets_def NUM_BUCKETS_def list_all_iff)

lemma count_weighted_sig_fl_inv:
  assumes "fl_inv s" "nonneg_fl n"
  shows "fl_inv (snd (count_weighted_sig now sig n s))"
proof -
  let ?b = "trunc_div now BUCKET_DURATION_SECS"
  define s1 where "s1 = (if ss_last_bucket_id s \<noteq> ?b
    then update_rates (ss_last_bucket_id s) ?b (s\<lparr>ss_last_bucket_id := ?b\<rparr>) else s\<lparr>ss_last_bucket_id := ?b\<rparr>)"
  have "fl_inv (s\<lparr>ss_last_bucket_id := ?b\<rparr>)" using assms(1) by (simp add: fl_inv_def)
  then have s1: "fl_inv s1" using update_rates_fl_inv by (simp add: s1_def)
  define add where "add = (\<lambda>b. b[bucket_index ?b := fadd round32 (b ! bucket_index ?b) n])"
  have "snd (count_weighted_sig now sig n s) =
      s1\<lparr>ss_seen := upsert sig zero_buckets add (ss_seen s1), ss_all_sigs_seen := add (ss_all_sigs_seen s1)\<rparr>"
    by (simp add: count_weighted_sig_def Let_def s1_def add_def)
  moreover have "buckets_ok b \<Longrightarrow> buckets_ok (add b)" for b
    unfolding add_def by (rule add_count_ok [OF _ assms(2)])
  ultimately show ?thesis
    using s1 upsert_all [of buckets_ok "ss_seen s1" zero_buckets add sig] zero_buckets_ok
    by (simp add: fl_inv_def)
qed

lemma foldl_fmax_nonneg: "nonneg_fl m \<Longrightarrow> list_all nonneg_fl xs \<Longrightarrow> nonneg_fl (foldl fmax m xs)"
proof (induction xs arbitrary: m)
  case (Cons x xs)
  have "nonneg_fl (fmax m x)" using Cons.prems by (cases m; cases x) auto
  then show ?case using Cons by simp
qed simp

lemma default_rate_unit:
  assumes "fl_inv s"
  shows "unit_fl (default_rate s)"
proof -
  obtain t where t: "ss_target_tps s = Fin False t" "0 < t" using assms by (auto simp: fl_inv_def)
  have "nonneg_fl (bucket_tps (foldl fmax f_zero (ss_all_sigs_seen s)))"
    using assms by (intro bucket_tps_nonneg foldl_fmax_nonneg) (auto simp: fl_inv_def buckets_ok_def)
  then show ?thesis
    using t assms share_unit [of t] by (auto simp: default_rate_def Let_def fl_inv_def)
qed

lemma get_rate_unit:
  assumes "fl_inv s"
  shows "unit_fl (get_signature_sample_rate s sig)"
proof (cases "map_of (ss_rates s) sig")
  case (Some r)
  then have "unit_fl r" using assms by (auto simp: fl_inv_def list_all_iff dest: map_of_SomeD)
  then show ?thesis
    using Some assms round64_unit by (auto simp: get_signature_sample_rate_def fl_inv_def elim!: unit_flE)
qed (use default_rate_unit [OF assms] in \<open>simp add: get_signature_sample_rate_def\<close>)

text \<open>A value as it comes off the wire: any \<open>f64\<close>, whose magnitude is not negative.\<close>

definition wire_f64 :: "fl \<Rightarrow> bool" where
  "wire_f64 x \<longleftrightarrow> (case x of Fin s q \<Rightarrow> 0 \<le> q | _ \<Rightarrow> True)"

lemma client_rate_pos:
  assumes "wire_f64 (tr_root_global_sample_rate trace)"
  shows "\<exists>q. client_rate trace = Fin False q \<and> 0 < q \<and> q \<le> 1"
  using assms by (cases "tr_root_global_sample_rate trace")
    (auto simp: client_rate_def wire_f64_def fle_def Let_def split: if_splits)

lemma weight_root_nonneg:
  assumes "wire_f64 (tr_root_global_sample_rate trace)"
  shows "nonneg_fl (weight_root trace)"
proof -
  obtain q where q: "client_rate trace = Fin False q" "0 < q" using client_rate_pos [OF assms] by blast
  have "nonneg_fl (fdiv round64 f_one (client_rate trace))" using q round_nonneg_fl by simp
  then show ?thesis unfolding weight_root_def by (auto simp: round_nonneg_fl elim!: nonneg_flE)
qed

lemma shrink_sampler: "shrink sig r = (sig', r') \<Longrightarrow> rl_sampler r' = rl_sampler r \<and> rl_disabled r' = rl_disabled r"
  by (auto simp: shrink_def Let_def split: if_splits)

lemma rate_limited_sample_fl:
  assumes "fl_inv (rl_sampler r)" "wire_f64 (tr_root_global_sample_rate trace)"
  shows "fl_inv (rl_sampler (snd (rate_limited_sample now trace r))) \<and>
    (\<forall>sr. fst (rate_limited_sample now trace r) = Keep sr \<longrightarrow> unit_fl sr)"
proof -
  let ?sig = "compute_signature_with_root_and_env (tr_spans trace) (tr_root_index trace) (tr_env trace)"
  obtain sig r1 where s1: "shrink ?sig r = (sig, r1)" by fastforce
  obtain u s where c: "count_weighted_sig now sig (weight_root trace) (rl_sampler r1) = (u, s)" by fastforce
  have s: "fl_inv s"
    using count_weighted_sig_fl_inv [OF _ weight_root_nonneg [OF assms(2)], of "rl_sampler r1" now sig]
      shrink_sampler [OF s1] assms(1) c by simp
  show ?thesis
    using s assms(1) s1 c get_rate_unit [OF s, of sig]
    by (auto simp: rate_limited_sample_def apply_sample_rate_def Let_def split: if_splits)
qed

lemma rate_limited_run_fl:
  assumes "fl_inv (rl_sampler r)" "list_all (\<lambda>(now, tr). wire_f64 (tr_root_global_sample_rate tr)) evs"
  shows "fl_inv (rl_sampler (rate_limited_run evs r))"
  using assms
proof (induction evs arbitrary: r)
  case (Cons ev evs)
  obtain now tr where ev: "ev = (now, tr)" by force
  then have "fl_inv (rl_sampler (snd (rate_limited_sample now tr r)))"
    using Cons.prems rate_limited_sample_fl by simp
  then show ?case using Cons.IH Cons.prems(2) ev by (simp add: rate_limited_run_def)
qed (simp add: rate_limited_run_def)

lemma sampler_new_fl_inv:
  assumes "0 < t" "f64_mag t"
  shows "fl_inv (sampler_new f_one (Fin False t))"
proof -
  have "unit_fl f_zero" by simp
  then show ?thesis using zero_buckets_ok assms
    unfolding fl_inv_def sampler_new_def sampler.select_convs by (auto intro: exI [of _ t])
qed

text \<open>
  With a positive finite target and no extra rate, every rate the sampler stores or reports is
  in the unit interval, whatever floating-point values the counts take (they may overflow to
  infinity): whenever a trace is kept, the rate stamped on it is between zero and one.
\<close>

theorem kept_rate_in_unit:
  assumes "cfg_target_tps config = Fin False t" "0 < t" "f64_mag t" "cfg_extra_sample_rate config = f_one"
    and "list_all (\<lambda>(now, tr). wire_f64 (tr_root_global_sample_rate tr)) evs"
    and "wire_f64 (tr_root_global_sample_rate trace)"
    and "r = rate_limited_run evs (rate_limited_new config)"
    and "fst (rate_limited_sample now trace r) = Keep sr"
  shows "unit_fl sr \<and> list_all (\<lambda>(k, rate). unit_fl rate) (ss_rates (rl_sampler r))"
proof -
  have "fl_inv (rl_sampler (rate_limited_new config))"
    using sampler_new_fl_inv [OF assms(2,3)] assms(1,4) by (simp only: rate_limited_new_def rate_limited.select_convs)
  then have "fl_inv (rl_sampler r)" unfolding assms(7) by (rule rate_limited_run_fl [OF _ assms(5)])
  moreover from this have "unit_fl sr" using rate_limited_sample_fl [OF _ assms(6)] assms(8) by blast
  ultimately show ?thesis unfolding fl_inv_def by blast
qed

text \<open>
  A target of zero or less disables the sampler in both modes: it says so, it drops every
  trace, and its state never changes.
\<close>

theorem disabled_drops_all:
  assumes "fle (cfg_target_tps config) f_zero"
  shows "is_disabled (errors_sampler_new config) \<and>
    sample now trace (errors_sampler_new config) = (Drop, errors_sampler_new config)"
  using assms
  by (cases "cfg_mode config") (simp_all add: errors_sampler_new_def rate_limited_new_def rate_limited_sample_def)

section \<open>Witnesses\<close>

definition demo_span :: "string \<Rightarrow> bool \<Rightarrow> span_view" where
  "demo_span name err = \<lparr>sp_service = ''web'', sp_name = name, sp_resource = ''/'', sp_error = err,
     sp_http_status_code = (if err then Some ''500'' else None), sp_error_type = None\<rparr>"

definition demo_trace :: trace_view where
  "demo_trace = \<lparr>tr_env = ''prod'', tr_trace_id = 7, tr_root_index = 0, tr_root_global_sample_rate = f_one,
     tr_spans = [demo_span ''a'' True, demo_span ''b'' False]\<rparr>"

lemma round_one [simp]: "round64 s 1 = Fin s 1" "round32 s 1 = Fin s 1"
  using f64.round_fl_nat [of 1] f32.round_fl_nat [of 1] by simp_all

lemma f64_mag_ten: "f64_mag 10"
proof -
  have "representable 53 (-1074) (of_nat 10)" by (rule f64.representable_nat) simp
  moreover have "(10::rat) < 2 powi 4" by simp
  moreover have "(2::rat) powi 4 < 2 powi 1024" by (subst powi_less_iff) simp
  ultimately show ?thesis unfolding f64_mag_def by simp
qed

lemma demo_first_kept:
  "fst (rate_limited_sample 2 demo_trace (rate_limited_new default_config)) = Keep f_one"
proof -
  have "unit_fl (round64 False (1 / 5))" by (rule round64_unit) simp
  then obtain q where q: "round64 False (1 / 5) = Fin False q" "q \<le> 1" by (elim unit_flE)
  have c: "client_rate demo_trace = f_one" by (simp add: client_rate_def demo_trace_def fle_def)
  have w: "weight_root demo_trace = f_one" by (simp add: weight_root_def c)
  have s: "fst (shrink sig (rate_limited_new default_config)) = sig"
    "snd (shrink sig (rate_limited_new default_config)) = rate_limited_new default_config" for sig
    by (simp_all add: shrink_def rate_limited_new_def sampler_size_def sampler_new_def SHRINK_CARDINALITY_def)
  have z: "zero_buckets = [f_zero, f_zero, f_zero, f_zero, f_zero, f_zero]"
    by (simp add: zero_buckets_def NUM_BUCKETS_def eval_nat_numeral)
  have "get_signature_sample_rate (snd (count_weighted_sig 2 sig f_one (rl_sampler (rate_limited_new default_config)))) sig = f_one" for sig
    using q by (simp add: rate_limited_new_def sampler_new_def default_config_def count_weighted_sig_def
        Let_def trunc_div_def BUCKET_DURATION_SECS_def z bucket_index_def NUM_BUCKETS_def
        get_signature_sample_rate_def default_rate_def bucket_tps_def f64_from_f32_def)
  then show ?thesis
    using c w s sample_by_rate_ends
    apply (simp add: rate_limited_sample_def case_prod_beta Let_def apply_sample_rate_def)
    by (simp add: demo_trace_def rate_limited_new_def default_config_def fle_def)
qed

theorem signature_similar_witness:
  "compute_signature_with_root_and_env [demo_span ''a'' True, demo_span ''b'' False] 0 ''prod'' =
    compute_signature_with_root_and_env [demo_span ''b'' False, demo_span ''a'' True, demo_span ''b'' False] 1 ''prod''"
  by (rule signature_similar) auto

theorem sample_by_rate_mono_witness: "sample_by_rate 0 (Fin False (3 / 4))"
proof -
  have "representable 53 (-1074) (2 ^ 63)"
    unfolding representable_def by (intro exI [of _ 1] exI [of _ 63]) simp
  then have "fmul round64 (Fin False (1 / 2)) U64_MAX_F64 = Fin False (2 ^ 63)"
    using rate_threshold [of "1 / 2"] f64.round_representable [of "2 ^ 63"] by simp
  then have "sample_by_rate 0 (Fin False (1 / 2))"
    by (simp add: sample_by_rate_def as_u64_def sat_def u64_max_def)
  then show ?thesis by (rule sample_by_rate_mono [rotated 2]) simp_all
qed

theorem rotate_window_witness:
  "snd (zero_and_get_max [f_one, f_one, f_one, f_one, f_one, f_one] 7 9) ! bucket_index 6 = f_one \<and>
   snd (zero_and_get_max [f_one, f_one, f_one, f_one, f_one, f_one] 7 9) ! bucket_index 8 = f_zero"
  using rotate_window [of "[f_one, f_one, f_one, f_one, f_one, f_one]" 7 9 6]
    rotate_window [of "[f_one, f_one, f_one, f_one, f_one, f_one]" 7 9 8]
  by (simp add: bucket_index_def NUM_BUCKETS_def)

theorem kept_rate_in_unit_witness:
  "unit_fl f_one \<and> list_all (\<lambda>(k, rate). unit_fl rate)
     (ss_rates (rl_sampler (rate_limited_run [] (rate_limited_new default_config))))"
  by (rule kept_rate_in_unit [where t = 10 and trace = demo_trace and now = 2 and evs = "[]"])
    (use demo_first_kept f64_mag_ten in \<open>simp_all add: default_config_def demo_trace_def wire_f64_def rate_limited_run_def\<close>)

theorem disabled_drops_all_witness:
  "is_disabled (errors_sampler_new (default_config\<lparr>cfg_target_tps := f_zero\<rparr>)) \<and>
    sample 2 demo_trace (errors_sampler_new (default_config\<lparr>cfg_target_tps := f_zero\<rparr>)) =
      (Drop, errors_sampler_new (default_config\<lparr>cfg_target_tps := f_zero\<rparr>))"
  by (rule disabled_drops_all) (simp add: fle_def)

end
