(* ===== verification/Trace_Config.thy ===== *)
theory Trace_Config
  imports Score_Sampler Decimal Interfaces
begin

text \<open>
  The crate \<^verbatim>\<open>datadog-trace-agent\<close>: \<^verbatim>\<open>config.rs\<close> (the configuration read from the environment)
  and \<^verbatim>\<open>peer_tags.rs\<close>.

  The functions of \<^verbatim>\<open>libdatadog\<close> and the embedded JSON table are parameters; whether a text is a
  URI is a parameter too, and an \<open>unwrap\<close> of one that is not is \<open>Panic\<close>. A hash map is an
  association list with distinct keys in its iteration order.
\<close>

section \<open>Tags\<close>

type_synonym tags = "(string \<times> string) list"

definition tags_new :: tags where
  "tags_new = []"

definition insert_kv :: "string \<Rightarrow> tags \<Rightarrow> tags" where
  "insert_kv kv tags =
     (case split_char CHR '':'' kv of [k, v] \<Rightarrow> hm_insert k v tags | _ \<Rightarrow> tags)"

definition tags_from_env_string :: "string \<Rightarrow> tags" where
  "tags_from_env_string env_tags =
     (let normalized = map (\<lambda>c. if c = CHR '','' then CHR '' '' else c) env_tags
      in fold insert_kv (split_whitespace normalized) [])"

definition kv_string :: "string \<times> string \<Rightarrow> string" where
  "kv_string kv = fst kv @ '':'' @ snd kv"

definition function_tags :: "tags \<Rightarrow> string option" where
  "function_tags tags =
     (if tags = [] then None
      else Some (join_with '','' (sort_by str_le (map kv_string tags))))"

section \<open>Parts of the configuration\<close>

definition parse_error_sampler_config :: "string option \<Rightarrow> error_sampler_config" where
  "parse_error_sampler_config raw =
     (case map_option trim raw of
        None \<Rightarrow> default_config
      | Some r \<Rightarrow>
          if r = [] then default_config
          else (case parse_f64 r of
                  Some tps \<Rightarrow> if is_finite tps then default_config\<lparr>cfg_target_tps := tps\<rparr> else default_config
                | None \<Rightarrow> default_config))"

definition error_rare_sample_tracer_drop_enabled :: "string \<Rightarrow> bool" where
  "error_rare_sample_tracer_drop_enabled raw =
     (let delimiter = (if CHR '','' \<in> set raw then CHR '','' else CHR '' '')
      in list_ex (\<lambda>entry. trim entry = ''error_rare_sample_tracer_drop'') (split_char delimiter raw))"

definition resolve_payload_env :: "string \<Rightarrow> string \<Rightarrow> string" where
  "resolve_payload_env payload_env config_env = (if payload_env = [] then config_env else payload_env)"

definition PEER_TAG_CONCEPTS :: "string list" where
  "PEER_TAG_CONCEPTS =
     [''_dd.base_service'', ''peer.service'', ''peer.hostname'', ''peer.db.name'', ''peer.db.system'',
      ''peer.cassandra.contact.points'', ''peer.couchbase.seed.nodes'', ''peer.messaging.destination'',
      ''peer.messaging.system'', ''peer.kafka.bootstrap.servers'', ''peer.rpc.service'', ''peer.rpc.system'',
      ''peer.aws.s3.bucket'', ''peer.aws.sqs.queue'', ''peer.aws.dynamodb.table'', ''peer.aws.kinesis.stream'']"

text \<open>\<open>mappings\<close>: the fallback names of every concept, or an error when the table does not parse.\<close>

definition peer_tag_keys :: "string + (string \<times> string list) list \<Rightarrow> string + string list" where
  "peer_tag_keys mappings =
     (case mappings of
        Inl e \<Rightarrow> Inl e
      | Inr concepts \<Rightarrow>
          Inr (sort_by str_le (remdups (concat (List.map_filter (map_of concepts) PEER_TAG_CONCEPTS)))))"

section \<open>The configuration\<close>

datatype env_type = AzureFunction | CloudFunction | AzureSpringApp | LambdaFunction

record endpoint =
  ep_url :: string
  ep_api_key :: "string option"

record 'o trace_config =
  tc_dd_site :: string
  tc_dd_apm_receiver_port :: nat
  tc_dd_apm_windows_pipe_name :: "string option"
  tc_dd_dogstatsd_port :: nat
  tc_dd_dogstatsd_windows_pipe_name :: "string option"
  tc_env_type :: env_type
  tc_app_name :: "string option"
  tc_max_request_content_length :: nat
  tc_obfuscation_config :: 'o
  tc_os :: string
  tc_tags :: tags
  tc_stats_flush_interval_secs :: nat
  tc_trace_flush_interval_secs :: nat
  tc_trace_intake :: endpoint
  tc_trace_stats_intake :: endpoint
  tc_dsm_intake :: endpoint
  tc_profiling_intake :: endpoint
  tc_proxy_request_timeout_secs :: nat
  tc_proxy_request_max_retries :: nat
  tc_proxy_request_retry_backoff_base_ms :: nat
  tc_verify_env_timeout_ms :: nat
  tc_enqueue_permit_timeout_secs :: nat
  tc_proxy_url :: "string option"
  tc_env :: string
  tc_peer_tags :: "string list"
  tc_experimental_features_enabled :: bool
  tc_additional_metric_tags :: "string list"
  tc_additional_metric_tags_cardinality_limit :: "nat option"
  tc_agent_stats_computation_enabled :: bool
  tc_error_sampler :: error_sampler_config
  tc_error_rare_sample_tracer_drop :: bool

text \<open>\<open>cd_pipes\<close>: whether the build has the named-pipe fields.\<close>

record 'o config_deps =
  cd_read_cloud_env :: "(string \<times> env_type) option"
  cd_trace_intake_url :: "string \<Rightarrow> string"
  cd_trace_stats_url :: "string \<Rightarrow> string"
  cd_trace_intake_url_prefixed :: "string \<Rightarrow> string"
  cd_trace_stats_url_prefixed :: "string \<Rightarrow> string"
  cd_obfuscation :: "string + 'o"
  cd_mappings :: "string + (string \<times> string list) list"
  cd_uri_ok :: "string \<Rightarrow> bool"
  cd_os :: string
  cd_pipes :: bool

definition DEFAULT_APM_RECEIVER_PORT :: nat where "DEFAULT_APM_RECEIVER_PORT = 8126"
definition DEFAULT_DOGSTATSD_PORT :: nat where "DEFAULT_DOGSTATSD_PORT = 8125"
definition DSM_PIPELINE_STATS_ROUTE :: string where "DSM_PIPELINE_STATS_ROUTE = ''/api/v0.1/pipeline_stats''"

definition parse_u16 :: "string \<Rightarrow> nat option" where
  "parse_u16 = parse_unsigned (2 ^ 16 - 1)"

text \<open>A pipe name with the prefix for local pipes added unless it has it (written with character 92, the backslash).\<close>

definition pipe_prefix :: string where
  "pipe_prefix = (let b = char_of (92 :: nat) in [b, b, CHR ''.'', b] @ ''pipe'' @ [b])"

definition normalize_pipe :: "string \<Rightarrow> string" where
  "normalize_pipe pipe_name = (if starts_with pipe_prefix pipe_name then pipe_name else pipe_prefix @ pipe_name)"

definition additional_tags_from :: "string \<Rightarrow> string list" where
  "additional_tags_from s = filter (\<lambda>t. t \<noteq> []) (map trim (split_char CHR '','' s))"

datatype config_error = NoApiKey | UnknownEnvironment | BadObfuscation string | BadPeerTags string

definition mk_endpoint :: "string \<Rightarrow> string \<Rightarrow> endpoint" where
  "mk_endpoint api_key url = \<lparr>ep_url = url, ep_api_key = Some api_key\<rparr>"

definition env_or :: "env_vars \<Rightarrow> string \<Rightarrow> string \<Rightarrow> string" where
  "env_or env var default_value = (case env var of Some v \<Rightarrow> v | None \<Rightarrow> default_value)"

definition env_true :: "env_vars \<Rightarrow> string \<Rightarrow> bool \<Rightarrow> bool" where
  "env_true env var default_value = (case env var of Some v \<Rightarrow> lower_is v ''true'' | None \<Rightarrow> default_value)"

definition env_pipe :: "'o config_deps \<Rightarrow> env_vars \<Rightarrow> string \<Rightarrow> string option" where
  "env_pipe D env var = (if cd_pipes D then map_option normalize_pipe (env var) else None)"

definition env_port :: "env_vars \<Rightarrow> string \<Rightarrow> nat \<Rightarrow> nat" where
  "env_port env var default_port =
     (case Option.bind (env var) parse_u16 of Some port \<Rightarrow> port | None \<Rightarrow> default_port)"

text \<open>The URLs of the trace, stats, data streams and profiling intakes.\<close>

definition intake_urls :: "'o config_deps \<Rightarrow> env_vars \<Rightarrow> string \<Rightarrow> string \<times> string \<times> string \<times> string" where
  "intake_urls D env site =
     (let (trace_url, stats_url, dsm_url) =
            (case env ''DD_APM_DD_URL'' of
               Some prefix \<Rightarrow> (cd_trace_intake_url_prefixed D prefix, cd_trace_stats_url_prefixed D prefix,
                               prefix @ DSM_PIPELINE_STATS_ROUTE)
             | None \<Rightarrow> (cd_trace_intake_url D site, cd_trace_stats_url D site,
                        ''https://trace.agent.'' @ site @ DSM_PIPELINE_STATS_ROUTE));
          profiling_url = (case env ''DD_APM_PROFILING_DD_URL'' of
                             Some prefix \<Rightarrow> prefix @ ''/api/v2/profile''
                           | None \<Rightarrow> ''https://intake.profile.'' @ site @ ''/api/v2/profile'')
      in (trace_url, stats_url, dsm_url, profiling_url))"

definition additional_metric_tags :: "env_vars \<Rightarrow> bool \<Rightarrow> string list" where
  "additional_metric_tags env experimental =
     (if experimental
      then (case env ''DD_TRACE_STATS_ADDITIONAL_TAGS'' of
              Some s \<Rightarrow> if s = [] then [] else additional_tags_from s | None \<Rightarrow> [])
      else [])"

definition additional_tags_limit :: "env_vars \<Rightarrow> bool \<Rightarrow> nat option" where
  "additional_tags_limit env experimental =
     (if experimental
      then Option.bind (env ''DD_TRACE_STATS_ADDITIONAL_TAGS_CARDINALITY_LIMIT'') (parse_unsigned usize_max)
      else None)"

text \<open>The \<open>Config\<close> that \<open>new\<close> builds once nothing can fail any more.\<close>

definition config_record ::
  "'o config_deps \<Rightarrow> env_vars \<Rightarrow> string \<Rightarrow> string \<Rightarrow> env_type \<Rightarrow> 'o \<Rightarrow>
   string \<times> string \<times> string \<times> string \<Rightarrow> string list \<Rightarrow> 'o trace_config" where
  "config_record D env api_key app_name env_type obfuscation urls peer_tags =
     (let (trace_url, stats_url, dsm_url, profiling_url) = urls;
          dsd_pipe = env_pipe D env ''DD_DOGSTATSD_WINDOWS_PIPE_NAME'';
          experimental = env_true env ''DD_TRACE_EXPERIMENTAL_FEATURES_ENABLED'' False
      in \<lparr>tc_dd_site = env_or env ''DD_SITE'' ''datadoghq.com'',
          tc_dd_apm_receiver_port = env_port env ''DD_APM_RECEIVER_PORT'' DEFAULT_APM_RECEIVER_PORT,
          tc_dd_apm_windows_pipe_name = env_pipe D env ''DD_APM_WINDOWS_PIPE_NAME'',
          tc_dd_dogstatsd_port =
            env_port env ''DD_DOGSTATSD_PORT'' (if dsd_pipe \<noteq> None then 0 else DEFAULT_DOGSTATSD_PORT),
          tc_dd_dogstatsd_windows_pipe_name = dsd_pipe,
          tc_env_type = env_type, tc_app_name = Some app_name,
          tc_max_request_content_length = 10 * 1024 * 1024, tc_obfuscation_config = obfuscation,
          tc_os = cd_os D,
          tc_tags = (case env ''DD_TAGS'' of Some s \<Rightarrow> tags_from_env_string s | None \<Rightarrow> tags_new),
          tc_stats_flush_interval_secs = 3, tc_trace_flush_interval_secs = 3,
          tc_trace_intake = mk_endpoint api_key trace_url, tc_trace_stats_intake = mk_endpoint api_key stats_url,
          tc_dsm_intake = mk_endpoint api_key dsm_url, tc_profiling_intake = mk_endpoint api_key profiling_url,
          tc_proxy_request_timeout_secs = 30, tc_proxy_request_max_retries = 3,
          tc_proxy_request_retry_backoff_base_ms = 100, tc_verify_env_timeout_ms = 100,
          tc_enqueue_permit_timeout_secs = 2,
          tc_proxy_url = (case env ''DD_PROXY_HTTPS'' of Some p \<Rightarrow> Some p | None \<Rightarrow> env ''HTTPS_PROXY''),
          tc_env = env_or env ''DD_ENV'' ''none'', tc_peer_tags = peer_tags,
          tc_experimental_features_enabled = experimental,
          tc_additional_metric_tags = additional_metric_tags env experimental,
          tc_additional_metric_tags_cardinality_limit = additional_tags_limit env experimental,
          tc_agent_stats_computation_enabled = env_true env ''DD_AGENT_STATS_COMPUTATION_ENABLED'' True,
          tc_error_sampler = parse_error_sampler_config (env ''DD_APM_ERROR_TPS''),
          tc_error_rare_sample_tracer_drop =
            (case env ''DD_APM_FEATURES'' of Some raw \<Rightarrow> error_rare_sample_tracer_drop_enabled raw | None \<Rightarrow> False)\<rparr>)"

definition urls_ok :: "'o config_deps \<Rightarrow> string \<times> string \<times> string \<times> string \<Rightarrow> bool" where
  "urls_ok D urls =
     (case urls of (a, b, c, d) \<Rightarrow> cd_uri_ok D a \<and> cd_uri_ok D b \<and> cd_uri_ok D c \<and> cd_uri_ok D d)"

definition trace_config_new :: "'o config_deps \<Rightarrow> env_vars \<Rightarrow> (config_error + 'o trace_config) rust" where
  "trace_config_new D env =
     (case env ''DD_API_KEY'' of
        None \<Rightarrow> Ret (Inl NoApiKey)
      | Some api_key \<Rightarrow>
          (case cd_read_cloud_env D of
             None \<Rightarrow> Ret (Inl UnknownEnvironment)
           | Some (app_name, env_type) \<Rightarrow>
               (case cd_obfuscation D of
                  Inl err \<Rightarrow> Ret (Inl (BadObfuscation err))
                | Inr obfuscation \<Rightarrow>
                    let urls = intake_urls D env (env_or env ''DD_SITE'' ''datadoghq.com'')
                    in if \<not> urls_ok D urls then Panic
                       else
                         (case peer_tag_keys (cd_mappings D) of
                            Inl e \<Rightarrow> Ret (Inl (BadPeerTags e))
                          | Inr peer_tags \<Rightarrow>
                              Ret (Inr (config_record D env api_key app_name env_type obfuscation urls peer_tags))))))"

section \<open>Words\<close>

text \<open>No white space starts inside the word.\<close>

definition no_ws :: "string \<Rightarrow> bool" where
  "no_ws w \<longleftrightarrow> (\<forall>i < length w. ws_prefix (drop i w) = 0)"

lemma no_ws_simps [simp]:
  "no_ws []" "no_ws (c # w) \<longleftrightarrow> ws_prefix (c # w) = 0 \<and> no_ws w"
  by (auto simp: no_ws_def nth_Cons less_Suc_eq_0_disj)

lemma ws_prefix_append:
  assumes "ws_prefix (a @ b) = 0" "a \<noteq> []"
  shows "ws_prefix a = 0"
proof -
  have "take k (map byte (a @ b)) = take k (map byte a)" if "k \<le> length a" for k using that by simp
  moreover have "1 \<le> length a" using assms(2) by (cases a) auto
  ultimately show ?thesis using assms by (auto simp: ws_prefix_def Let_def split: if_splits)
qed

text \<open>A blank after a word does not complete a white space character begun in the word.\<close>

lemma ws_prefix_blank:
  assumes "ws_prefix (c # w) = 0"
  shows "ws_prefix (c # w @ CHR '' '' # s) = 0"
proof -
  have b: "byte CHR '' '' = 32" by (simp add: byte_def)
  consider "w = []" | d where "w = [d]" | d e r where "w = d # e # r" by (metis list.exhaust)
  then show ?thesis
  proof cases
    case 1
    then show ?thesis using assms b
      by (cases s) (auto simp: ws_prefix_def Let_def ws_codepoint_def numeral_2_eq_2 numeral_3_eq_3 split: if_splits)
  next
    case 2
    then show ?thesis using assms b
      by (auto simp: ws_prefix_def Let_def ws_codepoint_def numeral_2_eq_2 numeral_3_eq_3 split: if_splits)
  next
    case 3
    then show ?thesis using assms
      by (auto simp: ws_prefix_def Let_def numeral_2_eq_2 numeral_3_eq_3 split: if_splits)
  qed
qed

lemma split_word:
  assumes "no_ws u" "u \<noteq> [] \<or> w \<noteq> []"
  shows "split_ws_from w u = [w @ u]"
    and "split_ws_from w (u @ CHR '' '' # s) = (w @ u) # split_ws_from [] s"
proof -
  have blank: "ws_prefix (CHR '' '' # s) = 1" for s by (simp add: ws_prefix_def ws_codepoint_def byte_def)
  show "split_ws_from w u = [w @ u]" using assms by (induction u arbitrary: w) auto
  show "split_ws_from w (u @ CHR '' '' # s) = (w @ u) # split_ws_from [] s"
    using assms
  proof (induction u arbitrary: w)
    case (Cons c u)
    then show ?case using ws_prefix_blank [of c u s] Cons.IH [of "w @ [c]"] by simp
  qed (use blank in simp)
qed

lemma split_join_words:
  assumes "\<forall>w\<in>set ws. no_ws w \<and> w \<noteq> []"
  shows "split_whitespace (join_with '' '' ws) = ws"
  using assms
proof (induction "'' ''" ws rule: join_with.induct)
  case (2 x)
  then show ?case using split_word(1) [of x "[]"] by (simp add: split_whitespace_def)
next
  case (3 x y ys)
  then show ?case using split_word(2) [of x "[]" "join_with '' '' (y # ys)"] by (simp add: split_whitespace_def)
qed (simp add: split_whitespace_def)

text \<open>The words of a text have no white space inside, are not empty and made of its characters.\<close>

lemma split_ws_words:
  assumes "\<forall>i < length w. ws_prefix (drop i w @ s) = 0" "u \<in> set (split_ws_from w s)"
  shows "no_ws u \<and> u \<noteq> [] \<and> set u \<subseteq> set w \<union> set s"
  using assms
proof (induction w s rule: split_ws_from.induct)
  case (1 w)
  then show ?case by (auto simp: no_ws_def split: if_splits)
next
  case (2 w c s)
  have w: "no_ws w"
    unfolding no_ws_def using 2(3) ws_prefix_append [of "drop _ w" "c # s"] by simp
  show ?case
  proof (cases "ws_prefix (c # s) > 0")
    case True
    have sub: "set (drop n (c # s)) \<subseteq> set (c # s)" for n by (rule set_drop_subset)
    from 2(4) True have "u = w \<and> w \<noteq> [] \<or> u \<in> set (split_ws_from [] (drop (ws_prefix (c # s)) (c # s)))"
      by (auto split: if_splits)
    then show ?thesis
    proof
      assume "u \<in> set (split_ws_from [] (drop (ws_prefix (c # s)) (c # s)))"
      from 2(1) [OF True _ this] show ?thesis using sub [of "ws_prefix (c # s)"] by auto
    qed (use w in auto)
  next
    case False
    have "\<forall>i < length (w @ [c]). ws_prefix (drop i (w @ [c]) @ s) = 0"
      using 2(3) False by (auto simp: less_Suc_eq)
    from 2(2) [OF False this] show ?thesis using 2(4) False by auto
  qed
qed

lemma split_whitespace_words:
  "u \<in> set (split_whitespace s) \<Longrightarrow> no_ws u \<and> u \<noteq> [] \<and> set u \<subseteq> set s"
  using split_ws_words [of "[]" s u] by (simp add: split_whitespace_def)

section \<open>Tags print and parse\<close>

lemma map_of_hm_insert [simp]: "map_of (hm_insert k v m) = (map_of m)(k \<mapsto> v)"
  by (induction m) auto

lemma hm_insert_keys: "fst ` set (hm_insert k v m) = insert k (fst ` set m)"
proof (induction m)
  case (Cons p m)
  obtain a b where "p = (a, b)" by fastforce
  then show ?case using Cons by (cases "a = k") (auto simp: insert_commute)
qed simp

lemma hm_insert_distinct: "distinct (map fst m) \<Longrightarrow> distinct (map fst (hm_insert k v m))"
proof (induction m)
  case (Cons p m)
  then show ?case using hm_insert_keys [of k v m] by (cases p) auto
qed simp

lemma hm_insert_new: "k \<notin> fst ` set m \<Longrightarrow> hm_insert k v m = m @ [(k, v)]"
  by (induction m) auto

lemma set_hm_insert: "set (hm_insert k v m) \<subseteq> insert (k, v) (set m)"
proof (induction m)
  case (Cons p m)
  obtain a b where "p = (a, b)" by fastforce
  then show ?case using Cons by (cases "a = k") auto
qed simp

definition tag_ok :: "string \<times> string \<Rightarrow> bool" where
  "tag_ok kv \<longleftrightarrow> CHR '':'' \<notin> set (fst kv) \<and> CHR '':'' \<notin> set (snd kv) \<and>
     CHR '','' \<notin> set (kv_string kv) \<and> no_ws (kv_string kv)"

definition wf_tags :: "tags \<Rightarrow> bool" where
  "wf_tags t \<longleftrightarrow> distinct (map fst t) \<and> list_all tag_ok t"

lemma insert_kv_wf:
  assumes "wf_tags t" "no_ws kv" "CHR '','' \<notin> set kv"
  shows "wf_tags (insert_kv kv t)"
proof (cases "\<exists>k v. split_char CHR '':'' kv = [k, v]")
  case True
  then obtain k v where kv: "split_char CHR '':'' kv = [k, v]" by blast
  then have "kv = kv_string (k, v)" using join_split_char [of "CHR '':''" kv] by (simp add: kv_string_def)
  moreover have "CHR '':'' \<notin> set k" "CHR '':'' \<notin> set v"
    using split_char_no_delim [of _ "CHR '':''" kv] kv by auto
  ultimately have "tag_ok (k, v)" using assms(2,3) by (simp add: tag_ok_def)
  then show ?thesis using assms(1) kv set_hm_insert [of k v t]
    by (auto simp: wf_tags_def insert_kv_def hm_insert_distinct list_all_iff)
qed (use assms(1) in \<open>auto simp: insert_kv_def split: list.splits\<close>)

lemma tags_from_env_wf: "wf_tags (tags_from_env_string s)"
proof -
  let ?n = "map (\<lambda>c. if c = CHR '','' then CHR '' '' else c) s"
  have "\<forall>w\<in>set (split_whitespace ?n). no_ws w \<and> CHR '','' \<notin> set w"
    using split_whitespace_words [of _ ?n] by fastforce
  moreover have "wf_tags (fold insert_kv ws t)" if "wf_tags t" "\<forall>w\<in>set ws. no_ws w \<and> CHR '','' \<notin> set w" for ws t
    using that by (induction ws arbitrary: t) (auto simp: insert_kv_wf)
  ultimately show ?thesis by (simp add: tags_from_env_string_def wf_tags_def)
qed

lemma split_kv_string: "tag_ok kv \<Longrightarrow> split_char CHR '':'' (kv_string kv) = [fst kv, snd kv]"
  by (simp add: tag_ok_def kv_string_def split_char_app split_char_atom)

lemma insert_kv_list:
  "list_all tag_ok kvs \<Longrightarrow> distinct (map fst (t @ kvs)) \<Longrightarrow> fold insert_kv (map kv_string kvs) t = t @ kvs"
proof (induction kvs arbitrary: t)
  case (Cons kv kvs)
  then have "insert_kv (kv_string kv) t = t @ [kv]"
    using split_kv_string [of kv] hm_insert_new [of "fst kv" t "snd kv"] by (simp add: insert_kv_def)
  then show ?case using Cons.IH [of "t @ [kv]"] Cons.prems by simp
qed simp

lemma commas_to_blanks:
  "\<forall>w\<in>set ws. CHR '','' \<notin> set w \<Longrightarrow>
   map (\<lambda>c. if c = CHR '','' then CHR '' '' else c) (join_with '','' ws) = join_with '' '' ws"
  by (induction "'',''" ws rule: join_with.induct) (auto intro: map_idI)

lemma sort_by_map: "map f (sort_by (\<lambda>a b. le (f a) (f b)) xs) = sort_by le (map f xs)"
proof -
  have "map f (insort_by (\<lambda>a b. le (f a) (f b)) x ys) = insort_by le (f x) (map f ys)" for x ys
    by (induction ys) auto
  then show ?thesis by (induction xs) auto
qed

text \<open>
  The function tags print as they parse: the string sent with every payload, read back as
  \<^verbatim>\<open>DD_TAGS\<close>, gives the same tags, and it does not depend on the order in which the hash map is
  iterated, so it is the same in every process.
\<close>

theorem function_tags_roundtrip:
  "(case function_tags (tags_from_env_string s) of
      None \<Rightarrow> tags_from_env_string s = []
    | Some f \<Rightarrow> map_of (tags_from_env_string f) = map_of (tags_from_env_string s) \<and>
        (\<forall>t. mset t = mset (tags_from_env_string s) \<longrightarrow> function_tags t = Some f))"
proof (cases "tags_from_env_string s = []")
  case False
  define t where "t = tags_from_env_string s"
  define ws where "ws = sort_by str_le (map kv_string t)"
  have wf: "wf_tags t" unfolding t_def by (rule tags_from_env_wf)
  have f: "function_tags t = Some (join_with '','' ws)" using False by (simp add: function_tags_def t_def ws_def)
  define kvs where "kvs = sort_by (\<lambda>a b. str_le (kv_string a) (kv_string b)) t"
  have kvs: "ws = map kv_string kvs" "mset kvs = mset t"
    by (simp_all add: ws_def kvs_def sort_by_map)
  then have dk: "list_all tag_ok kvs" "distinct (map fst kvs)"
    using wf mset_eq_setD [of kvs t] mset_eq_imp_distinct_iff [of "map fst kvs" "map fst t"]
    by (auto simp: wf_tags_def list_all_iff)
  have ok: "\<forall>w\<in>set ws. no_ws w \<and> w \<noteq> [] \<and> CHR '','' \<notin> set w"
    using dk(1) kvs(1) by (auto simp: list_all_iff tag_ok_def kv_string_def)
  have "tags_from_env_string (join_with '','' ws) = kvs"
    using ok insert_kv_list [OF dk(1), of "[]"] dk(2) split_join_words [of ws] commas_to_blanks [of ws] kvs(1)
    by (simp add: tags_from_env_string_def)
  moreover have "map_of kvs = map_of t"
    using dk(2) wf kvs(2) map_of_inject_set [of kvs t] by (auto simp: wf_tags_def dest: mset_eq_setD)
  moreover have "function_tags t' = Some (join_with '','' ws)" if "mset t' = mset t" for t'
  proof -
    have "t' \<noteq> []" using that False by (auto simp: t_def)
    moreover have "sort_by str_le (map kv_string t') = ws"
      unfolding ws_def using that by (intro sort_by_cong) simp_all
    ultimately show ?thesis by (simp add: function_tags_def)
  qed
  ultimately show ?thesis using f unfolding t_def by simp
qed (simp add: function_tags_def)

theorem function_tags_roundtrip_witness:
  "map_of (tags_from_env_string ''env:dev,team:x'') = map_of (tags_from_env_string ''team:x  env:dev'')"
proof -
  have "function_tags (tags_from_env_string ''team:x  env:dev'') = Some ''env:dev,team:x''" by code_simp
  then show ?thesis using function_tags_roundtrip [of "''team:x  env:dev''"] by simp
qed

section \<open>What the configuration guarantees\<close>

lemma error_sampler_config_finite:
  "is_finite (cfg_target_tps (parse_error_sampler_config raw))"
  "cfg_mode (parse_error_sampler_config raw) = RateLimitedMode"
  "cfg_extra_sample_rate (parse_error_sampler_config raw) = f_one"
  by (auto simp: parse_error_sampler_config_def default_config_def split: option.splits)

lemma peer_tag_keys_sorted:
  "peer_tag_keys m = Inr keys \<Longrightarrow> sorted_wrt str_le keys \<and> distinct keys"
  using mset_eq_imp_distinct_iff [OF mset_sort_by]
  by (auto simp: peer_tag_keys_def sorted_sort_by split: sum.splits)

lemma parse_unsigned_le: "parse_unsigned hi s = Some n \<Longrightarrow> n \<le> hi"
  by (auto simp: parse_unsigned_def Let_def split: if_splits)

lemma additional_tags_clean: "t \<in> set (additional_tags_from s) \<Longrightarrow> t \<noteq> []"
  by (simp add: additional_tags_from_def)

definition wf_config :: "'o config_deps \<Rightarrow> string \<Rightarrow> 'o trace_config \<Rightarrow> bool" where
  "wf_config D key c \<longleftrightarrow>
     tc_dd_apm_receiver_port c < 2 ^ 16 \<and> tc_dd_dogstatsd_port c < 2 ^ 16 \<and>
     (\<forall>e\<in>{tc_trace_intake c, tc_trace_stats_intake c, tc_dsm_intake c, tc_profiling_intake c}.
        ep_api_key e = Some key \<and> cd_uri_ok D (ep_url e)) \<and>
     wf_tags (tc_tags c) \<and> sorted_wrt str_le (tc_peer_tags c) \<and> distinct (tc_peer_tags c) \<and>
     [] \<notin> set (tc_additional_metric_tags c) \<and>
     (\<not> tc_experimental_features_enabled c \<longrightarrow>
        tc_additional_metric_tags c = [] \<and> tc_additional_metric_tags_cardinality_limit c = None) \<and>
     is_finite (cfg_target_tps (tc_error_sampler c)) \<and> cfg_extra_sample_rate (tc_error_sampler c) = f_one"

lemma built_config_wf:
  assumes "trace_config_new D env = Ret (Inr c)"
  shows "\<exists>key. env ''DD_API_KEY'' = Some key \<and> wf_config D key c"
proof -
  define urls where "urls = intake_urls D env (env_or env ''DD_SITE'' ''datadoghq.com'')"
  obtain key app et ob keys where e: "env ''DD_API_KEY'' = Some key" "urls_ok D urls"
    "peer_tag_keys (cd_mappings D) = Inr keys" "c = config_record D env key app et ob urls keys"
    using assms by (auto simp: trace_config_new_def Let_def urls_def [symmetric] split: option.splits sum.splits if_splits)
  have port: "env_port env var d < 65536" if "d < 65536" for var d
    using that by (auto simp: env_port_def parse_u16_def bind_eq_Some_conv dest!: parse_unsigned_le split: option.splits)
  have tags: "wf_tags (case env ''DD_TAGS'' of Some s \<Rightarrow> tags_from_env_string s | None \<Rightarrow> tags_new)"
    using tags_from_env_wf by (auto simp: tags_new_def wf_tags_def split: option.splits)
  have "[] \<notin> set (additional_metric_tags env x)" for x
    using additional_tags_clean [of "[]"] unfolding additional_metric_tags_def
    by (cases "env ''DD_TRACE_STATS_ADDITIONAL_TAGS''"; cases x; simp; blast)
  moreover have "additional_metric_tags env False = []" "additional_tags_limit env False = None"
    by (simp_all add: additional_metric_tags_def additional_tags_limit_def)
  ultimately have "wf_config D key c"
    using port tags peer_tag_keys_sorted [OF e(3)] e(2)
    unfolding wf_config_def e(4) config_record_def
    by (cases urls) (simp add: Let_def urls_ok_def mk_endpoint_def error_sampler_config_finite
        DEFAULT_APM_RECEIVER_PORT_def DEFAULT_DOGSTATSD_PORT_def)
  then show ?thesis using e(1) by blast
qed

text \<open>
  Whatever the environment says, a configuration that is built is well formed: the ports fit
  16 bits, the four intakes carry the API key and valid URIs, the tags can be printed and parsed
  back, the peer tags are sorted without repetition, the experimental settings are empty unless
  enabled, and the error budget is a finite number.
\<close>

theorem trace_config_wf:
  assumes "trace_config_new D env = Ret (Inr c)"
  shows "\<exists>key. env ''DD_API_KEY'' = Some key \<and> wf_config D key c"
  by (rule built_config_wf [OF assms])

theorem trace_config_wf_witness:
  "\<exists>c. trace_config_new \<lparr>cd_read_cloud_env = Some (''app'', AzureFunction), cd_trace_intake_url = (\<lambda>s. s),
       cd_trace_stats_url = (\<lambda>s. s), cd_trace_intake_url_prefixed = (\<lambda>s. s), cd_trace_stats_url_prefixed = (\<lambda>s. s),
       cd_obfuscation = Inr (), cd_mappings = Inr [], cd_uri_ok = (\<lambda>u. True), cd_os = ''linux'', cd_pipes = False\<rparr>
       [''DD_API_KEY'' \<mapsto> ''k''] = Ret (Inr c) \<and> tc_dd_dogstatsd_port c < 2 ^ 16"
proof -
  let ?D = "\<lparr>cd_read_cloud_env = Some (''app'', AzureFunction), cd_trace_intake_url = (\<lambda>s. s),
       cd_trace_stats_url = (\<lambda>s. s), cd_trace_intake_url_prefixed = (\<lambda>s. s), cd_trace_stats_url_prefixed = (\<lambda>s. s),
       cd_obfuscation = Inr (), cd_mappings = Inr [], cd_uri_ok = (\<lambda>u. True), cd_os = ''linux'', cd_pipes = False\<rparr>"
  obtain c where c: "trace_config_new ?D [''DD_API_KEY'' \<mapsto> ''k''] = Ret (Inr c)"
    by (simp add: trace_config_new_def Let_def urls_ok_def peer_tag_keys_def split_beta)
  show ?thesis using trace_config_wf [OF c] c by (auto simp: wf_config_def)
qed

end
