(* ===== verification/Trace_Http.thy ===== *)
theory Trace_Http
  imports Trace_Config Http
begin

text \<open>
  The crate \<^verbatim>\<open>datadog-trace-agent\<close>: the request checks and responses of \<^verbatim>\<open>http_utils.rs\<close>.

  A header map is the list of its headers, the names in lower case; \<open>to_str\<close> is the parameter that
  reads a header value as text, if it is text. A response is its status and what its JSON body holds.
\<close>

type_synonym headers = "(string \<times> string) list"

datatype trace_body = Message string | RateByService | NoBody

type_synonym trace_response = "nat \<times> trace_body"

definition log_and_create_http_response :: "string \<Rightarrow> nat \<Rightarrow> trace_response" where
  "log_and_create_http_response message status = (status, Message message)"

definition log_and_create_traces_success_http_response :: "string \<Rightarrow> nat \<Rightarrow> trace_response" where
  "log_and_create_traces_success_http_response message status = (status, RateByService)"

definition verify_request_content_length ::
  "(string \<Rightarrow> string option) \<Rightarrow> headers \<Rightarrow> nat \<Rightarrow> string \<Rightarrow> trace_response option" where
  "verify_request_content_length to_str header_map max_content_length prefix =
     (case map_of header_map ''content-length'' of
        None \<Rightarrow>
          (case map_of header_map ''transfer-encoding'' of
             Some _ \<Rightarrow> None
           | None \<Rightarrow> Some (log_and_create_http_response
               (prefix @ '': Missing Content-Length and Transfer-Encoding header'') 411))
      | Some content_length_header \<Rightarrow>
          (case to_str content_length_header of
             None \<Rightarrow> Some (log_and_create_http_response (prefix @ '': Invalid Content-Length header'') 400)
           | Some header_as_string \<Rightarrow>
               (case parse_unsigned usize_max header_as_string of
                  None \<Rightarrow> Some (log_and_create_http_response (prefix @ '': Invalid Content-Length header'') 400)
                | Some content_length \<Rightarrow>
                    if content_length > max_content_length
                    then Some (log_and_create_http_response (prefix @ '': Payload too large'') 413)
                    else None)))"

text \<open>
  A request passes the check exactly when it declares a length that parses and is within the
  limit, or declares none but is chunked; otherwise the answer is 411, 400 or 413 accordingly.
\<close>

theorem content_length_check:
  "map_option fst (verify_request_content_length to_str hs limit prefix) =
     (case map_of hs ''content-length'' of
        None \<Rightarrow> if map_of hs ''transfer-encoding'' = None then Some 411 else None
      | Some v \<Rightarrow>
          (case Option.bind (to_str v) (parse_unsigned usize_max) of
             None \<Rightarrow> Some 400 | Some n \<Rightarrow> if n \<le> limit then None else Some 413))"
  by (simp add: verify_request_content_length_def log_and_create_http_response_def split: option.splits)

end
