(* ===== verification/Trace_Aggregator.thy ===== *)
theory Trace_Aggregator
  imports Interfaces
begin

text \<open>
  The crate \<^verbatim>\<open>datadog-trace-agent\<close>: \<^verbatim>\<open>aggregator.rs\<close> (the queue of payloads waiting to be sent) and
  the collecting and flushing of \<^verbatim>\<open>trace_flusher.rs\<close>. The payloads are opaque, with their size given
  by \<open>len\<close>; sending them is the parameter \<open>coalesce\<close> of the flusher.
\<close>

section \<open>The aggregator\<close>

definition MAX_CONTENT_SIZE_BYTES :: nat where "MAX_CONTENT_SIZE_BYTES = (32 * 1024 * 1024) div 10"

record 'd trace_agg =
  ta_queue :: "'d list"
  ta_max_content_size_bytes :: nat
  ta_buffer :: "'d list"

definition trace_agg_new :: "nat \<Rightarrow> 'd trace_agg" where
  "trace_agg_new max_content_size_bytes =
     \<lparr>ta_queue = [], ta_max_content_size_bytes = max_content_size_bytes, ta_buffer = []\<rparr>"

definition trace_agg_default :: "'d trace_agg" where
  "trace_agg_default = trace_agg_new MAX_CONTENT_SIZE_BYTES"

definition trace_add :: "'d \<Rightarrow> 'd trace_agg \<Rightarrow> 'd trace_agg" where
  "trace_add p a = a\<lparr>ta_queue := ta_queue a @ [p]\<rparr>"

text \<open>The loop that fills the batch: the queue and the buffer after it.\<close>

fun fill_loop :: "('d \<Rightarrow> nat) \<Rightarrow> nat \<Rightarrow> 'd list \<Rightarrow> 'd list \<Rightarrow> nat \<Rightarrow> 'd list \<times> 'd list" where
  "fill_loop len limit [] buffer batch_size = ([], buffer)"
| "fill_loop len limit (payload # queue) buffer batch_size =
     (if batch_size < limit
      then
        let payload_size = len payload in
        if batch_size + payload_size > limit
        then (if buffer = [] then (queue, buffer @ [payload]) else (payload # queue, buffer))
        else fill_loop len limit queue (buffer @ [payload]) (batch_size + payload_size)
      else (payload # queue, buffer))"

definition trace_get_batch :: "('d \<Rightarrow> nat) \<Rightarrow> 'd trace_agg \<Rightarrow> 'd list \<times> 'd trace_agg" where
  "trace_get_batch len a =
     (let (queue, buffer) = fill_loop len (ta_max_content_size_bytes a) (ta_queue a) (ta_buffer a) 0
      in (buffer, a\<lparr>ta_queue := queue, ta_buffer := []\<rparr>))"

section \<open>The flusher\<close>

text \<open>One round of the loop of \<open>flush\<close>: a batch that is not empty.\<close>

definition trace_next :: "('d \<Rightarrow> nat) \<Rightarrow> 'd trace_agg \<Rightarrow> ('d list \<times> 'd trace_agg) option" where
  "trace_next len a =
     (case trace_get_batch len a of (batch, a') \<Rightarrow> if batch = [] then None else Some (batch, a'))"

text \<open>
  \<open>send\<close>: the requests made for a batch, none when the client cannot be built (\<open>client_ok\<close>).
  \<open>coalesce\<close> merges the payloads of a batch.
\<close>

definition trace_send :: "('d list \<Rightarrow> 'd list) \<Rightarrow> bool \<Rightarrow> 'd list \<Rightarrow> 'd list" where
  "trace_send coalesce client_ok traces =
     (if traces = [] then [] else if client_ok then coalesce traces else [])"

text \<open>
  \<open>flush\<close>: the requests made, in order, and the aggregator after it; \<open>None\<close> if the loop never ends.
  \<open>client_ok i\<close>: whether the client for the i-th batch can be built.
\<close>

definition trace_flush ::
  "('d \<Rightarrow> nat) \<Rightarrow> ('d list \<Rightarrow> 'd list) \<Rightarrow> (nat \<Rightarrow> bool) \<Rightarrow> 'd trace_agg \<Rightarrow> ('d list \<times> 'd trace_agg) option" where
  "trace_flush len coalesce client_ok a =
     Option.bind (drain (trace_next len) a) (\<lambda>(batches, a').
       Some (concat (map (\<lambda>(i, b). trace_send coalesce (client_ok i) b) (enumerate 0 batches)),
             snd (trace_get_batch len a')))"

section \<open>Batches\<close>

definition trace_inv :: "'d trace_agg \<Rightarrow> bool" where
  "trace_inv a \<longleftrightarrow> 0 < ta_max_content_size_bytes a \<and> ta_buffer a = []"

definition size_sum :: "('d \<Rightarrow> nat) \<Rightarrow> 'd list \<Rightarrow> nat" where
  "size_sum len xs = sum_list (map len xs)"

text \<open>
  The loop moves a prefix of the queue to the buffer; what it has moved is within the limit, or it
  is one payload that alone is over it; and it stops before the end of the queue only when the
  batch is full or the next payload does not fit.
\<close>

lemma fill_loop_correct:
  assumes "fill_loop len limit queue buffer (size_sum len buffer) = (queue', buffer')"
    and "size_sum len buffer \<le> limit" "0 < limit"
  shows "\<exists>took. queue = took @ queue' \<and> buffer' = buffer @ took \<and>
    (size_sum len buffer' \<le> limit \<or> (\<exists>p. buffer' = [p])) \<and>
    (queue' \<noteq> [] \<longrightarrow> size_sum len buffer' \<ge> limit \<or> size_sum len (buffer' @ [hd queue']) > limit) \<and>
    (queue \<noteq> [] \<longrightarrow> buffer' \<noteq> [])"
  using assms
proof (induction queue arbitrary: buffer)
  case (Cons p queue)
  have sum: "size_sum len (buffer @ [p]) = size_sum len buffer + len p" by (simp add: size_sum_def)
  show ?case
  proof (cases "size_sum len buffer < limit \<and> size_sum len buffer + len p \<le> limit")
    case True
    then have "fill_loop len limit queue (buffer @ [p]) (size_sum len (buffer @ [p])) = (queue', buffer')"
      using Cons.prems(1) sum by (simp add: Let_def)
    moreover have "size_sum len (buffer @ [p]) \<le> limit" using True sum by simp
    ultimately obtain took where "queue = took @ queue'" "buffer' = (buffer @ [p]) @ took"
      "size_sum len buffer' \<le> limit \<or> (\<exists>p. buffer' = [p])"
      "queue' \<noteq> [] \<longrightarrow> size_sum len buffer' \<ge> limit \<or> size_sum len (buffer' @ [hd queue']) > limit"
      using Cons.IH Cons.prems(3) by blast
    then show ?thesis by (intro exI [of _ "p # took"]) simp
  next
    case False
    show ?thesis
    proof (cases "buffer = []")
      case True
      then have "queue' = queue" "buffer' = [p]" "len p > limit"
        using False Cons.prems by (auto simp: size_sum_def)
      then show ?thesis using True by (intro exI [of _ "[p]"]) (auto simp: size_sum_def)
    next
      case ne: False
      then have "queue' = p # queue" "buffer' = buffer" using False Cons.prems(1) by (auto simp: Let_def split: if_splits)
      then show ?thesis using False ne Cons.prems(2) sum by (intro exI [of _ "[]"]) auto
    qed
  qed
qed auto

definition batch_ok :: "('d \<Rightarrow> nat) \<Rightarrow> nat \<Rightarrow> 'd list \<Rightarrow> bool" where
  "batch_ok len limit b \<longleftrightarrow> size_sum len b \<le> limit \<or> (\<exists>p. b = [p])"

lemma get_batch_facts:
  assumes "trace_inv a" "trace_get_batch len a = (b, a')"
  shows "ta_queue a = b @ ta_queue a'" "batch_ok len (ta_max_content_size_bytes a) b" "trace_inv a'"
    "ta_max_content_size_bytes a' = ta_max_content_size_bytes a" "b = [] \<longleftrightarrow> ta_queue a = []"
    "ta_queue a' \<noteq> [] \<longrightarrow> size_sum len b \<ge> ta_max_content_size_bytes a \<or>
       size_sum len (b @ [hd (ta_queue a')]) > ta_max_content_size_bytes a"
proof -
  obtain q bf where f: "fill_loop len (ta_max_content_size_bytes a) (ta_queue a) [] (size_sum len []) = (q, bf)" by fastforce
  then have eq: "b = bf" "a' = a\<lparr>ta_queue := q, ta_buffer := []\<rparr>"
    using assms by (auto simp: trace_get_batch_def trace_inv_def size_sum_def)
  have "size_sum len [] \<le> ta_max_content_size_bytes a" "0 < ta_max_content_size_bytes a"
    using assms(1) by (simp_all add: trace_inv_def size_sum_def)
  from fill_loop_correct [OF f this] obtain took where t: "ta_queue a = took @ q" "bf = [] @ took"
    "size_sum len bf \<le> ta_max_content_size_bytes a \<or> (\<exists>p. bf = [p])"
    "q \<noteq> [] \<longrightarrow> size_sum len bf \<ge> ta_max_content_size_bytes a \<or> size_sum len (bf @ [hd q]) > ta_max_content_size_bytes a"
    "ta_queue a \<noteq> [] \<longrightarrow> bf \<noteq> []"
    by blast
  then show "ta_queue a = b @ ta_queue a'" "batch_ok len (ta_max_content_size_bytes a) b" "trace_inv a'"
    "ta_max_content_size_bytes a' = ta_max_content_size_bytes a" "b = [] \<longleftrightarrow> ta_queue a = []"
    "ta_queue a' \<noteq> [] \<longrightarrow> size_sum len b \<ge> ta_max_content_size_bytes a \<or>
       size_sum len (b @ [hd (ta_queue a')]) > ta_max_content_size_bytes a"
    using eq assms(1) by (auto simp: batch_ok_def trace_inv_def)
qed

interpretation tq: batch_queue "trace_next len" ta_queue "\<lambda>b xs. b = xs \<and> batch_ok len limit b"
    "\<lambda>a. trace_inv a \<and> ta_max_content_size_bytes a = limit" for len limit
proof
  fix s :: "'a trace_agg"
  assume s: "trace_inv s \<and> ta_max_content_size_bytes s = limit"
  obtain b s' where g: "trace_get_batch len s = (b, s')" by fastforce
  note facts = get_batch_facts [OF conjunct1 [OF s] g]
  show "trace_next len s = None \<longleftrightarrow> ta_queue s = []" using facts(5) g by (simp add: trace_next_def)
  have n: "b = c \<and> s' = t \<and> c \<noteq> []" if "trace_next len s = Some (c, t)" for c t
    using that g by (simp add: trace_next_def split: if_splits)
  show "\<exists>xs. xs \<noteq> [] \<and> (c = xs \<and> batch_ok len limit c) \<and> ta_queue s = xs @ ta_queue t"
    if "trace_next len s = Some (c, t)" for c t
    using n [OF that] facts(1,2) s by simp
  show "trace_inv t \<and> ta_max_content_size_bytes t = limit" if "trace_next len s = Some (c, t)" for c t
    using n [OF that] facts(3,4) s by simp
qed

text \<open>
  C17. Flushing the traces ends and empties the queue: every payload that was added is in exactly
  one batch, in the order of arrival, no batch is empty, and a batch exceeds the size limit only
  when it is a single payload that alone exceeds it.
\<close>

theorem trace_batches_complete:
  assumes "0 < limit"
  shows "\<exists>batches. drain (trace_next len) (fold trace_add payloads (trace_agg_new limit)) =
      Some (batches, trace_agg_new limit) \<and>
    concat batches = payloads \<and> (\<forall>b\<in>set batches. b \<noteq> [] \<and> batch_ok len limit b)"
proof -
  let ?a = "fold trace_add payloads (trace_agg_new limit)"
  have q: "fold trace_add payloads a = a\<lparr>ta_queue := ta_queue a @ payloads\<rparr>" for a :: "'a trace_agg"
    by (induction payloads arbitrary: a) (simp_all add: trace_add_def)
  have inv: "trace_inv ?a \<and> ta_max_content_size_bytes ?a = limit"
    using assms by (simp add: q trace_inv_def trace_agg_new_def)
  obtain bs s' xss where d: "drain (trace_next len) ?a = Some (bs, s')"
    "list_all2 (\<lambda>b xs. b = xs \<and> batch_ok len limit b) bs xss" "concat xss = ta_queue ?a" "[] \<notin> set xss"
    "ta_queue s' = []" "trace_inv s' \<and> ta_max_content_size_bytes s' = limit"
    using tq.drain_all [OF inv] by blast
  have "bs = xss \<and> (\<forall>b\<in>set bs. batch_ok len limit b)"
    using d(2) by (induction rule: list_all2_induct) auto
  moreover have "s' = trace_agg_new limit" using d(5,6) by (simp add: trace_inv_def trace_agg_new_def)
  ultimately show ?thesis using d(1,3,4) by (auto simp: q trace_agg_new_def)
qed

theorem trace_batches_complete_witness:
  "\<exists>batches. drain (trace_next (\<lambda>n :: nat. n)) (fold trace_add [3, 9, 1, 2] (trace_agg_new 5)) =
      Some (batches, trace_agg_new 5) \<and> concat batches = [3, 9, 1, 2]"
  using trace_batches_complete [of 5 "\<lambda>n :: nat. n" "[3, 9, 1, 2]"] by auto

text \<open>
  With a limit of zero no batch is ever formed: the first round ends the flush with the queue as
  it was.
\<close>

lemma trace_limit_zero: "trace_get_batch len (trace_agg_new 0\<lparr>ta_queue := q\<rparr>) = ([], trace_agg_new 0\<lparr>ta_queue := q\<rparr>)"
  by (cases q) (simp_all add: trace_get_batch_def trace_agg_new_def)

lemma trace_flush_all:
  assumes "trace_inv a" "\<And>i. client_ok i"
  shows "\<exists>batches. trace_flush len coalesce client_ok a = Some (concat (map coalesce batches), a\<lparr>ta_queue := []\<rparr>) \<and>
    concat batches = ta_queue a \<and> (\<forall>b\<in>set batches. b \<noteq> [] \<and> batch_ok len (ta_max_content_size_bytes a) b)"
proof -
  obtain bs s' xss where d: "drain (trace_next len) a = Some (bs, s')"
    "list_all2 (\<lambda>b xs. b = xs \<and> batch_ok len (ta_max_content_size_bytes a) b) bs xss" "concat xss = ta_queue a" "[] \<notin> set xss"
    "ta_queue s' = []" "trace_inv s' \<and> ta_max_content_size_bytes s' = ta_max_content_size_bytes a"
    using tq.drain_all [of a "ta_max_content_size_bytes a" len] assms(1) by blast
  have bs: "bs = xss" "\<forall>b\<in>set bs. batch_ok len (ta_max_content_size_bytes a) b"
    using d(2) by (induction rule: list_all2_induct) auto
  have "concat (map (\<lambda>(i, b). trace_send coalesce (client_ok i) b) (enumerate k bs)) = concat (map coalesce bs)"
    if "[] \<notin> set bs" for k
    using that assms(2) by (induction bs arbitrary: k) (auto simp: trace_send_def)
  moreover have "snd (trace_get_batch len s') = a\<lparr>ta_queue := []\<rparr>"
    using d(5,6) assms(1) by (simp add: trace_get_batch_def trace_inv_def)
  ultimately show ?thesis using d bs by (auto simp: trace_flush_def)
qed

end
