(* ===== verification/Trace_Processor.thy ===== *)
theory Trace_Processor
  imports Trace_Http Trace_Aggregator
begin

text \<open>
  The crate \<^verbatim>\<open>datadog-trace-agent\<close>: \<^verbatim>\<open>trace_processor.rs\<close>, from a request to the payloads queued for
  the flusher: chunk processing, error rescue, splitting of oversized payloads, and the tasks that
  hand the pieces to the flusher.

  Of the protobuf messages the fields the code uses are modelled, the others are in \<open>'x\<close>. The
  functions of \<^verbatim>\<open>libdatadog\<close> are the parameters of the record \<open>trace_deps\<close>. Indexing out of range
  is \<open>Panic\<close>.
\<close>

section \<open>Payloads\<close>

record 'x pb_span =
  ps_service :: string
  ps_name :: string
  ps_resource :: string
  ps_trace_id :: u64
  ps_error :: int
  ps_meta :: "string \<rightharpoonup> string"
  ps_metrics :: "string \<rightharpoonup> fl"
  ps_other :: 'x

record 'x pb_chunk =
  ch_priority :: int
  ch_tags :: "string \<rightharpoonup> string"
  ch_spans :: "'x pb_span list"
  ch_other :: 'x

record 'x tracer_payload =
  tp_env :: string
  tp_language_name :: string
  tp_tracer_version :: string
  tp_app_version :: string
  tp_container_id :: string
  tp_tags :: "string \<rightharpoonup> string"
  tp_chunks :: "'x pb_chunk list"
  tp_other :: 'x

datatype 'x payload = V04 'x | V05 'x | V07 "'x tracer_payload list" | V1 'x

text \<open>
  \<open>td_root_index\<close>: \<open>get_root_span_index\<close>; \<open>td_collect\<close>: \<open>collect_pb_trace_chunks\<close>, which calls the
  chunk processor; \<open>'m\<close>: the metadata of the mini agent; \<open>'t\<close>: traces as deserialized.
\<close>

record ('x, 'm, 't) trace_deps =
  td_encoded_len :: "'x tracer_payload \<Rightarrow> nat"
  td_root_index :: "'x pb_span list \<Rightarrow> nat option"
  td_set_root_tags :: "string option \<Rightarrow> env_type \<Rightarrow> 'x pb_span \<Rightarrow> 'x pb_span"
  td_enrich_metadata :: "'m \<Rightarrow> 'x pb_span \<Rightarrow> 'x pb_span"
  td_enrich_azure :: "'x pb_span \<Rightarrow> 'x pb_span"
  td_enrich_gcf :: "'m \<Rightarrow> string option \<Rightarrow> 'x pb_span \<Rightarrow> 'x pb_span"
  td_obfuscate :: "'x pb_span \<Rightarrow> 'x pb_span"
  td_get_traces :: "string \<Rightarrow> string + (nat \<times> 't)"
  td_collect :: "'t \<Rightarrow> headers \<Rightarrow> ('x pb_chunk \<Rightarrow> nat \<Rightarrow> 'x pb_chunk rust) \<Rightarrow> (string + 'x payload) rust"
  td_to_str :: "string \<Rightarrow> string option"

section \<open>Splitting\<close>

text \<open>\<open>enc\<close>: the encoded size of a payload.\<close>

function split_tracer_payload :: "('x tracer_payload \<Rightarrow> nat) \<Rightarrow> nat \<Rightarrow> 'x tracer_payload \<Rightarrow> 'x tracer_payload list" where
  "split_tracer_payload enc max_size tp =
     (if enc tp \<le> max_size then [tp]
      else if length (tp_chunks tp) > 1
      then
        let mid = length (tp_chunks tp) div 2
        in split_tracer_payload enc max_size (tp\<lparr>tp_chunks := take mid (tp_chunks tp)\<rparr>) @
           split_tracer_payload enc max_size (tp\<lparr>tp_chunks := drop mid (tp_chunks tp)\<rparr>)
      else [tp])"
  by pat_completeness auto
termination
  by (relation "measure (\<lambda>(enc, max_size, tp). length (tp_chunks tp))") auto

declare split_tracer_payload.simps [simp del]

definition split_oversized_payloads ::
  "('x tracer_payload \<Rightarrow> nat) \<Rightarrow> 'x tracer_payload list \<Rightarrow> nat \<Rightarrow> 'x tracer_payload list" where
  "split_oversized_payloads enc payloads max_size = concat (map (split_tracer_payload enc max_size) payloads)"

definition encoded_size :: "('x tracer_payload \<Rightarrow> nat) \<Rightarrow> 'x tracer_payload list \<Rightarrow> nat" where
  "encoded_size enc payloads = sum_list (map enc payloads)"

section \<open>Processing a chunk\<close>

definition DECISION_MAKER_KEY :: string where "DECISION_MAKER_KEY = ''_dd.p.dm''"
definition MANUAL_DECISION_MAKER :: string where "MANUAL_DECISION_MAKER = ''-4''"
definition ERRORS_SR_METRIC_KEY :: string where "ERRORS_SR_METRIC_KEY = ''_dd.errors_sr''"
definition FUNCTION_TAGS_KEY :: string where "FUNCTION_TAGS_KEY = ''_dd.tags.function''"

fun find_map :: "('a \<Rightarrow> 'b option) \<Rightarrow> 'a list \<Rightarrow> 'b option" where
  "find_map f [] = None"
| "find_map f (x # xs) = (case f x of Some y \<Rightarrow> Some y | None \<Rightarrow> find_map f xs)"

definition promote_decision_maker :: "'x pb_chunk \<Rightarrow> 'x pb_chunk" where
  "promote_decision_maker chunk =
     (if ch_tags chunk DECISION_MAKER_KEY = None
      then (case find_map (\<lambda>sp. ps_meta sp DECISION_MAKER_KEY) (ch_spans chunk) of
              Some v \<Rightarrow> chunk\<lparr>ch_tags := (ch_tags chunk)(DECISION_MAKER_KEY \<mapsto> v)\<rparr>
            | None \<Rightarrow> chunk)
      else chunk)"

definition process_span :: "('x, 'm, 't) trace_deps \<Rightarrow> 'o trace_config \<Rightarrow> 'm \<Rightarrow> 'x pb_span \<Rightarrow> 'x pb_span" where
  "process_span D c metadata sp =
     (let sp = td_enrich_metadata D metadata sp;
          sp = td_enrich_azure D sp;
          sp = (if tc_env_type c = CloudFunction then td_enrich_gcf D metadata (tc_app_name c) sp else sp)
      in td_obfuscate D sp)"

definition process_chunk ::
  "('x, 'm, 't) trace_deps \<Rightarrow> 'o trace_config \<Rightarrow> 'm \<Rightarrow> 'x pb_chunk \<Rightarrow> nat \<Rightarrow> 'x pb_chunk rust" where
  "process_chunk D c metadata chunk root_span_index =
     (let chunk = promote_decision_maker chunk;
          spans = ch_spans chunk
      in if root_span_index \<ge> length spans then Panic
         else
           let spans = spans[root_span_index :=
                 td_set_root_tags D (tc_app_name c) (tc_env_type c) (spans ! root_span_index)]
           in Ret (chunk\<lparr>ch_spans := map (process_span D c metadata) spans\<rparr>))"

section \<open>Error rescue\<close>

record rescue_state =
  rs_sampler :: errors_sampler
  rs_last_sampler_timestamp :: int

definition rescue_new :: "error_sampler_config \<Rightarrow> rescue_state" where
  "rescue_new config = \<lparr>rs_sampler = errors_sampler_new config, rs_last_sampler_timestamp = i64_min\<rparr>"

definition clamp_timestamp :: "int \<Rightarrow> rescue_state \<Rightarrow> int \<times> rescue_state" where
  "clamp_timestamp now_unix_secs s =
     (let t = max (rs_last_sampler_timestamp s) now_unix_secs
      in (t, s\<lparr>rs_last_sampler_timestamp := t\<rparr>))"

definition MAX_IN_FLIGHT_ENQUEUES :: nat where "MAX_IN_FLIGHT_ENQUEUES = 10"

record trace_processor =
  tpr_enqueue_permits :: nat
  tpr_error_rescue_state :: rescue_state
  tpr_error_rescue_enabled :: bool

definition trace_processor_new :: "'o trace_config \<Rightarrow> trace_processor" where
  "trace_processor_new c =
     (let s = rescue_new (tc_error_sampler c)
      in \<lparr>tpr_enqueue_permits = MAX_IN_FLIGHT_ENQUEUES, tpr_error_rescue_state = s,
          tpr_error_rescue_enabled = (\<not> is_disabled (rs_sampler s))\<rparr>)"

definition span_view_of :: "'x pb_span \<Rightarrow> span_view" where
  "span_view_of sp =
     \<lparr>sp_service = ps_service sp, sp_name = ps_name sp, sp_resource = ps_resource sp,
      sp_error = (ps_error sp \<noteq> 0), sp_http_status_code = ps_meta sp ''http.status_code'',
      sp_error_type = ps_meta sp ''error.type''\<rparr>"

definition rescue_root_index :: "('x pb_span list \<Rightarrow> nat option) \<Rightarrow> 'x pb_chunk \<Rightarrow> bool \<Rightarrow> nat option" where
  "rescue_root_index root_of chunk tracer_drop_enabled =
     (let pr = ch_priority chunk;
          eligible =
            (if pr = 0 then True
             else if pr = -128 then False
             else if pr = -1 then tracer_drop_enabled \<and> ch_tags chunk DECISION_MAKER_KEY \<noteq> Some MANUAL_DECISION_MAKER
             else tracer_drop_enabled \<and> pr < 0)
      in if \<not> eligible then None
         else if \<not> list_ex (\<lambda>sp. ps_error sp \<noteq> 0) (ch_spans chunk) then None
         else root_of (ch_spans chunk))"

type_synonym candidate = "nat \<times> nat \<times> string \<times> nat \<times> span_view list"

definition rescue_candidates ::
  "('x pb_span list \<Rightarrow> nat option) \<Rightarrow> 'o trace_config \<Rightarrow> 'x tracer_payload list \<Rightarrow> candidate list" where
  "rescue_candidates root_of c tps =
     concat (map (\<lambda>(px, tp).
       List.map_filter (\<lambda>(ci, chunk).
         map_option (\<lambda>ri. (px, ci, resolve_payload_env (tp_env tp) (tc_env c), ri, map span_view_of (ch_spans chunk)))
           (rescue_root_index root_of chunk (tc_error_rare_sample_tracer_drop c)))
         (enumerate 0 (tp_chunks tp)))
       (enumerate 0 tps))"

definition root_trace_view :: "'x pb_span \<Rightarrow> string \<Rightarrow> nat \<Rightarrow> span_view list \<Rightarrow> trace_view" where
  "root_trace_view root_span env ri views =
     \<lparr>tr_env = env, tr_trace_id = ps_trace_id root_span, tr_root_index = ri,
      tr_root_global_sample_rate = (case ps_metrics root_span ''_sample_rate'' of Some r \<Rightarrow> r | None \<Rightarrow> f_one),
      tr_spans = views\<rparr>"

text \<open>The sampling of the candidates under the lock: those kept, and the sampler after it.\<close>

fun sample_candidates ::
  "int \<Rightarrow> 'x tracer_payload list \<Rightarrow> candidate list \<Rightarrow> errors_sampler \<Rightarrow>
   ((nat \<times> nat \<times> nat \<times> fl) list \<times> errors_sampler) rust" where
  "sample_candidates now tps [] s = Ret ([], s)"
| "sample_candidates now tps ((px, ci, env, ri, views) # cands) s =
     (let spans = ch_spans (tp_chunks (tps ! px) ! ci) in
      if ri \<ge> length spans then Panic
      else
        (case sample now (root_trace_view (spans ! ri) env ri views) s of
           (d, s') \<Rightarrow>
             bind_rust (sample_candidates now tps cands s') (\<lambda>(kept, s'').
               Ret (case d of Keep errors_sr \<Rightarrow> (px, ci, ri, errors_sr) # kept | Drop \<Rightarrow> kept, s''))))"

definition stamp_span :: "fl \<Rightarrow> 'x pb_span \<Rightarrow> 'x pb_span" where
  "stamp_span errors_sr sp = sp\<lparr>ps_metrics := (ps_metrics sp)(ERRORS_SR_METRIC_KEY \<mapsto> errors_sr)\<rparr>"

definition stamp_root :: "nat \<times> nat \<times> nat \<times> fl \<Rightarrow> 'x tracer_payload list \<Rightarrow> 'x tracer_payload list" where
  "stamp_root k tps =
     (case k of (px, ci, ri, errors_sr) \<Rightarrow>
        let tp = tps ! px; chunk = tp_chunks tp ! ci; spans = ch_spans chunk
        in tps[px := tp\<lparr>tp_chunks := (tp_chunks tp)[ci := chunk\<lparr>ch_spans := spans[ri := stamp_span errors_sr (spans ! ri)]\<rparr>]\<rparr>])"

definition apply_error_rescue ::
  "('x, 'm, 't) trace_deps \<Rightarrow> 'o trace_config \<Rightarrow> int \<Rightarrow> 'x payload \<Rightarrow> trace_processor \<Rightarrow>
   ('x payload \<times> trace_processor) rust" where
  "apply_error_rescue D c clock payload p =
     (case payload of
        V07 tps \<Rightarrow>
          if \<not> tpr_error_rescue_enabled p then Ret (payload, p)
          else
            let cands = rescue_candidates (td_root_index D) c tps
            in if cands = [] then Ret (payload, p)
               else
                 let (now, s) = clamp_timestamp clock (tpr_error_rescue_state p)
                 in bind_rust (sample_candidates now tps cands (rs_sampler s)) (\<lambda>(kept, sampler').
                      Ret (V07 (fold stamp_root kept tps),
                           p\<lparr>tpr_error_rescue_state := s\<lparr>rs_sampler := sampler'\<rparr>\<rparr>))
      | _ \<Rightarrow> Ret (payload, p))"

section \<open>Stats submission\<close>

record tracer_metadata =
  tm_tracer_language :: string
  tm_tracer_version :: string
  tm_service_name :: "string option"
  tm_service_env :: "string option"
  tm_service_version :: "string option"
  tm_container_id :: "string option"

text \<open>The service of a payload: the base service of the first root span that has one.\<close>

fun service_of_chunks :: "('x pb_span list \<Rightarrow> nat option) \<Rightarrow> 'x pb_chunk list \<Rightarrow> string option rust" where
  "service_of_chunks root_of [] = Ret None"
| "service_of_chunks root_of (chunk # chunks) =
     (case root_of (ch_spans chunk) of
        None \<Rightarrow> service_of_chunks root_of chunks
      | Some i \<Rightarrow>
          if i \<ge> length (ch_spans chunk) then Panic
          else
            (case ps_meta (ch_spans chunk ! i) ''_dd.base_service'' of
               Some v \<Rightarrow> if v = [] then service_of_chunks root_of chunks else Ret (Some v)
             | None \<Rightarrow> service_of_chunks root_of chunks))"

definition payload_metadata :: "string option \<Rightarrow> 'x tracer_payload \<Rightarrow> tracer_metadata" where
  "payload_metadata service_name tp =
     \<lparr>tm_tracer_language = tp_language_name tp, tm_tracer_version = tp_tracer_version tp,
      tm_service_name = service_name, tm_service_env = Some (tp_env tp),
      tm_service_version = Some (tp_app_version tp), tm_container_id = Some (tp_container_id tp)\<rparr>"

text \<open>What \<open>send_to_concentrator\<close> adds, in order; other versions than V07 are refused.\<close>

fun concentrator_chunks ::
  "('x pb_span list \<Rightarrow> nat option) \<Rightarrow> 'x tracer_payload list \<Rightarrow> ('x pb_chunk \<times> tracer_metadata) list rust" where
  "concentrator_chunks root_of [] = Ret []"
| "concentrator_chunks root_of (tp # tps) =
     bind_rust (service_of_chunks root_of (tp_chunks tp)) (\<lambda>service_name.
       bind_rust (concentrator_chunks root_of tps) (\<lambda>rest.
         Ret (map (\<lambda>chunk. (chunk, payload_metadata service_name tp)) (tp_chunks tp) @ rest)))"

definition send_to_concentrator ::
  "('x pb_span list \<Rightarrow> nat option) \<Rightarrow> 'x payload \<Rightarrow> ('x pb_chunk \<times> tracer_metadata) list rust" where
  "send_to_concentrator root_of payload =
     (case payload of V07 tps \<Rightarrow> concentrator_chunks root_of tps | _ \<Rightarrow> Ret [])"

section \<open>A request\<close>

definition V07_ENVELOPE_OVERHEAD_BYTES :: nat where "V07_ENVELOPE_OVERHEAD_BYTES = 64"

record 'x send_data =
  sd_size :: nat
  sd_payload :: "'x payload"
  sd_headers :: headers
  sd_endpoint :: endpoint

definition payload_pieces :: "('x tracer_payload \<Rightarrow> nat) \<Rightarrow> nat \<Rightarrow> 'x payload \<Rightarrow> ('x payload \<times> nat) list" where
  "payload_pieces enc body_size payload =
     (case payload of
        V07 payloads \<Rightarrow>
          let split_budget = saturating_sub MAX_CONTENT_SIZE_BYTES V07_ENVELOPE_OVERHEAD_BYTES
          in map (\<lambda>tp. (V07 [tp], encoded_size enc [tp] + V07_ENVELOPE_OVERHEAD_BYTES))
               (split_oversized_payloads enc payloads split_budget)
      | other \<Rightarrow> [(other, body_size)])"

definition add_function_tags :: "tags \<Rightarrow> 'x payload \<Rightarrow> 'x payload" where
  "add_function_tags tags payload =
     (case function_tags tags of
        Some ft \<Rightarrow>
          (case payload of
             V07 tps \<Rightarrow> V07 (map (\<lambda>tp. tp\<lparr>tp_tags := (tp_tags tp)(FUNCTION_TAGS_KEY \<mapsto> ft)\<rparr>) tps)
           | other \<Rightarrow> other)
      | None \<Rightarrow> payload)"

record 'x trace_outcome =
  to_response :: trace_response
  to_stats :: "('x pb_chunk \<times> tracer_metadata) list"
  to_sends :: "'x send_data list"

text \<open>
  \<open>process_traces\<close>: \<open>permit\<close> is whether an enqueue permit was acquired in time, \<open>clock\<close> the time read
  by the rescue, \<open>concentrator\<close> whether the processor has a stats concentrator. The pieces are what
  the spawned task hands to the flusher.
\<close>

definition process_traces ::
  "('x, 'm, 't) trace_deps \<Rightarrow> 'o trace_config \<Rightarrow> 'm \<Rightarrow> bool \<Rightarrow> bool \<Rightarrow> int \<Rightarrow> headers \<Rightarrow> string \<Rightarrow> trace_processor \<Rightarrow>
   ('x trace_outcome \<times> trace_processor) rust" where
  "process_traces D c metadata concentrator permit clock hs body p =
     (let reply = (\<lambda>r. Ret (\<lparr>to_response = r, to_stats = [], to_sends = []\<rparr>, p))
      in case verify_request_content_length (td_to_str D) hs (tc_max_request_content_length c) ''Error processing traces'' of
           Some response \<Rightarrow> reply response
         | None \<Rightarrow>
       if \<not> permit
       then reply (log_and_create_traces_success_http_response ''Dropped traces due to enqueue capacity'' 200)
       else
       (case td_get_traces D body of
          Inl err \<Rightarrow> reply (log_and_create_http_response (''Error deserializing trace from request body: '' @ err) 500)
        | Inr (body_size, traces) \<Rightarrow>
       if body_size > tc_max_request_content_length c
       then reply (log_and_create_http_response ''Error processing traces: Payload too large'' 413)
       else
       bind_rust (td_collect D traces hs (process_chunk D c metadata)) (\<lambda>res.
       case res of
         Inl err \<Rightarrow> reply (log_and_create_traces_success_http_response (''Error processing trace chunks: '' @ err) 500)
       | Inr payload \<Rightarrow>
       let payload = add_function_tags (tc_tags c) payload
       in bind_rust
            (if concentrator \<and> tc_agent_stats_computation_enabled c
             then send_to_concentrator (td_root_index D) payload else Ret [])
            (\<lambda>stats.
       bind_rust (apply_error_rescue D c clock payload p) (\<lambda>(payload, p').
       Ret (\<lparr>to_response = log_and_create_traces_success_http_response
                             ''Successfully buffered traces to be flushed.'' 200,
             to_stats = stats,
             to_sends = map (\<lambda>(piece, sz). \<lparr>sd_size = sz, sd_payload = piece, sd_headers = hs,
                                            sd_endpoint = tc_trace_intake c\<rparr>)
                          (payload_pieces (td_encoded_len D) body_size payload)\<rparr>, p'))))))"

section \<open>Splitting keeps the chunks\<close>

definition piece_of :: "('x tracer_payload \<Rightarrow> nat) \<Rightarrow> nat \<Rightarrow> 'x tracer_payload \<Rightarrow> 'x tracer_payload \<Rightarrow> bool" where
  "piece_of enc limit tp q \<longleftrightarrow> q\<lparr>tp_chunks := []\<rparr> = tp\<lparr>tp_chunks := []\<rparr> \<and>
     (enc q \<le> limit \<or> length (tp_chunks q) \<le> 1) \<and> (tp_chunks tp \<noteq> [] \<longrightarrow> tp_chunks q \<noteq> [])"

lemma split_tracer_payload_correct:
  "concat (map tp_chunks (split_tracer_payload enc limit tp)) = tp_chunks tp \<and>
   list_all (piece_of enc limit tp) (split_tracer_payload enc limit tp)"
proof (induction enc limit tp rule: split_tracer_payload.induct)
  case (1 enc limit tp)
  show ?case
  proof (cases "enc tp \<le> limit \<or> length (tp_chunks tp) \<le> 1")
    case True
    then show ?thesis by (subst (1 2) split_tracer_payload.simps) (auto simp: piece_of_def)
  next
    case False
    let ?mid = "length (tp_chunks tp) div 2"
    let ?a = "tp\<lparr>tp_chunks := take ?mid (tp_chunks tp)\<rparr>" and ?b = "tp\<lparr>tp_chunks := drop ?mid (tp_chunks tp)\<rparr>"
    have eq: "split_tracer_payload enc limit tp = split_tracer_payload enc limit ?a @ split_tracer_payload enc limit ?b"
      using False by (subst split_tracer_payload.simps) (simp add: Let_def)
    have mid: "0 < ?mid" "?mid < length (tp_chunks tp)" using False by auto
    have ne: "take ?mid (tp_chunks tp) \<noteq> []" "drop ?mid (tp_chunks tp) \<noteq> []" using mid by auto
    have "piece_of enc limit ?a q \<Longrightarrow> piece_of enc limit tp q" "piece_of enc limit ?b q \<Longrightarrow> piece_of enc limit tp q" for q
      using ne by (auto simp: piece_of_def)
    then show ?thesis
      using 1 False mid unfolding eq by (auto simp: list_all_iff not_le)
  qed
qed

text \<open>
  C18. Splitting an oversized payload loses and reorders nothing: the chunks of the pieces are the
  chunks of the payload in order, each piece carries its metadata, no piece of a payload with
  chunks is empty, and a piece is over the limit only when it is a single chunk.
\<close>

theorem split_pieces:
  "concat (map tp_chunks (split_oversized_payloads enc tps limit)) = concat (map tp_chunks tps) \<and>
   (\<forall>q \<in> set (split_oversized_payloads enc tps limit). \<exists>tp \<in> set tps. piece_of enc limit tp q)"
proof (induction tps)
  case (Cons tp tps)
  then show ?case using split_tracer_payload_correct [of enc limit tp]
    by (auto simp: split_oversized_payloads_def list_all_iff)
qed (simp add: split_oversized_payloads_def)

section \<open>What error rescue changes\<close>

definition erase_span :: "'x pb_span \<Rightarrow> 'x pb_span" where
  "erase_span sp = sp\<lparr>ps_metrics := (ps_metrics sp)(ERRORS_SR_METRIC_KEY := None)\<rparr>"

definition erase_chunk :: "'x pb_chunk \<Rightarrow> 'x pb_chunk" where
  "erase_chunk ch = ch\<lparr>ch_spans := map erase_span (ch_spans ch)\<rparr>"

definition erase_payload :: "'x tracer_payload \<Rightarrow> 'x tracer_payload" where
  "erase_payload tp = tp\<lparr>tp_chunks := map erase_chunk (tp_chunks tp)\<rparr>"

lemma map_list_update_same: "f y = f (xs ! i) \<Longrightarrow> map f (xs[i := y]) = map f xs"
  by (cases "i < length xs") (simp_all add: map_update list_update_same_conv list_update_beyond)

lemma erase_stamp: "map erase_payload (stamp_root k tps) = map erase_payload tps"
proof -
  obtain px ci ri sr where k: "k = (px, ci, ri, sr)" by (metis prod_cases4)
  have "erase_span (stamp_span sr sp) = erase_span sp" for sp :: "'a pb_span"
    by (simp add: erase_span_def stamp_span_def)
  then show ?thesis unfolding stamp_root_def k
    by (simp add: Let_def map_list_update_same erase_payload_def erase_chunk_def)
qed

lemma erase_stamps: "map erase_payload (fold stamp_root kept tps) = map erase_payload tps"
  by (induction kept arbitrary: tps) (simp_all add: erase_stamp)

lemma sample_candidates_Cons:
  assumes "sample_candidates now tps ((px, ci, env, ri, views) # cands) s = Ret (kept, s')"
  obtains d s1 kept1 where "ri < length (ch_spans (tp_chunks (tps ! px) ! ci))"
    "sample now (root_trace_view (ch_spans (tp_chunks (tps ! px) ! ci) ! ri) env ri views) s = (d, s1)"
    "sample_candidates now tps cands s1 = Ret (kept1, s')"
    "kept = (case d of Keep e \<Rightarrow> (px, ci, ri, e) # kept1 | Drop \<Rightarrow> kept1)"
proof -
  let ?spans = "ch_spans (tp_chunks (tps ! px) ! ci)"
  have r: "ri < length ?spans" using assms by (auto simp: Let_def split: if_splits)
  obtain d s1 where d: "sample now (root_trace_view (?spans ! ri) env ri views) s = (d, s1)" by fastforce
  obtain kept1 where "sample_candidates now tps cands s1 = Ret (kept1, s')"
    "kept = (case d of Keep e \<Rightarrow> (px, ci, ri, e) # kept1 | Drop \<Rightarrow> kept1)"
    using assms r d by (cases "sample_candidates now tps cands s1") (auto simp: Let_def split_beta split: sample_decision.splits)
  then show ?thesis using that r d by blast
qed

lemma sample_candidates_kept:
  "sample_candidates now tps cands s = Ret (kept, s') \<Longrightarrow> (px, ci, ri, sr) \<in> set kept \<Longrightarrow>
   \<exists>env views. (px, ci, env, ri, views) \<in> set cands"
proof (induction cands arbitrary: s kept)
  case (Cons cand cands)
  obtain px' ci' env ri' views where c: "cand = (px', ci', env, ri', views)" by (metis prod_cases5)
  from Cons.prems(1) [unfolded c] obtain d s1 kept1 where k: "sample_candidates now tps cands s1 = Ret (kept1, s')"
    "kept = (case d of Keep e \<Rightarrow> (px', ci', ri', e) # kept1 | Drop \<Rightarrow> kept1)"
    by (rule sample_candidates_Cons)
  then show ?case using Cons.IH [OF k(1)] Cons.prems(2) c by (auto split: sample_decision.splits)
qed auto

lemma candidates_eligible:
  "(px, ci, env, ri, views) \<in> set (rescue_candidates root_of c tps) \<Longrightarrow>
   px < length tps \<and> ci < length (tp_chunks (tps ! px)) \<and>
   rescue_root_index root_of (tp_chunks (tps ! px) ! ci) (tc_error_rare_sample_tracer_drop c) = Some ri \<and>
   views = map span_view_of (ch_spans (tp_chunks (tps ! px) ! ci)) \<and>
   env = resolve_payload_env (tp_env (tps ! px)) (tc_env c)"
  by (auto simp: rescue_candidates_def List.map_filter_def in_set_enumerate_eq)

text \<open>The position of a span in a list of payloads, and the rate stamped on it.\<close>

definition stamped_rate :: "'x tracer_payload list \<Rightarrow> nat \<Rightarrow> nat \<Rightarrow> nat \<Rightarrow> fl option" where
  "stamped_rate tps px ci si = ps_metrics (ch_spans (tp_chunks (tps ! px) ! ci) ! si) ERRORS_SR_METRIC_KEY"

lemma stamp_root_other:
  assumes "(px, ci, si) \<noteq> (px', ci', ri')"
  shows "stamped_rate (stamp_root (px', ci', ri', sr) tps) px ci si = stamped_rate tps px ci si"
proof -
  have u: "xs[i := y] ! j = (if i = j \<and> i < length xs then y else xs ! j)" for xs :: "'z list" and i j y
    by (cases "i = j") (auto simp: list_update_beyond)
  show ?thesis using assms by (auto simp: stamped_rate_def stamp_root_def Let_def u)
qed

lemma stamp_roots_other:
  "\<forall>sr. (px, ci, si, sr) \<notin> set kept \<Longrightarrow> stamped_rate (fold stamp_root kept tps) px ci si = stamped_rate tps px ci si"
proof (induction kept arbitrary: tps)
  case (Cons k kept)
  obtain px' ci' ri' sr where k: "k = (px', ci', ri', sr)" by (metis prod_cases4)
  have "(px, ci, si) \<noteq> (px', ci', ri')" using Cons.prems k by auto
  then show ?case using Cons stamp_root_other [of px ci si px' ci' ri' sr tps] k by auto
qed simp

text \<open>
  C19. Error rescue changes nothing but the \<open>_dd.errors_sr\<close> metric, and that only on the root span of
  an eligible chunk with an error: with the metric erased the payloads are what they were, so no
  chunk is dropped, reordered or given another priority; its clock never runs backwards.
\<close>

theorem rescue_frame:
  assumes "apply_error_rescue D c clock (V07 tps) p = Ret (V07 tps', p')"
  shows "map erase_payload tps' = map erase_payload tps \<and>
    (\<forall>px ci si. px < length tps \<and> ci < length (tp_chunks (tps ! px)) \<and> stamped_rate tps' px ci si \<noteq> stamped_rate tps px ci si \<longrightarrow>
       rescue_root_index (td_root_index D) (tp_chunks (tps ! px) ! ci) (tc_error_rare_sample_tracer_drop c) = Some si) \<and>
    rs_last_sampler_timestamp (tpr_error_rescue_state p) \<le> rs_last_sampler_timestamp (tpr_error_rescue_state p')"
proof (cases "\<not> tpr_error_rescue_enabled p \<or> rescue_candidates (td_root_index D) c tps = []")
  case True
  then show ?thesis using assms by (auto simp: apply_error_rescue_def Let_def split: if_splits)
next
  case False
  let ?cands = "rescue_candidates (td_root_index D) c tps"
  obtain now s where cl: "clamp_timestamp clock (tpr_error_rescue_state p) = (now, s)" by fastforce
  obtain kept sampler' where sc: "sample_candidates now tps ?cands (rs_sampler s) = Ret (kept, sampler')"
    "tps' = fold stamp_root kept tps" "p' = p\<lparr>tpr_error_rescue_state := s\<lparr>rs_sampler := sampler'\<rparr>\<rparr>"
    using assms False cl by (cases "sample_candidates now tps ?cands (rs_sampler s)")
      (auto simp: apply_error_rescue_def Let_def)
  have "rescue_root_index (td_root_index D) (tp_chunks (tps ! px) ! ci) (tc_error_rare_sample_tracer_drop c) = Some si"
    if "stamped_rate tps' px ci si \<noteq> stamped_rate tps px ci si" for px ci si
    using that stamp_roots_other [of px ci si kept tps] sample_candidates_kept [OF sc(1), of px ci si]
      candidates_eligible sc(2) by blast
  moreover have "rs_last_sampler_timestamp (tpr_error_rescue_state p) \<le> rs_last_sampler_timestamp s"
    using cl by (auto simp: clamp_timestamp_def Let_def)
  ultimately show ?thesis using sc(2,3) erase_stamps [of kept tps] by simp
qed

section \<open>Error rescue never panics and stamps rates in the unit interval\<close>

lemma round64_mag: "round64 s q = Fin s' t \<Longrightarrow> f64_mag t"
  using f64.overflow_iff [of "round_mag 53 (-1074) q"] f64.representable_round f64.round_nonneg
  by (auto simp: round_fl_def Let_def f64_mag_def not_le split: if_splits)

lemma parsed_target:
  assumes "\<not> fle (cfg_target_tps (parse_error_sampler_config raw)) f_zero"
  shows "\<exists>t. cfg_target_tps (parse_error_sampler_config raw) = Fin False t \<and> 0 < t \<and> f64_mag t"
proof -
  have d: "\<exists>t. cfg_target_tps default_config = Fin False t \<and> 0 < t \<and> f64_mag t"
    using f64_mag_ten by (simp add: default_config_def)
  have "\<exists>t. x = Fin False t \<and> 0 < t \<and> f64_mag t" if p: "parse_f64 r = Some x" and fin: "is_finite x" and z: "\<not> fle x f_zero" for r x
  proof -
    obtain s t where x: "x = Fin s t" using fin by (cases x) auto
    then have m: "f64_mag t" using p round64_mag by (auto simp: parse_f64_def Let_def split: if_splits option.splits)
    then have "\<not> s \<and> 0 < t" using z x by (cases s) (auto simp: fle_def f64_mag_def)
    then show ?thesis using x m by simp
  qed
  then show ?thesis using d assms by (auto simp: parse_error_sampler_config_def split: option.splits if_splits)
qed

definition rescue_inv :: "trace_processor \<Rightarrow> bool" where
  "rescue_inv p \<longleftrightarrow> (tpr_error_rescue_enabled p \<longrightarrow>
     (\<exists>r. rs_sampler (tpr_error_rescue_state p) = RateLimited r \<and> fl_inv (rl_sampler r)))"

lemma trace_processor_new_inv:
  assumes "tc_error_sampler c = parse_error_sampler_config raw"
  shows "rescue_inv (trace_processor_new c)"
proof (cases "fle (cfg_target_tps (parse_error_sampler_config raw)) f_zero")
  case True
  then show ?thesis using assms
    by (simp add: rescue_inv_def trace_processor_new_def rescue_new_def errors_sampler_new_def Let_def
        error_sampler_config_finite rate_limited_new_def)
next
  case False
  then obtain t where "cfg_target_tps (parse_error_sampler_config raw) = Fin False t" "0 < t" "f64_mag t"
    using parsed_target by blast
  then show ?thesis using assms sampler_new_fl_inv [of t]
    by (simp add: rescue_inv_def trace_processor_new_def rescue_new_def errors_sampler_new_def Let_def
        error_sampler_config_finite rate_limited_new_def)
qed

text \<open>Every rate on the wire is an \<open>f64\<close> value.\<close>

definition wire_payloads :: "'x tracer_payload list \<Rightarrow> bool" where
  "wire_payloads tps \<longleftrightarrow> (\<forall>tp\<in>set tps. \<forall>ch\<in>set (tp_chunks tp). \<forall>sp\<in>set (ch_spans ch).
     \<forall>r. ps_metrics sp ''_sample_rate'' = Some r \<longrightarrow> wire_f64 r)"

definition valid_roots :: "('x pb_span list \<Rightarrow> nat option) \<Rightarrow> bool" where
  "valid_roots root_of \<longleftrightarrow> (\<forall>spans i. root_of spans = Some i \<longrightarrow> i < length spans)"

lemma rescue_root_valid:
  "valid_roots root_of \<Longrightarrow> rescue_root_index root_of ch b = Some ri \<Longrightarrow> ri < length (ch_spans ch)"
  by (auto simp: rescue_root_index_def valid_roots_def Let_def split: if_splits)

lemma sample_candidates_ok:
  assumes "\<forall>(px, ci, env, ri, views) \<in> set cands. px < length tps \<and> ci < length (tp_chunks (tps ! px)) \<and>
      ri < length (ch_spans (tp_chunks (tps ! px) ! ci))"
    and "wire_payloads tps" "fl_inv (rl_sampler r)"
  shows "\<exists>kept r'. sample_candidates now tps cands (RateLimited r) = Ret (kept, RateLimited r') \<and>
    fl_inv (rl_sampler r') \<and> (\<forall>(px, ci, ri, sr) \<in> set kept. unit_fl sr)"
  using assms
proof (induction cands arbitrary: r)
  case (Cons cand cands)
  obtain px ci env ri views where c: "cand = (px, ci, env, ri, views)" by (metis prod_cases5)
  let ?spans = "ch_spans (tp_chunks (tps ! px) ! ci)"
  let ?tr = "root_trace_view (?spans ! ri) env ri views"
  have ix: "px < length tps" "ci < length (tp_chunks (tps ! px))" and ri: "ri < length ?spans"
    using Cons.prems(1) c by auto
  then have "tps ! px \<in> set tps" "tp_chunks (tps ! px) ! ci \<in> set (tp_chunks (tps ! px))" "?spans ! ri \<in> set ?spans"
    by simp_all
  then have "wire_f64 q" if "ps_metrics (?spans ! ri) ''_sample_rate'' = Some q" for q
    using Cons.prems(2) that unfolding wire_payloads_def by blast
  then have w: "wire_f64 (tr_root_global_sample_rate ?tr)"
    by (cases "ps_metrics (?spans ! ri) ''_sample_rate''") (simp_all add: root_trace_view_def wire_f64_def)
  obtain d r1 where d: "rate_limited_sample now ?tr r = (d, r1)" by fastforce
  have f: "fl_inv (rl_sampler r1)" "\<And>sr. d = Keep sr \<Longrightarrow> unit_fl sr"
    using rate_limited_sample_fl [OF Cons.prems(3) w, of now] d by auto
  obtain kept r' where k: "sample_candidates now tps cands (RateLimited r1) = Ret (kept, RateLimited r')"
    "fl_inv (rl_sampler r')" "\<forall>(px, ci, ri, sr) \<in> set kept. unit_fl sr"
    using Cons.IH [of r1] Cons.prems f(1) by auto
  show ?case using k f(2) ri d c by (cases d) (auto simp: Let_def)
qed auto

lemma apply_rescue_ok:
  assumes "valid_roots (td_root_index D)" "wire_payloads tps" "rescue_inv p"
  shows "\<exists>tps' p'. apply_error_rescue D c clock (V07 tps) p = Ret (V07 tps', p') \<and> rescue_inv p' \<and>
    (\<exists>kept. tps' = fold stamp_root kept tps \<and> (\<forall>(px, ci, ri, sr) \<in> set kept. unit_fl sr))"
proof (cases "\<not> tpr_error_rescue_enabled p \<or> rescue_candidates (td_root_index D) c tps = []")
  case True
  then show ?thesis using assms(3)
    by (intro exI [of _ tps] exI [of _ p]) (auto simp: apply_error_rescue_def Let_def intro!: exI [of _ "[]"])
next
  case False
  let ?cands = "rescue_candidates (td_root_index D) c tps"
  obtain r where r: "rs_sampler (tpr_error_rescue_state p) = RateLimited r" "fl_inv (rl_sampler r)"
    using assms(3) False by (auto simp: rescue_inv_def)
  obtain now s where cl: "clamp_timestamp clock (tpr_error_rescue_state p) = (now, s)" "rs_sampler s = RateLimited r"
    using r(1) by (auto simp: clamp_timestamp_def Let_def)
  have "\<forall>(px, ci, env, ri, views) \<in> set ?cands. px < length tps \<and> ci < length (tp_chunks (tps ! px)) \<and>
      ri < length (ch_spans (tp_chunks (tps ! px) ! ci))"
    using candidates_eligible rescue_root_valid [OF assms(1)] by blast
  from sample_candidates_ok [OF this assms(2) r(2), of now] obtain kept r' where
    k: "sample_candidates now tps ?cands (RateLimited r) = Ret (kept, RateLimited r')"
    "fl_inv (rl_sampler r')" "\<forall>(px, ci, ri, sr) \<in> set kept. unit_fl sr" by blast
  let ?p = "p\<lparr>tpr_error_rescue_state := s\<lparr>rs_sampler := RateLimited r'\<rparr>\<rparr>"
  have "apply_error_rescue D c clock (V07 tps) p = Ret (V07 (fold stamp_root kept tps), ?p)"
    using False cl k(1) by (simp add: apply_error_rescue_def)
  moreover have "rescue_inv ?p" using k(2) by (simp add: rescue_inv_def)
  ultimately show ?thesis using k(3) by blast
qed

lemma stamped_in_kept:
  assumes "stamped_rate (fold stamp_root kept tps) px ci si = Some sr"
    and "\<forall>(px, ci, ri, sr) \<in> set kept. unit_fl sr"
  shows "unit_fl sr \<or> stamped_rate tps px ci si = Some sr"
  using assms
proof (induction kept arbitrary: tps)
  case (Cons k kept)
  obtain px' ci' ri' sr' where k: "k = (px', ci', ri', sr')" by (metis prod_cases4)
  from Cons.IH [of "stamp_root k tps"] Cons.prems
  have "unit_fl sr \<or> stamped_rate (stamp_root k tps) px ci si = Some sr" by auto
  moreover have "stamped_rate (stamp_root k tps) px ci si \<in> {Some sr', stamped_rate tps px ci si}"
  proof (cases "(px, ci, si) = (px', ci', ri')")
    case True
    have u: "xs[i := y] ! j = (if i = j \<and> i < length xs then y else xs ! j)" for xs :: "'z list" and i j y
      by (cases "i = j") (auto simp: list_update_beyond)
    show ?thesis using True by (auto simp: k stamped_rate_def stamp_root_def Let_def u stamp_span_def)
  qed (use stamp_root_other [of px ci si px' ci' ri' sr' tps] k in auto)
  ultimately show ?case using Cons.prems(2) k by auto
qed simp

text \<open>The requests that reach the rescue step one after the other, with the clock each reads.\<close>

fun rescue_run ::
  "('x, 'm, 't) trace_deps \<Rightarrow> 'o trace_config \<Rightarrow> (int \<times> 'x tracer_payload list) list \<Rightarrow> trace_processor \<Rightarrow> trace_processor rust" where
  "rescue_run D c [] p = Ret p"
| "rescue_run D c ((clock, tps) # reqs) p =
     bind_rust (apply_error_rescue D c clock (V07 tps) p) (\<lambda>(_, p'). rescue_run D c reqs p')"

lemma rescue_run_ok:
  assumes "valid_roots (td_root_index D)" "\<forall>(clock, tps) \<in> set reqs. wire_payloads tps" "rescue_inv p"
  shows "\<exists>p'. rescue_run D c reqs p = Ret p' \<and> rescue_inv p'"
  using assms(2,3)
proof (induction reqs arbitrary: p)
  case (Cons req reqs)
  obtain clock tps where req: "req = (clock, tps)" by fastforce
  obtain tps' p1 where "apply_error_rescue D c clock (V07 tps) p = Ret (V07 tps', p1)" "rescue_inv p1"
    using apply_rescue_ok [OF assms(1), of tps p c clock] Cons.prems req by auto
  then show ?case using Cons.IH [of p1] Cons.prems(1) req by auto
qed simp

text \<open>
  C20. Whatever budget the environment configures and whatever traces arrive, at whatever times, the
  rescue step never panics, and every rate it stamps is between zero and one. Assumed of the
  library: the root index it returns is in range, and rates on the wire are \<open>f64\<close> values.
\<close>

theorem rescue_rates_unit:
  assumes "tc_error_sampler c = parse_error_sampler_config raw" and "valid_roots (td_root_index D)"
    and "\<forall>(clock, tps) \<in> set reqs. wire_payloads tps" and "wire_payloads tps"
  shows "\<exists>p tps' p'. rescue_run D c reqs (trace_processor_new c) = Ret p \<and>
    apply_error_rescue D c clock (V07 tps) p = Ret (V07 tps', p') \<and>
    (\<forall>px ci si sr. stamped_rate tps' px ci si = Some sr \<longrightarrow> unit_fl sr \<or> stamped_rate tps px ci si = Some sr)"
proof -
  obtain p where p: "rescue_run D c reqs (trace_processor_new c) = Ret p" "rescue_inv p"
    using rescue_run_ok [OF assms(2,3) trace_processor_new_inv [OF assms(1)]] by blast
  obtain tps' p' kept where a: "apply_error_rescue D c clock (V07 tps) p = Ret (V07 tps', p')"
    "tps' = fold stamp_root kept tps" "\<forall>(px, ci, ri, sr) \<in> set kept. unit_fl sr"
    using apply_rescue_ok [OF assms(2,4) p(2), of c clock] by blast
  then show ?thesis using p(1) stamped_in_kept [OF _ a(3), of tps] by blast
qed

section \<open>What a request queues\<close>

definition sent_chunks :: "'x send_data list \<Rightarrow> 'x pb_chunk list" where
  "sent_chunks sends =
     concat (map (\<lambda>sd. case sd_payload sd of V07 tps \<Rightarrow> concat (map tp_chunks tps) | _ \<Rightarrow> []) sends)"

definition queued_ok ::
  "('x, 'm, 't) trace_deps \<Rightarrow> 'o trace_config \<Rightarrow> nat \<Rightarrow> 'x payload \<Rightarrow> 'x send_data list \<Rightarrow> bool" where
  "queued_ok D c body_size payload sends \<longleftrightarrow>
     (\<forall>sd\<in>set sends. sd_endpoint sd = tc_trace_intake c) \<and>
     (case payload of
        V07 tps \<Rightarrow>
          map erase_chunk (sent_chunks sends) = map erase_chunk (concat (map tp_chunks tps)) \<and>
          (\<forall>sd\<in>set sends. \<exists>tp. sd_payload sd = V07 [tp] \<and>
             sd_size sd = td_encoded_len D tp + V07_ENVELOPE_OVERHEAD_BYTES \<and>
             (sd_size sd \<le> MAX_CONTENT_SIZE_BYTES \<or> length (tp_chunks tp) \<le> 1))
      | other \<Rightarrow> map sd_payload sends = [other] \<and> map sd_size sends = [body_size])"

lemma erased_chunks:
  "map erase_payload a = map erase_payload b \<Longrightarrow>
   map erase_chunk (concat (map tp_chunks a)) = map erase_chunk (concat (map tp_chunks b))"
proof -
  have "map erase_chunk (concat (map tp_chunks tps)) = concat (map tp_chunks (map erase_payload tps))"
    for tps :: "'a tracer_payload list"
    by (induction tps) (simp_all add: erase_payload_def)
  then show "map erase_payload a = map erase_payload b \<Longrightarrow> ?thesis" by metis
qed

lemma apply_rescue_erased:
  assumes "apply_error_rescue D c clock payload p = Ret (payload', p')"
  shows "case payload of V07 tps \<Rightarrow> \<exists>tps'. payload' = V07 tps' \<and> map erase_payload tps' = map erase_payload tps
    | other \<Rightarrow> payload' = other"
proof (cases payload)
  case (V07 tps)
  show ?thesis
  proof (cases "\<not> tpr_error_rescue_enabled p \<or> rescue_candidates (td_root_index D) c tps = []")
    case False
    obtain now s where cl: "clamp_timestamp clock (tpr_error_rescue_state p) = (now, s)" by fastforce
    show ?thesis using assms False cl V07 erase_stamps
      by (cases "sample_candidates now tps (rescue_candidates (td_root_index D) c tps) (rs_sampler s)")
        (auto simp: apply_error_rescue_def Let_def)
  qed (use assms V07 in \<open>auto simp: apply_error_rescue_def Let_def split: if_splits\<close>)
qed (use assms in \<open>auto simp: apply_error_rescue_def\<close>)

lemma pieces_ok:
  assumes "sends = map (\<lambda>(piece, sz). \<lparr>sd_size = sz, sd_payload = piece, sd_headers = hs,
      sd_endpoint = tc_trace_intake c\<rparr>) (payload_pieces (td_encoded_len D) n payload)"
  shows "queued_ok D c n payload sends"
proof (cases payload)
  case (V07 tps)
  let ?limit = "MAX_CONTENT_SIZE_BYTES - V07_ENVELOPE_OVERHEAD_BYTES"
  let ?ps = "split_oversized_payloads (td_encoded_len D) tps ?limit"
  have c: "concat (map tp_chunks ?ps) = concat (map tp_chunks tps)"
    "\<forall>q\<in>set ?ps. td_encoded_len D q \<le> ?limit \<or> length (tp_chunks q) \<le> 1"
    using split_tracer_payload_correct [of "td_encoded_len D" ?limit]
    by (induction tps) (auto simp: split_oversized_payloads_def list_all_iff piece_of_def)
  have "sent_chunks sends = concat (map tp_chunks ?ps)"
    by (simp add: assms sent_chunks_def payload_pieces_def V07 Let_def o_def split_beta)
  then show ?thesis using c assms V07
    by (auto simp: queued_ok_def payload_pieces_def Let_def encoded_size_def
        MAX_CONTENT_SIZE_BYTES_def V07_ENVELOPE_OVERHEAD_BYTES_def)
qed (use assms in \<open>auto simp: queued_ok_def payload_pieces_def\<close>)

lemma function_tags_chunks:
  "case payload of V07 tps \<Rightarrow> \<exists>tps'. add_function_tags t payload = V07 tps' \<and>
      map erase_chunk (concat (map tp_chunks tps')) = map erase_chunk (concat (map tp_chunks tps))
    | other \<Rightarrow> add_function_tags t payload = other"
  by (cases payload; cases "function_tags t") (simp_all add: add_function_tags_def o_def)

lemma queued_ok_transfer:
  assumes "queued_ok D c n payload' sends"
    and "case payload of V07 tps \<Rightarrow> \<exists>tps'. payload' = V07 tps' \<and>
        map erase_chunk (concat (map tp_chunks tps')) = map erase_chunk (concat (map tp_chunks tps))
      | other \<Rightarrow> payload' = other"
  shows "queued_ok D c n payload sends"
  using assms by (cases payload) (auto simp: queued_ok_def)

definition nothing_queued :: "trace_processor \<Rightarrow> 'x trace_outcome \<Rightarrow> trace_processor \<Rightarrow> bool" where
  "nothing_queued p out p' \<longleftrightarrow> to_sends out = [] \<and> to_stats out = [] \<and> p' = p"

text \<open>
  C10. Every request gets one of three answers. One that declares its length badly or too large (400, 411,
  413), that cannot be decoded or processed (500) or turns out too large (413) changes nothing and queues
  nothing. One for which no permit was to be had in time is answered with 200 all the same, and changes
  nothing and queues nothing: its traces are shed. For any other the answer is 200 and everything it carried
  is queued for the trace intake, with its headers: the chunks of all its V07 payloads in order, up to the
  rescue metric, one payload to a piece whose size is that of its encoding and the envelope, and a piece
  over the size limit has no second chunk that could have been split off; a payload of another version is
  queued whole, with the size of the body, which is within the limit of a request.
\<close>

theorem traces_queued:
  assumes "process_traces D c metadata concentrator permit clock hs body p = Ret (out, p')"
  defines "check \<equiv> verify_request_content_length (td_to_str D) hs (tc_max_request_content_length c) ''Error processing traces''"
  shows "(check \<noteq> None \<and> fst (to_response out) \<in> {400, 411, 413} \<and> nothing_queued p out p') \<or>
    (check = None \<and> \<not> permit \<and> to_response out = (200, RateByService) \<and> nothing_queued p out p') \<or>
    (check = None \<and> permit \<and> (\<exists>err. td_get_traces D body = Inl err) \<and> fst (to_response out) = 500 \<and> nothing_queued p out p') \<or>
    (check = None \<and> permit \<and> (\<exists>n traces. td_get_traces D body = Inr (n, traces) \<and>
       (if n \<le> tc_max_request_content_length c
        then \<exists>result. td_collect D traces hs (process_chunk D c metadata) = Ret result \<and>
          (case result of
             Inl err \<Rightarrow> fst (to_response out) = 500 \<and> nothing_queued p out p'
           | Inr payload \<Rightarrow> to_response out = (200, RateByService) \<and> queued_ok D c n payload (to_sends out) \<and>
               list_all (\<lambda>sd. sd_headers sd = hs) (to_sends out))
        else fst (to_response out) = 413 \<and> nothing_queued p out p')))"
proof -
  let ?max = "tc_max_request_content_length c"
  note eq = assms(1) [unfolded process_traces_def Let_def, folded check_def]
  note simps = log_and_create_http_response_def log_and_create_traces_success_http_response_def nothing_queued_def
  consider (bad) r where "check = Some r" | (shed) "check = None" "\<not> permit"
    | (undecoded) err where "check = None" permit "td_get_traces D body = Inl err"
    | (large) n traces where "check = None" permit "td_get_traces D body = Inr (n, traces)" "n > ?max"
    | (decoded) n traces where "check = None" permit "td_get_traces D body = Inr (n, traces)" "n \<le> ?max"
    by (cases check; cases "td_get_traces D body") (auto simp: not_le, metis not_le)
  then show ?thesis
  proof cases
    case bad
    moreover from this have "fst r \<in> {400, 411, 413}"
      using content_length_check [of "td_to_str D" hs ?max "''Error processing traces''"] by (auto simp: check_def split: option.splits if_splits)
    ultimately show ?thesis using eq by (auto simp: simps)
  next
    case (decoded n traces)
    then have le: "\<not> ?max < n" by simp
    note eq = eq [unfolded decoded(1,3) option.case sum.case prod.case if_not_P [OF le] simps]
    obtain res where res: "td_collect D traces hs (process_chunk D c metadata) = Ret res"
      using eq decoded by (cases "td_collect D traces hs (process_chunk D c metadata)") auto
    show ?thesis
    proof (cases res)
      case (Inl err)
      then show ?thesis using eq decoded res by (auto simp: simps)
    next
      case (Inr payload)
      define pl where "pl = add_function_tags (tc_tags c) payload"
      define st where "st = (if concentrator \<and> tc_agent_stats_computation_enabled c
        then send_to_concentrator (td_root_index D) pl else Ret [])"
      have eq: "bind_rust st (\<lambda>stats. bind_rust (apply_error_rescue D c clock pl p) (\<lambda>(payload, p').
         Ret (\<lparr>to_response = (200, RateByService), to_stats = stats,
               to_sends = map (\<lambda>(piece, sz). \<lparr>sd_size = sz, sd_payload = piece, sd_headers = hs,
                 sd_endpoint = tc_trace_intake c\<rparr>) (payload_pieces (td_encoded_len D) n payload)\<rparr>, p'))) = Ret (out, p')"
        using eq decoded(2) res Inr by (simp add: pl_def st_def cong: if_cong split del: if_split)
      obtain stats where st: "st = Ret stats" using eq by (cases st) auto
      obtain pl' where pl': "apply_error_rescue D c clock pl p = Ret (pl', p')"
        "out = \<lparr>to_response = (200, RateByService), to_stats = stats,
          to_sends = map (\<lambda>(piece, sz). \<lparr>sd_size = sz, sd_payload = piece, sd_headers = hs,
            sd_endpoint = tc_trace_intake c\<rparr>) (payload_pieces (td_encoded_len D) n pl')\<rparr>"
        using eq st by (cases "apply_error_rescue D c clock pl p") auto
      have q: "queued_ok D c n pl' (to_sends out)" by (rule pieces_ok [where hs = hs]) (simp add: pl'(2))
      have "queued_ok D c n pl (to_sends out)"
        using apply_rescue_erased [OF pl'(1)] erased_chunks q
        by (intro queued_ok_transfer [OF q]) (force split: payload.splits)
      then have "queued_ok D c n payload (to_sends out)"
        unfolding pl_def by (rule queued_ok_transfer [OF _ function_tags_chunks])
      then show ?thesis using decoded res Inr pl'(2) by (auto simp: list_all_iff)
    qed
  qed (use eq in \<open>auto simp: simps\<close>)
qed

section \<open>Witnesses\<close>

definition demo_chunk :: "unit pb_chunk" where
  "demo_chunk = \<lparr>ch_priority = 0, ch_tags = Map.empty,
     ch_spans = [\<lparr>ps_service = ''web'', ps_name = ''get'', ps_resource = ''/'', ps_trace_id = 7, ps_error = 1,
       ps_meta = Map.empty, ps_metrics = Map.empty, ps_other = ()\<rparr>], ch_other = ()\<rparr>"

definition demo_payload :: "unit pb_chunk list \<Rightarrow> unit tracer_payload" where
  "demo_payload chunks = \<lparr>tp_env = ''dev'', tp_language_name = ''rust'', tp_tracer_version = ''1'', tp_app_version = ''1'',
     tp_container_id = [], tp_tags = Map.empty, tp_chunks = chunks, tp_other = ()\<rparr>"

definition demo_deps :: "(unit, unit, unit) trace_deps" where
  "demo_deps = \<lparr>td_encoded_len = (\<lambda>tp. 10 * length (tp_chunks tp)),
     td_root_index = (\<lambda>spans. if spans = [] then None else Some 0),
     td_set_root_tags = (\<lambda>app et sp. sp), td_enrich_metadata = (\<lambda>m sp. sp), td_enrich_azure = (\<lambda>sp. sp),
     td_enrich_gcf = (\<lambda>m app sp. sp), td_obfuscate = (\<lambda>sp. sp), td_get_traces = (\<lambda>body. Inr (length body, ())),
     td_collect = (\<lambda>t hs f. bind_rust (f demo_chunk 0) (\<lambda>ch. Ret (Inr (V07 [demo_payload [ch]])))),
     td_to_str = Some\<rparr>"

definition demo_config :: "unit trace_config" where
  "demo_config = config_record \<lparr>cd_read_cloud_env = None, cd_trace_intake_url = id, cd_trace_stats_url = id,
     cd_trace_intake_url_prefixed = id, cd_trace_stats_url_prefixed = id, cd_obfuscation = Inr (), cd_mappings = Inr [],
     cd_uri_ok = (\<lambda>u. True), cd_os = ''linux'', cd_pipes = False\<rparr> Map.empty ''key'' ''app'' AzureFunction () ([], [], [], []) []"

lemma demo_facts:
  "tc_error_sampler demo_config = parse_error_sampler_config None" "valid_roots (td_root_index demo_deps)"
  "wire_payloads [demo_payload [demo_chunk]]"
  by (simp_all add: demo_config_def config_record_def Let_def valid_roots_def demo_deps_def wire_payloads_def
      demo_payload_def demo_chunk_def)

theorem split_pieces_witness:
  "list_all (piece_of (td_encoded_len demo_deps) 10 (demo_payload [demo_chunk, demo_chunk]))
     (split_oversized_payloads (td_encoded_len demo_deps) [demo_payload [demo_chunk, demo_chunk]] 10)"
  using split_pieces [of "td_encoded_len demo_deps" "[demo_payload [demo_chunk, demo_chunk]]" 10]
  by (auto simp: list_all_iff)

theorem rescue_frame_witness:
  "\<exists>tps' p'. apply_error_rescue demo_deps demo_config 100 (V07 [demo_payload [demo_chunk]]) (trace_processor_new demo_config) =
       Ret (V07 tps', p') \<and> map erase_payload tps' = map erase_payload [demo_payload [demo_chunk]]"
proof -
  obtain tps' p' where a: "apply_error_rescue demo_deps demo_config 100 (V07 [demo_payload [demo_chunk]])
      (trace_processor_new demo_config) = Ret (V07 tps', p')"
    using apply_rescue_ok [OF demo_facts(2,3) trace_processor_new_inv [OF demo_facts(1)]] by blast
  then show ?thesis using rescue_frame [OF a] by blast
qed

theorem rescue_rates_unit_witness:
  "\<exists>p tps' p'. rescue_run demo_deps demo_config [(100, [demo_payload [demo_chunk]])] (trace_processor_new demo_config) = Ret p \<and>
     apply_error_rescue demo_deps demo_config 107 (V07 [demo_payload [demo_chunk]]) p = Ret (V07 tps', p')"
  using rescue_rates_unit [OF demo_facts(1,2), of "[(100, [demo_payload [demo_chunk]])]" "[demo_payload [demo_chunk]]" 107]
    demo_facts(3) by auto

theorem traces_queued_witness:
  "\<exists>out. process_traces demo_deps demo_config () False True 100 [(''content-length'', ''3'')] ''abc''
       \<lparr>tpr_enqueue_permits = 9, tpr_error_rescue_state = rescue_new default_config, tpr_error_rescue_enabled = False\<rparr> =
     Ret (out, \<lparr>tpr_enqueue_permits = 9, tpr_error_rescue_state = rescue_new default_config, tpr_error_rescue_enabled = False\<rparr>) \<and>
     length (to_sends out) = 1 \<and> queued_ok demo_deps demo_config 3 (V07 [demo_payload [demo_chunk]]) (to_sends out)"
proof -
  let ?p = "\<lparr>tpr_enqueue_permits = 9, tpr_error_rescue_state = rescue_new default_config, tpr_error_rescue_enabled = False\<rparr>"
  have three: "parse_unsigned usize_max ''3'' = Some 3"
    by (simp add: parse_unsigned_def is_ascii_digit_def byte_def digits_val_def digit_val_def usize_max_def)
  have cfg: "tc_max_request_content_length demo_config = 10485760" "tc_env_type demo_config = AzureFunction" "tc_tags demo_config = []"
    by (simp_all add: demo_config_def config_record_def Let_def tags_new_def)
  have chunk: "process_chunk demo_deps demo_config () demo_chunk 0 = Ret demo_chunk"
    by (simp add: process_chunk_def promote_decision_maker_def demo_chunk_def process_span_def demo_deps_def Let_def cfg)
  then have col: "td_collect demo_deps () hs (process_chunk demo_deps demo_config ()) = Ret (Inr (V07 [demo_payload [demo_chunk]]))" for hs
    by (simp add: demo_deps_def)
  have ok: "verify_request_content_length (td_to_str demo_deps) [(''content-length'', ''3'')] 10485760 m = None" for m
    by (simp add: verify_request_content_length_def demo_deps_def three)
  have sp: "split_oversized_payloads (td_encoded_len demo_deps) [demo_payload [demo_chunk]] n = [demo_payload [demo_chunk]]" for n
    by (simp add: split_oversized_payloads_def split_tracer_payload.simps demo_payload_def)
  have tr: "td_get_traces demo_deps ''abc'' = Inr (3, ())" by (simp add: demo_deps_def)
  obtain out where o: "process_traces demo_deps demo_config () False True 100 [(''content-length'', ''3'')] ''abc'' ?p = Ret (out, ?p)"
    "length (to_sends out) = 1"
    by (simp add: process_traces_def cfg ok tr col add_function_tags_def function_tags_def apply_error_rescue_def payload_pieces_def Let_def sp)
  from traces_queued [OF o(1)] show ?thesis using o tr col by (auto simp: cfg ok nothing_queued_def)
qed

end
