(* ===== verification/Trace_Pipeline.thy ===== *)
theory Trace_Pipeline
  imports Trace_Processor
begin

text \<open>
  The crate \<^verbatim>\<open>datadog-trace-agent\<close>: the tasks between a request and the intake as an interleaving:
  the enqueue permits and enqueue tasks of \<^verbatim>\<open>trace_processor.rs\<close>, the bounded channel of
  \<^verbatim>\<open>mini_agent.rs\<close>, and the collecting and flushing loops of \<^verbatim>\<open>trace_flusher.rs\<close>.

  Every item carries the number of its request, a ghost that the code does not have, so that the
  order of the items of one request can be stated. A request holds its permit while it is decoded
  and enriched (\<open>pl_busy\<close>) and then hands it to its enqueue task, or gives it back when an error
  ends it. The collecting task takes an item from the channel before it waits for the lock of the
  aggregator (\<open>pl_held\<close>); a flush is one step, because it keeps that lock from its first batch to
  its last. The channel is never closed: the collecting task keeps its receiver.
\<close>

definition TRACER_PAYLOAD_CHANNEL_BUFFER_SIZE :: nat where "TRACER_PAYLOAD_CHANNEL_BUFFER_SIZE = 10"

type_synonym 'd item = "nat \<times> 'd"

record 'd pipeline =
  pl_permits :: nat
  pl_busy :: nat
  pl_tasks :: "(nat \<times> 'd list) list"
  pl_chan :: "'d item list"
  pl_held :: "'d item option"
  pl_agg :: "'d item trace_agg"
  pl_next :: nat

datatype 'd plabel = Admit | Accept "'d list" | Shed | Internal | Flushed "'d item list"

definition pipeline_init :: "'d pipeline" where
  "pipeline_init = \<lparr>pl_permits = MAX_IN_FLIGHT_ENQUEUES, pl_busy = 0, pl_tasks = [], pl_chan = [], pl_held = None,
     pl_agg = trace_agg_default, pl_next = 0\<rparr>"

inductive pipeline_step :: "('d \<Rightarrow> nat) \<Rightarrow> 'd pipeline \<Rightarrow> 'd plabel \<Rightarrow> 'd pipeline \<Rightarrow> bool" for len where
  acquire: "pl_permits s = Suc n \<Longrightarrow>
    pipeline_step len s Admit (s\<lparr>pl_permits := n, pl_busy := pl_busy s + 1\<rparr>)"
| shed: "pl_permits s = 0 \<Longrightarrow> pipeline_step len s Shed s"
| reject: "pl_busy s = Suc n \<Longrightarrow>
    pipeline_step len s Internal (s\<lparr>pl_permits := pl_permits s + 1, pl_busy := n\<rparr>)"
| accept: "pl_busy s = Suc n \<Longrightarrow>
    pipeline_step len s (Accept xs) (s\<lparr>pl_busy := n, pl_tasks := pl_tasks s @ [(pl_next s, xs)],
      pl_next := pl_next s + 1\<rparr>)"
| task_send: "pl_tasks s = ts @ (r, x # xs) # us \<Longrightarrow> length (pl_chan s) < TRACER_PAYLOAD_CHANNEL_BUFFER_SIZE \<Longrightarrow>
    pipeline_step len s Internal (s\<lparr>pl_tasks := ts @ (r, xs) # us, pl_chan := pl_chan s @ [(r, x)]\<rparr>)"
| task_done: "pl_tasks s = ts @ (r, []) # us \<Longrightarrow>
    pipeline_step len s Internal (s\<lparr>pl_tasks := ts @ us, pl_permits := pl_permits s + 1\<rparr>)"
| receive: "pl_chan s = x # xs \<Longrightarrow> pl_held s = None \<Longrightarrow>
    pipeline_step len s Internal (s\<lparr>pl_chan := xs, pl_held := Some x\<rparr>)"
| collect: "pl_held s = Some x \<Longrightarrow>
    pipeline_step len s Internal (s\<lparr>pl_held := None, pl_agg := trace_add x (pl_agg s)\<rparr>)"
| flush: "drain (trace_next (\<lambda>i. len (snd i))) (pl_agg s) = Some (batches, a) \<Longrightarrow>
    pipeline_step len s (Flushed (concat batches)) (s\<lparr>pl_agg := snd (trace_get_batch (\<lambda>i. len (snd i)) a)\<rparr>)"

inductive_cases pipeline_stepE: "pipeline_step len s l s'"

section \<open>Nothing is lost, duplicated or reordered\<close>

fun accepts :: "'d plabel list \<Rightarrow> 'd list list" where
  "accepts [] = []"
| "accepts (Accept xs # ls) = xs # accepts ls"
| "accepts (_ # ls) = accepts ls"

fun flushes :: "'d plabel list \<Rightarrow> 'd item list" where
  "flushes [] = []"
| "flushes (Flushed xs # ls) = xs @ flushes ls"
| "flushes (_ # ls) = flushes ls"

lemma accepts_append [simp]: "accepts (ks @ ls) = accepts ks @ accepts ls"
  by (induction ks rule: accepts.induct) auto

lemma flushes_append [simp]: "flushes (ks @ ls) = flushes ks @ flushes ls"
  by (induction ks rule: flushes.induct) auto

definition of_request :: "nat \<Rightarrow> 'd item list \<Rightarrow> 'd list" where
  "of_request r items = map snd (filter (\<lambda>i. fst i = r) items)"

definition remaining :: "nat \<Rightarrow> (nat \<times> 'd list) list \<Rightarrow> 'd list" where
  "remaining r tasks = concat (map snd (filter (\<lambda>t. fst t = r) tasks))"

lemma of_request_simps [simp]:
  "of_request r [] = []" "of_request r (xs @ ys) = of_request r xs @ of_request r ys"
  "of_request r ((q, x) # xs) = (if q = r then x # of_request r xs else of_request r xs)"
  by (simp_all add: of_request_def)

lemma remaining_simps [simp]:
  "remaining r [] = []" "remaining r (ts @ us) = remaining r ts @ remaining r us"
  "remaining r ((q, xs) # ts) = (if q = r then xs @ remaining r ts else remaining r ts)"
  by (simp_all add: remaining_def)

lemma remaining_none: "r \<notin> fst ` set ts \<Longrightarrow> remaining r ts = []"
  by (force simp: remaining_def)

definition in_transit :: "'d pipeline \<Rightarrow> 'd item list" where
  "in_transit s = ta_queue (pl_agg s) @ (case pl_held s of None \<Rightarrow> [] | Some x \<Rightarrow> [x]) @ pl_chan s"

definition pipeline_inv :: "'d plabel list \<Rightarrow> 'd pipeline \<Rightarrow> bool" where
  "pipeline_inv ls s \<longleftrightarrow>
     pl_permits s + pl_busy s + length (pl_tasks s) = MAX_IN_FLIGHT_ENQUEUES \<and>
     length (pl_chan s) \<le> TRACER_PAYLOAD_CHANNEL_BUFFER_SIZE \<and> trace_inv (pl_agg s) \<and>
     pl_next s = length (accepts ls) \<and> distinct (map fst (pl_tasks s)) \<and>
     list_all (\<lambda>t. fst t < pl_next s) (pl_tasks s) \<and>
     (\<forall>r. of_request r (flushes ls @ in_transit s) @ remaining r (pl_tasks s) =
        (if r < length (accepts ls) then accepts ls ! r else []))"

lemma pipeline_inv_init: "pipeline_inv [] pipeline_init"
  by (simp add: pipeline_inv_def in_transit_def pipeline_init_def trace_inv_def trace_agg_default_def trace_agg_new_def
      MAX_CONTENT_SIZE_BYTES_def)

lemma drain_flush:
  assumes "trace_inv a" "drain (trace_next len) a = Some (batches, a')"
  shows "concat batches = ta_queue a" "trace_inv (snd (trace_get_batch len a'))" "ta_queue (snd (trace_get_batch len a')) = []"
proof -
  let ?m = "ta_max_content_size_bytes a"
  obtain bs s' xss where d: "drain (trace_next len) a = Some (bs, s')"
    "list_all2 (\<lambda>b xs. b = xs \<and> batch_ok len ?m b) bs xss" "concat xss = ta_queue a"
    "ta_queue s' = []" "trace_inv s' \<and> ta_max_content_size_bytes s' = ?m"
    using tq.drain_all [of a ?m len] assms(1) by blast
  have eq: "batches = bs" "a' = s'" using assms(2) d(1) by auto
  have "bs = xss" using d(2) by (induction rule: list_all2_induct) auto
  then show "concat batches = ta_queue a" using eq d(3) by simp
  show "trace_inv (snd (trace_get_batch len a'))" "ta_queue (snd (trace_get_batch len a')) = []"
    using eq d(4,5) by (auto simp: trace_get_batch_def trace_inv_def)
qed

lemma pipeline_inv_step:
  assumes inv: "pipeline_inv ls s" and step: "pipeline_step len s l s'"
  shows "pipeline_inv (ls @ [l]) s'"
  using step
proof cases
  case (accept n xs)
  have new: "pl_next s \<notin> fst ` set (pl_tasks s)" using inv by (auto simp: pipeline_inv_def list_all_iff)
  have low: "list_all (\<lambda>t. fst t < Suc (pl_next s)) (pl_tasks s)"
    using inv by (auto simp: pipeline_inv_def list_all_iff less_Suc_eq)
  have "of_request (pl_next s) (flushes ls @ in_transit s) @ remaining (pl_next s) (pl_tasks s) = []"
    using inv unfolding pipeline_inv_def by (metis less_irrefl)
  then have "of_request (pl_next s) (flushes ls) = []" "of_request (pl_next s) (in_transit s) = []"
    "remaining (pl_next s) (pl_tasks s) = []" by simp_all
  moreover have "in_transit s' = in_transit s" using accept by (simp add: in_transit_def)
  ultimately show ?thesis using inv accept new low
    by (auto simp: pipeline_inv_def nth_append less_Suc_eq)
next
  case (task_send ts r x xs us)
  have "r \<notin> fst ` set ts" using inv task_send by (auto simp: pipeline_inv_def)
  then have "remaining r ts = []" by (rule remaining_none)
  then have "of_request q (flushes ls @ in_transit s') @ remaining q (pl_tasks s') =
      of_request q (flushes ls @ in_transit s) @ remaining q (pl_tasks s)" for q
    using task_send by (auto simp: in_transit_def)
  then show ?thesis using inv task_send unfolding pipeline_inv_def by auto
next
  case (task_done ts r us)
  have "remaining q (ts @ us) = remaining q (pl_tasks s)" for q using task_done by auto
  moreover have "in_transit s' = in_transit s" using task_done by (simp add: in_transit_def)
  ultimately show ?thesis using inv task_done unfolding pipeline_inv_def by auto
next
  case (receive x xs)
  then have "in_transit s' = in_transit s" by (simp add: in_transit_def)
  then show ?thesis using inv receive unfolding pipeline_inv_def by auto
next
  case (collect x)
  then have "in_transit s' = in_transit s" by (simp add: in_transit_def trace_add_def)
  then show ?thesis using inv collect unfolding pipeline_inv_def by (auto simp: trace_add_def trace_inv_def)
next
  case (flush batches a)
  have "trace_inv (pl_agg s)" using inv by (simp add: pipeline_inv_def)
  note d = drain_flush [OF this flush(3)]
  have "flushes (ls @ [l]) @ in_transit s' = flushes ls @ in_transit s" using flush d by (simp add: in_transit_def)
  then show ?thesis using inv flush d unfolding pipeline_inv_def by auto
qed (use inv in \<open>auto simp: pipeline_inv_def in_transit_def\<close>)

interpretation pipe: logged_system "pipeline_step len" pipeline_init pipeline_inv for len
  by unfold_locales (rule pipeline_inv_init, rule pipeline_inv_step)

text \<open>
  C2. However the tasks interleave: the free permits, the requests being decoded and the enqueue
  tasks are always ten together, at most ten payloads are in the channel, and for every accepted
  request the payloads handed to \<open>send\<close>, those in the aggregator, the one in the collector's
  hands, those in the channel and those its task still holds are, in this order, exactly the
  payloads it was split into: none is lost, handed over twice or overtaken by a later one.
\<close>

theorem pipeline_exactly_once:
  assumes "run (pipeline_step len) pipeline_init ls s" and "r < length (accepts ls)"
  shows "of_request r (flushes ls) @ of_request r (in_transit s) @ remaining r (pl_tasks s) = accepts ls ! r \<and>
    pl_permits s + pl_busy s + length (pl_tasks s) = MAX_IN_FLIGHT_ENQUEUES \<and>
    length (pl_chan s) \<le> TRACER_PAYLOAD_CHANNEL_BUFFER_SIZE"
  using pipe.run_inv [OF assms(1)] assms(2) by (simp add: pipeline_inv_def)

section \<open>The pipeline can always be drained\<close>

definition quiet_label :: "'d plabel \<Rightarrow> bool" where
  "quiet_label l \<longleftrightarrow> (case l of Internal \<Rightarrow> True | Flushed _ \<Rightarrow> True | _ \<Rightarrow> False)"

definition pending_work :: "'d pipeline \<Rightarrow> nat" where
  "pending_work s = 3 * sum_list (map (\<lambda>t. length (snd t) + 1) (pl_tasks s)) + 2 * length (pl_chan s) +
     (if pl_held s = None then 0 else 1)"

lemma pipeline_can_move:
  assumes "pl_tasks s \<noteq> [] \<or> pl_chan s \<noteq> [] \<or> pl_held s \<noteq> None"
  shows "\<exists>s'. pipeline_step len s Internal s' \<and> pl_busy s' = pl_busy s \<and> pending_work s' < pending_work s"
proof (cases "pl_held s")
  case (Some x)
  then show ?thesis using collect [OF Some, of len] by (fastforce simp: pending_work_def)
next
  case None
  show ?thesis
  proof (cases "pl_chan s")
    case (Cons x xs)
    then show ?thesis using receive [OF Cons None, of len] None by (fastforce simp: pending_work_def)
  next
    case Nil
    then obtain r ys us where t: "pl_tasks s = (r, ys) # us" using assms None by (cases "pl_tasks s") auto
    show ?thesis
    proof (cases ys)
      case Nil
      then have "pl_tasks s = [] @ (r, []) # us" using t by simp
      from task_done [OF this, of len] t show ?thesis by (fastforce simp: pending_work_def)
    next
      case (Cons y zs)
      then have "pl_tasks s = [] @ (r, y # zs) # us" using t by simp
      moreover have "length (pl_chan s) < TRACER_PAYLOAD_CHANNEL_BUFFER_SIZE"
        using Nil by (simp add: TRACER_PAYLOAD_CHANNEL_BUFFER_SIZE_def)
      ultimately show ?thesis using task_send [of s "[]" r y zs us len] t Cons by (fastforce simp: pending_work_def)
    qed
  qed
qed

interpretation rest: settling_system "pipeline_step len" pipeline_init pipeline_inv
  "\<lambda>s. pl_tasks s = [] \<and> pl_chan s = [] \<and> pl_held s = None" quiet_label pl_busy pending_work
  for len :: "'d \<Rightarrow> nat"
proof
  fix ls :: "'d plabel list" and s :: "'d pipeline"
  assume "\<not> (pl_tasks s = [] \<and> pl_chan s = [] \<and> pl_held s = None)"
  then have "pl_tasks s \<noteq> [] \<or> pl_chan s \<noteq> [] \<or> pl_held s \<noteq> None" by auto
  from pipeline_can_move [OF this, of len]
  show "\<exists>l s'. pipeline_step len s l s' \<and> quiet_label l \<and> pl_busy s' = pl_busy s \<and> pending_work s' < pending_work s"
    unfolding quiet_label_def by fastforce
qed

text \<open>
  C37. From every reachable state, without another request, the tasks can come to rest with every
  payload of every accepted request handed to \<open>send\<close>, in order, and every permit free that no
  request still being decoded holds.
\<close>

theorem pipeline_drains:
  assumes "run (pipeline_step len) pipeline_init ls s"
  shows "\<exists>ks s'. run (pipeline_step len) s ks s' \<and> list_all quiet_label ks \<and>
    pl_permits s' + pl_busy s = MAX_IN_FLIGHT_ENQUEUES \<and>
    (\<forall>r < length (accepts ls). of_request r (flushes (ls @ ks)) = accepts ls ! r)"
proof -
  from rest.settles [OF assms] obtain ks s1 where k: "run (pipeline_step len) s ks s1" "list_all quiet_label ks"
      "pl_tasks s1 = []" "pl_chan s1 = []" "pl_held s1 = None" "pl_busy s1 = pl_busy s" "pipeline_inv (ls @ ks) s1"
    by metis
  note inv1 = k(7)
  then have "trace_inv (pl_agg s1)" by (simp add: pipeline_inv_def)
  then obtain batches a where d: "drain (trace_next (\<lambda>i. len (snd i))) (pl_agg s1) = Some (batches, a)"
    using tq.drain_all [of "pl_agg s1" "ta_max_content_size_bytes (pl_agg s1)" "\<lambda>i. len (snd i)"] by blast
  define s2 where "s2 = s1\<lparr>pl_agg := snd (trace_get_batch (\<lambda>i. len (snd i)) a)\<rparr>"
  have st: "pipeline_step len s1 (Flushed (concat batches)) s2" unfolding s2_def by (rule flush [OF d])
  have inv2: "pipeline_inv ((ls @ ks) @ [Flushed (concat batches)]) s2" by (rule pipeline_inv_step [OF inv1 st])
  have q: "in_transit s2 = []" "pl_tasks s2 = []" "pl_busy s2 = pl_busy s"
    using drain_flush(3) [OF \<open>trace_inv (pl_agg s1)\<close> d] k(3-6) by (simp_all add: s2_def in_transit_def)
  have no_accept: "accepts ks = []" using k(2)
    by (induction ks rule: accepts.induct) (auto simp: quiet_label_def)
  show ?thesis
    using run_snoc [OF k(1) st] k(2) inv2 q no_accept
    by (intro exI [of _ "ks @ [Flushed (concat batches)]"] exI [of _ s2])
      (auto simp: pipeline_inv_def quiet_label_def)
qed

section \<open>Witnesses\<close>

definition demo_state :: "nat pipeline" where
  "demo_state = pipeline_init\<lparr>pl_permits := 9, pl_tasks := [(0, [4, 5])], pl_next := 1\<rparr>"

lemma demo_run: "run (pipeline_step (\<lambda>n. n)) pipeline_init [Admit, Accept [4, 5]] demo_state"
proof -
  let ?s = "pipeline_init\<lparr>pl_permits := 9, pl_busy := 1\<rparr> :: nat pipeline"
  have "pipeline_step (\<lambda>n. n) pipeline_init Admit ?s"
    using acquire [of "pipeline_init :: nat pipeline" 9 "\<lambda>n. n"] by (simp add: pipeline_init_def MAX_IN_FLIGHT_ENQUEUES_def)
  moreover have "pipeline_step (\<lambda>n. n) ?s (Accept [4, 5]) demo_state"
    using accept [of ?s 0 "\<lambda>n. n" "[4, 5]"] by (simp add: pipeline_init_def demo_state_def)
  ultimately show ?thesis
    using run_snoc [OF run_single [of "pipeline_step (\<lambda>n. n)"]] by fastforce
qed

theorem pipeline_exactly_once_witness: "remaining 0 (pl_tasks demo_state) = [4, 5]"
  using pipeline_exactly_once [OF demo_run, of 0]
  by (simp add: pipeline_init_def trace_agg_default_def trace_agg_new_def demo_state_def in_transit_def)

theorem pipeline_drains_witness:
  "\<exists>ks s'. run (pipeline_step (\<lambda>n. n)) demo_state ks s' \<and>
     pl_permits s' = MAX_IN_FLIGHT_ENQUEUES \<and> of_request 0 (flushes ks) = [4, 5]"
  using pipeline_drains [OF demo_run] by (fastforce simp: demo_state_def pipeline_init_def)

end
