(* ===== verification/Trace_Stats.thy ===== *)
theory Trace_Stats
  imports Trace_Processor
begin

text \<open>
  The crate \<^verbatim>\<open>datadog-trace-agent\<close>: trace statistics. \<^verbatim>\<open>stats_processor.rs\<close> takes the statistics a
  tracer computed, \<^verbatim>\<open>stats_concentrator_service.rs\<close> computes them from the chunks the agent sees,
  \<^verbatim>\<open>stats_flusher.rs\<close> sends both, at intervals and once more at shutdown.

  The \<open>SpanConcentrator\<close> of \<^verbatim>\<open>libdatadog\<close> is the parameter record \<open>concentrator_deps\<close>, its state is
  \<open>'k\<close>; the messages' fields the code does not read are in \<open>'y\<close>.
\<close>

section \<open>Messages\<close>

record 'y stats_bucket =
  sb_start :: u64
  sb_other :: 'y

record 'y client_stats =
  cs_hostname :: string
  cs_env :: string
  cs_version :: string
  cs_lang :: string
  cs_tracer_version :: string
  cs_runtime_id :: string
  cs_sequence :: nat
  cs_agent_aggregation :: string
  cs_service :: string
  cs_container_id :: string
  cs_tags :: "string list"
  cs_git_commit_sha :: string
  cs_image_tag :: string
  cs_stats :: "'y stats_bucket list"
  cs_process_tags :: string
  cs_process_tags_hash :: nat

record 'y stats_payload =
  sp_stats :: "'y client_stats list"
  sp_client_computed :: bool
  sp_agent :: 'y

section \<open>Statistics computed by the tracer\<close>

text \<open>
  \<open>process_stats\<close>: the response and the statistics handed to the flusher. \<open>get_stats\<close> decodes a
  body, \<open>now_ns\<close> is the time since the epoch, \<open>is_open\<close> whether the flusher still receives.
\<close>

definition restart_first :: "nat \<Rightarrow> 'y client_stats \<Rightarrow> 'y client_stats" where
  "restart_first now_ns stats =
     (case cs_stats stats of
        [] \<Rightarrow> stats
      | b # bs \<Rightarrow> stats\<lparr>cs_stats := b\<lparr>sb_start := of_nat now_ns\<rparr> # bs\<rparr>)"

definition process_stats ::
  "(string \<Rightarrow> string option) \<Rightarrow> (string \<Rightarrow> string + 'y client_stats) \<Rightarrow> 'o trace_config \<Rightarrow> nat \<Rightarrow> bool \<Rightarrow> headers \<Rightarrow> string \<Rightarrow>
   trace_response \<times> 'y client_stats option" where
  "process_stats to_str get_stats c now_ns is_open hs body =
     (if tc_agent_stats_computation_enabled c
      then (log_and_create_http_response ''Dropping trace stats: agent stats computation is enabled'' 202, None)
      else
        (case verify_request_content_length to_str hs (tc_max_request_content_length c) ''Error processing trace stats'' of
           Some response \<Rightarrow> (response, None)
         | None \<Rightarrow>
             (case get_stats body of
                Inl err \<Rightarrow>
                  (log_and_create_http_response (''Error deserializing trace stats from request body: '' @ err) 500, None)
              | Inr stats \<Rightarrow>
                  if is_open
                  then (log_and_create_http_response ''Successfully buffered stats to be flushed.'' 202,
                        Some (restart_first now_ns stats))
                  else (log_and_create_http_response ''Error sending stats to the stats flusher: channel closed'' 500, None))))"

section \<open>Statistics computed by the agent\<close>

definition BUCKET_DURATION_NS :: nat where "BUCKET_DURATION_NS = 10 * 1000000000"

definition SPAN_KINDS_STATS_COMPUTED :: "string list" where
  "SPAN_KINDS_STATS_COMPUTED = [''server'', ''client'', ''producer'', ''consumer'']"

text \<open>
  \<open>cn_new duration now kinds peer_tags limit additional_tags\<close>: \<open>SpanConcentrator::new\<close>;
  \<open>cn_flush now force\<close>: the buckets flushed and the concentrator after it.
\<close>

record ('x, 'k, 'y) concentrator_deps =
  cn_new :: "nat \<Rightarrow> int \<Rightarrow> string list \<Rightarrow> string list \<Rightarrow> nat option \<Rightarrow> string list \<Rightarrow> 'k"
  cn_add :: "'x pb_span \<Rightarrow> 'k \<Rightarrow> 'k"
  cn_flush :: "int \<Rightarrow> bool \<Rightarrow> 'k \<Rightarrow> 'y stats_bucket list \<times> 'k"

type_synonym 'k concentrators = "(tracer_metadata \<times> 'k) list"

definition new_span_concentrator ::
  "('x, 'k, 'y) concentrator_deps \<Rightarrow> int \<Rightarrow> string list \<Rightarrow> string list \<Rightarrow> nat option \<Rightarrow> 'k" where
  "new_span_concentrator N now peer_tags extra_tags limit =
     cn_new N BUCKET_DURATION_NS now SPAN_KINDS_STATS_COMPUTED peer_tags limit extra_tags"

datatype ('x, 'tx) concentrator_command =
    AddChunk "'x pb_chunk" tracer_metadata int
  | Flush bool 'tx "tracer_metadata \<Rightarrow> int"

definition concentrator_add ::
  "('x, 'k, 'y) concentrator_deps \<Rightarrow> 'o trace_config \<Rightarrow> 'x pb_chunk \<Rightarrow> tracer_metadata \<Rightarrow> int \<Rightarrow>
   'k concentrators \<Rightarrow> 'k concentrators" where
  "concentrator_add N c chunk metadata now cs =
     (let k = (case map_of cs metadata of
                 Some k \<Rightarrow> k
               | None \<Rightarrow> new_span_concentrator N now (tc_peer_tags c) (tc_additional_metric_tags c)
                   (tc_additional_metric_tags_cardinality_limit c))
      in hm_insert metadata (fold (cn_add N) (ch_spans chunk) k) cs)"

definition agent_stats_of :: "'o trace_config \<Rightarrow> tracer_metadata \<Rightarrow> 'y stats_bucket list \<Rightarrow> 'y client_stats" where
  "agent_stats_of c m buckets =
     \<lparr>cs_hostname = [],
      cs_env = resolve_payload_env (case tm_service_env m of Some e \<Rightarrow> e | None \<Rightarrow> []) (tc_env c),
      cs_version = (case tm_service_version m of Some v \<Rightarrow> v | None \<Rightarrow> []),
      cs_lang = tm_tracer_language m, cs_tracer_version = tm_tracer_version m, cs_runtime_id = [],
      cs_sequence = 0, cs_agent_aggregation = [],
      cs_service = (case tm_service_name m of Some v \<Rightarrow> v | None \<Rightarrow> []),
      cs_container_id = (case tm_container_id m of Some v \<Rightarrow> v | None \<Rightarrow> []),
      cs_tags = [], cs_git_commit_sha = [], cs_image_tag = [], cs_stats = buckets,
      cs_process_tags = [], cs_process_tags_hash = 0\<rparr>"

fun handle_stats_flush ::
  "('x, 'k, 'y) concentrator_deps \<Rightarrow> 'o trace_config \<Rightarrow> bool \<Rightarrow> (tracer_metadata \<Rightarrow> int) \<Rightarrow> 'k concentrators \<Rightarrow>
   'y client_stats list \<times> 'k concentrators" where
  "handle_stats_flush N c force clock [] = ([], [])"
| "handle_stats_flush N c force clock ((m, k) # cs) =
     (let (buckets, k') = cn_flush N (clock m) force k;
          (payloads, cs') = handle_stats_flush N c force clock cs
      in (if buckets = [] then payloads else agent_stats_of c m buckets # payloads, (m, k') # cs'))"

section \<open>Sending\<close>

text \<open>
  \<open>flush_stats\<close>: the payloads handed to \<open>send_stats_payload\<close>; \<open>mk_payload\<close> stands for
  \<open>construct_stats_payload\<close>, \<open>agent_stats\<close> the answer of the concentrator when there is one.
\<close>

definition flush_stats ::
  "('y client_stats list \<Rightarrow> 'y stats_payload) \<Rightarrow> 'y client_stats list \<Rightarrow> (string + 'y client_stats list) option \<Rightarrow>
   'y stats_payload list" where
  "flush_stats mk_payload client_stats agent_stats =
     (if client_stats \<noteq> [] then [mk_payload client_stats] else []) @
     (case agent_stats of
        Some (Inr stats) \<Rightarrow> if stats \<noteq> [] then [(mk_payload stats)\<lparr>sp_client_computed := False\<rparr>] else []
      | _ \<Rightarrow> [])"

definition send_stats_payload ::
  "('y stats_payload \<Rightarrow> string + string) \<Rightarrow> 'o trace_config \<Rightarrow> 'y stats_payload \<Rightarrow> (string \<times> string \<times> string) option rust" where
  "send_stats_payload serialize c payload =
     (case serialize payload of
        Inl err \<Rightarrow> Ret None
      | Inr serialized \<Rightarrow>
          (case ep_api_key (tc_trace_stats_intake c) of
             None \<Rightarrow> Panic
           | Some key \<Rightarrow> Ret (Some (ep_url (tc_trace_stats_intake c), key, serialized))))"

section \<open>Every span is counted once\<close>

text \<open>
  What the code relies on of a \<open>SpanConcentrator\<close>, for any additive measure of spans (the number of
  hits, errors, a duration): \<open>weight\<close> measures a span, \<open>pending\<close> what a concentrator holds, \<open>counted\<close>
  a flushed bucket. A span is added once, a flush moves, a forced flush moves everything.
\<close>

definition concentrator_law ::
  "('x, 'k, 'y) concentrator_deps \<Rightarrow> ('x pb_span \<Rightarrow> 'h :: comm_monoid_add) \<Rightarrow> ('k \<Rightarrow> 'h) \<Rightarrow> ('y stats_bucket \<Rightarrow> 'h) \<Rightarrow> bool" where
  "concentrator_law N weight pending counted \<longleftrightarrow>
     (\<forall>d now kinds peers limit extra. pending (cn_new N d now kinds peers limit extra) = 0) \<and>
     (\<forall>sp k. pending (cn_add N sp k) = pending k + weight sp) \<and>
     (\<forall>now force k. sum_list (map counted (fst (cn_flush N now force k))) + pending (snd (cn_flush N now force k)) = pending k) \<and>
     (\<forall>now k. pending (snd (cn_flush N now True k)) = 0)"

text \<open>The fields of a payload that say whose statistics it holds.\<close>

definition header :: "'y client_stats \<Rightarrow> 'y client_stats" where
  "header p = p\<lparr>cs_stats := []\<rparr>"

definition shipped :: "('y stats_bucket \<Rightarrow> 'h :: comm_monoid_add) \<Rightarrow> 'y client_stats \<Rightarrow> 'y client_stats list \<Rightarrow> 'h" where
  "shipped counted h ps = sum_list (map (\<lambda>p. sum_list (map counted (cs_stats p))) (filter (\<lambda>p. header p = h) ps))"

definition held_back :: "('k \<Rightarrow> 'h :: comm_monoid_add) \<Rightarrow> 'o trace_config \<Rightarrow> 'y client_stats \<Rightarrow> 'k concentrators \<Rightarrow> 'h" where
  "held_back pending c h cs = sum_list (map (\<lambda>e. pending (snd e)) (filter (\<lambda>e. agent_stats_of c (fst e) [] = h) cs))"

definition offered ::
  "('x pb_span \<Rightarrow> 'h :: comm_monoid_add) \<Rightarrow> 'o trace_config \<Rightarrow> 'y client_stats \<Rightarrow> ('x pb_chunk \<times> tracer_metadata) list \<Rightarrow> 'h" where
  "offered weight c h subs =
     sum_list (map (\<lambda>e. sum_list (map weight (ch_spans (fst e)))) (filter (\<lambda>e. agent_stats_of c (snd e) [] = h) subs))"

lemma shipped_simps [simp]:
  "shipped counted h [] = 0" "shipped counted h (ps @ qs) = shipped counted h ps + shipped counted h qs"
  "shipped counted h (p # ps) = (if header p = h then sum_list (map counted (cs_stats p)) else 0) + shipped counted h ps"
  by (simp_all add: shipped_def)

lemma held_back_simps [simp]:
  "held_back pending c h [] = 0"
  "held_back pending c h ((m, k) # cs) = (if agent_stats_of c m [] = h then pending k else 0) + held_back pending c h cs"
  by (simp_all add: held_back_def)

lemma offered_simps [simp]:
  "offered weight c h [] = 0" "offered weight c h (xs @ ys) = offered weight c h xs + offered weight c h ys"
  "offered weight c h ((ch, m) # xs) =
     (if agent_stats_of c m [] = h then sum_list (map weight (ch_spans ch)) else 0) + offered weight c h xs"
  by (simp_all add: offered_def)

lemma header_agent_stats [simp]: "header (agent_stats_of c m bs) = agent_stats_of c m []"
  by (simp add: header_def agent_stats_of_def)

lemma cs_stats_agent_stats [simp]: "cs_stats (agent_stats_of c m bs) = bs"
  by (simp add: agent_stats_of_def)

lemma pending_add_spans:
  "concentrator_law N weight pending counted \<Longrightarrow>
   pending (fold (cn_add N) sps k) = pending k + sum_list (map weight sps)"
  by (induction sps arbitrary: k) (simp_all add: concentrator_law_def add.assoc)

lemma held_back_update:
  "held_back pending c h (hm_insert m (f (case map_of cs m of Some k \<Rightarrow> k | None \<Rightarrow> k0)) cs) = held_back pending c h cs + w"
  if "\<And>k. pending (f k) = pending k + v" "pending k0 = 0" "w = (if agent_stats_of c m [] = h then v else 0)"
  using that by (induction cs) (auto simp: ac_simps)

lemma concentrator_add_held:
  fixes N :: "('x, 'k, 'y) concentrator_deps" and h :: "'y client_stats"
  assumes "concentrator_law N weight pending counted"
  shows "held_back pending c h (concentrator_add N c ch m now cs) = held_back pending c h cs + offered weight c h [(ch, m)]"
  unfolding concentrator_add_def Let_def
  by (rule held_back_update [where f = "fold (cn_add N) (ch_spans ch)" and v = "sum_list (map weight (ch_spans ch))"])
    (use assms pending_add_spans [OF assms] in \<open>simp_all add: concentrator_law_def new_span_concentrator_def\<close>)

lemma handle_stats_flush_held:
  assumes "concentrator_law N weight pending counted"
  shows "shipped counted h (fst (handle_stats_flush N c force clock cs)) + held_back pending c h (snd (handle_stats_flush N c force clock cs)) =
      held_back pending c h cs \<and>
    (force \<longrightarrow> held_back pending c h (snd (handle_stats_flush N c force clock cs)) = 0)"
proof (induction cs)
  case (Cons e cs)
  obtain m k where e: "e = (m, k)" by fastforce
  obtain bs k' where f: "cn_flush N (clock m) force k = (bs, k')" by fastforce
  have k: "sum_list (map counted bs) + pending k' = pending k" "force \<longrightarrow> pending k' = 0"
    using assms f unfolding concentrator_law_def by (metis fst_conv snd_conv)+
  obtain ps cs' where r: "handle_stats_flush N c force clock cs = (ps, cs')" by fastforce
  have IH: "shipped counted h ps + held_back pending c h cs' = held_back pending c h cs" "force \<longrightarrow> held_back pending c h cs' = 0"
    using Cons r by auto
  define A B C where "A = (if agent_stats_of c m [] = h then sum_list (map counted bs) else 0)"
    and "B = (if agent_stats_of c m [] = h then pending k' else 0)"
    and "C = (if agent_stats_of c m [] = h then pending k else 0)"
  have "(A + shipped counted h ps) + (B + held_back pending c h cs') = (A + B) + (shipped counted h ps + held_back pending c h cs')"
    by (simp add: ac_simps)
  moreover have "A + B = C" using k(1) by (simp add: A_def B_def C_def)
  moreover have "fst (handle_stats_flush N c force clock (e # cs)) = (if bs = [] then ps else agent_stats_of c m bs # ps)"
    "snd (handle_stats_flush N c force clock (e # cs)) = (m, k') # cs'" using e f r by simp_all
  ultimately show ?case using k(2) IH e by (auto simp: A_def B_def C_def split: if_splits)
qed simp

section \<open>The tasks as an interleaving\<close>

text \<open>
  The handlers of the requests in flight, the statistics channel and the command channel, the
  concentrator service, the stats flusher, and the supervisor that signals the flusher to stop
  only when every accept loop has drained its handlers (\<^verbatim>\<open>serve\<close> in \<^verbatim>\<open>mini_agent.rs\<close>).
  \<open>agent\<close>: whether there is a concentrator. \<open>ss_wait\<close>: the flusher waits for the answer to a flush,
  with its force flag.
\<close>

definition STATS_PAYLOAD_CHANNEL_BUFFER_SIZE :: nat where "STATS_PAYLOAD_CHANNEL_BUFFER_SIZE = 10"

record ('x, 'k, 'y) stats_sys =
  ss_handlers :: nat
  ss_draining :: bool
  ss_chan :: "'y client_stats list"
  ss_buffer :: "'y client_stats list"
  ss_cmds :: "('x, unit) concentrator_command list"
  ss_conc :: "'k concentrators"
  ss_wait :: "bool option"
  ss_done :: bool

datatype ('x, 'y) slabel =
    Opened | Posted "'y client_stats" | Submitted "'x pb_chunk" tracer_metadata | Signal | Quiet | Sent "'y stats_payload list"

definition stats_init :: "('x, 'k, 'y) stats_sys" where
  "stats_init = \<lparr>ss_handlers = 0, ss_draining = False, ss_chan = [], ss_buffer = [], ss_cmds = [], ss_conc = [],
     ss_wait = None, ss_done = False\<rparr>"

text \<open>\<open>StatsConcentratorHandle::flush\<close>: the command is queued and the flusher waits for its answer.\<close>

definition request_flush :: "bool \<Rightarrow> bool \<Rightarrow> (tracer_metadata \<Rightarrow> int) \<Rightarrow> ('x, 'k, 'y) stats_sys \<Rightarrow> ('x, 'k, 'y) stats_sys" where
  "request_flush agent force clock s =
     (if agent then s\<lparr>ss_cmds := ss_cmds s @ [Flush force () clock], ss_wait := Some force\<rparr>
      else s\<lparr>ss_done := force\<rparr>)"

inductive stats_step ::
  "('x, 'k, 'y) concentrator_deps \<Rightarrow> 'o trace_config \<Rightarrow> ('y client_stats list \<Rightarrow> 'y stats_payload) \<Rightarrow> bool \<Rightarrow>
   ('x, 'k, 'y) stats_sys \<Rightarrow> ('x, 'y) slabel \<Rightarrow> ('x, 'k, 'y) stats_sys \<Rightarrow> bool" for N c mk_payload agent where
  s_open: "\<not> ss_draining s \<Longrightarrow> stats_step N c mk_payload agent s Opened (s\<lparr>ss_handlers := ss_handlers s + 1\<rparr>)"
| s_close: "ss_handlers s = Suc n \<Longrightarrow> stats_step N c mk_payload agent s Quiet (s\<lparr>ss_handlers := n\<rparr>)"
| s_post: "ss_handlers s > 0 \<Longrightarrow> length (ss_chan s) < STATS_PAYLOAD_CHANNEL_BUFFER_SIZE \<Longrightarrow>
    stats_step N c mk_payload agent s (Posted st) (s\<lparr>ss_chan := ss_chan s @ [st]\<rparr>)"
| s_submit: "ss_handlers s > 0 \<Longrightarrow> agent \<Longrightarrow>
    stats_step N c mk_payload agent s (Submitted ch m) (s\<lparr>ss_cmds := ss_cmds s @ [AddChunk ch m now]\<rparr>)"
| s_signal: "stats_step N c mk_payload agent s Signal (s\<lparr>ss_draining := True\<rparr>)"
| s_add: "ss_cmds s = AddChunk ch m now # cmds \<Longrightarrow>
    stats_step N c mk_payload agent s Quiet (s\<lparr>ss_cmds := cmds, ss_conc := concentrator_add N c ch m now (ss_conc s)\<rparr>)"
| s_receive: "\<not> ss_done s \<Longrightarrow> ss_wait s = None \<Longrightarrow> ss_chan s = st # sts \<Longrightarrow>
    stats_step N c mk_payload agent s Quiet (s\<lparr>ss_chan := sts, ss_buffer := ss_buffer s @ [st]\<rparr>)"
| s_tick: "\<not> ss_done s \<Longrightarrow> ss_wait s = None \<Longrightarrow> ss_buffer s \<noteq> [] \<or> agent \<Longrightarrow>
    stats_step N c mk_payload agent s (Sent (flush_stats mk_payload (ss_buffer s) None))
      (request_flush agent False clock (s\<lparr>ss_buffer := []\<rparr>))"
| s_shutdown: "\<not> ss_done s \<Longrightarrow> ss_wait s = None \<Longrightarrow> ss_draining s \<Longrightarrow> ss_handlers s = 0 \<Longrightarrow>
    stats_step N c mk_payload agent s (Sent (flush_stats mk_payload (ss_buffer s @ ss_chan s) None))
      (request_flush agent True clock (s\<lparr>ss_buffer := [], ss_chan := []\<rparr>))"
| s_reply: "ss_cmds s = Flush force () clock # cmds \<Longrightarrow> handle_stats_flush N c force clock (ss_conc s) = (ps, cs) \<Longrightarrow>
    stats_step N c mk_payload agent s (Sent (flush_stats mk_payload [] (Some (Inr ps))))
      (s\<lparr>ss_cmds := cmds, ss_conc := cs, ss_wait := None, ss_done := force\<rparr>)"

text \<open>What a run took in and what it sent.\<close>

fun posted :: "('x, 'y) slabel list \<Rightarrow> 'y client_stats list" where
  "posted [] = []"
| "posted (Posted st # ls) = st # posted ls"
| "posted (_ # ls) = posted ls"

fun submitted :: "('x, 'y) slabel list \<Rightarrow> ('x pb_chunk \<times> tracer_metadata) list" where
  "submitted [] = []"
| "submitted (Submitted ch m # ls) = (ch, m) # submitted ls"
| "submitted (_ # ls) = submitted ls"

fun sent :: "('x, 'y) slabel list \<Rightarrow> 'y stats_payload list" where
  "sent [] = []"
| "sent (Sent ps # ls) = ps @ sent ls"
| "sent (_ # ls) = sent ls"

definition stats_of :: "bool \<Rightarrow> 'y stats_payload list \<Rightarrow> 'y client_stats list" where
  "stats_of client ps = concat (map sp_stats (filter (\<lambda>p. sp_client_computed p = client) ps))"

lemma posted_append [simp]: "posted (ks @ ls) = posted ks @ posted ls"
  by (induction ks rule: posted.induct) auto

lemma submitted_append [simp]: "submitted (ks @ ls) = submitted ks @ submitted ls"
  by (induction ks rule: submitted.induct) auto

lemma sent_append [simp]: "sent (ks @ ls) = sent ks @ sent ls"
  by (induction ks rule: sent.induct) auto

lemma stats_of_append [simp]: "stats_of b (ps @ qs) = stats_of b ps @ stats_of b qs"
  by (simp add: stats_of_def)

text \<open>\<open>construct_stats_payload\<close> wraps the statistics and marks them as computed by the client.\<close>

definition payload_law :: "('y client_stats list \<Rightarrow> 'y stats_payload) \<Rightarrow> bool" where
  "payload_law mk_payload \<longleftrightarrow> (\<forall>sts. sp_stats (mk_payload sts) = sts \<and> sp_client_computed (mk_payload sts))"

lemma stats_of_flush:
  assumes "payload_law mk_payload"
  shows "stats_of True (flush_stats mk_payload sts None) = sts" "stats_of False (flush_stats mk_payload sts None) = []"
    "stats_of True (flush_stats mk_payload [] (Some (Inr ps))) = []" "stats_of False (flush_stats mk_payload [] (Some (Inr ps))) = ps"
  using assms by (auto simp: payload_law_def stats_of_def flush_stats_def)

text \<open>The chunks and the flushes still in the command channel.\<close>

fun queued_chunks :: "('x, unit) concentrator_command list \<Rightarrow> ('x pb_chunk \<times> tracer_metadata) list" where
  "queued_chunks [] = []"
| "queued_chunks (AddChunk ch m now # cmds) = (ch, m) # queued_chunks cmds"
| "queued_chunks (Flush _ _ _ # cmds) = queued_chunks cmds"

fun queued_flushes :: "('x, unit) concentrator_command list \<Rightarrow> bool list" where
  "queued_flushes [] = []"
| "queued_flushes (AddChunk ch m now # cmds) = queued_flushes cmds"
| "queued_flushes (Flush force _ _ # cmds) = force # queued_flushes cmds"

lemma queued_append [simp]:
  "queued_chunks (ks @ ls) = queued_chunks ks @ queued_chunks ls"
  "queued_flushes (ks @ ls) = queued_flushes ks @ queued_flushes ls"
  by (induction ks rule: queued_chunks.induct) auto

text \<open>Nothing is lost between a handler and the intake.\<close>

definition stats_balance ::
  "('x pb_span \<Rightarrow> 'h :: comm_monoid_add) \<Rightarrow> ('k \<Rightarrow> 'h) \<Rightarrow> ('y stats_bucket \<Rightarrow> 'h) \<Rightarrow> 'o trace_config \<Rightarrow>
   ('x, 'y) slabel list \<Rightarrow> ('x, 'k, 'y) stats_sys \<Rightarrow> bool" where
  "stats_balance weight pending counted c ls s \<longleftrightarrow>
     stats_of True (sent ls) @ ss_buffer s @ ss_chan s = posted ls \<and>
     (\<forall>h. shipped counted h (stats_of False (sent ls)) + held_back pending c h (ss_conc s) +
        offered weight c h (queued_chunks (ss_cmds s)) = offered weight c h (submitted ls))"

lemma request_flush_simps [simp]:
  "ss_buffer (request_flush a f clock s) = ss_buffer s" "ss_chan (request_flush a f clock s) = ss_chan s"
  "ss_conc (request_flush a f clock s) = ss_conc s" "ss_handlers (request_flush a f clock s) = ss_handlers s"
  "ss_draining (request_flush a f clock s) = ss_draining s"
  "queued_chunks (ss_cmds (request_flush a f clock s)) = queued_chunks (ss_cmds s)"
  by (simp_all add: request_flush_def)

lemma stats_balance_step:
  assumes law: "concentrator_law N weight pending counted" "payload_law mk_payload"
    and bal: "stats_balance weight pending counted c ls s" and step: "stats_step N c mk_payload agent s l s'"
  shows "stats_balance weight pending counted c (ls @ [l]) s'"
  using step
proof cases
  case (s_add ch m now cmds)
  then show ?thesis using bal concentrator_add_held [OF law(1), of c _ ch m now "ss_conc s"]
    by (simp add: stats_balance_def add.assoc)
next
  case (s_reply force clock cmds ps cs)
  have "shipped counted h ps + held_back pending c h cs = held_back pending c h (ss_conc s)" for h
    using handle_stats_flush_held [OF law(1), of h c force clock "ss_conc s"] s_reply(4) by simp
  then show ?thesis using bal s_reply stats_of_flush [OF law(2)]
    by (simp add: stats_balance_def add.assoc)
qed (use bal stats_of_flush [OF law(2)] in \<open>simp_all add: stats_balance_def add.assoc [symmetric]\<close>)

definition stopped :: "('x, 'k, 'y) stats_sys \<Rightarrow> bool" where
  "stopped s \<longleftrightarrow> ss_draining s \<and> ss_handlers s = 0 \<and> ss_chan s = [] \<and> ss_buffer s = []"

text \<open>The order of the shutdown: the last flush is asked for when nothing more can come in, and is the last command.\<close>

definition stats_control :: "bool \<Rightarrow> ('x, 'k, 'y) stats_sys \<Rightarrow> bool" where
  "stats_control agent s \<longleftrightarrow>
     queued_flushes (ss_cmds s) = (case ss_wait s of None \<Rightarrow> [] | Some f \<Rightarrow> [f]) \<and>
     (ss_wait s = Some True \<longrightarrow> stopped s \<and> (\<exists>cmds clock. ss_cmds s = cmds @ [Flush True () clock])) \<and>
     (ss_done s \<longrightarrow> stopped s \<and> ss_cmds s = []) \<and>
     (\<not> agent \<longrightarrow> ss_cmds s = [] \<and> ss_conc s = [])"

lemma stats_control_step:
  assumes "stats_control agent s" "stats_step N c mk_payload agent s l s'"
  shows "stats_control agent s'"
  using assms(2)
proof cases
  case (s_reply force clock cmds ps cs)
  have w: "ss_wait s = Some force" "queued_flushes cmds = []"
    using assms(1) s_reply by (auto simp: stats_control_def split: option.splits)
  have "cmds = []" if frc: force
  proof -
    obtain xs clock' where x: "ss_cmds s = xs @ [Flush True () clock']"
      using assms(1) w(1) frc unfolding stats_control_def by auto
    show ?thesis
    proof (cases xs)
      case (Cons y ys)
      then have "cmds = ys @ [Flush True () clock']" using x s_reply by simp
      then show ?thesis using w(2) by simp
    qed (use x s_reply in simp)
  qed
  then show ?thesis using assms(1) s_reply w by (auto simp: stats_control_def stopped_def)
next
  case (s_add ch m now cmds)
  have "\<exists>xs clock. cmds = xs @ [Flush True () clock]" if wt: "ss_wait s = Some True"
  proof -
    obtain xs clock where "AddChunk ch m now # cmds = xs @ [Flush True () clock]"
      using assms(1) wt s_add unfolding stats_control_def by auto
    then show ?thesis by (cases xs) auto
  qed
  then show ?thesis using assms(1) s_add by (auto simp: stats_control_def stopped_def)
qed (use assms(1) in \<open>auto simp: stats_control_def stopped_def request_flush_def split: option.splits\<close>)

lemma stats_run_inv:
  fixes N :: "('x, 'k, 'y) concentrator_deps"
  assumes law: "concentrator_law N weight pending counted" "payload_law mk_payload"
    and "run (stats_step N c mk_payload agent) stats_init ls s"
  shows "stats_balance weight pending counted c ls s \<and> stats_control agent s \<and>
    (ss_done s \<longrightarrow> (\<forall>h :: 'y client_stats. held_back pending c h (ss_conc s) = 0))"
  using assms(3)
proof (induction "stats_init :: ('x, 'k, 'y) stats_sys" ls s rule: run.induct)
  case run_nil
  then show ?case by (simp add: stats_balance_def stats_control_def stats_init_def stats_of_def)
next
  case (run_snoc ls s' l s'')
  have ctl: "stats_control agent s''" using stats_control_step run_snoc by blast
  from run_snoc(3) have "ss_done s'' \<longrightarrow> (\<forall>h :: 'y client_stats. held_back pending c h (ss_conc s'') = 0)"
  proof cases
    case (s_reply force clock cmds ps cs)
    then show ?thesis using handle_stats_flush_held [OF law(1), of _ c force clock "ss_conc s'"] by auto
  qed (use run_snoc(2) ctl in \<open>auto simp: stats_control_def request_flush_def\<close>)
  then show ?case using ctl stats_balance_step [OF law] run_snoc by blast
qed

text \<open>
  C9. However the tasks interleave, the statistics of the tracers that were sent, are buffered or are
  in the channel are those that were accepted, in order, and of the spans seen by the agent each
  is counted exactly once, sent, held or queued, in a payload that carries its own metadata. Once
  the flusher has stopped, everything taken in has been sent.
\<close>

theorem stats_exactly_once:
  assumes "concentrator_law N weight pending counted" and "payload_law mk_payload"
    and "run (stats_step N c mk_payload agent) stats_init ls s"
  shows "stats_of True (sent ls) @ ss_buffer s @ ss_chan s = posted ls \<and>
    shipped counted h (stats_of False (sent ls)) + held_back pending c h (ss_conc s) +
      offered weight c h (queued_chunks (ss_cmds s)) = offered weight c h (submitted ls) \<and>
    (ss_done s \<longrightarrow> stats_of True (sent ls) = posted ls \<and>
       shipped counted h (stats_of False (sent ls)) = offered weight c h (submitted ls))"
  using stats_run_inv [OF assms]
  by (auto simp: stats_balance_def stats_control_def stopped_def)

section \<open>The flusher stops\<close>

lemma stats_calm:
  assumes "stats_control agent s" "ss_draining s"
  shows "\<exists>ls s'. run (stats_step N c mk_payload agent) s ls s' \<and> posted ls = [] \<and> submitted ls = [] \<and>
    stats_control agent s' \<and> ss_draining s' \<and> ss_handlers s' = 0 \<and> ss_cmds s' = []"
  using assms
proof (induction "ss_handlers s + length (ss_cmds s)" arbitrary: s rule: less_induct)
  case less
  have go: ?case if st: "stats_step N c mk_payload agent s l s1" and lab: "posted [l] = []" "submitted [l] = []"
    and dec: "ss_handlers s1 + length (ss_cmds s1) < ss_handlers s + length (ss_cmds s)" "ss_draining s1" for l s1
  proof -
    have "stats_control agent s1" using stats_control_step less.prems(1) st by blast
    from less.hyps [OF dec(1) this dec(2)] obtain ls s' where r: "run (stats_step N c mk_payload agent) s1 ls s'"
      "posted ls = []" "submitted ls = []" "stats_control agent s'" "ss_draining s'" "ss_handlers s' = 0" "ss_cmds s' = []" by blast
    from run_append [OF r(1) run_single [of "stats_step N c mk_payload agent", OF st]] show ?thesis
      using r lab by (intro exI [of _ "[l] @ ls"] exI [of _ s']) (simp del: append_Cons)
  qed
  show ?case
  proof (cases "ss_handlers s")
    case (Suc n)
    show ?thesis by (rule go [OF s_close [OF Suc]]) (use Suc less.prems in auto)
  next
    case 0
    show ?thesis
    proof (cases "ss_cmds s")
      case Nil
      then show ?thesis using 0 less.prems run_nil [of "stats_step N c mk_payload agent" s]
        by (intro exI [of _ "[]"] exI [of _ s]) simp
    next
      case (Cons cmd cmds)
      show ?thesis
      proof (cases cmd)
        case (AddChunk ch m now)
        show ?thesis by (rule go [OF s_add [OF Cons [unfolded AddChunk]]]) (use Cons less.prems in auto)
      next
        case (Flush force tx clock)
        obtain ps cs where f: "handle_stats_flush N c force clock (ss_conc s) = (ps, cs)" by fastforce
        show ?thesis by (rule go [OF s_reply [OF _ f]]) (use Cons Flush less.prems in auto)
      qed
    qed
  qed
qed

lemma stats_finish:
  assumes "stats_control agent s" "ss_draining s" "ss_handlers s = 0" "ss_cmds s = []"
  shows "\<exists>ls s'. run (stats_step N c mk_payload agent) s ls s' \<and> posted ls = [] \<and> submitted ls = [] \<and> ss_done s'"
proof (cases "ss_done s")
  case True
  then show ?thesis using run_nil [of "stats_step N c mk_payload agent" s] by (intro exI [of _ "[]"] exI [of _ s]) simp
next
  case False
  have w: "ss_wait s = None" using assms(1,4) by (auto simp: stats_control_def split: option.splits)
  let ?s = "s\<lparr>ss_buffer := [], ss_chan := []\<rparr>"
  have st: "stats_step N c mk_payload agent s (Sent (flush_stats mk_payload (ss_buffer s @ ss_chan s) None)) (request_flush agent True clock ?s)" for clock
    by (rule s_shutdown [OF False w assms(2,3)])
  show ?thesis
  proof (cases agent)
    case True
    let ?t = "request_flush agent True (\<lambda>_. 0) ?s"
    have c: "ss_cmds ?t = [Flush True () (\<lambda>_. 0)]" using True assms(4) by (simp add: request_flush_def)
    obtain ps cs where f: "handle_stats_flush N c True (\<lambda>_. 0) (ss_conc ?t) = (ps, cs)" by fastforce
    show ?thesis
      using run_snoc [OF run_single [of "stats_step N c mk_payload agent", OF st] s_reply [OF c f]] by fastforce
  next
    case False
    then show ?thesis using run_single [of "stats_step N c mk_payload agent", OF st] by (fastforce simp: request_flush_def)
  qed
qed

text \<open>
  C38. From every reachable state, once the shutdown is signalled, the handlers, the concentrator and
  the flusher can finish, and then all the statistics accepted before have been sent.
\<close>

theorem stats_can_stop:
  assumes "concentrator_law N weight pending counted" and "payload_law mk_payload"
    and "run (stats_step N c mk_payload agent) stats_init ls s"
  shows "\<exists>ks s'. run (stats_step N c mk_payload agent) s (Signal # ks) s' \<and> ss_done s' \<and>
    stats_of True (sent (ls @ ks)) = posted ls \<and>
    shipped counted h (stats_of False (sent (ls @ ks))) = offered weight c h (submitted ls)"
proof -
  let ?r = "run (stats_step N c mk_payload agent)"
  let ?s = "s\<lparr>ss_draining := True\<rparr>"
  have sig: "stats_step N c mk_payload agent s Signal ?s" by (rule s_signal)
  have "stats_control agent ?s" using stats_control_step [OF _ sig] stats_run_inv [OF assms] by blast
  then obtain k1 s1 where r1: "?r ?s k1 s1" "posted k1 = []" "submitted k1 = []" "stats_control agent s1" "ss_draining s1"
    "ss_handlers s1 = 0" "ss_cmds s1 = []" using stats_calm [of agent ?s N c mk_payload] by auto
  from stats_finish [OF this(4-7)] obtain k2 s2 where r2: "?r s1 k2 s2" "posted k2 = []" "submitted k2 = []" "ss_done s2" by blast
  have run: "?r s (Signal # k1 @ k2) s2"
    using run_append [OF run_append [OF r2(1) r1(1)] run_single [of "stats_step N c mk_payload agent", OF sig]] by simp
  from stats_run_inv [OF assms(1,2) run_append [OF run assms(3)]] r1(2,3) r2(2-4) run show ?thesis
    by (intro exI [of _ "k1 @ k2"] exI [of _ s2]) (auto simp: stats_balance_def stats_control_def stopped_def)
qed

section \<open>Sending never panics\<close>

text \<open>With a configuration built from the environment, a payload that serializes is sent with the key.\<close>

lemma stats_sent_with_key:
  assumes "trace_config_new D env = Ret (Inr c)" "serialize payload = Inr bytes"
  shows "\<exists>key. env ''DD_API_KEY'' = Some key \<and>
    send_stats_payload serialize c payload = Ret (Some (ep_url (tc_trace_stats_intake c), key, bytes))"
  using built_config_wf [OF assms(1)] assms(2) by (auto simp: send_stats_payload_def wf_config_def)

text \<open>
  Statistics of a tracer reach the flusher exactly when the agent does not compute them itself and
  the request is acceptable; the answer is 202 exactly then or when they are dropped as redundant.
\<close>

lemma stats_request_outcome:
  "fst (fst (process_stats to_str get_stats c now_ns is_open hs body)) = 202 \<longleftrightarrow>
     tc_agent_stats_computation_enabled c \<or> snd (process_stats to_str get_stats c now_ns is_open hs body) \<noteq> None"
  "snd (process_stats to_str get_stats c now_ns is_open hs body) = Some st \<longleftrightarrow>
     \<not> tc_agent_stats_computation_enabled c \<and> is_open \<and>
     verify_request_content_length to_str hs (tc_max_request_content_length c) ''Error processing trace stats'' = None \<and>
     (\<exists>st0. get_stats body = Inr st0 \<and> st = restart_first now_ns st0)"
  by (auto simp: process_stats_def log_and_create_http_response_def verify_request_content_length_def
      split: option.splits sum.splits if_splits)

section \<open>Witnesses\<close>

definition demo_concentrator :: "(unit, nat, nat) concentrator_deps" where
  "demo_concentrator = \<lparr>cn_new = (\<lambda>d now kinds peers limit extra. 0), cn_add = (\<lambda>sp k. k + 1),
     cn_flush = (\<lambda>now force k. if k = 0 then ([], 0) else ([\<lparr>sb_start = 0, sb_other = k\<rparr>], 0))\<rparr>"

definition demo_mk_payload :: "nat client_stats list \<Rightarrow> nat stats_payload" where
  "demo_mk_payload sts = \<lparr>sp_stats = sts, sp_client_computed = True, sp_agent = 0\<rparr>"

definition demo_metadata :: tracer_metadata where
  "demo_metadata = payload_metadata (Some ''web'') (demo_payload [])"

definition demo_stats_state :: "(unit, nat, nat) stats_sys" where
  "demo_stats_state = stats_init\<lparr>ss_handlers := 1, ss_cmds := [AddChunk demo_chunk demo_metadata 5]\<rparr>"

abbreviation demo_stats_step :: "(unit, nat, nat) stats_sys \<Rightarrow> (unit, nat) slabel \<Rightarrow> (unit, nat, nat) stats_sys \<Rightarrow> bool" where
  "demo_stats_step \<equiv> stats_step demo_concentrator demo_config demo_mk_payload True"

lemma demo_laws:
  "concentrator_law demo_concentrator (\<lambda>sp. 1 :: nat) (\<lambda>k. k) sb_other" "payload_law demo_mk_payload"
  by (simp_all add: concentrator_law_def demo_concentrator_def payload_law_def demo_mk_payload_def)

lemma demo_stats_run: "run demo_stats_step stats_init [Opened, Submitted demo_chunk demo_metadata] demo_stats_state"
proof -
  have a: "demo_stats_step stats_init Opened (stats_init\<lparr>ss_handlers := 1\<rparr>)"
    using s_open [of "stats_init :: (unit, nat, nat) stats_sys" demo_concentrator demo_config demo_mk_payload True]
    by (simp add: stats_init_def)
  have b: "demo_stats_step (stats_init\<lparr>ss_handlers := 1\<rparr>) (Submitted demo_chunk demo_metadata) demo_stats_state"
    using s_submit [of "stats_init\<lparr>ss_handlers := 1\<rparr> :: (unit, nat, nat) stats_sys" True demo_concentrator demo_config demo_mk_payload]
    by (simp add: stats_init_def demo_stats_state_def)
  show ?thesis using run_snoc [OF run_single [of demo_stats_step, OF a] b] by simp
qed

theorem stats_exactly_once_witness:
  "offered (\<lambda>sp. 1 :: nat) demo_config (agent_stats_of demo_config demo_metadata [])
     (queued_chunks (ss_cmds demo_stats_state)) = 1"
  using stats_exactly_once [OF demo_laws demo_stats_run, of "agent_stats_of demo_config demo_metadata []"]
  by (simp add: stats_of_def demo_chunk_def demo_stats_state_def stats_init_def)

theorem stats_can_stop_witness:
  "\<exists>ks s'. run demo_stats_step demo_stats_state (Signal # ks) s' \<and> ss_done s' \<and>
     shipped sb_other (agent_stats_of demo_config demo_metadata []) (stats_of False (sent ks)) = 1"
  using stats_can_stop [OF demo_laws demo_stats_run, of "agent_stats_of demo_config demo_metadata []"]
  by (auto simp: demo_chunk_def)

end
