(* ===== verification/Trace_Proxy.thy ===== *)
theory Trace_Proxy
  imports Trace_Http
begin

text \<open>
  The crate \<^verbatim>\<open>datadog-trace-agent\<close>: \<^verbatim>\<open>proxy_flusher.rs\<close>, which forwards profiles and data streams
  payloads, and \<open>proxy_handler\<close> of \<^verbatim>\<open>mini_agent.rs\<close>, which queues them.

  A header map is a list with lower case names, in which a name may occur more than once; \<open>to_str\<close>
  and \<open>hv_ok\<close> are the parameters that read a header value as text and accept a text as a value.
\<close>

section \<open>Requests\<close>

definition DD_ADDITIONAL_TAGS_HEADER :: string where "DD_ADDITIONAL_TAGS_HEADER = ''x-datadog-additional-tags''"

definition get_dd_origin :: "env_type \<Rightarrow> string" where
  "get_dd_origin et = (case et of AzureFunction \<Rightarrow> ''azurefunction'' | CloudFunction \<Rightarrow> ''cloudrun'' | _ \<Rightarrow> ''unknown'')"

datatype proxy_kind = DataStreams | Profiling

record proxy_request =
  pr_headers :: headers
  pr_body :: string
  pr_target_url :: string
  pr_kind :: proxy_kind

fun proxy_name :: "proxy_kind \<Rightarrow> string" where
  "proxy_name DataStreams = ''data streams''"
| "proxy_name Profiling = ''profiling''"

fun request_name :: "proxy_kind \<Rightarrow> string" where
  "request_name DataStreams = ''data streams request''"
| "request_name Profiling = ''profiling request''"

fun intake_of_kind :: "'o trace_config \<Rightarrow> proxy_kind \<Rightarrow> endpoint" where
  "intake_of_kind c DataStreams = tc_dsm_intake c"
| "intake_of_kind c Profiling = tc_profiling_intake c"

definition intake_url :: "'o trace_config \<Rightarrow> proxy_kind \<Rightarrow> string" where
  "intake_url c kind = ep_url (intake_of_kind c kind)"

definition api_key_for_kind :: "'o trace_config \<Rightarrow> proxy_kind \<Rightarrow> string option" where
  "api_key_for_kind c kind = ep_api_key (intake_of_kind c kind)"

section \<open>Queueing a request\<close>

text \<open>\<open>body\<close>: the body as read, or the error; \<open>is_open\<close>: the proxy flusher still receives.\<close>

definition proxy_handler ::
  "(string \<Rightarrow> string option) \<Rightarrow> 'o trace_config \<Rightarrow> bool \<Rightarrow> headers \<Rightarrow> string + string \<Rightarrow> proxy_kind \<Rightarrow>
   trace_response \<times> proxy_request option" where
  "proxy_handler to_str c is_open hs body kind =
     (case verify_request_content_length to_str hs (tc_max_request_content_length c)
        (''Error processing '' @ request_name kind) of
        Some response \<Rightarrow> (response, None)
      | None \<Rightarrow>
          (case body of
             Inl e \<Rightarrow> (log_and_create_http_response (''Error reading '' @ request_name kind @ '' body: '' @ e) 400, None)
           | Inr body_bytes \<Rightarrow>
               if is_open
               then (log_and_create_http_response (''Successfully buffered '' @ request_name kind @ '' to be flushed'') 200,
                     Some \<lparr>pr_headers = hs, pr_body = body_bytes, pr_target_url = intake_url c kind, pr_kind = kind\<rparr>)
               else (log_and_create_http_response
                       (''Error sending '' @ request_name kind @ '' to the proxy flusher: channel closed'') 500, None)))"

section \<open>The outgoing request\<close>

text \<open>\<open>HeaderMap::remove\<close> and \<open>HeaderMap::insert\<close>.\<close>

definition header_remove :: "string \<Rightarrow> headers \<Rightarrow> headers" where
  "header_remove n hs = filter (\<lambda>h. fst h \<noteq> n) hs"

definition header_insert :: "string \<Rightarrow> string \<Rightarrow> headers \<Rightarrow> headers" where
  "header_insert n v hs = header_remove n hs @ [(n, v)]"

definition parse_additional_tags :: "string \<Rightarrow> string list" where
  "parse_additional_tags tag_string =
     filter (\<lambda>tag. tag \<noteq> [])
       (map trim (split_char CHR '','' (map (\<lambda>c. if c = CHR '';'' then CHR '','' else c) tag_string)))"

definition push_unique_tag :: "string \<Rightarrow> string list \<Rightarrow> string list" where
  "push_unique_tag tag tags = (if tag \<in> set tags then tags else tags @ [tag])"

definition merged_additional_tags ::
  "(string \<Rightarrow> string option) \<Rightarrow> 'o trace_config \<Rightarrow> headers \<Rightarrow> string + string list" where
  "merged_additional_tags to_str c hs =
     (let with_function = (\<lambda>tags.
            case function_tags (tc_tags c) of
              Some ft \<Rightarrow> fold push_unique_tag (parse_additional_tags ft) tags
            | None \<Rightarrow> tags)
      in case map_of hs DD_ADDITIONAL_TAGS_HEADER of
           None \<Rightarrow> Inr (with_function [])
         | Some v \<Rightarrow>
             (case to_str v of
                None \<Rightarrow> Inl ''Failed to parse existing additional tags header''
              | Some existing \<Rightarrow> Inr (with_function (fold push_unique_tag (parse_additional_tags existing) []))))"

definition create_request ::
  "(string \<Rightarrow> string option) \<Rightarrow> (string \<Rightarrow> bool) \<Rightarrow> 'o trace_config \<Rightarrow> proxy_request \<Rightarrow> string + request" where
  "create_request to_str hv_ok c req =
     (case api_key_for_kind c (pr_kind req) of
        None \<Rightarrow> Inl (''No API key configured for '' @ proxy_name (pr_kind req))
      | Some api_key \<Rightarrow>
          let hs = header_remove ''content-length'' (header_remove ''host'' (pr_headers req))
          in case merged_additional_tags to_str c hs of
               Inl e \<Rightarrow> Inl e
             | Inr tags \<Rightarrow>
                 let tags = push_unique_tag (''functionname:'' @ (case tc_app_name c of Some n \<Rightarrow> n | None \<Rightarrow> [])) tags;
                     tags = push_unique_tag (''_dd.origin:'' @ get_dd_origin (tc_env_type c)) tags;
                     joined = join_with '','' tags
                 in if tags \<noteq> [] \<and> \<not> hv_ok joined then Inl ''Failed to parse additional tags header''
                    else
                      let hs = (if tags \<noteq> [] then header_insert DD_ADDITIONAL_TAGS_HEADER joined hs else hs)
                      in if \<not> hv_ok api_key then Inl ''Failed to parse API key''
                         else Inr \<lparr>rq_url = pr_target_url req, rq_headers = header_insert ''dd-api-key'' api_key hs,
                                   rq_body = pr_body req\<rparr>)"

section \<open>Sending\<close>

datatype proxy_result = Answered nat | GaveUp | Unbuildable string

text \<open>
  The wait before the next attempt, in 64-bit arithmetic as compiled for release, where the power
  and the product wrap around.
\<close>

definition backoff_ms :: "nat \<Rightarrow> nat \<Rightarrow> u64" where
  "backoff_ms base attempts = of_nat base * 2 ^ (attempts - 1)"

text \<open>
  \<open>net k\<close>: the answer to the k-th attempt. Only a failure without an answer is retried. The result
  comes with the number of attempts made.
\<close>

function proxy_loop :: "nat \<Rightarrow> (nat \<Rightarrow> send_result) \<Rightarrow> nat \<Rightarrow> proxy_result \<times> nat" where
  "proxy_loop max_retries net attempts =
     (case net (Suc attempts) of
        Response status \<Rightarrow> (Answered status, Suc attempts)
      | SendFailed _ \<Rightarrow>
          if Suc attempts \<ge> max_retries then (GaveUp, Suc attempts) else proxy_loop max_retries net (Suc attempts))"
  by pat_completeness auto
termination
  by (relation "measure (\<lambda>(m, net, k). m - k)") auto

declare proxy_loop.simps [simp del]

definition send_request ::
  "(string \<Rightarrow> string option) \<Rightarrow> (string \<Rightarrow> bool) \<Rightarrow> 'o trace_config \<Rightarrow> (nat \<Rightarrow> send_result) \<Rightarrow> proxy_request \<Rightarrow>
   proxy_result \<times> nat" where
  "send_request to_str hv_ok c net req =
     (case create_request to_str hv_ok c req of
        Inl e \<Rightarrow> (Unbuildable e, 0)
      | Inr rq \<Rightarrow> proxy_loop (tc_proxy_request_max_retries c) net 0)"

text \<open>\<open>start_proxy_flusher\<close>: the requests are sent one after the other, in the order received.\<close>

definition proxy_flusher ::
  "(string \<Rightarrow> string option) \<Rightarrow> (string \<Rightarrow> bool) \<Rightarrow> 'o trace_config \<Rightarrow> (nat \<Rightarrow> nat \<Rightarrow> send_result) \<Rightarrow> proxy_request list \<Rightarrow>
   (proxy_result \<times> nat) list" where
  "proxy_flusher to_str hv_ok c net reqs = map (\<lambda>(i, req). send_request to_str hv_ok c (net i) req) (enumerate 0 reqs)"

section \<open>What a forwarded request carries\<close>

lemma push_unique_set [simp]: "set (push_unique_tag t ts) = insert t (set ts)"
  by (auto simp: push_unique_tag_def)

lemma push_unique_distinct [simp]: "distinct (push_unique_tag t ts) \<longleftrightarrow> distinct ts"
  by (auto simp: push_unique_tag_def)

lemma push_all_unique [simp]:
  "set (fold push_unique_tag xs ts) = set xs \<union> set ts" "distinct (fold push_unique_tag xs ts) \<longleftrightarrow> distinct ts"
  by (induction xs arbitrary: ts) auto

lemma header_insert_filter:
  "filter (\<lambda>h. fst h = n) (header_insert n v hs) = [(n, v)]"
  "n \<noteq> m \<Longrightarrow> filter (\<lambda>h. fst h = n) (header_insert m v hs) = filter (\<lambda>h. fst h = n) hs"
  "n \<noteq> m \<Longrightarrow> filter (\<lambda>h. fst h = n) (header_remove m hs) = filter (\<lambda>h. fst h = n) hs"
  "filter (\<lambda>h. fst h = n) (header_remove n hs) = []"
  by (auto simp: header_insert_def header_remove_def intro: filter_cong)

lemma map_of_header_remove: "n \<noteq> m \<Longrightarrow> map_of (header_remove m hs) n = map_of hs n"
  by (induction hs) (auto simp: header_remove_def)

definition header_tags :: "(string \<Rightarrow> string option) \<Rightarrow> headers \<Rightarrow> string list" where
  "header_tags to_str hs =
     (case Option.bind (map_of hs DD_ADDITIONAL_TAGS_HEADER) to_str of Some s \<Rightarrow> parse_additional_tags s | None \<Rightarrow> [])"

definition configured_tags :: "'o trace_config \<Rightarrow> string list" where
  "configured_tags c = (case function_tags (tc_tags c) of Some ft \<Rightarrow> parse_additional_tags ft | None \<Rightarrow> []) @
     [''functionname:'' @ (case tc_app_name c of Some n \<Rightarrow> n | None \<Rightarrow> []), ''_dd.origin:'' @ get_dd_origin (tc_env_type c)]"

lemma merged_tags_eq:
  "merged_additional_tags to_str c hs = Inr tags \<Longrightarrow>
   tags = fold push_unique_tag (case function_tags (tc_tags c) of Some ft \<Rightarrow> parse_additional_tags ft | None \<Rightarrow> [])
     (fold push_unique_tag (header_tags to_str hs) [])"
  by (auto simp: merged_additional_tags_def header_tags_def Let_def split: option.splits)

text \<open>
  C21. A forwarded request goes to its target with the body unchanged, one API key header with the key
  of its intake and one additional-tags header; the tags in it are those of the incoming header,
  then the configured ones, each once, in the order of first occurrence. The host and length
  headers are gone and every other header is passed on as it was.
\<close>

theorem proxy_request_created:
  assumes "create_request to_str hv_ok c req = Inr rq"
  shows "rq_url rq = pr_target_url req \<and> rq_body rq = pr_body req \<and>
    (\<exists>key. api_key_for_kind c (pr_kind req) = Some key \<and> filter (\<lambda>h. fst h = ''dd-api-key'') (rq_headers rq) = [(''dd-api-key'', key)]) \<and>
    (let tags = fold push_unique_tag (header_tags to_str (pr_headers req) @ configured_tags c) []
     in filter (\<lambda>h. fst h = DD_ADDITIONAL_TAGS_HEADER) (rq_headers rq) = [(DD_ADDITIONAL_TAGS_HEADER, join_with '','' tags)] \<and>
        distinct tags \<and> set tags = set (header_tags to_str (pr_headers req)) \<union> set (configured_tags c)) \<and>
    (n \<noteq> ''dd-api-key'' \<and> n \<noteq> DD_ADDITIONAL_TAGS_HEADER \<longrightarrow>
       filter (\<lambda>h. fst h = n) (rq_headers rq) =
         (if n = ''host'' \<or> n = ''content-length'' then [] else filter (\<lambda>h. fst h = n) (pr_headers req)))"
proof -
  define hs where "hs = header_remove ''content-length'' (header_remove ''host'' (pr_headers req))"
  define tags where "tags = fold push_unique_tag (header_tags to_str (pr_headers req) @ configured_tags c) []"
  have get: "header_tags to_str hs = header_tags to_str (pr_headers req)"
    by (simp add: header_tags_def hs_def map_of_header_remove DD_ADDITIONAL_TAGS_HEADER_def)
  have st: "set tags = set (header_tags to_str (pr_headers req)) \<union> set (configured_tags c)" "distinct tags"
    unfolding tags_def push_all_unique by simp_all
  have "set (configured_tags c) \<noteq> {}" by (simp add: configured_tags_def)
  then have ne: "tags \<noteq> []" using st(1) by auto
  obtain key merged where k: "api_key_for_kind c (pr_kind req) = Some key" "merged_additional_tags to_str c hs = Inr merged"
    using assms by (auto simp: create_request_def Let_def hs_def split: option.splits sum.splits)
  have t: "push_unique_tag (''_dd.origin:'' @ get_dd_origin (tc_env_type c))
      (push_unique_tag (''functionname:'' @ (case tc_app_name c of Some n \<Rightarrow> n | None \<Rightarrow> [])) merged) = tags"
    using merged_tags_eq [OF k(2)] get by (simp add: tags_def configured_tags_def)
  have rq: "rq = \<lparr>rq_url = pr_target_url req,
      rq_headers = header_insert ''dd-api-key'' key (header_insert DD_ADDITIONAL_TAGS_HEADER (join_with '','' tags) hs), rq_body = pr_body req\<rparr>"
    using assms k t ne unfolding create_request_def hs_def [symmetric] by (simp add: Let_def split: if_splits)
  have api: "filter (\<lambda>h. fst h = ''dd-api-key'') (rq_headers rq) = [(''dd-api-key'', key)]"
    by (simp add: rq header_insert_filter)
  have add: "filter (\<lambda>h. fst h = DD_ADDITIONAL_TAGS_HEADER) (rq_headers rq) = [(DD_ADDITIONAL_TAGS_HEADER, join_with '','' tags)]"
    using header_insert_filter(2) [of DD_ADDITIONAL_TAGS_HEADER "''dd-api-key''"]
    by (simp add: rq header_insert_filter(1) DD_ADDITIONAL_TAGS_HEADER_def)
  have other: "filter (\<lambda>h. fst h = n) (rq_headers rq) =
      (if n = ''host'' \<or> n = ''content-length'' then [] else filter (\<lambda>h. fst h = n) (pr_headers req))"
    if "n \<noteq> ''dd-api-key'' \<and> n \<noteq> DD_ADDITIONAL_TAGS_HEADER"
  proof -
    have "filter (\<lambda>h. fst h = n) (rq_headers rq) = filter (\<lambda>h. fst h = n) hs"
      using that by (simp add: rq header_insert_filter(2))
    then show ?thesis
      by (cases "n = ''content-length''"; cases "n = ''host''") (simp_all add: hs_def header_insert_filter(3,4))
  qed
  show ?thesis using st k(1) api add other unfolding tags_def [symmetric] Let_def by (simp add: rq)
qed

section \<open>Attempts\<close>

fun answer_of :: "send_result \<Rightarrow> proxy_result option" where
  "answer_of (Response s) = Some (Answered s)"
| "answer_of (SendFailed _) = None"

interpretation px: retrying "proxy_loop max_retries" answer_of "\<lambda>_. GaveUp" max_retries for max_retries
proof
  fix net :: "nat \<Rightarrow> send_result" and k r
  show "answer_of (net (Suc k)) = Some r \<Longrightarrow> proxy_loop max_retries net k = (r, Suc k)"
    by (cases "net (Suc k)") (auto simp: proxy_loop.simps)
next
  fix net :: "nat \<Rightarrow> send_result" and k
  show "answer_of (net (Suc k)) = None \<Longrightarrow> max_retries \<le> Suc k \<Longrightarrow> proxy_loop max_retries net k = (GaveUp, Suc k)"
    by (cases "net (Suc k)") (auto simp: proxy_loop.simps)
next
  fix net :: "nat \<Rightarrow> send_result" and k
  show "answer_of (net (Suc k)) = None \<Longrightarrow> Suc k < max_retries \<Longrightarrow> proxy_loop max_retries net k = proxy_loop max_retries net (Suc k)"
    by (cases "net (Suc k)") (auto simp: proxy_loop.simps [of _ _ k])
qed

lemma built_config_retries:
  "trace_config_new D env = Ret (Inr c) \<Longrightarrow>
   tc_proxy_request_max_retries c = 3 \<and> tc_proxy_request_retry_backoff_base_ms c = 100"
  by (auto simp: trace_config_new_def config_record_def Let_def split_beta split: option.splits sum.splits if_splits)

lemma answer_of_None [simp]: "answer_of a = None \<longleftrightarrow> (\<exists>e. a = SendFailed e)"
  by (cases a) auto

text \<open>
  With a configuration built from the environment a request is sent until the first answer,
  whatever its status, and at most three times: an answered request is never sent again. The
  waits between the attempts are 100 and 200 milliseconds, without wrap-around.
\<close>

theorem proxy_attempts:
  assumes "trace_config_new D env = Ret (Inr c)" and "create_request to_str hv_ok c req = Inr rq"
  shows "(\<forall>k s. 1 \<le> k \<and> k \<le> 3 \<and> net k = Response s \<and> (\<forall>j. 1 \<le> j \<and> j < k \<longrightarrow> (\<exists>e. net j = SendFailed e)) \<longrightarrow>
      send_request to_str hv_ok c net req = (Answered s, k)) \<and>
    ((\<forall>j. 1 \<le> j \<and> j \<le> 3 \<longrightarrow> (\<exists>e. net j = SendFailed e)) \<longrightarrow> send_request to_str hv_ok c net req = (GaveUp, 3)) \<and>
    map (\<lambda>k. uint (backoff_ms (tc_proxy_request_retry_backoff_base_ms c) k)) [1, 2] = [100, 200]"
proof -
  have c: "tc_proxy_request_max_retries c = 3" "tc_proxy_request_retry_backoff_base_ms c = 100"
    using built_config_retries [OF assms(1)] by simp_all
  have s: "send_request to_str hv_ok c net req = proxy_loop 3 net 0"
    using assms(2) c(1) by (simp add: send_request_def)
  have "proxy_loop 3 net 0 = (Answered r, k)"
    if "1 \<le> k" "k \<le> 3" "net k = Response r" "\<forall>j. 1 \<le> j \<and> j < k \<longrightarrow> (\<exists>e. net j = SendFailed e)" for k r
    using px.first_final [of k 3 net "Answered r"] that by simp
  moreover have "proxy_loop 3 net 0 = (GaveUp, 3)" if "\<forall>j. 1 \<le> j \<and> j \<le> 3 \<longrightarrow> (\<exists>e. net j = SendFailed e)"
    using px.no_final [of 3 net] that by simp
  ultimately show ?thesis using s c(2) by (simp add: backoff_ms_def)
qed

section \<open>Witnesses\<close>

definition proxy_env_deps :: "unit config_deps" where
  "proxy_env_deps = \<lparr>cd_read_cloud_env = Some (''app'', AzureFunction), cd_trace_intake_url = (\<lambda>s. s),
     cd_trace_stats_url = (\<lambda>s. s), cd_trace_intake_url_prefixed = (\<lambda>s. s), cd_trace_stats_url_prefixed = (\<lambda>s. s),
     cd_obfuscation = Inr (), cd_mappings = Inr [], cd_uri_ok = (\<lambda>u. True), cd_os = ''linux'', cd_pipes = False\<rparr>"

definition proxy_demo_request :: proxy_request where
  "proxy_demo_request = \<lparr>pr_headers = [(''host'', ''localhost''), (''x-datadog-additional-tags'', ''a:1;b:2'')],
     pr_body = ''profile'', pr_target_url = ''https://intake'', pr_kind = Profiling\<rparr>"

lemma proxy_demo:
  "\<exists>c rq. trace_config_new proxy_env_deps [''DD_API_KEY'' \<mapsto> ''k''] = Ret (Inr c) \<and>
     create_request Some (\<lambda>v. True) c proxy_demo_request = Inr rq"
proof -
  obtain c where c: "trace_config_new proxy_env_deps [''DD_API_KEY'' \<mapsto> ''k''] = Ret (Inr c)"
    by (simp add: trace_config_new_def Let_def urls_ok_def peer_tag_keys_def split_beta proxy_env_deps_def)
  then have "api_key_for_kind c Profiling = Some ''k''"
    using built_config_wf [OF c] by (auto simp: wf_config_def api_key_for_kind_def)
  then show ?thesis using c
    by (simp add: create_request_def proxy_demo_request_def merged_additional_tags_def Let_def split: option.splits)
qed

theorem proxy_request_created_witness:
  "\<exists>(c :: unit trace_config) rq. create_request Some (\<lambda>v. True) c proxy_demo_request = Inr rq \<and>
     filter (\<lambda>h. fst h = ''host'') (rq_headers rq) = [] \<and>
     (\<exists>tags. filter (\<lambda>h. fst h = DD_ADDITIONAL_TAGS_HEADER) (rq_headers rq) = [(DD_ADDITIONAL_TAGS_HEADER, join_with '','' tags)] \<and>
       distinct tags)"
proof -
  obtain c :: "unit trace_config" and rq where "create_request Some (\<lambda>v. True) c proxy_demo_request = Inr rq"
    using proxy_demo by blast
  moreover from proxy_request_created [OF this, of "''host''"]
  have "filter (\<lambda>h. fst h = ''host'') (rq_headers rq) = []"
    "\<exists>tags. filter (\<lambda>h. fst h = DD_ADDITIONAL_TAGS_HEADER) (rq_headers rq) = [(DD_ADDITIONAL_TAGS_HEADER, join_with '','' tags)] \<and>
       distinct tags"
    unfolding Let_def by (auto simp: DD_ADDITIONAL_TAGS_HEADER_def)
  ultimately show ?thesis by blast
qed

theorem proxy_attempts_witness:
  "\<exists>c :: unit trace_config. send_request Some (\<lambda>v. True) c (\<lambda>k. if k = 1 then SendFailed None else Response 503) proxy_demo_request =
     (Answered 503, 2)"
proof -
  obtain c rq where c: "trace_config_new proxy_env_deps [''DD_API_KEY'' \<mapsto> ''k''] = Ret (Inr c)"
    "create_request Some (\<lambda>v. True) c proxy_demo_request = Inr rq" using proxy_demo by blast
  have "send_request Some (\<lambda>v. True) c (\<lambda>k. if k = 1 then SendFailed None else Response 503) proxy_demo_request = (Answered 503, 2)"
    using proxy_attempts [OF c, of "\<lambda>k. if k = 1 then SendFailed None else Response 503"]
    by (elim conjE) (drule spec [of _ 2], drule spec [of _ 503], simp)
  then show ?thesis by blast
qed

end
