(* ===== verification/Mini_Agent.thy ===== *)
theory Mini_Agent
  imports Trace_Pipeline Trace_Stats Trace_Proxy
begin

text \<open>
  The crate \<^verbatim>\<open>datadog-trace-agent\<close>: \<^verbatim>\<open>mini_agent.rs\<close>, which routes the requests to the processors,
  runs the accept loops of the transports and supervises the tasks.
\<close>

section \<open>Routing\<close>

definition TRACE_ENDPOINT_PATH :: string where "TRACE_ENDPOINT_PATH = ''/v0.4/traces''"
definition STATS_ENDPOINT_PATH :: string where "STATS_ENDPOINT_PATH = ''/v0.6/stats''"
definition INFO_ENDPOINT_PATH :: string where "INFO_ENDPOINT_PATH = ''/info''"
definition DSM_ENDPOINT_PATH :: string where "DSM_ENDPOINT_PATH = ''/v0.1/pipeline_stats''"
definition PROFILING_ENDPOINT_PATH :: string where "PROFILING_ENDPOINT_PATH = ''/profiling/v1/input''"

lemmas endpoint_paths = TRACE_ENDPOINT_PATH_def STATS_ENDPOINT_PATH_def INFO_ENDPOINT_PATH_def
  DSM_ENDPOINT_PATH_def PROFILING_ENDPOINT_PATH_def

datatype http_method = GET | POST | PUT | OtherMethod string

text \<open>\<open>ar_body\<close> is the body, or the error met while reading it.\<close>

record agent_request =
  ar_method :: http_method
  ar_path :: string
  ar_headers :: headers
  ar_body :: "string + string"

record agent_info =
  ai_endpoints :: "string list"
  ai_client_drop_p0s :: bool
  ai_span_kinds :: "string list"
  ai_peer_tags :: "string list"
  ai_receiver_port :: nat
  ai_statsd_port :: nat
  ai_receiver_socket :: string

datatype agent_response = Reply trace_response | InfoReply agent_info

fun response_status :: "agent_response \<Rightarrow> nat" where
  "response_status (Reply r) = fst r"
| "response_status (InfoReply i) = 200"

definition info_handler :: "nat \<Rightarrow> string option \<Rightarrow> nat \<Rightarrow> string list \<Rightarrow> bool \<Rightarrow> agent_response" where
  "info_handler receiver_port pipe_name statsd_port peer_tags agent_stats =
     InfoReply \<lparr>ai_endpoints = [TRACE_ENDPOINT_PATH, STATS_ENDPOINT_PATH, INFO_ENDPOINT_PATH, DSM_ENDPOINT_PATH, PROFILING_ENDPOINT_PATH],
       ai_client_drop_p0s = (\<not> agent_stats), ai_span_kinds = SPAN_KINDS_STATS_COMPUTED, ai_peer_tags = peer_tags,
       ai_receiver_port = receiver_port, ai_statsd_port = statsd_port,
       ai_receiver_socket = (case pipe_name of Some n \<Rightarrow> n | None \<Rightarrow> [])\<rparr>"

text \<open>
  What a handler reads from its surroundings: whether it gets an enqueue permit, the clocks, whether
  the flushers receive, the decoders of the bodies, and whether the build serves named pipes.
\<close>

record ('x, 'm, 't, 'y) handler_env =
  he_deps :: "('x, 'm, 't) trace_deps"
  he_get_stats :: "string \<Rightarrow> string + 'y client_stats"
  he_metadata :: 'm
  he_concentrator :: bool
  he_permit :: bool
  he_clock :: int
  he_now_ns :: nat
  he_stats_open :: bool
  he_proxy_open :: bool
  he_pipes :: bool

text \<open>What a handler queues: payloads, chunks for the concentrator, statistics, proxied requests.\<close>

record ('x, 'y) effects =
  ef_sends :: "'x send_data list"
  ef_chunks :: "('x pb_chunk \<times> tracer_metadata) list"
  ef_stats :: "'y client_stats list"
  ef_proxied :: "proxy_request list"

definition no_effects :: "('x, 'y) effects" where
  "no_effects = \<lparr>ef_sends = [], ef_chunks = [], ef_stats = [], ef_proxied = []\<rparr>"

text \<open>The decoders of \<^verbatim>\<open>libdatadog\<close> report a body that cannot be read as an error of theirs.\<close>

definition decode_body :: "(string \<Rightarrow> string + 'a) \<Rightarrow> string + string \<Rightarrow> (string \<Rightarrow> string + 'a)" where
  "decode_body f body = (case body of Inl e \<Rightarrow> (\<lambda>_. Inl e) | Inr _ \<Rightarrow> f)"

definition body_bytes :: "string + string \<Rightarrow> string" where
  "body_bytes body = (case body of Inl e \<Rightarrow> [] | Inr b \<Rightarrow> b)"

definition trace_endpoint_handler ::
  "('x, 'm, 't, 'y) handler_env \<Rightarrow> 'o trace_config \<Rightarrow> agent_request \<Rightarrow> trace_processor \<Rightarrow>
   (agent_response \<times> ('x, 'y) effects \<times> trace_processor) rust" where
  "trace_endpoint_handler H c req p =
     (let D = (he_deps H)\<lparr>td_get_traces := decode_body (td_get_traces (he_deps H)) (ar_body req)\<rparr>;
          put_post = (ar_method req = PUT \<or> ar_method req = POST);
          post = (ar_method req = POST);
          proxy = (\<lambda>kind. case proxy_handler (td_to_str D) c (he_proxy_open H) (ar_headers req) (ar_body req) kind of
            (r, q) \<Rightarrow> Ret (Reply r, no_effects\<lparr>ef_proxied := (case q of Some x \<Rightarrow> [x] | None \<Rightarrow> [])\<rparr>, p))
      in if put_post \<and> ar_path req = TRACE_ENDPOINT_PATH
         then bind_rust (process_traces D c (he_metadata H) (he_concentrator H) (he_permit H) (he_clock H)
                (ar_headers req) (body_bytes (ar_body req)) p)
              (\<lambda>(out, p'). Ret (Reply (to_response out), no_effects\<lparr>ef_sends := to_sends out, ef_chunks := to_stats out\<rparr>, p'))
         else if put_post \<and> ar_path req = STATS_ENDPOINT_PATH
         then (case process_stats (td_to_str D) (decode_body (he_get_stats H) (ar_body req)) c (he_now_ns H) (he_stats_open H)
                 (ar_headers req) (body_bytes (ar_body req)) of
                 (r, q) \<Rightarrow> Ret (Reply r, no_effects\<lparr>ef_stats := (case q of Some x \<Rightarrow> [x] | None \<Rightarrow> [])\<rparr>, p))
         else if post \<and> ar_path req = DSM_ENDPOINT_PATH then proxy DataStreams
         else if post \<and> ar_path req = PROFILING_ENDPOINT_PATH then proxy Profiling
         else if ar_path req = INFO_ENDPOINT_PATH
         then Ret (info_handler (tc_dd_apm_receiver_port c)
                (if he_pipes H then tc_dd_apm_windows_pipe_name c else None)
                (tc_dd_dogstatsd_port c) (tc_peer_tags c) (tc_agent_stats_computation_enabled c), no_effects, p)
         else Ret (Reply (404, NoBody), no_effects, p))"

section \<open>The accept loops\<close>

text \<open>
  \<open>serve_accept_loop_tcp\<close> and, with a pipe instance created first, \<open>serve_accept_loop_named_pipe\<close>:
  \<open>lp_conns\<close> are the connections being served, \<open>lp_seen\<close> that the shutdown was seen and the loop only
  waits for them. The connections of a loop that fails are cancelled when their set is dropped;
  the model keeps counting them.
\<close>

datatype loop_end = LoopOk | LoopErr | LoopPanic

record loop =
  lp_conns :: nat
  lp_seen :: bool
  lp_end :: "loop_end option"

definition loop_init :: loop where
  "loop_init = \<lparr>lp_conns = 0, lp_seen = False, lp_end = None\<rparr>"

inductive loop_step :: "bool \<Rightarrow> loop \<Rightarrow> loop \<Rightarrow> bool" for shutdown where
  l_accept: "lp_end s = None \<Longrightarrow> \<not> lp_seen s \<Longrightarrow> loop_step shutdown s (s\<lparr>lp_conns := lp_conns s + 1\<rparr>)"
| l_again: "lp_end s = None \<Longrightarrow> \<not> lp_seen s \<Longrightarrow> loop_step shutdown s s"
| l_error: "lp_end s = None \<Longrightarrow> \<not> lp_seen s \<Longrightarrow> loop_step shutdown s (s\<lparr>lp_end := Some LoopErr\<rparr>)"
| l_finish: "lp_end s = None \<Longrightarrow> lp_conns s = Suc n \<Longrightarrow> loop_step shutdown s (s\<lparr>lp_conns := n\<rparr>)"
| l_panic: "lp_end s = None \<Longrightarrow> lp_conns s = Suc n \<Longrightarrow> loop_step shutdown s (s\<lparr>lp_conns := n, lp_end := Some LoopPanic\<rparr>)"
| l_shutdown: "lp_end s = None \<Longrightarrow> \<not> lp_seen s \<Longrightarrow> shutdown \<Longrightarrow> loop_step shutdown s (s\<lparr>lp_seen := True\<rparr>)"
| l_return: "lp_end s = None \<Longrightarrow> lp_seen s \<Longrightarrow> lp_conns s = 0 \<Longrightarrow> loop_step shutdown s (s\<lparr>lp_end := Some LoopOk\<rparr>)"

section \<open>Supervision\<close>

text \<open>
  \<open>serve\<close>: it watches the tasks and the shutdown signal, which wins when both are ready; on
  shutdown it waits for the accept loops, then signals the stats flusher and waits for it.
\<close>

datatype stage = Watching | AwaitTcp | AwaitPipe | AwaitStats | Stopped bool

record supervisor =
  su_tcp :: "loop option"
  su_pipe :: "loop option"
  su_shutdown :: bool
  su_stage :: stage
  su_signalled :: bool
  su_trace_dead :: bool
  su_conc_dead :: bool
  su_stats_end :: "bool option"

definition supervisor_init :: "bool \<Rightarrow> bool \<Rightarrow> supervisor" where
  "supervisor_init tcp pipe = \<lparr>su_tcp = (if tcp then Some loop_init else None), su_pipe = (if pipe then Some loop_init else None),
     su_shutdown = False, su_stage = Watching, su_signalled = False, su_trace_dead = False, su_conc_dead = False,
     su_stats_end = None\<rparr>"

fun ended :: "loop option \<Rightarrow> bool" where
  "ended None = True"
| "ended (Some l) = (lp_end l \<noteq> None)"

fun died :: "loop option \<Rightarrow> bool" where
  "died None = False"
| "died (Some l) = (lp_end l \<noteq> None)"

inductive supervisor_step :: "supervisor \<Rightarrow> supervisor \<Rightarrow> bool" where
  v_tcp: "su_tcp s = Some l \<Longrightarrow> loop_step (su_shutdown s) l l' \<Longrightarrow> supervisor_step s (s\<lparr>su_tcp := Some l'\<rparr>)"
| v_pipe: "su_pipe s = Some l \<Longrightarrow> loop_step (su_shutdown s) l l' \<Longrightarrow> supervisor_step s (s\<lparr>su_pipe := Some l'\<rparr>)"
| v_shutdown: "supervisor_step s (s\<lparr>su_shutdown := True\<rparr>)"
| v_trace_dies: "supervisor_step s (s\<lparr>su_trace_dead := True\<rparr>)"
| v_conc_dies: "supervisor_step s (s\<lparr>su_conc_dead := True\<rparr>)"
| v_stats_dies: "su_stats_end s = None \<Longrightarrow> supervisor_step s (s\<lparr>su_stats_end := Some False\<rparr>)"
| v_stats_done: "su_stats_end s = None \<Longrightarrow> su_signalled s \<Longrightarrow> supervisor_step s (s\<lparr>su_stats_end := Some True\<rparr>)"
| v_event: "su_stage s = Watching \<Longrightarrow> su_shutdown s \<Longrightarrow> supervisor_step s (s\<lparr>su_stage := AwaitTcp\<rparr>)"
| v_dead: "su_stage s = Watching \<Longrightarrow> \<not> su_shutdown s \<Longrightarrow>
    died (su_tcp s) \<or> died (su_pipe s) \<or> su_trace_dead s \<or> su_conc_dead s \<or> su_stats_end s \<noteq> None \<Longrightarrow>
    supervisor_step s (s\<lparr>su_stage := Stopped False\<rparr>)"
| v_tcp_ended: "su_stage s = AwaitTcp \<Longrightarrow> ended (su_tcp s) \<Longrightarrow> supervisor_step s (s\<lparr>su_stage := AwaitPipe\<rparr>)"
| v_pipe_ended: "su_stage s = AwaitPipe \<Longrightarrow> ended (su_pipe s) \<Longrightarrow>
    supervisor_step s (s\<lparr>su_stage := AwaitStats, su_signalled := True\<rparr>)"
| v_stats_ended: "su_stage s = AwaitStats \<Longrightarrow> su_stats_end s = Some ok \<Longrightarrow> supervisor_step s (s\<lparr>su_stage := Stopped ok\<rparr>)"

text \<open>
  \<open>start_mini_agent\<close>, up to \<open>serve\<close>: the TCP listener is required without a named pipe, and may fail beside
  one. \<open>None\<close>: the bind error is returned. \<open>pipes\<close>: built for Windows with named pipes.
\<close>

definition start_mini_agent :: "bool \<Rightarrow> bool \<Rightarrow> 'o trace_config \<Rightarrow> supervisor option" where
  "start_mini_agent pipes bind_ok c =
     (let pipe_name = (if pipes then tc_dd_apm_windows_pipe_name c else None);
          tcp_listener =
            (if pipe_name \<noteq> None then Some bind_ok
             else if bind_ok then Some True else None)
      in case tcp_listener of
           None \<Rightarrow> None
         | Some tcp \<Rightarrow> Some (supervisor_init tcp (pipe_name \<noteq> None)))"

text \<open>
  An agent that starts listens on TCP exactly when it could bind the port, and on the pipe exactly when one
  is configured, and on one of them at least; it does not start only when it has neither.
\<close>

theorem agent_has_transport:
  "case start_mini_agent pipes bind_ok c of
     None \<Rightarrow> \<not> bind_ok \<and> \<not> (pipes \<and> tc_dd_apm_windows_pipe_name c \<noteq> None)
   | Some s \<Rightarrow> (su_tcp s \<noteq> None \<longleftrightarrow> bind_ok) \<and> (su_pipe s \<noteq> None \<longleftrightarrow> pipes \<and> tc_dd_apm_windows_pipe_name c \<noteq> None) \<and>
       (su_tcp s, su_pipe s) \<noteq> (None, None)"
  by (auto simp: start_mini_agent_def supervisor_init_def Let_def)

section \<open>A refused request has no effect\<close>

lemma bind_rust_Ret: "bind_rust a f = Ret y \<longleftrightarrow> (\<exists>x. a = Ret x \<and> f x = Ret y)"
  by (cases a) auto

lemma process_traces_outcome:
  assumes "process_traces D c m conc permit clock hs body p = Ret (out, p')"
  shows "(to_sends out = [] \<and> to_stats out = [] \<and> p' = p) \<or> to_response out = (200, RateByService)"
proof (cases "td_get_traces D body")
  case (Inl e)
  then show ?thesis using assms by (auto simp: process_traces_def Let_def split: option.splits if_splits)
next
  case (Inr r)
  obtain n traces where r: "r = (n, traces)" by fastforce
  show ?thesis
  proof (cases "td_collect D traces hs (process_chunk D c m)")
    case Panic
    then show ?thesis using assms Inr r by (auto simp: process_traces_def Let_def split: option.splits if_splits)
  next
    case (Ret res)
    then show ?thesis using assms Inr r
      by (cases res) (auto simp: process_traces_def Let_def log_and_create_traces_success_http_response_def bind_rust_Ret
          split: option.splits if_splits)
  qed
qed

lemma process_stats_refused:
  "fst (fst (process_stats to_str get_stats c now_ns is_open hs body)) \<noteq> 202 \<Longrightarrow>
   snd (process_stats to_str get_stats c now_ns is_open hs body) = None"
  by (auto simp: process_stats_def log_and_create_http_response_def split: option.splits sum.splits if_splits)

lemma proxy_handler_refused:
  "fst (fst (proxy_handler to_str c is_open hs body kind)) \<noteq> 200 \<Longrightarrow> snd (proxy_handler to_str c is_open hs body kind) = None"
  by (auto simp: proxy_handler_def log_and_create_http_response_def split: option.splits sum.splits if_splits)

text \<open>
  C11. A request that is not answered with success leaves no trace: nothing is queued for any flusher or
  for the concentrator and the processor keeps its state. A request that is answered feeds only the
  queues of its endpoint.
\<close>

theorem agent_request_effects:
  assumes "trace_endpoint_handler H c req p = Ret (resp, eff, p')"
  shows "(response_status resp \<ge> 300 \<longrightarrow> eff = no_effects \<and> p' = p) \<and>
    (ar_path req \<noteq> TRACE_ENDPOINT_PATH \<longrightarrow> ef_sends eff = [] \<and> ef_chunks eff = [] \<and> p' = p) \<and>
    (ar_path req \<noteq> STATS_ENDPOINT_PATH \<longrightarrow> ef_stats eff = []) \<and>
    (ar_path req \<noteq> DSM_ENDPOINT_PATH \<and> ar_path req \<noteq> PROFILING_ENDPOINT_PATH \<longrightarrow> ef_proxied eff = [])"
proof -
  define D where "D = (he_deps H)\<lparr>td_get_traces := decode_body (td_get_traces (he_deps H)) (ar_body req)\<rparr>"
  have proxy: ?thesis if "proxy_handler (td_to_str D) c (he_proxy_open H) (ar_headers req) (ar_body req) kind = (r, q)"
    "resp = Reply r" "eff = no_effects\<lparr>ef_proxied := (case q of Some x \<Rightarrow> [x] | None \<Rightarrow> [])\<rparr>" "p' = p"
    "ar_path req = DSM_ENDPOINT_PATH \<or> ar_path req = PROFILING_ENDPOINT_PATH" for kind r q
    using that proxy_handler_refused [of "td_to_str D" c "he_proxy_open H" "ar_headers req" "ar_body req" kind]
    by (auto simp: no_effects_def)
  have stats: ?thesis if "process_stats (td_to_str D) (decode_body (he_get_stats H) (ar_body req)) c (he_now_ns H) (he_stats_open H)
      (ar_headers req) (body_bytes (ar_body req)) = (r, q)"
    "resp = Reply r" "eff = no_effects\<lparr>ef_stats := (case q of Some x \<Rightarrow> [x] | None \<Rightarrow> [])\<rparr>" "p' = p"
    "ar_path req = STATS_ENDPOINT_PATH" for r q
    using that process_stats_refused [of "td_to_str D" "decode_body (he_get_stats H) (ar_body req)" c "he_now_ns H" "he_stats_open H"
        "ar_headers req" "body_bytes (ar_body req)"]
    by (auto simp: no_effects_def)
  have traces: ?thesis if "process_traces D c (he_metadata H) (he_concentrator H) (he_permit H) (he_clock H)
      (ar_headers req) (body_bytes (ar_body req)) p = Ret (out, p')"
    "resp = Reply (to_response out)" "eff = no_effects\<lparr>ef_sends := to_sends out, ef_chunks := to_stats out\<rparr>"
    "ar_path req = TRACE_ENDPOINT_PATH" for out
    using that process_traces_outcome [OF that(1)] by (auto simp: no_effects_def)
  show ?thesis using assms proxy stats traces
    unfolding trace_endpoint_handler_def Let_def D_def [symmetric]
    by (auto simp: info_handler_def no_effects_def bind_rust_Ret split: if_splits prod.splits)
qed

section \<open>The last flush comes after the last handler\<close>

definition loop_inv :: "bool \<Rightarrow> loop \<Rightarrow> bool" where
  "loop_inv shutdown l \<longleftrightarrow> (lp_seen l \<longrightarrow> shutdown) \<and> (lp_end l = Some LoopOk \<longrightarrow> lp_seen l \<and> lp_conns l = 0)"

lemma loop_inv_step: "loop_step sd l l' \<Longrightarrow> loop_inv sd l \<Longrightarrow> loop_inv sd l'"
  by (induction rule: loop_step.induct) (auto simp: loop_inv_def)

lemma loop_ended_stays: "loop_step sd l l' \<Longrightarrow> lp_end l = None"
  by (induction rule: loop_step.induct) auto

definition supervisor_inv :: "supervisor \<Rightarrow> bool" where
  "supervisor_inv s \<longleftrightarrow>
     pred_option (loop_inv (su_shutdown s)) (su_tcp s) \<and> pred_option (loop_inv (su_shutdown s)) (su_pipe s) \<and>
     (su_stage s \<in> {AwaitTcp, AwaitPipe, AwaitStats} \<longrightarrow> su_shutdown s) \<and>
     (su_stage s = AwaitPipe \<longrightarrow> ended (su_tcp s)) \<and>
     (su_stage s = AwaitStats \<longrightarrow> su_signalled s) \<and>
     (su_stage s \<in> {Watching, AwaitTcp, AwaitPipe} \<longrightarrow> \<not> su_signalled s) \<and>
     (su_signalled s \<longrightarrow> su_shutdown s \<and> ended (su_tcp s) \<and> ended (su_pipe s)) \<and>
     (su_stats_end s = Some True \<longrightarrow> su_signalled s) \<and>
     (su_stage s = Stopped True \<longrightarrow> su_signalled s \<and> su_stats_end s = Some True)"

lemma supervisor_inv_init: "supervisor_inv (supervisor_init tcp pipe)"
  by (simp add: supervisor_inv_def supervisor_init_def loop_inv_def loop_init_def)

lemma supervisor_inv_step: "supervisor_step s s' \<Longrightarrow> supervisor_inv s \<Longrightarrow> supervisor_inv s'"
proof (induction rule: supervisor_step.induct)
  case (v_tcp s l l')
  then show ?case using loop_inv_step [OF v_tcp(2)] loop_ended_stays [OF v_tcp(2)] by (auto simp: supervisor_inv_def)
next
  case (v_pipe s l l')
  then show ?case using loop_inv_step [OF v_pipe(2)] loop_ended_stays [OF v_pipe(2)] by (auto simp: supervisor_inv_def)
next
  case (v_shutdown s)
  have "pred_option (loop_inv False) l \<Longrightarrow> pred_option (loop_inv True) l" for l
    by (cases l) (auto simp: loop_inv_def)
  then show ?case using v_shutdown by (cases "su_shutdown s") (auto simp: supervisor_inv_def)
qed (auto simp: supervisor_inv_def)

text \<open>
  C12. Whatever the order of events, when the stats flusher is signalled the shutdown was requested and
  every accept loop has ended, a loop that ended well with no connection left; and the agent
  reports success only after the flusher, once signalled, has finished its last flush.
\<close>

theorem flush_after_drain:
  assumes "supervisor_step\<^sup>*\<^sup>* (supervisor_init tcp pipe) s" and "l \<in> set_option (su_tcp s) \<union> set_option (su_pipe s)"
  shows "(su_signalled s \<longrightarrow> su_shutdown s \<and> lp_end l \<noteq> None) \<and>
    (lp_end l = Some LoopOk \<longrightarrow> su_shutdown s \<and> lp_conns l = 0) \<and>
    (su_stage s = Stopped True \<longrightarrow> su_signalled s \<and> su_stats_end s = Some True)"
proof -
  have "supervisor_inv s" using assms(1)
    by (induction rule: rtranclp_induct) (auto intro: supervisor_inv_init supervisor_inv_step)
  then have i: "pred_option (loop_inv (su_shutdown s)) (su_tcp s)" "pred_option (loop_inv (su_shutdown s)) (su_pipe s)"
    "su_signalled s \<Longrightarrow> su_shutdown s \<and> ended (su_tcp s) \<and> ended (su_pipe s)"
    "su_stage s = Stopped True \<Longrightarrow> su_signalled s \<and> su_stats_end s = Some True"
    by (simp_all add: supervisor_inv_def)
  have l: "su_tcp s = Some l \<or> su_pipe s = Some l" using assms(2) by auto
  then have "loop_inv (su_shutdown s) l" using i(1,2) by auto
  moreover have "lp_end l \<noteq> None" if "su_signalled s" using i(3) [OF that] l by auto
  ultimately show ?thesis using i(3,4) by (auto simp: loop_inv_def)
qed

section \<open>Witnesses\<close>

definition demo_env :: "(unit, unit, unit, nat) handler_env" where
  "demo_env = \<lparr>he_deps = demo_deps, he_get_stats = (\<lambda>b. Inl ''bad''), he_metadata = (), he_concentrator = True, he_permit = True,
     he_clock = 100, he_now_ns = 5, he_stats_open = True, he_proxy_open = True, he_pipes = False\<rparr>"

theorem agent_request_effects_witness:
  "\<exists>resp eff p'. trace_endpoint_handler demo_env demo_config
       \<lparr>ar_method = GET, ar_path = ''/unknown'', ar_headers = [], ar_body = Inr ''x''\<rparr> (trace_processor_new demo_config) = Ret (resp, eff, p') \<and>
     response_status resp = 404 \<and> eff = no_effects"
proof -
  let ?req = "\<lparr>ar_method = GET, ar_path = ''/unknown'', ar_headers = [], ar_body = Inr ''x''\<rparr>"
  have h: "trace_endpoint_handler demo_env demo_config ?req (trace_processor_new demo_config) =
      Ret (Reply (404, NoBody), no_effects, trace_processor_new demo_config)"
    by (simp add: trace_endpoint_handler_def Let_def endpoint_paths)
  show ?thesis using agent_request_effects [OF h] h by auto
qed

definition signalled_state :: supervisor where
  "signalled_state = (supervisor_init True False)\<lparr>su_tcp := Some \<lparr>lp_conns = 0, lp_seen = True, lp_end = Some LoopOk\<rparr>,
     su_shutdown := True, su_stage := AwaitStats, su_signalled := True\<rparr>"

lemma signalled_reachable: "supervisor_step\<^sup>*\<^sup>* (supervisor_init True False) signalled_state"
proof -
  let ?s1 = "(supervisor_init True False)\<lparr>su_shutdown := True\<rparr>"
  let ?s2 = "?s1\<lparr>su_stage := AwaitTcp\<rparr>"
  let ?l = "loop_init\<lparr>lp_seen := True\<rparr>"
  let ?s3 = "?s2\<lparr>su_tcp := Some ?l\<rparr>"
  let ?s4 = "?s3\<lparr>su_tcp := Some (?l\<lparr>lp_end := Some LoopOk\<rparr>)\<rparr>"
  let ?s5 = "?s4\<lparr>su_stage := AwaitPipe\<rparr>"
  have "supervisor_step (supervisor_init True False) ?s1" by (rule v_shutdown)
  moreover have "supervisor_step ?s1 ?s2" by (rule v_event) (simp_all add: supervisor_init_def)
  moreover have "supervisor_step ?s2 ?s3"
    by (rule v_tcp [OF _ l_shutdown]) (simp_all add: supervisor_init_def loop_init_def)
  moreover have "supervisor_step ?s3 ?s4"
    by (rule v_tcp [OF _ l_return]) (simp_all add: loop_init_def)
  moreover have "supervisor_step ?s4 ?s5" by (rule v_tcp_ended) simp_all
  moreover have "supervisor_step ?s5 signalled_state"
    using v_pipe_ended [of ?s5] by (simp add: signalled_state_def supervisor_init_def loop_init_def)
  ultimately show ?thesis by (meson converse_rtranclp_into_rtranclp rtranclp.rtrancl_refl)
qed

theorem flush_after_drain_witness:
  "su_shutdown signalled_state \<and> (\<exists>l. su_tcp signalled_state = Some l \<and> lp_conns l = 0)"
  using flush_after_drain [OF signalled_reachable, of "\<lparr>lp_conns = 0, lp_seen = True, lp_end = Some LoopOk\<rparr>"]
  by (simp add: signalled_state_def)

end
