(* ===== verification/Env_Verifier.thy ===== *)
theory Env_Verifier
  imports Trace_Config Http
begin

text \<open>
  The crate \<^verbatim>\<open>datadog-trace-agent\<close>: \<^verbatim>\<open>env_verifier.rs\<close>, which checks at start that the process runs
  in a function environment and collects its metadata. The file system and the metadata server are
  arguments; ending the process is the result \<open>Exit\<close>.
\<close>

section \<open>Google Cloud\<close>

record gcp_metadata =
  gcp_instance_region :: string
  gcp_project_id :: string

definition gcp_metadata_default :: gcp_metadata where
  "gcp_metadata_default = \<lparr>gcp_instance_region = ''unknown'', gcp_project_id = ''unknown''\<rparr>"

definition get_region_from_gcp_region_string :: "string \<Rightarrow> string" where
  "get_region_from_gcp_region_string str =
     (let split_str = split_char CHR ''/'' str
      in if length split_str \<noteq> 4 then ''unknown'' else last split_str)"

text \<open>The answer of the metadata server: its headers and what its body parses to.\<close>

record gcp_response =
  gr_headers :: "(string \<times> string) list"
  gr_metadata :: "string + gcp_metadata"

definition get_gcp_metadata_from_body :: "gcp_response \<Rightarrow> string + gcp_metadata" where
  "get_gcp_metadata_from_body r = gr_metadata r"

definition ensure_gcp_function_environment :: "string + gcp_response \<Rightarrow> string + gcp_metadata" where
  "ensure_gcp_function_environment answer =
     (case answer of
        Inl err \<Rightarrow> Inl (''Can't communicate with Google Metadata Server. Error: '' @ err)
      | Inr r \<Rightarrow>
          (case map_of (gr_headers r) ''server'' of
             None \<Rightarrow> Inl ''In Google Cloud, but server identifier not found.''
           | Some v \<Rightarrow>
               if v \<noteq> ''Metadata Server for Serverless'' then Inl ''In Google Cloud, but not in a function environment.''
               else (case get_gcp_metadata_from_body r of
                       Inr m \<Rightarrow> Inr m
                     | Inl err \<Rightarrow> Inr gcp_metadata_default)))"

section \<open>Azure\<close>

definition AZURE_LINUX_FUNCTION_ROOT_PATH_STR :: string where "AZURE_LINUX_FUNCTION_ROOT_PATH_STR = ''/home/site/wwwroot''"
definition AZURE_WINDOWS_FUNCTION_ROOT_PATH_STR :: string where
  "AZURE_WINDOWS_FUNCTION_ROOT_PATH_STR = ''C:'' @ [CHR 0x5C] @ ''home'' @ [CHR 0x5C] @ ''site'' @ [CHR 0x5C] @ ''wwwroot''"

text \<open>A directory entry: its name and, for a directory, the names in it or the error reading it.\<close>

datatype dir_entry = File string | Dir string "string + string list"

fun root_files :: "(string + dir_entry) list \<Rightarrow> string + string list" where
  "root_files [] = Inr []"
| "root_files (Inl e # es) = Inl e"
| "root_files (Inr (File n) # es) =
     (if n = ''node_modules'' then root_files es
      else (case root_files es of Inl e \<Rightarrow> Inl e | Inr ns \<Rightarrow> Inr (n # ns)))"
| "root_files (Inr (Dir n sub) # es) =
     (if n = ''node_modules'' then root_files es
      else (case sub of
              Inl e \<Rightarrow> Inl e
            | Inr subs \<Rightarrow> (case root_files es of Inl e \<Rightarrow> Inl e | Inr ns \<Rightarrow> Inr (n # subs @ ns))))"

definition get_function_root_files ::
  "(string \<Rightarrow> string + (string + dir_entry) list) \<Rightarrow> string \<Rightarrow> string + string list" where
  "get_function_root_files read_dir path = (case read_dir path of Inl e \<Rightarrow> Inl e | Inr es \<Rightarrow> root_files es)"

definition ensure_azure_function_environment ::
  "(string \<Rightarrow> string + string list) \<Rightarrow> string \<Rightarrow> string option" where
  "ensure_azure_function_environment get_files os =
     (let files =
        (if os = ''linux'' then get_files AZURE_LINUX_FUNCTION_ROOT_PATH_STR
         else if os = ''windows'' then get_files AZURE_WINDOWS_FUNCTION_ROOT_PATH_STR
         else Inl ''The Serverless Mini Agent does not support this platform.'')
      in case files of
           Inl e \<Rightarrow> Some e
         | Inr fs \<Rightarrow>
             if \<not> list_ex (\<lambda>f. f = ''host.json'') fs \<and> \<not> list_ex (\<lambda>f. f = ''function.json'') fs
             then Some ''Failed to validate an Azure Function directory system.''
             else None)"

definition is_azure_flex_without_resource_group :: "env_vars \<Rightarrow> bool" where
  "is_azure_flex_without_resource_group env \<longleftrightarrow>
     env ''WEBSITE_SKU'' = Some ''FlexConsumption'' \<and> env ''DD_AZURE_RESOURCE_GROUP'' = None"

section \<open>Verification\<close>

record agent_metadata =
  am_azure_spring_app_hostname :: "string option"
  am_azure_spring_app_name :: "string option"
  am_gcp_project_id :: "string option"
  am_gcp_region :: "string option"
  am_version :: "string option"

datatype 'a or_exit = Exit | Continue 'a

definition verify_azure_environment_or_exit ::
  "env_vars \<Rightarrow> (string \<Rightarrow> string + string list) \<Rightarrow> string \<Rightarrow> unit or_exit" where
  "verify_azure_environment_or_exit env get_files os =
     (case ensure_azure_function_environment get_files os of
        Some e \<Rightarrow> Exit
      | None \<Rightarrow> if is_azure_flex_without_resource_group env then Exit else Continue ())"

text \<open>\<open>answer\<close>: the answer of the metadata server, \<open>None\<close> when it did not come in time; \<open>dflt\<close>: \<open>MiniAgentMetadata::default\<close>.\<close>

definition verify_gcp_environment_or_exit ::
  "agent_metadata \<Rightarrow> (string + gcp_response) option \<Rightarrow> agent_metadata or_exit" where
  "verify_gcp_environment_or_exit dflt answer =
     (let done_with = (\<lambda>m. Continue (dflt\<lparr>am_gcp_project_id := Some (gcp_project_id m),
            am_gcp_region := Some (get_region_from_gcp_region_string (gcp_instance_region m))\<rparr>))
      in case answer of
           None \<Rightarrow> done_with gcp_metadata_default
         | Some a \<Rightarrow>
             (case ensure_gcp_function_environment a of
                Inl e \<Rightarrow> Exit
              | Inr m \<Rightarrow> done_with m))"

definition verify_environment ::
  "agent_metadata \<Rightarrow> env_vars \<Rightarrow> (string \<Rightarrow> string + string list) \<Rightarrow> (string + gcp_response) option \<Rightarrow> env_type \<Rightarrow> string \<Rightarrow>
   agent_metadata or_exit" where
  "verify_environment dflt env get_files answer et os =
     (case et of
        AzureFunction \<Rightarrow>
          (case verify_azure_environment_or_exit env get_files os of Exit \<Rightarrow> Exit | Continue _ \<Rightarrow> Continue dflt)
      | CloudFunction \<Rightarrow> verify_gcp_environment_or_exit dflt answer
      | AzureSpringApp \<Rightarrow>
          Continue (dflt\<lparr>am_azure_spring_app_hostname := env ''HOSTNAME'',
            am_azure_spring_app_name := env ''ASCSVCRT_SPRING__APPLICATION__NAME''\<rparr>)
      | LambdaFunction \<Rightarrow> Continue dflt)"

section \<open>When the agent runs\<close>

text \<open>The names an entry contributes: its own and, for a directory, those in it.\<close>

fun entry_names :: "dir_entry \<Rightarrow> string list" where
  "entry_names (File n) = (if n = ''node_modules'' then [] else [n])"
| "entry_names (Dir n sub) = (if n = ''node_modules'' then [] else n # (case sub of Inr subs \<Rightarrow> subs | Inl _ \<Rightarrow> []))"

fun readable :: "string + dir_entry \<Rightarrow> bool" where
  "readable (Inl e) = False"
| "readable (Inr (File n)) = True"
| "readable (Inr (Dir n sub)) = (n = ''node_modules'' \<or> (\<exists>subs. sub = Inr subs))"

lemma root_files_eq:
  "(case root_files es of
      Inr ns \<Rightarrow> list_all readable es \<and> ns = concat (map (\<lambda>e. case e of Inr d \<Rightarrow> entry_names d | Inl _ \<Rightarrow> []) es)
    | Inl e \<Rightarrow> \<not> list_all readable es)"
proof (induction es)
  case (Cons e es)
  show ?case
  proof (cases e)
    case (Inr d)
    show ?thesis using Cons Inr by (cases d) (auto split: sum.splits if_splits)
  qed simp
qed simp

text \<open>
  In an Azure Functions environment the agent runs exactly when the platform is Linux or Windows, the
  function root of that platform can be read with the directories in it, \<^verbatim>\<open>host.json\<close> or
  \<^verbatim>\<open>function.json\<close> is there or one directory below, not counting \<^verbatim>\<open>node_modules\<close>, and the plan is
  not Flex Consumption without a resource group; otherwise the process ends.
\<close>

theorem azure_agent_runs:
  "verify_environment dflt env (get_function_root_files read_dir) answer AzureFunction os =
     (if \<exists>path es. (os = ''linux'' \<and> path = AZURE_LINUX_FUNCTION_ROOT_PATH_STR \<or>
           os = ''windows'' \<and> path = AZURE_WINDOWS_FUNCTION_ROOT_PATH_STR) \<and>
         read_dir path = Inr es \<and> list_all readable es \<and>
         (\<exists>d. Inr d \<in> set es \<and> (''host.json'' \<in> set (entry_names d) \<or> ''function.json'' \<in> set (entry_names d))) \<and>
         \<not> (env ''WEBSITE_SKU'' = Some ''FlexConsumption'' \<and> env ''DD_AZURE_RESOURCE_GROUP'' = None)
      then Continue dflt else Exit)"
proof -
  have files: "ensure_azure_function_environment (get_function_root_files read_dir) os = None \<longleftrightarrow>
      (\<exists>path es. (os = ''linux'' \<and> path = AZURE_LINUX_FUNCTION_ROOT_PATH_STR \<or>
           os = ''windows'' \<and> path = AZURE_WINDOWS_FUNCTION_ROOT_PATH_STR) \<and>
         read_dir path = Inr es \<and> list_all readable es \<and>
         (\<exists>d. Inr d \<in> set es \<and> (''host.json'' \<in> set (entry_names d) \<or> ''function.json'' \<in> set (entry_names d))))"
    (is "_ \<longleftrightarrow> ?R")
  proof -
    define path where "path = (if os = ''linux'' then AZURE_LINUX_FUNCTION_ROOT_PATH_STR else AZURE_WINDOWS_FUNCTION_ROOT_PATH_STR)"
    define good where "good f = (\<exists>ns. f = Inr ns \<and> (''host.json'' \<in> set ns \<or> ''function.json'' \<in> set ns))" for f :: "string + string list"
    have 1: "ensure_azure_function_environment (get_function_root_files read_dir) os = None \<longleftrightarrow>
        (os = ''linux'' \<or> os = ''windows'') \<and> good (get_function_root_files read_dir path)"
      by (auto simp: ensure_azure_function_environment_def Let_def path_def good_def list_ex_iff split: sum.splits if_splits)
    have 2: "good (get_function_root_files read_dir path) \<longleftrightarrow> (\<exists>es. read_dir path = Inr es \<and> good (root_files es))"
      by (auto simp: get_function_root_files_def good_def split: sum.splits)
    have 3: "good (root_files es) \<longleftrightarrow> list_all readable es \<and>
        (\<exists>d. Inr d \<in> set es \<and> (''host.json'' \<in> set (entry_names d) \<or> ''function.json'' \<in> set (entry_names d)))" for es
    proof (cases "root_files es")
      case (Inr ns)
      then have "list_all readable es" "ns = concat (map (\<lambda>e. case e of Inr d \<Rightarrow> entry_names d | Inl _ \<Rightarrow> []) es)"
        using root_files_eq [of es] by simp_all
      then show ?thesis using Inr by (fastforce simp: good_def split: sum.splits)
    qed (use root_files_eq [of es] in \<open>simp add: good_def\<close>)
    have 4: "(os = ''linux'' \<and> q = AZURE_LINUX_FUNCTION_ROOT_PATH_STR \<or> os = ''windows'' \<and> q = AZURE_WINDOWS_FUNCTION_ROOT_PATH_STR) \<longleftrightarrow>
        (os = ''linux'' \<or> os = ''windows'') \<and> q = path" for q
      by (auto simp: path_def)
    show ?thesis unfolding 1 2 3 4 by blast
  qed
  show ?thesis
    unfolding verify_environment_def verify_azure_environment_or_exit_def is_azure_flex_without_resource_group_def
    using files by (cases "ensure_azure_function_environment (get_function_root_files read_dir) os") auto
qed

text \<open>The region is the last of exactly four parts of the name the metadata server gives.\<close>

lemma region_of_name:
  assumes "CHR ''/'' \<notin> set p" "CHR ''/'' \<notin> set r"
  shows "get_region_from_gcp_region_string (''projects/'' @ p @ ''/regions/'' @ r) = r"
  using split_join_char [of "[''projects'', p, ''regions'', r]" "CHR ''/''"] assms
  by (simp add: get_region_from_gcp_region_string_def)

end
