(* ===== verification/Agent_Values.thy ===== *)
theory Agent_Values
  imports Decimal Interfaces
begin

text \<open>
  The crate \<^verbatim>\<open>datadog-agent-config\<close>: the deserializers of \<^verbatim>\<open>deserializers/\<close>, which turn a value of a
  configuration source into a setting.

  A value of the source is a \<open>'v\<close>; what the source crate and \<^verbatim>\<open>serde\<close> make of it is the parameter
  record \<open>value_deps\<close>. A deserializer that always succeeds is a function to the setting, one that
  may fail has an \<open>option\<close>. A hash map is an association list with distinct keys.
\<close>

section \<open>Values\<close>

datatype jv = JNull | JBool bool | JInt int | JFloat fl | JStr string | JArr "jv list" | JObj "(string \<times> jv) list"

text \<open>What a visitor that takes any value is shown.\<close>

datatype 'v visited = VisitStr string | VisitScalar | VisitSeq "'v list" | VisitOther

datatype rule_kind = ExcludeAtMatch | IncludeAtMatch | MaskSequences

record processing_rule =
  pr_rule_kind :: rule_kind
  pr_rule_name :: string
  pr_rule_pattern :: string
  pr_rule_placeholder :: "string option"

record additional_endpoint =
  ae_api_key :: string
  ae_host :: string
  ae_port :: nat
  ae_is_reliable :: bool

text \<open>
  \<open>vd_value\<close>: the value as JSON; \<open>vd_opt_value\<close>: as an optional value; \<open>vd_string\<close>, \<open>vd_opt_string\<close>,
  \<open>vd_strings\<close>, \<open>vd_opt_strings\<close>, \<open>vd_string_map\<close>, \<open>vd_endpoints\<close>, \<open>vd_opt_u64\<close>, \<open>vd_opt_i32\<close>: typed
  deserialization, \<open>None\<close> on a type error; \<open>vd_present\<close>: the value an optional type is shown, \<open>None\<close> for a
  null; \<open>vd_fields\<close>: the values of the named fields when the value can be read as a struct with these
  fields (a mapping, or a sequence by position), \<open>None\<close> when it cannot; \<open>vd_any\<close>: what
  \<open>deserialize_any\<close> shows a visitor; \<open>vd_bool\<close>: \<open>deserialize_bool_from_anything\<close>; the \<open>vd_json_\<close> fields
  read JSON texts and values; \<open>vd_style\<close>: \<open>TracePropagationStyle::from_str\<close>; \<open>vd_rule_yaml\<close> and \<open>vd_rules_json\<close>: a
  replace rule read from YAML (its name, pattern and replacement) and such rules written as JSON;
  \<open>vd_replace_rules\<close>: \<open>parse_rules_from_string\<close>.
\<close>

record ('v, 'st, 'r) value_deps =
  vd_value :: "'v \<Rightarrow> jv"
  vd_opt_value :: "'v \<Rightarrow> jv option"
  vd_string :: "'v \<Rightarrow> string option"
  vd_opt_string :: "'v \<Rightarrow> string option option"
  vd_strings :: "'v \<Rightarrow> string list option"
  vd_opt_strings :: "'v \<Rightarrow> string list option option"
  vd_string_map :: "'v \<Rightarrow> (string \<times> string) list option"
  vd_endpoints :: "'v \<Rightarrow> additional_endpoint list option"
  vd_present :: "'v \<Rightarrow> 'v option"
  vd_fields :: "string list \<Rightarrow> 'v \<Rightarrow> (string \<Rightarrow> 'v option) option"
  vd_opt_u64 :: "'v \<Rightarrow> nat option option"
  vd_opt_i32 :: "'v \<Rightarrow> int option option"
  vd_any :: "'v \<Rightarrow> 'v visited"
  vd_bool :: "jv \<Rightarrow> bool option"
  vd_json_map :: "string \<Rightarrow> (string \<times> string list) list option"
  vd_json_endpoints :: "string \<Rightarrow> additional_endpoint list option"
  vd_json_rules :: "string \<Rightarrow> processing_rule list option"
  vd_json_rule :: "jv \<Rightarrow> processing_rule option"
  vd_style :: "string \<Rightarrow> 'st option"
  vd_json_ok :: "string \<Rightarrow> bool"
  vd_rule_yaml :: "'v \<Rightarrow> (string \<times> string \<times> string) option"
  vd_rules_json :: "(string \<times> string \<times> string) list \<Rightarrow> string option"
  vd_replace_rules :: "string \<Rightarrow> 'r list option"

section \<open>Texts\<close>

definition deserialize_optional_string :: "('v, 'st, 'r) value_deps \<Rightarrow> 'v \<Rightarrow> string option" where
  "deserialize_optional_string D v = (case vd_value D v of JStr s \<Rightarrow> Some s | other \<Rightarrow> None)"

text \<open>\<open>show_number\<close>: how \<^verbatim>\<open>serde_json\<close> prints a number.\<close>

definition deserialize_string_or_int :: "('v, 'st, 'r) value_deps \<Rightarrow> (jv \<Rightarrow> string) \<Rightarrow> 'v \<Rightarrow> string option" where
  "deserialize_string_or_int D show_number v =
     (case vd_value D v of
        JStr s \<Rightarrow> if trim s = [] then None else Some s
      | JInt n \<Rightarrow> Some (show_number (JInt n))
      | JFloat x \<Rightarrow> Some (show_number (JFloat x))
      | _ \<Rightarrow> None)"

definition deserialize_optional_bool_from_anything :: "('v, 'st, 'r) value_deps \<Rightarrow> 'v \<Rightarrow> bool option" where
  "deserialize_optional_bool_from_anything D v =
     (case vd_opt_value D v of
        None \<Rightarrow> None
      | Some value \<Rightarrow> (case vd_bool D value of Some b \<Rightarrow> Some b | None \<Rightarrow> None))"

text \<open>\<open>deserialize_option_lossless\<close> and \<open>deserialize_with_default\<close>: a type error is the default.\<close>

definition deserialize_option_lossless :: "('v \<Rightarrow> 'a option option) \<Rightarrow> 'v \<Rightarrow> 'a option" where
  "deserialize_option_lossless de v = (case de v of Some value \<Rightarrow> value | None \<Rightarrow> None)"

definition deserialize_with_default :: "'a \<Rightarrow> ('v \<Rightarrow> 'a option) \<Rightarrow> 'v \<Rightarrow> 'a" where
  "deserialize_with_default dflt de v = (case de v of Some value \<Rightarrow> value | None \<Rightarrow> dflt)"

section \<open>Lists and maps\<close>

text \<open>\<open>split\<close> at any of two characters.\<close>

definition split_either :: "char \<Rightarrow> char \<Rightarrow> string \<Rightarrow> string list" where
  "split_either c d s = split_char c (map (\<lambda>x. if x = d then c else x) s)"

definition parse_key_value_tag :: "string \<Rightarrow> (string \<times> string) option" where
  "parse_key_value_tag tag =
     (case split_once CHR '':'' tag of
        Some (k, v) \<Rightarrow> if k \<noteq> [] \<and> v \<noteq> [] then Some (k, v) else None
      | None \<Rightarrow> None)"

definition insert_tag :: "string \<Rightarrow> (string \<times> string) list \<Rightarrow> (string \<times> string) list" where
  "insert_tag tag m = (case parse_key_value_tag tag of Some (k, v) \<Rightarrow> hm_insert k v m | None \<Rightarrow> m)"

definition key_value_pairs :: "string \<Rightarrow> (string \<times> string) list" where
  "key_value_pairs s = fold insert_tag (filter (\<lambda>tag. tag \<noteq> []) (split_either CHR '','' CHR '' '' s)) []"

definition deserialize_key_value_pairs :: "('v, 'st, 'r) value_deps \<Rightarrow> 'v \<Rightarrow> (string \<times> string) list option" where
  "deserialize_key_value_pairs D v =
     (case vd_any D v of
        VisitStr s \<Rightarrow> Some (key_value_pairs s)
      | VisitScalar \<Rightarrow> Some []
      | _ \<Rightarrow> None)"

definition deserialize_key_value_pair_array_to_hashmap :: "('v, 'st, 'r) value_deps \<Rightarrow> 'v \<Rightarrow> (string \<times> string) list" where
  "deserialize_key_value_pair_array_to_hashmap D v =
     (case vd_strings D v of None \<Rightarrow> [] | Some array \<Rightarrow> fold insert_tag array [])"

definition trimmed_entries :: "string list \<Rightarrow> string list" where
  "trimmed_entries parts = filter (\<lambda>part. part \<noteq> []) (map trim parts)"

definition deserialize_array_from_comma_separated_string :: "('v, 'st, 'r) value_deps \<Rightarrow> 'v \<Rightarrow> string list option" where
  "deserialize_array_from_comma_separated_string D v =
     map_option (\<lambda>s. trimmed_entries (split_char CHR '','' s)) (vd_string D v)"

definition split_comma_then_space :: "string \<Rightarrow> string list" where
  "split_comma_then_space s =
     trimmed_entries (if CHR '','' \<in> set s then split_char CHR '','' s else split_char CHR '' '' s)"

definition deserialize_comma_then_space_separated_string :: "('v, 'st, 'r) value_deps \<Rightarrow> 'v \<Rightarrow> string list option" where
  "deserialize_comma_then_space_separated_string D v = map_option split_comma_then_space (vd_string D v)"

text \<open>The elements of a list that holds only texts.\<close>

fun all_texts :: "jv list \<Rightarrow> string list option" where
  "all_texts [] = Some []"
| "all_texts (JStr s # items) = map_option (\<lambda>ss. s # ss) (all_texts items)"
| "all_texts (_ # items) = None"

definition deserialize_comma_then_space_separated_string_or_list :: "('v, 'st, 'r) value_deps \<Rightarrow> 'v \<Rightarrow> string list" where
  "deserialize_comma_then_space_separated_string_or_list D v =
     (case vd_value D v of
        JArr items \<Rightarrow> (case all_texts items of Some features \<Rightarrow> features | None \<Rightarrow> [])
      | JStr s \<Rightarrow> split_comma_then_space s
      | other \<Rightarrow> [])"

definition filter_tag_of :: "string \<Rightarrow> string option" where
  "filter_tag_of pair =
     (case split_once CHR '':'' pair of
        Some (k, v) \<Rightarrow>
          let key = trim k; value = trim v
          in if key = [] then None else if value = [] then Some key else Some (key @ '':'' @ value)
      | None \<Rightarrow> let key = trim pair in if key = [] then None else Some key)"

definition apm_filter_tags :: "string \<Rightarrow> string list option" where
  "apm_filter_tags s =
     (let tags = List.map_filter filter_tag_of (split_whitespace s) in if tags = [] then None else Some tags)"

definition deserialize_apm_filter_tags :: "('v, 'st, 'r) value_deps \<Rightarrow> 'v \<Rightarrow> string list option option" where
  "deserialize_apm_filter_tags D v =
     (case vd_opt_string D v of
        None \<Rightarrow> None
      | Some None \<Rightarrow> Some None
      | Some (Some s) \<Rightarrow> if trim s = [] then Some None else Some (apm_filter_tags s))"

definition propagation_styles :: "('v, 'st, 'r) value_deps \<Rightarrow> string \<Rightarrow> 'st list" where
  "propagation_styles D s = List.map_filter (\<lambda>style. vd_style D (trim style)) (split_char CHR '','' s)"

definition deserialize_trace_propagation_style :: "('v, 'st, 'r) value_deps \<Rightarrow> 'v \<Rightarrow> 'st list" where
  "deserialize_trace_propagation_style D v =
     (case vd_string D v of None \<Rightarrow> [] | Some s \<Rightarrow> propagation_styles D s)"

definition service_pair :: "string \<Rightarrow> (string \<times> string) option" where
  "service_pair pair =
     (case split_char CHR '':'' pair of
        service # to_map # _ \<Rightarrow> Some (trim service, trim to_map)
      | _ \<Rightarrow> None)"

definition service_mapping_of :: "string \<Rightarrow> (string \<times> string) list" where
  "service_mapping_of s =
     fold (\<lambda>(k, v). hm_insert k v) (List.map_filter service_pair (split_char CHR '','' s)) []"

definition deserialize_service_mapping :: "('v, 'st, 'r) value_deps \<Rightarrow> 'v \<Rightarrow> (string \<times> string) list" where
  "deserialize_service_mapping D v = (case vd_string D v of None \<Rightarrow> [] | Some s \<Rightarrow> service_mapping_of s)"

section \<open>Endpoints and rules\<close>

fun string_items :: "jv list \<Rightarrow> string list" where
  "string_items [] = []"
| "string_items (JStr s # arr) = s # string_items arr"
| "string_items (_ # arr) = string_items arr"

fun endpoint_entries :: "(string \<times> jv) list \<Rightarrow> (string \<times> string list) list" where
  "endpoint_entries [] = []"
| "endpoint_entries ((key, JArr arr) # m) = (key, string_items arr) # endpoint_entries m"
| "endpoint_entries ((key, _) # m) = endpoint_entries m"

definition deserialize_additional_endpoints :: "('v, 'st, 'r) value_deps \<Rightarrow> 'v \<Rightarrow> (string \<times> string list) list" where
  "deserialize_additional_endpoints D v =
     (case vd_value D v of
        JObj m \<Rightarrow> endpoint_entries m
      | JStr s \<Rightarrow> if s \<noteq> [] then (case vd_json_map D s of Some m \<Rightarrow> m | None \<Rightarrow> []) else []
      | other \<Rightarrow> [])"

definition deserialize_logs_additional_endpoints :: "('v, 'st, 'r) value_deps \<Rightarrow> 'v \<Rightarrow> additional_endpoint list" where
  "deserialize_logs_additional_endpoints D v =
     (case vd_value D v of
        JStr s \<Rightarrow> if s \<noteq> [] then (case vd_json_endpoints D s of Some es \<Rightarrow> es | None \<Rightarrow> []) else []
      | other \<Rightarrow> [])"

definition deserialize_processing_rules :: "('v, 'st, 'r) value_deps \<Rightarrow> 'v \<Rightarrow> processing_rule list option" where
  "deserialize_processing_rules D v =
     (case vd_value D v of
        JStr s \<Rightarrow> vd_json_rules D s
      | JArr a \<Rightarrow> (let values = List.map_filter (vd_json_rule D) a in if values = [] then None else Some values)
      | other \<Rightarrow> None)"

text \<open>The visitor of replace rules: a JSON text as it is, a sequence of rules as JSON.\<close>

definition visit_replace_rules :: "('v, 'st, 'r) value_deps \<Rightarrow> 'v \<Rightarrow> string option" where
  "visit_replace_rules D v =
     (case vd_any D v of
        VisitStr value \<Rightarrow> Some (if vd_json_ok D value then value else [])
      | VisitSeq vs \<Rightarrow>
          (case those (map (vd_rule_yaml D) vs) of
             None \<Rightarrow> None
           | Some rules \<Rightarrow> Some (case vd_rules_json D rules of Some json \<Rightarrow> json | None \<Rightarrow> []))
      | _ \<Rightarrow> None)"

definition deserialize_apm_replace_rules :: "('v, 'st, 'r) value_deps \<Rightarrow> 'v \<Rightarrow> 'r list option" where
  "deserialize_apm_replace_rules D v =
     (case visit_replace_rules D v of
        None \<Rightarrow> None
      | Some json_string \<Rightarrow> vd_replace_rules D json_string)"

section \<open>Durations\<close>

text \<open>
  A duration is its number of nanoseconds. \<open>Duration::from_secs_f64\<close> rounds to the nearest one,
  ties to even, and panics when the seconds do not fit 64 bits.
\<close>

definition nanos :: nat where "nanos = 1000000000"

fun from_secs_f64 :: "fl \<Rightarrow> nat rust" where
  "from_secs_f64 (Fin s q) =
     (let n = nat (rne (q * of_nat nanos))
      in if (s \<and> 0 < q) \<or> n \<ge> 2 ^ 64 * nanos then Panic else Ret n)"
| "from_secs_f64 _ = Panic"

definition deserialize_optional_duration_from_microseconds :: "('v, 'st, 'r) value_deps \<Rightarrow> 'v \<Rightarrow> nat option" where
  "deserialize_optional_duration_from_microseconds D v =
     (case vd_opt_u64 D v of Some opt \<Rightarrow> map_option (\<lambda>u. 1000 * u) opt | None \<Rightarrow> None)"

definition deserialize_optional_duration_from_seconds :: "('v, 'st, 'r) value_deps \<Rightarrow> 'v \<Rightarrow> nat option rust" where
  "deserialize_optional_duration_from_seconds D v =
     (case vd_value D v of
        JInt i \<Rightarrow> if i < 0 then Ret None else Ret (Some (nat i * nanos))
      | JFloat f \<Rightarrow>
          (case f of
             Fin True q \<Rightarrow> if 0 < q then Ret None else bind_rust (from_secs_f64 f) (\<lambda>d. Ret (Some d))
           | _ \<Rightarrow> bind_rust (from_secs_f64 f) (\<lambda>d. Ret (Some d)))
      | JNull \<Rightarrow> Ret None
      | other \<Rightarrow> Ret None)"

definition deserialize_optional_duration_from_seconds_ignore_zero :: "('v, 'st, 'r) value_deps \<Rightarrow> 'v \<Rightarrow> nat option rust" where
  "deserialize_optional_duration_from_seconds_ignore_zero D v =
     bind_rust (deserialize_optional_duration_from_seconds D v) (\<lambda>d.
       Ret (case d of Some n \<Rightarrow> if n div nanos = 0 then None else Some n | None \<Rightarrow> None))"

section \<open>Levels and strategies\<close>

datatype log_level = LError | LWarn | LInfo | LDebug | LTrace

fun log_level_text :: "log_level \<Rightarrow> string" where
  "log_level_text LError = ''ERROR''"
| "log_level_text LWarn = ''WARN''"
| "log_level_text LInfo = ''INFO''"
| "log_level_text LDebug = ''DEBUG''"
| "log_level_text LTrace = ''TRACE''"

definition log_level_from_str :: "string \<Rightarrow> log_level option" where
  "log_level_from_str s =
     (if lower_is s ''error'' then Some LError
      else if lower_is s ''warn'' then Some LWarn
      else if lower_is s ''info'' then Some LInfo
      else if lower_is s ''debug'' then Some LDebug
      else if lower_is s ''trace'' then Some LTrace
      else None)"

definition log_level_deserialize :: "('v, 'st, 'r) value_deps \<Rightarrow> 'v \<Rightarrow> log_level" where
  "log_level_deserialize D v =
     (case vd_value D v of
        JStr s \<Rightarrow> (case log_level_from_str s of Some level \<Rightarrow> level | None \<Rightarrow> LWarn)
      | other \<Rightarrow> LWarn)"

datatype flush_strategy = FDefault | Periodically nat | FEnd | EndPeriodically nat | Continuously nat

fun flush_strategy_name :: "flush_strategy \<Rightarrow> string" where
  "flush_strategy_name FDefault = ''default''"
| "flush_strategy_name FEnd = ''end''"
| "flush_strategy_name (Periodically _) = ''periodically''"
| "flush_strategy_name (EndPeriodically _) = ''end-periodically''"
| "flush_strategy_name (Continuously _) = ''continuously''"

definition flush_strategy_of :: "string \<Rightarrow> flush_strategy" where
  "flush_strategy_of value =
     (if value = ''end'' then FEnd
      else
        (case split_char CHR '','' value of
           [] \<Rightarrow> FDefault
         | strategy # rest \<Rightarrow>
             (case Option.bind (case rest of [] \<Rightarrow> None | v # _ \<Rightarrow> Some v) (parse_unsigned (2 ^ 64 - 1)) of
                None \<Rightarrow> FDefault
              | Some interval \<Rightarrow>
                  if strategy = ''periodically'' then Periodically interval
                  else if strategy = ''continuously'' then Continuously interval
                  else if strategy = ''end'' then EndPeriodically interval
                  else FDefault)))"

definition flush_strategy_deserialize :: "('v, 'st, 'r) value_deps \<Rightarrow> 'v \<Rightarrow> flush_strategy option" where
  "flush_strategy_deserialize D v = map_option flush_strategy_of (vd_string D v)"

section \<open>Facts\<close>

text \<open>A number of seconds that does not fit 64 bits is not ignored like other bad values: reading it panics.\<close>

theorem duration_overflow_panics:
  assumes "vd_value D v = JFloat (Fin False q)" "of_nat (2 ^ 64) \<le> q"
  shows "deserialize_optional_duration_from_seconds D v = Panic"
proof -
  have "of_int (2 ^ 64 * int nanos) \<le> q * of_nat nanos" using assms(2) by (simp add: nanos_def)
  then have "2 ^ 64 * int nanos \<le> rne (q * of_nat nanos)" by (rule rne_ge)
  then have "nat (2 ^ 64 * int nanos) \<le> nat (rne (q * of_nat nanos))" by (rule nat_mono)
  then have "2 ^ 64 * nanos \<le> nat (rne (q * of_nat nanos))" by (simp add: nanos_def)
  then show ?thesis using assms(1) by (simp add: deserialize_optional_duration_from_seconds_def Let_def)
qed

text \<open>The entries of a list setting are trimmed and not empty, whatever the delimiter.\<close>

lemma split_entries_clean: "e \<in> set (split_comma_then_space s) \<Longrightarrow> e \<noteq> []"
  by (simp add: split_comma_then_space_def trimmed_entries_def)

text \<open>A printed strategy with its interval parses back.\<close>

lemma flush_strategy_parses:
  assumes "n < 2 ^ 64"
  shows "flush_strategy_of (''periodically,'' @ show_nat n) = Periodically n"
    "flush_strategy_of (''continuously,'' @ show_nat n) = Continuously n"
    "flush_strategy_of (''end,'' @ show_nat n) = EndPeriodically n"
proof -
  have d: "CHR '','' \<notin> set (show_nat n)"
    using show_nat_digits [of n] by (auto simp: list_all_iff is_ascii_digit_def byte_def dest!: bspec)
  have "parse_unsigned (2 ^ 64 - 1) (show_nat n) = Some n" using assms by (intro parse_show_nat) simp
  then show "flush_strategy_of (''periodically,'' @ show_nat n) = Periodically n"
    "flush_strategy_of (''continuously,'' @ show_nat n) = Continuously n"
    "flush_strategy_of (''end,'' @ show_nat n) = EndPeriodically n"
    using split_char_atom [OF d] by (simp_all add: flush_strategy_of_def)
qed

end
