(* ===== verification/Agent_Settings.thy ===== *)
theory Agent_Settings
  imports Agent_Values Dsd_Packet
begin

text \<open>
  The crate \<^verbatim>\<open>datadog-agent-config\<close>: the settings of \<^verbatim>\<open>lib.rs\<close>, their defaults and the macros that merge
  one into them.

  The fields of \<open>Config\<close> are grouped as the source groups them by its comments. \<open>'st\<close>: propagation
  styles, \<open>'r\<close>: replace rules, \<open>'x\<close>: the extension. An i32 is an int, the unsigned integers are naturals.
\<close>

section \<open>Merging\<close>

text \<open>\<open>merge_string\<close> and \<open>merge_option_to_value\<close>; \<open>merge_option\<close>; \<open>merge_vec\<close> and \<open>merge_hashmap\<close>.\<close>

definition merge_value :: "'a option \<Rightarrow> 'a \<Rightarrow> 'a" where
  "merge_value src cur = (case src of Some v \<Rightarrow> v | None \<Rightarrow> cur)"

definition merge_option :: "'a option \<Rightarrow> 'a option \<Rightarrow> 'a option" where
  "merge_option src cur = (if src \<noteq> None then src else cur)"

definition merge_list :: "'a list \<Rightarrow> 'a list \<Rightarrow> 'a list" where
  "merge_list src cur = (if src \<noteq> [] then src else cur)"

type_synonym smap = "(string \<times> string) list"
type_synonym emap = "(string \<times> string list) list"

section \<open>The configuration\<close>

record core_config =
  cc_site :: string
  cc_api_key :: string
  cc_dd_org_uuid :: string
  cc_log_level :: log_level
  cc_flush_timeout :: nat
  cc_compression_level :: int
  cc_proxy_https :: "string option"
  cc_proxy_no_proxy :: "string list"
  cc_http_protocol :: "string option"
  cc_tls_cert_file :: "string option"
  cc_skip_ssl_validation :: bool
  cc_dd_url :: string
  cc_url :: string
  cc_additional_endpoints :: emap
  cc_additional_endpoints_secret_arn :: string
  cc_env :: "string option"
  cc_service :: "string option"
  cc_version :: "string option"
  cc_tags :: smap

record logs_section =
  ls_enabled :: bool
  ls_dd_url :: string
  ls_processing_rules :: "processing_rule list option"
  ls_use_compression :: bool
  ls_compression_level :: int
  ls_additional_endpoints :: "additional_endpoint list"
  ls_additional_endpoints_secret_arn :: string
  ls_opw_logs_enabled :: bool
  ls_opw_logs_url :: string

record ('st, 'r) apm_section =
  ap_service_mapping :: smap
  ap_dd_url :: string
  ap_replace_tags :: "'r list option"
  ap_remove_query_string :: bool
  ap_remove_paths_with_digits :: bool
  ap_compression_level :: int
  ap_features :: "string list"
  ap_additional_endpoints :: emap
  ap_additional_endpoints_secret_arn :: string
  ap_filter_tags_require :: "string list option"
  ap_filter_tags_reject :: "string list option"
  ap_filter_tags_regex_require :: "string list option"
  ap_filter_tags_regex_reject :: "string list option"
  ap_aws_service_representation :: bool
  ap_propagation_style :: "'st list"
  ap_propagation_style_extract :: "'st list"
  ap_propagation_extract_first :: bool
  ap_propagation_http_baggage :: bool

record metrics_section =
  ms_compression_level :: int
  ms_namespace :: "string option"
  ms_so_rcvbuf :: "nat option"
  ms_buffer_size :: "nat option"
  ms_queue_size :: "nat option"

record otlp_section =
  ot_traces_enabled :: bool
  ot_span_name_as_resource_name :: bool
  ot_span_name_remappings :: smap
  ot_ignore_missing_fields :: bool
  ot_http_endpoint :: "string option"
  ot_grpc_endpoint :: "string option"
  ot_grpc_transport :: "string option"
  ot_grpc_max_recv_msg_size_mib :: "int option"
  ot_metrics_enabled :: bool
  ot_resource_attributes_as_tags :: bool
  ot_scope_metadata_as_tags :: bool
  ot_tag_cardinality :: "string option"
  ot_delta_ttl :: "int option"
  ot_histograms_mode :: "string option"
  ot_send_count_sum :: bool
  ot_send_aggregation :: bool
  ot_sums_cumulative_monotonic_mode :: "string option"
  ot_sums_initial_value :: "string option"
  ot_summaries_mode :: "string option"
  ot_sampling_percentage :: "int option"
  ot_logs_enabled :: bool

record ('st, 'r, 'x) agent_config =
  cf_core :: core_config
  cf_logs :: logs_section
  cf_apm :: "('st, 'r) apm_section"
  cf_metrics :: metrics_section
  cf_otlp :: otlp_section
  cf_ext :: 'x

definition core_default :: core_config where
  "core_default = \<lparr>cc_site = [], cc_api_key = [], cc_dd_org_uuid = [], cc_log_level = LWarn, cc_flush_timeout = 30,
     cc_compression_level = 3, cc_proxy_https = None, cc_proxy_no_proxy = [], cc_http_protocol = None,
     cc_tls_cert_file = None, cc_skip_ssl_validation = False, cc_dd_url = [], cc_url = [], cc_additional_endpoints = [],
     cc_additional_endpoints_secret_arn = [], cc_env = None, cc_service = None, cc_version = None, cc_tags = []\<rparr>"

definition logs_default :: logs_section where
  "logs_default = \<lparr>ls_enabled = False, ls_dd_url = [], ls_processing_rules = None, ls_use_compression = True,
     ls_compression_level = 3, ls_additional_endpoints = [], ls_additional_endpoints_secret_arn = [],
     ls_opw_logs_enabled = False, ls_opw_logs_url = []\<rparr>"

text \<open>\<open>dflt_styles\<close>: the styles \<open>Datadog\<close> and \<open>TraceContext\<close>.\<close>

definition apm_default :: "'st list \<Rightarrow> ('st, 'r) apm_section" where
  "apm_default dflt_styles = \<lparr>ap_service_mapping = [], ap_dd_url = [], ap_replace_tags = None, ap_remove_query_string = False,
     ap_remove_paths_with_digits = False, ap_compression_level = 3, ap_features = [], ap_additional_endpoints = [],
     ap_additional_endpoints_secret_arn = [], ap_filter_tags_require = None, ap_filter_tags_reject = None,
     ap_filter_tags_regex_require = None, ap_filter_tags_regex_reject = None, ap_aws_service_representation = True,
     ap_propagation_style = dflt_styles, ap_propagation_style_extract = [], ap_propagation_extract_first = False,
     ap_propagation_http_baggage = False\<rparr>"

definition metrics_default :: metrics_section where
  "metrics_default = \<lparr>ms_compression_level = 3, ms_namespace = None, ms_so_rcvbuf = None, ms_buffer_size = None,
     ms_queue_size = None\<rparr>"

definition otlp_default :: otlp_section where
  "otlp_default = \<lparr>ot_traces_enabled = True, ot_span_name_as_resource_name = False, ot_span_name_remappings = [],
     ot_ignore_missing_fields = False, ot_http_endpoint = None, ot_grpc_endpoint = None, ot_grpc_transport = None,
     ot_grpc_max_recv_msg_size_mib = None, ot_metrics_enabled = False, ot_resource_attributes_as_tags = False,
     ot_scope_metadata_as_tags = False, ot_tag_cardinality = None, ot_delta_ttl = None, ot_histograms_mode = None,
     ot_send_count_sum = False, ot_send_aggregation = False, ot_sums_cumulative_monotonic_mode = None,
     ot_sums_initial_value = None, ot_summaries_mode = None, ot_sampling_percentage = None, ot_logs_enabled = False\<rparr>"

definition config_default :: "'st list \<Rightarrow> 'x \<Rightarrow> ('st, 'r, 'x) agent_config" where
  "config_default dflt_styles ext = \<lparr>cf_core = core_default, cf_logs = logs_default, cf_apm = apm_default dflt_styles,
     cf_metrics = metrics_default, cf_otlp = otlp_default, cf_ext = ext\<rparr>"

section \<open>Fields of a source\<close>

text \<open>
  \<open>src\<close> gives the value of a key. A field that is not set has its default; \<open>strict_field\<close> is \<open>None\<close> when
  the deserializer fails.
\<close>

definition field :: "('v \<Rightarrow> 'a) \<Rightarrow> 'a \<Rightarrow> (string \<Rightarrow> 'v option) \<Rightarrow> string \<Rightarrow> 'a" where
  "field de dflt src key = (case src key of Some v \<Rightarrow> de v | None \<Rightarrow> dflt)"

definition strict_field :: "('v \<Rightarrow> 'a option) \<Rightarrow> 'a \<Rightarrow> (string \<Rightarrow> 'v option) \<Rightarrow> string \<Rightarrow> 'a option" where
  "strict_field de dflt src key = (case src key of Some v \<Rightarrow> de v | None \<Rightarrow> Some dflt)"

text \<open>The deserializers by the type of the field; \<open>show_number\<close> prints a JSON number.\<close>

definition opt_string :: "('v, 'st, 'r) value_deps \<Rightarrow> (string \<Rightarrow> 'v option) \<Rightarrow> string \<Rightarrow> string option" where
  "opt_string D src key = field (deserialize_optional_string D) None src key"

definition opt_bool :: "('v, 'st, 'r) value_deps \<Rightarrow> (string \<Rightarrow> 'v option) \<Rightarrow> string \<Rightarrow> bool option" where
  "opt_bool D src key = field (deserialize_optional_bool_from_anything D) None src key"

definition opt_int :: "('v, 'st, 'r) value_deps \<Rightarrow> (string \<Rightarrow> 'v option) \<Rightarrow> string \<Rightarrow> int option" where
  "opt_int D src key = field (deserialize_option_lossless (vd_opt_i32 D)) None src key"

definition opt_nat :: "('v, 'st, 'r) value_deps \<Rightarrow> (string \<Rightarrow> 'v option) \<Rightarrow> string \<Rightarrow> nat option" where
  "opt_nat D src key = field (deserialize_option_lossless (vd_opt_u64 D)) None src key"

definition opt_level :: "('v, 'st, 'r) value_deps \<Rightarrow> (string \<Rightarrow> 'v option) \<Rightarrow> string \<Rightarrow> log_level option" where
  "opt_level D src key = field (\<lambda>v. Some (log_level_deserialize D v)) None src key"

section \<open>Facts of merging\<close>

lemma merge_simps [simp]:
  "merge_value None x = x" "merge_value (Some v) x = v" "merge_option None y = y" "merge_option (Some v) y = Some v"
  "merge_list [] l = l"
  by (simp_all add: merge_value_def merge_option_def merge_list_def)

lemma merge_list_ne: "cur \<noteq> [] \<Longrightarrow> merge_list src cur \<noteq> []"
  by (simp add: merge_list_def)

end
