(* ===== verification/Agent_Env.thy ===== *)
theory Agent_Env
  imports Agent_Settings
begin

text \<open>
  The crate \<^verbatim>\<open>datadog-agent-config\<close>: the environment as a source of settings, \<^verbatim>\<open>sources/env.rs\<close>.
\<close>

section \<open>The environment\<close>

record env_core =
  ec_site :: "string option"
  ec_api_key :: "string option"
  ec_org_uuid :: "string option"
  ec_log_level :: "log_level option"
  ec_flush_timeout :: "nat option"
  ec_compression_level :: "int option"
  ec_proxy_https :: "string option"
  ec_proxy_no_proxy :: "string list"
  ec_http_protocol :: "string option"
  ec_tls_cert_file :: "string option"
  ec_skip_ssl_validation :: "bool option"
  ec_dd_url :: "string option"
  ec_url :: "string option"
  ec_additional_endpoints :: emap
  ec_additional_endpoints_secret_arn :: "string option"
  ec_env :: "string option"
  ec_service :: "string option"
  ec_version :: "string option"
  ec_tags :: smap

record env_logs =
  el_enabled :: "bool option"
  el_dd_url :: "string option"
  el_processing_rules :: "processing_rule list option"
  el_use_compression :: "bool option"
  el_compression_level :: "int option"
  el_additional_endpoints :: "additional_endpoint list"
  el_additional_endpoints_secret_arn :: "string option"
  el_opw_logs_enabled :: "bool option"
  el_opw_logs_url :: "string option"

record ('st, 'r) env_apm =
  ea_service_mapping :: smap
  ea_dd_url :: "string option"
  ea_replace_tags :: "'r list option"
  ea_remove_query_string :: "bool option"
  ea_remove_paths_with_digits :: "bool option"
  ea_compression_level :: "int option"
  ea_features :: "string list"
  ea_additional_endpoints :: emap
  ea_additional_endpoints_secret_arn :: "string option"
  ea_filter_tags_require :: "string list option"
  ea_filter_tags_reject :: "string list option"
  ea_filter_tags_regex_require :: "string list option"
  ea_filter_tags_regex_reject :: "string list option"
  ea_aws_service_representation :: "bool option"
  ea_propagation_style :: "'st list"
  ea_propagation_style_extract :: "'st list"
  ea_propagation_extract_first :: "bool option"
  ea_propagation_http_baggage :: "bool option"

record env_metrics =
  em_compression_level :: "int option"
  em_namespace :: "string option"
  em_so_rcvbuf :: "nat option"
  em_buffer_size :: "nat option"
  em_queue_size :: "nat option"

record env_otlp =
  eo_traces_enabled :: "bool option"
  eo_span_name_as_resource_name :: "bool option"
  eo_span_name_remappings :: smap
  eo_ignore_missing_fields :: "bool option"
  eo_http_endpoint :: "string option"
  eo_grpc_endpoint :: "string option"
  eo_grpc_transport :: "string option"
  eo_grpc_max_recv_msg_size_mib :: "int option"
  eo_metrics_enabled :: "bool option"
  eo_resource_attributes_as_tags :: "bool option"
  eo_scope_metadata_as_tags :: "bool option"
  eo_tag_cardinality :: "string option"
  eo_delta_ttl :: "int option"
  eo_histograms_mode :: "string option"
  eo_send_count_sum :: "bool option"
  eo_send_aggregation :: "bool option"
  eo_sums_cumulative_monotonic_mode :: "string option"
  eo_sums_initial_value :: "string option"
  eo_summaries_mode :: "string option"
  eo_sampling_percentage :: "int option"
  eo_logs_enabled :: "bool option"

record ('st, 'r) env_config =
  en_core :: env_core
  en_logs :: env_logs
  en_apm :: "('st, 'r) env_apm"
  en_metrics :: env_metrics
  en_otlp :: env_otlp

text \<open>\<open>figment.extract::<EnvConfig>()\<close>: a field whose deserializer fails makes the extraction fail as a whole.\<close>

definition extract_core ::
  "('v, 'st, 'r) value_deps \<Rightarrow> (jv \<Rightarrow> string) \<Rightarrow> (string \<Rightarrow> 'v option) \<Rightarrow> string list \<Rightarrow> smap \<Rightarrow> env_core" where
  "extract_core D show_number src no_proxy tags =
     \<lparr>ec_site = opt_string D src ''site'', ec_api_key = opt_string D src ''api_key'',
      ec_org_uuid = opt_string D src ''org_uuid'', ec_log_level = opt_level D src ''log_level'',
      ec_flush_timeout = opt_nat D src ''flush_timeout'', ec_compression_level = opt_int D src ''compression_level'',
      ec_proxy_https = opt_string D src ''proxy_https'', ec_proxy_no_proxy = no_proxy,
      ec_http_protocol = opt_string D src ''http_protocol'', ec_tls_cert_file = opt_string D src ''tls_cert_file'',
      ec_skip_ssl_validation = opt_bool D src ''skip_ssl_validation'',
      ec_dd_url = opt_string D src ''dd_url'', ec_url = opt_string D src ''url'',
      ec_additional_endpoints = field (deserialize_additional_endpoints D) [] src ''additional_endpoints'',
      ec_additional_endpoints_secret_arn = opt_string D src ''additional_endpoints_secret_arn'',
      ec_env = field (deserialize_string_or_int D show_number) None src ''env'',
      ec_service = field (deserialize_string_or_int D show_number) None src ''service'',
      ec_version = field (deserialize_string_or_int D show_number) None src ''version'', ec_tags = tags\<rparr>"

definition extract_logs :: "('v, 'st, 'r) value_deps \<Rightarrow> (string \<Rightarrow> 'v option) \<Rightarrow> env_logs" where
  "extract_logs D src =
     \<lparr>el_enabled = opt_bool D src ''logs_enabled'', el_dd_url = opt_string D src ''logs_config_logs_dd_url'',
      el_processing_rules = field (deserialize_processing_rules D) None src ''logs_config_processing_rules'',
      el_use_compression = opt_bool D src ''logs_config_use_compression'',
      el_compression_level = opt_int D src ''logs_config_compression_level'',
      el_additional_endpoints = field (deserialize_logs_additional_endpoints D) [] src ''logs_config_additional_endpoints'',
      el_additional_endpoints_secret_arn = opt_string D src ''logs_config_additional_endpoints_secret_arn'',
      el_opw_logs_enabled = opt_bool D src ''observability_pipelines_worker_logs_enabled'',
      el_opw_logs_url = opt_string D src ''observability_pipelines_worker_logs_url''\<rparr>"

definition extract_apm ::
  "('v, 'st, 'r) value_deps \<Rightarrow> (string \<Rightarrow> 'v option) \<Rightarrow> string list \<Rightarrow> string list option \<Rightarrow> string list option \<Rightarrow>
   string list option \<Rightarrow> string list option \<Rightarrow> ('st, 'r) env_apm" where
  "extract_apm D src features require reject regex_require regex_reject =
     \<lparr>ea_service_mapping = field (deserialize_service_mapping D) [] src ''service_mapping'',
      ea_dd_url = opt_string D src ''apm_dd_url'',
      ea_replace_tags = field (deserialize_apm_replace_rules D) None src ''apm_replace_tags'',
      ea_remove_query_string = opt_bool D src ''apm_config_obfuscation_http_remove_query_string'',
      ea_remove_paths_with_digits = opt_bool D src ''apm_config_obfuscation_http_remove_paths_with_digits'',
      ea_compression_level = opt_int D src ''apm_config_compression_level'', ea_features = features,
      ea_additional_endpoints = field (deserialize_additional_endpoints D) [] src ''apm_additional_endpoints'',
      ea_additional_endpoints_secret_arn = opt_string D src ''apm_additional_endpoints_secret_arn'',
      ea_filter_tags_require = require, ea_filter_tags_reject = reject,
      ea_filter_tags_regex_require = regex_require, ea_filter_tags_regex_reject = regex_reject,
      ea_aws_service_representation = opt_bool D src ''trace_aws_service_representation_enabled'',
      ea_propagation_style = field (deserialize_trace_propagation_style D) [] src ''trace_propagation_style'',
      ea_propagation_style_extract = field (deserialize_trace_propagation_style D) [] src ''trace_propagation_style_extract'',
      ea_propagation_extract_first = opt_bool D src ''trace_propagation_extract_first'',
      ea_propagation_http_baggage = opt_bool D src ''trace_propagation_http_baggage_enabled''\<rparr>"

definition extract_metrics :: "('v, 'st, 'r) value_deps \<Rightarrow> (string \<Rightarrow> 'v option) \<Rightarrow> env_metrics" where
  "extract_metrics D src =
     \<lparr>em_compression_level = opt_int D src ''metrics_config_compression_level'',
      em_namespace = opt_string D src ''statsd_metric_namespace'', em_so_rcvbuf = opt_nat D src ''dogstatsd_so_rcvbuf'',
      em_buffer_size = opt_nat D src ''dogstatsd_buffer_size'', em_queue_size = opt_nat D src ''dogstatsd_queue_size''\<rparr>"

definition extract_otlp :: "('v, 'st, 'r) value_deps \<Rightarrow> (string \<Rightarrow> 'v option) \<Rightarrow> smap \<Rightarrow> env_otlp" where
  "extract_otlp D src remappings =
     \<lparr>eo_traces_enabled = opt_bool D src ''otlp_config_traces_enabled'',
      eo_span_name_as_resource_name = opt_bool D src ''otlp_config_traces_span_name_as_resource_name'',
      eo_span_name_remappings = remappings,
      eo_ignore_missing_fields = opt_bool D src ''otlp_config_ignore_missing_datadog_fields'',
      eo_http_endpoint = opt_string D src ''otlp_config_receiver_protocols_http_endpoint'',
      eo_grpc_endpoint = opt_string D src ''otlp_config_receiver_protocols_grpc_endpoint'',
      eo_grpc_transport = opt_string D src ''otlp_config_receiver_protocols_grpc_transport'',
      eo_grpc_max_recv_msg_size_mib = opt_int D src ''otlp_config_receiver_protocols_grpc_max_recv_msg_size_mib'',
      eo_metrics_enabled = opt_bool D src ''otlp_config_metrics_enabled'',
      eo_resource_attributes_as_tags = opt_bool D src ''otlp_config_metrics_resource_attributes_as_tags'',
      eo_scope_metadata_as_tags = opt_bool D src ''otlp_config_metrics_instrumentation_scope_metadata_as_tags'',
      eo_tag_cardinality = opt_string D src ''otlp_config_metrics_tag_cardinality'',
      eo_delta_ttl = opt_int D src ''otlp_config_metrics_delta_ttl'',
      eo_histograms_mode = opt_string D src ''otlp_config_metrics_histograms_mode'',
      eo_send_count_sum = opt_bool D src ''otlp_config_metrics_histograms_send_count_sum_metrics'',
      eo_send_aggregation = opt_bool D src ''otlp_config_metrics_histograms_send_aggregation_metrics'',
      eo_sums_cumulative_monotonic_mode = opt_string D src ''otlp_config_metrics_sums_cumulative_monotonic_mode'',
      eo_sums_initial_value = opt_string D src ''otlp_config_metrics_sums_initial_cumulativ_monotonic_value'',
      eo_summaries_mode = opt_string D src ''otlp_config_metrics_summaries_mode'',
      eo_sampling_percentage = opt_int D src ''otlp_config_traces_probabilistic_sampler_sampling_percentage'',
      eo_logs_enabled = opt_bool D src ''otlp_config_logs_enabled''\<rparr>"

definition extract_env ::
  "('v, 'st, 'r) value_deps \<Rightarrow> (jv \<Rightarrow> string) \<Rightarrow> (string \<Rightarrow> 'v option) \<Rightarrow> ('st, 'r) env_config option" where
  "extract_env D show_number src =
     (case strict_field (deserialize_array_from_comma_separated_string D) [] src ''proxy_no_proxy'' of None \<Rightarrow> None | Some no_proxy \<Rightarrow>
      case strict_field (deserialize_key_value_pairs D) [] src ''tags'' of None \<Rightarrow> None | Some tags \<Rightarrow>
      case strict_field (deserialize_comma_then_space_separated_string D) [] src ''apm_features'' of None \<Rightarrow> None | Some features \<Rightarrow>
      case strict_field (deserialize_apm_filter_tags D) None src ''apm_filter_tags_require'' of None \<Rightarrow> None | Some require \<Rightarrow>
      case strict_field (deserialize_apm_filter_tags D) None src ''apm_filter_tags_reject'' of None \<Rightarrow> None | Some reject \<Rightarrow>
      case strict_field (deserialize_apm_filter_tags D) None src ''apm_filter_tags_regex_require'' of None \<Rightarrow> None | Some regex_require \<Rightarrow>
      case strict_field (deserialize_apm_filter_tags D) None src ''apm_filter_tags_regex_reject'' of None \<Rightarrow> None | Some regex_reject \<Rightarrow>
      case strict_field (deserialize_key_value_pairs D) [] src ''otlp_config_traces_span_name_remappings'' of None \<Rightarrow> None | Some remappings \<Rightarrow>
      Some \<lparr>en_core = extract_core D show_number src no_proxy tags, en_logs = extract_logs D src,
        en_apm = extract_apm D src features require reject regex_require regex_reject,
        en_metrics = extract_metrics D src, en_otlp = extract_otlp D src remappings\<rparr>)"

text \<open>\<open>merge_config\<close> of \<^verbatim>\<open>env.rs\<close>, group by group.\<close>

definition merge_core_env :: "env_core \<Rightarrow> core_config \<Rightarrow> core_config" where
  "merge_core_env e c =
     \<lparr>cc_site = merge_value (ec_site e) (cc_site c), cc_api_key = merge_value (ec_api_key e) (cc_api_key c),
      cc_dd_org_uuid = merge_value (ec_org_uuid e) (cc_dd_org_uuid c),
      cc_log_level = merge_value (ec_log_level e) (cc_log_level c),
      cc_flush_timeout = merge_value (ec_flush_timeout e) (cc_flush_timeout c),
      cc_compression_level = merge_value (ec_compression_level e) (cc_compression_level c),
      cc_proxy_https = merge_option (ec_proxy_https e) (cc_proxy_https c),
      cc_proxy_no_proxy = merge_list (ec_proxy_no_proxy e) (cc_proxy_no_proxy c),
      cc_http_protocol = merge_option (ec_http_protocol e) (cc_http_protocol c),
      cc_tls_cert_file = merge_option (ec_tls_cert_file e) (cc_tls_cert_file c),
      cc_skip_ssl_validation = merge_value (ec_skip_ssl_validation e) (cc_skip_ssl_validation c),
      cc_dd_url = merge_value (ec_dd_url e) (cc_dd_url c), cc_url = merge_value (ec_url e) (cc_url c),
      cc_additional_endpoints = merge_list (ec_additional_endpoints e) (cc_additional_endpoints c),
      cc_additional_endpoints_secret_arn = merge_value (ec_additional_endpoints_secret_arn e) (cc_additional_endpoints_secret_arn c),
      cc_env = merge_option (ec_env e) (cc_env c), cc_service = merge_option (ec_service e) (cc_service c),
      cc_version = merge_option (ec_version e) (cc_version c), cc_tags = merge_list (ec_tags e) (cc_tags c)\<rparr>"

text \<open>\<open>level\<close> is the global compression level of the source, which is merged before the component's own.\<close>

definition merge_logs_env :: "int option \<Rightarrow> env_logs \<Rightarrow> logs_section \<Rightarrow> logs_section" where
  "merge_logs_env level e c =
     \<lparr>ls_enabled = merge_value (el_enabled e) (ls_enabled c), ls_dd_url = merge_value (el_dd_url e) (ls_dd_url c),
      ls_processing_rules = merge_option (el_processing_rules e) (ls_processing_rules c),
      ls_use_compression = merge_value (el_use_compression e) (ls_use_compression c),
      ls_compression_level = merge_value (el_compression_level e) (merge_value level (ls_compression_level c)),
      ls_additional_endpoints = merge_list (el_additional_endpoints e) (ls_additional_endpoints c),
      ls_additional_endpoints_secret_arn = merge_value (el_additional_endpoints_secret_arn e) (ls_additional_endpoints_secret_arn c),
      ls_opw_logs_enabled = merge_value (el_opw_logs_enabled e) (ls_opw_logs_enabled c),
      ls_opw_logs_url = merge_value (el_opw_logs_url e) (ls_opw_logs_url c)\<rparr>"

definition merge_apm_env :: "int option \<Rightarrow> ('st, 'r) env_apm \<Rightarrow> ('st, 'r) apm_section \<Rightarrow> ('st, 'r) apm_section" where
  "merge_apm_env level e c =
     \<lparr>ap_service_mapping = merge_list (ea_service_mapping e) (ap_service_mapping c),
      ap_dd_url = merge_value (ea_dd_url e) (ap_dd_url c), ap_replace_tags = merge_option (ea_replace_tags e) (ap_replace_tags c),
      ap_remove_query_string = merge_value (ea_remove_query_string e) (ap_remove_query_string c),
      ap_remove_paths_with_digits = merge_value (ea_remove_paths_with_digits e) (ap_remove_paths_with_digits c),
      ap_compression_level = merge_value (ea_compression_level e) (merge_value level (ap_compression_level c)),
      ap_features = merge_list (ea_features e) (ap_features c),
      ap_additional_endpoints = merge_list (ea_additional_endpoints e) (ap_additional_endpoints c),
      ap_additional_endpoints_secret_arn = merge_value (ea_additional_endpoints_secret_arn e) (ap_additional_endpoints_secret_arn c),
      ap_filter_tags_require = merge_option (ea_filter_tags_require e) (ap_filter_tags_require c),
      ap_filter_tags_reject = merge_option (ea_filter_tags_reject e) (ap_filter_tags_reject c),
      ap_filter_tags_regex_require = merge_option (ea_filter_tags_regex_require e) (ap_filter_tags_regex_require c),
      ap_filter_tags_regex_reject = merge_option (ea_filter_tags_regex_reject e) (ap_filter_tags_regex_reject c),
      ap_aws_service_representation = merge_value (ea_aws_service_representation e) (ap_aws_service_representation c),
      ap_propagation_style = merge_list (ea_propagation_style e) (ap_propagation_style c),
      ap_propagation_style_extract = merge_list (ea_propagation_style_extract e) (ap_propagation_style_extract c),
      ap_propagation_extract_first = merge_value (ea_propagation_extract_first e) (ap_propagation_extract_first c),
      ap_propagation_http_baggage = merge_value (ea_propagation_http_baggage e) (ap_propagation_http_baggage c)\<rparr>"

text \<open>A namespace that is set but not valid clears the one set before.\<close>

definition merge_metrics_env :: "int option \<Rightarrow> env_metrics \<Rightarrow> metrics_section \<Rightarrow> metrics_section" where
  "merge_metrics_env level e c =
     \<lparr>ms_compression_level = merge_value (em_compression_level e) (merge_value level (ms_compression_level c)),
      ms_namespace = (case em_namespace e of Some n \<Rightarrow> parse_metric_namespace n | None \<Rightarrow> ms_namespace c),
      ms_so_rcvbuf = merge_option (em_so_rcvbuf e) (ms_so_rcvbuf c),
      ms_buffer_size = merge_option (em_buffer_size e) (ms_buffer_size c),
      ms_queue_size = merge_option (em_queue_size e) (ms_queue_size c)\<rparr>"

definition merge_otlp_env :: "env_otlp \<Rightarrow> otlp_section \<Rightarrow> otlp_section" where
  "merge_otlp_env e c =
     \<lparr>ot_traces_enabled = merge_value (eo_traces_enabled e) (ot_traces_enabled c),
      ot_span_name_as_resource_name = merge_value (eo_span_name_as_resource_name e) (ot_span_name_as_resource_name c),
      ot_span_name_remappings = merge_list (eo_span_name_remappings e) (ot_span_name_remappings c),
      ot_ignore_missing_fields = merge_value (eo_ignore_missing_fields e) (ot_ignore_missing_fields c),
      ot_http_endpoint = merge_option (eo_http_endpoint e) (ot_http_endpoint c),
      ot_grpc_endpoint = merge_option (eo_grpc_endpoint e) (ot_grpc_endpoint c),
      ot_grpc_transport = merge_option (eo_grpc_transport e) (ot_grpc_transport c),
      ot_grpc_max_recv_msg_size_mib = merge_option (eo_grpc_max_recv_msg_size_mib e) (ot_grpc_max_recv_msg_size_mib c),
      ot_metrics_enabled = merge_value (eo_metrics_enabled e) (ot_metrics_enabled c),
      ot_resource_attributes_as_tags = merge_value (eo_resource_attributes_as_tags e) (ot_resource_attributes_as_tags c),
      ot_scope_metadata_as_tags = merge_value (eo_scope_metadata_as_tags e) (ot_scope_metadata_as_tags c),
      ot_tag_cardinality = merge_option (eo_tag_cardinality e) (ot_tag_cardinality c),
      ot_delta_ttl = merge_option (eo_delta_ttl e) (ot_delta_ttl c),
      ot_histograms_mode = merge_option (eo_histograms_mode e) (ot_histograms_mode c),
      ot_send_count_sum = merge_value (eo_send_count_sum e) (ot_send_count_sum c),
      ot_send_aggregation = merge_value (eo_send_aggregation e) (ot_send_aggregation c),
      ot_sums_cumulative_monotonic_mode = merge_option (eo_sums_cumulative_monotonic_mode e) (ot_sums_cumulative_monotonic_mode c),
      ot_sums_initial_value = merge_option (eo_sums_initial_value e) (ot_sums_initial_value c),
      ot_summaries_mode = merge_option (eo_summaries_mode e) (ot_summaries_mode c),
      ot_sampling_percentage = merge_option (eo_sampling_percentage e) (ot_sampling_percentage c),
      ot_logs_enabled = merge_value (eo_logs_enabled e) (ot_logs_enabled c)\<rparr>"

definition merge_config_env :: "('st, 'r) env_config \<Rightarrow> ('st, 'r, 'x) agent_config \<Rightarrow> ('st, 'r, 'x) agent_config" where
  "merge_config_env e c =
     c\<lparr>cf_core := merge_core_env (en_core e) (cf_core c),
       cf_logs := merge_logs_env (ec_compression_level (en_core e)) (en_logs e) (cf_logs c),
       cf_apm := merge_apm_env (ec_compression_level (en_core e)) (en_apm e) (cf_apm c),
       cf_metrics := merge_metrics_env (ec_compression_level (en_core e)) (en_metrics e) (cf_metrics c),
       cf_otlp := merge_otlp_env (en_otlp e) (cf_otlp c)\<rparr>"

text \<open>\<open>EnvConfigSource::load\<close>: \<open>ext\<close> merges what the source has for the extension, \<open>None\<close> when that does not parse.\<close>

definition load_env ::
  "('v, 'st, 'r) value_deps \<Rightarrow> (jv \<Rightarrow> string) \<Rightarrow> ('x \<Rightarrow> 'x) option \<Rightarrow> (string \<Rightarrow> 'v option) \<Rightarrow>
   ('st, 'r, 'x) agent_config \<Rightarrow> ('st, 'r, 'x) agent_config option" where
  "load_env D show_number ext src c =
     (case extract_env D show_number src of
        None \<Rightarrow> None
      | Some e \<Rightarrow>
          let c = merge_config_env e c
          in Some (case ext of Some merge \<Rightarrow> c\<lparr>cf_ext := merge (cf_ext c)\<rparr> | None \<Rightarrow> c))"

section \<open>Facts\<close>

lemma merge_nothing:
  "extract_env D show_number (\<lambda>_. None) = Some e \<Longrightarrow> merge_config_env e c = c"
  by (auto simp: extract_env_def strict_field_def merge_config_env_def merge_core_env_def merge_logs_env_def merge_apm_env_def
      merge_metrics_env_def merge_otlp_env_def extract_core_def extract_logs_def extract_apm_def extract_metrics_def extract_otlp_def
      opt_string_def opt_bool_def opt_int_def opt_nat_def opt_level_def field_def)

lemma extract_env_fails:
  "strict_field (deserialize_array_from_comma_separated_string D) [] src ''proxy_no_proxy'' = None \<or>
   strict_field (deserialize_comma_then_space_separated_string D) [] src ''apm_features'' = None \<or>
   strict_field (deserialize_key_value_pairs D) [] src ''tags'' = None \<or>
   strict_field (deserialize_key_value_pairs D) [] src ''otlp_config_traces_span_name_remappings'' = None \<or>
   strict_field (deserialize_apm_filter_tags D) None src ''apm_filter_tags_require'' = None \<or>
   strict_field (deserialize_apm_filter_tags D) None src ''apm_filter_tags_reject'' = None \<or>
   strict_field (deserialize_apm_filter_tags D) None src ''apm_filter_tags_regex_require'' = None \<or>
   strict_field (deserialize_apm_filter_tags D) None src ''apm_filter_tags_regex_reject'' = None \<Longrightarrow>
   extract_env D show_number src = None"
  unfolding extract_env_def by (elim disjE) (simp_all split: option.split)

definition scalar_shown :: "('v, 'st, 'r) value_deps \<Rightarrow> 'v \<Rightarrow> bool" where
  "scalar_shown D v \<longleftrightarrow> (case vd_any D v of VisitStr _ \<Rightarrow> True | VisitScalar \<Rightarrow> True | _ \<Rightarrow> False)"

lemma strict_deserializers:
  "vd_string D v = None \<Longrightarrow> deserialize_array_from_comma_separated_string D v = None"
  "vd_string D v = None \<Longrightarrow> deserialize_comma_then_space_separated_string D v = None"
  "\<not> scalar_shown D v \<Longrightarrow> deserialize_key_value_pairs D v = None"
  "vd_opt_string D v = None \<Longrightarrow> deserialize_apm_filter_tags D v = None"
  by (auto simp: deserialize_array_from_comma_separated_string_def scalar_shown_def
      deserialize_comma_then_space_separated_string_def deserialize_key_value_pairs_def deserialize_apm_filter_tags_def
      split: visited.splits)

end
