(* ===== verification/Agent_Yaml.thy ===== *)
theory Agent_Yaml
  imports Agent_Settings
begin

text \<open>
  The crate \<^verbatim>\<open>datadog-agent-config\<close>: the YAML file as a source of settings, \<^verbatim>\<open>sources/yaml.rs\<close>.
\<close>

section \<open>The YAML file\<close>

record yaml_proxy =
  yp_https :: "string option"
  yp_no_proxy :: "string list option"

record yaml_logs =
  yl_logs_dd_url :: "string option"
  yl_processing_rules :: "processing_rule list option"
  yl_use_compression :: "bool option"
  yl_compression_level :: "int option"
  yl_additional_endpoints :: "additional_endpoint list"

record yaml_http_obfuscation =
  yh_remove_query_string :: "bool option"
  yh_remove_paths_with_digits :: "bool option"

record 'r yaml_apm =
  ya_apm_dd_url :: "string option"
  ya_replace_tags :: "'r list option"
  ya_obfuscation :: "yaml_http_obfuscation option"
  ya_compression_level :: "int option"
  ya_features :: "string list"
  ya_additional_endpoints :: emap

record yaml_grpc =
  yg_endpoint :: "string option"
  yg_transport :: "string option"
  yg_max_recv_msg_size_mib :: "int option"

record yaml_protocols =
  yt_http :: "string option option"
  yt_grpc :: "yaml_grpc option"

record yaml_traces =
  yr_enabled :: "bool option"
  yr_span_name_as_resource_name :: "bool option"
  yr_span_name_remappings :: smap
  yr_ignore_missing_fields :: "bool option"
  yr_probabilistic_sampler :: "int option option"

record yaml_histograms =
  yi_mode :: "string option"
  yi_send_count_sum :: "bool option"
  yi_send_aggregation :: "bool option"

record yaml_sums =
  yu_cumulative_monotonic_mode :: "string option"
  yu_initial_value :: "string option"

record yaml_metrics =
  ym_enabled :: "bool option"
  ym_resource_attributes_as_tags :: "bool option"
  ym_scope_metadata_as_tags :: "bool option"
  ym_tag_cardinality :: "string option"
  ym_delta_ttl :: "int option"
  ym_histograms :: "yaml_histograms option"
  ym_sums :: "yaml_sums option"
  ym_summaries :: "string option option"

record yaml_otlp =
  yo_receiver :: "yaml_protocols option option"
  yo_traces :: "yaml_traces option"
  yo_metrics :: "yaml_metrics option"
  yo_logs :: "bool option option"

record ('st, 'r) yaml_config =
  yc_site :: "string option"
  yc_api_key :: "string option"
  yc_org_uuid :: "string option"
  yc_log_level :: "log_level option"
  yc_flush_timeout :: "nat option"
  yc_compression_level :: "int option"
  yc_proxy :: yaml_proxy
  yc_dd_url :: "string option"
  yc_http_protocol :: "string option"
  yc_tls_cert_file :: "string option"
  yc_skip_ssl_validation :: "bool option"
  yc_additional_endpoints :: emap
  yc_env :: "string option"
  yc_service :: "string option"
  yc_version :: "string option"
  yc_tags :: smap
  yc_logs_enabled :: "bool option"
  yc_logs_config :: yaml_logs
  yc_apm_config :: "'r yaml_apm"
  yc_service_mapping :: smap
  yc_aws_service_representation :: "bool option"
  yc_propagation_style :: "'st list"
  yc_propagation_style_extract :: "'st list"
  yc_propagation_extract_first :: "bool option"
  yc_propagation_http_baggage :: "bool option"
  yc_metrics_compression_level :: "int option"
  yc_so_rcvbuf :: "nat option"
  yc_buffer_size :: "nat option"
  yc_queue_size :: "nat option"
  yc_otlp_config :: "yaml_otlp option"

text \<open>The methods of \<open>ApmConfig\<close> and \<open>OtlpConfig\<close>.\<close>

definition obfuscation_http_remove_query_string :: "'r yaml_apm \<Rightarrow> bool option" where
  "obfuscation_http_remove_query_string a = Option.bind (ya_obfuscation a) yh_remove_query_string"

definition obfuscation_http_remove_paths_with_digits :: "'r yaml_apm \<Rightarrow> bool option" where
  "obfuscation_http_remove_paths_with_digits a = Option.bind (ya_obfuscation a) yh_remove_paths_with_digits"

definition receiver_protocols_http_endpoint :: "yaml_otlp \<Rightarrow> string option" where
  "receiver_protocols_http_endpoint ot =
     Option.bind (yo_receiver ot) (\<lambda>receiver. Option.bind receiver (\<lambda>protocols. Option.bind (yt_http protocols) (\<lambda>e. e)))"

definition receiver_protocols_grpc :: "yaml_otlp \<Rightarrow> yaml_grpc option" where
  "receiver_protocols_grpc ot = Option.bind (yo_receiver ot) (\<lambda>receiver. Option.bind receiver yt_grpc)"

definition traces_enabled :: "yaml_otlp \<Rightarrow> bool option" where
  "traces_enabled ot = Option.bind (yo_traces ot) yr_enabled"

definition traces_ignore_missing_datadog_fields :: "yaml_otlp \<Rightarrow> bool option" where
  "traces_ignore_missing_datadog_fields ot = Option.bind (yo_traces ot) yr_ignore_missing_fields"

definition traces_span_name_as_resource_name :: "yaml_otlp \<Rightarrow> bool option" where
  "traces_span_name_as_resource_name ot = Option.bind (yo_traces ot) yr_span_name_as_resource_name"

definition traces_span_name_remappings :: "yaml_otlp \<Rightarrow> smap" where
  "traces_span_name_remappings ot = (case yo_traces ot of Some t \<Rightarrow> yr_span_name_remappings t | None \<Rightarrow> [])"

definition traces_probabilistic_sampler :: "yaml_otlp \<Rightarrow> int option option" where
  "traces_probabilistic_sampler ot = Option.bind (yo_traces ot) yr_probabilistic_sampler"

definition merge_core_yaml :: "('st, 'r) yaml_config \<Rightarrow> core_config \<Rightarrow> core_config" where
  "merge_core_yaml y c =
     c\<lparr>cc_site := merge_value (yc_site y) (cc_site c), cc_api_key := merge_value (yc_api_key y) (cc_api_key c),
       cc_dd_org_uuid := merge_value (yc_org_uuid y) (cc_dd_org_uuid c),
       cc_log_level := merge_value (yc_log_level y) (cc_log_level c),
       cc_flush_timeout := merge_value (yc_flush_timeout y) (cc_flush_timeout c),
       cc_env := merge_option (yc_env y) (cc_env c), cc_service := merge_option (yc_service y) (cc_service c),
       cc_version := merge_option (yc_version y) (cc_version c), cc_tags := merge_list (yc_tags y) (cc_tags c),
       cc_compression_level := merge_value (yc_compression_level y) (cc_compression_level c),
       cc_proxy_https := merge_option (yp_https (yc_proxy y)) (cc_proxy_https c),
       cc_proxy_no_proxy := merge_value (yp_no_proxy (yc_proxy y)) (cc_proxy_no_proxy c),
       cc_http_protocol := merge_option (yc_http_protocol y) (cc_http_protocol c),
       cc_tls_cert_file := merge_option (yc_tls_cert_file y) (cc_tls_cert_file c),
       cc_skip_ssl_validation := merge_value (yc_skip_ssl_validation y) (cc_skip_ssl_validation c),
       cc_additional_endpoints := merge_list (yc_additional_endpoints y) (cc_additional_endpoints c),
       cc_dd_url := merge_value (yc_dd_url y) (cc_dd_url c)\<rparr>"

definition merge_logs_yaml :: "('st, 'r) yaml_config \<Rightarrow> logs_section \<Rightarrow> logs_section" where
  "merge_logs_yaml y c =
     (let l = yc_logs_config y in
      c\<lparr>ls_enabled := merge_value (yc_logs_enabled y) (ls_enabled c), ls_dd_url := merge_value (yl_logs_dd_url l) (ls_dd_url c),
        ls_processing_rules := merge_option (yl_processing_rules l) (ls_processing_rules c),
        ls_use_compression := merge_value (yl_use_compression l) (ls_use_compression c),
        ls_compression_level := merge_value (yl_compression_level l) (merge_value (yc_compression_level y) (ls_compression_level c)),
        ls_additional_endpoints := merge_list (yl_additional_endpoints l) (ls_additional_endpoints c)\<rparr>)"

definition merge_metrics_yaml :: "('st, 'r) yaml_config \<Rightarrow> metrics_section \<Rightarrow> metrics_section" where
  "merge_metrics_yaml y c =
     c\<lparr>ms_compression_level := merge_value (yc_metrics_compression_level y) (merge_value (yc_compression_level y) (ms_compression_level c)),
       ms_so_rcvbuf := merge_option (yc_so_rcvbuf y) (ms_so_rcvbuf c),
       ms_buffer_size := merge_option (yc_buffer_size y) (ms_buffer_size c),
       ms_queue_size := merge_option (yc_queue_size y) (ms_queue_size c)\<rparr>"

definition merge_apm_yaml :: "('st, 'r) yaml_config \<Rightarrow> ('st, 'r) apm_section \<Rightarrow> ('st, 'r) apm_section" where
  "merge_apm_yaml y c =
     (let a = yc_apm_config y in
      c\<lparr>ap_service_mapping := merge_list (yc_service_mapping y) (ap_service_mapping c),
        ap_dd_url := merge_value (ya_apm_dd_url a) (ap_dd_url c),
        ap_replace_tags := merge_option (ya_replace_tags a) (ap_replace_tags c),
        ap_compression_level := merge_value (ya_compression_level a) (merge_value (yc_compression_level y) (ap_compression_level c)),
        ap_additional_endpoints := merge_list (ya_additional_endpoints a) (ap_additional_endpoints c),
        ap_remove_query_string := merge_value (obfuscation_http_remove_query_string a) (ap_remove_query_string c),
        ap_remove_paths_with_digits := merge_value (obfuscation_http_remove_paths_with_digits a) (ap_remove_paths_with_digits c),
        ap_features := merge_list (ya_features a) (ap_features c),
        ap_propagation_style := merge_list (yc_propagation_style y) (ap_propagation_style c),
        ap_propagation_style_extract := merge_list (yc_propagation_style_extract y) (ap_propagation_style_extract c),
        ap_propagation_extract_first := merge_value (yc_propagation_extract_first y) (ap_propagation_extract_first c),
        ap_propagation_http_baggage := merge_value (yc_propagation_http_baggage y) (ap_propagation_http_baggage c),
        ap_aws_service_representation := merge_value (yc_aws_service_representation y) (ap_aws_service_representation c)\<rparr>)"

definition merge_grpc :: "yaml_grpc option \<Rightarrow> otlp_section \<Rightarrow> otlp_section" where
  "merge_grpc grpc c =
     (case grpc of None \<Rightarrow> c
      | Some g \<Rightarrow>
          c\<lparr>ot_grpc_endpoint := merge_option (yg_endpoint g) (ot_grpc_endpoint c),
            ot_grpc_transport := merge_option (yg_transport g) (ot_grpc_transport c),
            ot_grpc_max_recv_msg_size_mib := merge_option (yg_max_recv_msg_size_mib g) (ot_grpc_max_recv_msg_size_mib c)\<rparr>)"

definition merge_histograms :: "yaml_histograms option \<Rightarrow> otlp_section \<Rightarrow> otlp_section" where
  "merge_histograms hs c =
     (case hs of None \<Rightarrow> c
      | Some h \<Rightarrow>
          c\<lparr>ot_send_count_sum := merge_value (yi_send_count_sum h) (ot_send_count_sum c),
            ot_send_aggregation := merge_value (yi_send_aggregation h) (ot_send_aggregation c),
            ot_histograms_mode := merge_option (yi_mode h) (ot_histograms_mode c)\<rparr>)"

definition merge_sums :: "yaml_sums option \<Rightarrow> otlp_section \<Rightarrow> otlp_section" where
  "merge_sums ss c =
     (case ss of None \<Rightarrow> c
      | Some u \<Rightarrow>
          c\<lparr>ot_sums_cumulative_monotonic_mode := merge_option (yu_cumulative_monotonic_mode u) (ot_sums_cumulative_monotonic_mode c),
            ot_sums_initial_value := merge_option (yu_initial_value u) (ot_sums_initial_value c)\<rparr>)"

definition merge_otlp_metrics :: "yaml_metrics option \<Rightarrow> otlp_section \<Rightarrow> otlp_section" where
  "merge_otlp_metrics ms c =
     (case ms of None \<Rightarrow> c
      | Some m \<Rightarrow>
          let c = c\<lparr>ot_metrics_enabled := merge_value (ym_enabled m) (ot_metrics_enabled c),
                ot_resource_attributes_as_tags := merge_value (ym_resource_attributes_as_tags m) (ot_resource_attributes_as_tags c),
                ot_scope_metadata_as_tags := merge_value (ym_scope_metadata_as_tags m) (ot_scope_metadata_as_tags c),
                ot_tag_cardinality := merge_option (ym_tag_cardinality m) (ot_tag_cardinality c),
                ot_delta_ttl := merge_option (ym_delta_ttl m) (ot_delta_ttl c)\<rparr>;
              c = merge_sums (ym_sums m) (merge_histograms (ym_histograms m) c)
          in (case ym_summaries m of
                None \<Rightarrow> c
              | Some mode \<Rightarrow> c\<lparr>ot_summaries_mode := merge_option mode (ot_summaries_mode c)\<rparr>))"

definition merge_otlp_yaml :: "yaml_otlp option \<Rightarrow> otlp_section \<Rightarrow> otlp_section" where
  "merge_otlp_yaml yo c =
     (case yo of None \<Rightarrow> c
      | Some ot \<Rightarrow>
          let c = c\<lparr>ot_traces_enabled := merge_value (traces_enabled ot) (ot_traces_enabled c),
                ot_span_name_as_resource_name := merge_value (traces_span_name_as_resource_name ot) (ot_span_name_as_resource_name c),
                ot_span_name_remappings := merge_list (traces_span_name_remappings ot) (ot_span_name_remappings c),
                ot_ignore_missing_fields := merge_value (traces_ignore_missing_datadog_fields ot) (ot_ignore_missing_fields c)\<rparr>;
              c = (case traces_probabilistic_sampler ot of
                     Some percentage \<Rightarrow> c\<lparr>ot_sampling_percentage := merge_option percentage (ot_sampling_percentage c)\<rparr>
                   | None \<Rightarrow> c);
              c = c\<lparr>ot_http_endpoint := merge_option (receiver_protocols_http_endpoint ot) (ot_http_endpoint c)\<rparr>;
              c = merge_otlp_metrics (yo_metrics ot) (merge_grpc (receiver_protocols_grpc ot) c)
          in (case yo_logs ot of
                None \<Rightarrow> c
              | Some enabled \<Rightarrow> c\<lparr>ot_logs_enabled := merge_value enabled (ot_logs_enabled c)\<rparr>))"

definition merge_config_yaml :: "('st, 'r) yaml_config \<Rightarrow> ('st, 'r, 'x) agent_config \<Rightarrow> ('st, 'r, 'x) agent_config" where
  "merge_config_yaml y c =
     c\<lparr>cf_core := merge_core_yaml y (cf_core c), cf_logs := merge_logs_yaml y (cf_logs c),
       cf_metrics := merge_metrics_yaml y (cf_metrics c), cf_apm := merge_apm_yaml y (cf_apm c),
       cf_otlp := merge_otlp_yaml (yc_otlp_config y) (cf_otlp c)\<rparr>"

section \<open>Reading the file\<close>

text \<open>
  A field that is not set has its default. \<open>nested\<close> and \<open>nested_opt\<close>: \<open>deserialize_with_default\<close> at a struct with
  the fields \<open>names\<close> and at an optional one, which are their defaults when the value is not such a
  struct; \<open>build\<close> makes the struct of its fields, \<open>None\<close> when a field it needs is missing.
\<close>

definition nested ::
  "('v, 'st, 'r) value_deps \<Rightarrow> string list \<Rightarrow> ((string \<Rightarrow> 'v option) \<Rightarrow> 'a) \<Rightarrow> (string \<Rightarrow> 'v option) \<Rightarrow> string \<Rightarrow> 'a" where
  "nested D names build src key =
     field (deserialize_with_default (build Map.empty) (\<lambda>v. map_option build (vd_fields D names v))) (build Map.empty) src key"

definition nested_opt ::
  "('v, 'st, 'r) value_deps \<Rightarrow> string list \<Rightarrow> ((string \<Rightarrow> 'v option) \<Rightarrow> 'a option) \<Rightarrow> (string \<Rightarrow> 'v option) \<Rightarrow> string \<Rightarrow> 'a option" where
  "nested_opt D names build src key =
     field (deserialize_with_default None (\<lambda>v. case vd_present D v of
         None \<Rightarrow> Some None
       | Some w \<Rightarrow> (case Option.bind (vd_fields D names w) build of None \<Rightarrow> None | Some a \<Rightarrow> Some (Some a)))) None src key"

text \<open>Optional texts under \<open>deserialize_with_default\<close>.\<close>

definition text_or_default :: "('v, 'st, 'r) value_deps \<Rightarrow> (string \<Rightarrow> 'v option) \<Rightarrow> string \<Rightarrow> string option" where
  "text_or_default D src key = field (deserialize_with_default None (vd_opt_string D)) None src key"

definition read_proxy :: "('v, 'st, 'r) value_deps \<Rightarrow> (string \<Rightarrow> 'v option) \<Rightarrow> yaml_proxy" where
  "read_proxy D src =
     \<lparr>yp_https = text_or_default D src ''https'',
      yp_no_proxy = field (deserialize_with_default None (vd_opt_strings D)) None src ''no_proxy''\<rparr>"

definition read_logs :: "('v, 'st, 'r) value_deps \<Rightarrow> (string \<Rightarrow> 'v option) \<Rightarrow> yaml_logs" where
  "read_logs D src =
     \<lparr>yl_logs_dd_url = text_or_default D src ''logs_dd_url'',
      yl_processing_rules = field (deserialize_processing_rules D) None src ''processing_rules'',
      yl_use_compression = opt_bool D src ''use_compression'', yl_compression_level = opt_int D src ''compression_level'',
      yl_additional_endpoints = field (deserialize_with_default [] (vd_endpoints D)) [] src ''additional_endpoints''\<rparr>"

definition read_http_obfuscation :: "('v, 'st, 'r) value_deps \<Rightarrow> (string \<Rightarrow> 'v option) \<Rightarrow> yaml_http_obfuscation" where
  "read_http_obfuscation D src =
     \<lparr>yh_remove_query_string = opt_bool D src ''remove_query_string'',
      yh_remove_paths_with_digits = opt_bool D src ''remove_paths_with_digits''\<rparr>"

definition read_obfuscation :: "('v, 'st, 'r) value_deps \<Rightarrow> (string \<Rightarrow> 'v option) \<Rightarrow> yaml_http_obfuscation" where
  "read_obfuscation D src =
     nested D [''remove_query_string'', ''remove_paths_with_digits''] (read_http_obfuscation D) src ''http''"

definition read_apm :: "('v, 'st, 'r) value_deps \<Rightarrow> (string \<Rightarrow> 'v option) \<Rightarrow> 'r yaml_apm" where
  "read_apm D src =
     \<lparr>ya_apm_dd_url = text_or_default D src ''apm_dd_url'',
      ya_replace_tags = field (deserialize_apm_replace_rules D) None src ''replace_tags'',
      ya_obfuscation = nested_opt D [''http''] (\<lambda>f. Some (read_obfuscation D f)) src ''obfuscation'',
      ya_compression_level = opt_int D src ''compression_level'',
      ya_features = field (deserialize_comma_then_space_separated_string_or_list D) [] src ''features'',
      ya_additional_endpoints = field (deserialize_additional_endpoints D) [] src ''additional_endpoints''\<rparr>"

definition read_grpc :: "('v, 'st, 'r) value_deps \<Rightarrow> (string \<Rightarrow> 'v option) \<Rightarrow> yaml_grpc" where
  "read_grpc D src =
     \<lparr>yg_endpoint = text_or_default D src ''endpoint'', yg_transport = text_or_default D src ''transport'',
      yg_max_recv_msg_size_mib = opt_int D src ''max_recv_msg_size_mib''\<rparr>"

definition read_protocols :: "('v, 'st, 'r) value_deps \<Rightarrow> (string \<Rightarrow> 'v option) \<Rightarrow> yaml_protocols" where
  "read_protocols D src =
     \<lparr>yt_http = nested_opt D [''endpoint''] (\<lambda>f. Some (text_or_default D f ''endpoint'')) src ''http'',
      yt_grpc = nested_opt D [''endpoint'', ''transport'', ''max_recv_msg_size_mib''] (\<lambda>f. Some (read_grpc D f)) src ''grpc''\<rparr>"

definition read_receiver :: "('v, 'st, 'r) value_deps \<Rightarrow> (string \<Rightarrow> 'v option) \<Rightarrow> yaml_protocols option" where
  "read_receiver D src = nested_opt D [''http'', ''grpc''] (\<lambda>f. Some (read_protocols D f)) src ''protocols''"

text \<open>The sampler has no default for its field: without a percentage there is no sampler.\<close>

definition read_sampler :: "('v, 'st, 'r) value_deps \<Rightarrow> (string \<Rightarrow> 'v option) \<Rightarrow> int option option" where
  "read_sampler D src =
     (case src ''sampling_percentage'' of
        None \<Rightarrow> None
      | Some v \<Rightarrow> Some (deserialize_option_lossless (vd_opt_i32 D) v))"

definition read_traces :: "('v, 'st, 'r) value_deps \<Rightarrow> (string \<Rightarrow> 'v option) \<Rightarrow> yaml_traces" where
  "read_traces D src =
     \<lparr>yr_enabled = opt_bool D src ''enabled'', yr_span_name_as_resource_name = opt_bool D src ''span_name_as_resource_name'',
      yr_span_name_remappings = field (deserialize_with_default [] (vd_string_map D)) [] src ''span_name_remappings'',
      yr_ignore_missing_fields = opt_bool D src ''ignore_missing_datadog_fields'',
      yr_probabilistic_sampler = nested_opt D [''sampling_percentage''] (read_sampler D) src ''probabilistic_sampler''\<rparr>"

definition read_histograms :: "('v, 'st, 'r) value_deps \<Rightarrow> (string \<Rightarrow> 'v option) \<Rightarrow> yaml_histograms" where
  "read_histograms D src =
     \<lparr>yi_mode = text_or_default D src ''mode'', yi_send_count_sum = opt_bool D src ''send_count_sum_metrics'',
      yi_send_aggregation = opt_bool D src ''send_aggregation_metrics''\<rparr>"

definition read_sums :: "('v, 'st, 'r) value_deps \<Rightarrow> (string \<Rightarrow> 'v option) \<Rightarrow> yaml_sums" where
  "read_sums D src =
     \<lparr>yu_cumulative_monotonic_mode = text_or_default D src ''cumulative_monotonic_mode'',
      yu_initial_value = text_or_default D src ''initial_cumulative_monotonic_value''\<rparr>"

definition read_metrics :: "('v, 'st, 'r) value_deps \<Rightarrow> (string \<Rightarrow> 'v option) \<Rightarrow> yaml_metrics" where
  "read_metrics D src =
     \<lparr>ym_enabled = opt_bool D src ''enabled'',
      ym_resource_attributes_as_tags = opt_bool D src ''resource_attributes_as_tags'',
      ym_scope_metadata_as_tags = opt_bool D src ''instrumentation_scope_metadata_as_tags'',
      ym_tag_cardinality = text_or_default D src ''tag_cardinality'', ym_delta_ttl = opt_int D src ''delta_ttl'',
      ym_histograms = nested_opt D [''mode'', ''send_count_sum_metrics'', ''send_aggregation_metrics'']
        (\<lambda>f. Some (read_histograms D f)) src ''histograms'',
      ym_sums = nested_opt D [''cumulative_monotonic_mode'', ''initial_cumulative_monotonic_value'']
        (\<lambda>f. Some (read_sums D f)) src ''sums'',
      ym_summaries = nested_opt D [''mode''] (\<lambda>f. Some (text_or_default D f ''mode'')) src ''summaries''\<rparr>"

definition read_otlp :: "('v, 'st, 'r) value_deps \<Rightarrow> (string \<Rightarrow> 'v option) \<Rightarrow> yaml_otlp" where
  "read_otlp D src =
     \<lparr>yo_receiver = nested_opt D [''protocols''] (\<lambda>f. Some (read_receiver D f)) src ''receiver'',
      yo_traces = nested_opt D [''enabled'', ''span_name_as_resource_name'', ''span_name_remappings'',
        ''ignore_missing_datadog_fields'', ''probabilistic_sampler''] (\<lambda>f. Some (read_traces D f)) src ''traces'',
      yo_metrics = nested_opt D [''enabled'', ''resource_attributes_as_tags'', ''instrumentation_scope_metadata_as_tags'',
        ''tag_cardinality'', ''delta_ttl'', ''histograms'', ''sums'', ''summaries''] (\<lambda>f. Some (read_metrics D f)) src ''metrics'',
      yo_logs = nested_opt D [''enabled''] (\<lambda>f. Some (opt_bool D f ''enabled'')) src ''logs''\<rparr>"

text \<open>\<open>figment.extract::<YamlConfig>()\<close> of a mapping: no field can make it fail.\<close>

definition extract_yaml ::
  "('v, 'st, 'r) value_deps \<Rightarrow> (jv \<Rightarrow> string) \<Rightarrow> (string \<Rightarrow> 'v option) \<Rightarrow> ('st, 'r) yaml_config" where
  "extract_yaml D show_number src =
     \<lparr>yc_site = opt_string D src ''site'', yc_api_key = opt_string D src ''api_key'', yc_org_uuid = opt_string D src ''org_uuid'',
      yc_log_level = field (deserialize_with_default None (\<lambda>v. Some (map_option (log_level_deserialize D) (vd_present D v)))) None src ''log_level'',
      yc_flush_timeout = opt_nat D src ''flush_timeout'', yc_compression_level = opt_int D src ''compression_level'',
      yc_proxy = nested D [''https'', ''no_proxy''] (read_proxy D) src ''proxy'',
      yc_dd_url = opt_string D src ''dd_url'', yc_http_protocol = opt_string D src ''http_protocol'',
      yc_tls_cert_file = opt_string D src ''tls_cert_file'', yc_skip_ssl_validation = opt_bool D src ''skip_ssl_validation'',
      yc_additional_endpoints = field (deserialize_additional_endpoints D) [] src ''additional_endpoints'',
      yc_env = field (deserialize_string_or_int D show_number) None src ''env'',
      yc_service = field (deserialize_string_or_int D show_number) None src ''service'',
      yc_version = field (deserialize_string_or_int D show_number) None src ''version'',
      yc_tags = field (deserialize_key_value_pair_array_to_hashmap D) [] src ''tags'',
      yc_logs_enabled = opt_bool D src ''logs_enabled'',
      yc_logs_config = nested D [''logs_dd_url'', ''processing_rules'', ''use_compression'', ''compression_level'',
        ''additional_endpoints''] (read_logs D) src ''logs_config'',
      yc_apm_config = nested D [''apm_dd_url'', ''replace_tags'', ''obfuscation'', ''compression_level'', ''features'',
        ''additional_endpoints''] (read_apm D) src ''apm_config'',
      yc_service_mapping = field (deserialize_service_mapping D) [] src ''service_mapping'',
      yc_aws_service_representation = opt_bool D src ''trace_aws_service_representation_enabled'',
      yc_propagation_style = field (deserialize_trace_propagation_style D) [] src ''trace_propagation_style'',
      yc_propagation_style_extract = field (deserialize_trace_propagation_style D) [] src ''trace_propagation_style_extract'',
      yc_propagation_extract_first = opt_bool D src ''trace_propagation_extract_first'',
      yc_propagation_http_baggage = opt_bool D src ''trace_propagation_http_baggage_enabled'',
      yc_metrics_compression_level = nested D [''compression_level''] (\<lambda>f. opt_int D f ''compression_level'') src ''metrics_config'',
      yc_so_rcvbuf = opt_nat D src ''dogstatsd_so_rcvbuf'', yc_buffer_size = opt_nat D src ''dogstatsd_buffer_size'',
      yc_queue_size = opt_nat D src ''dogstatsd_queue_size'',
      yc_otlp_config = nested_opt D [''receiver'', ''traces'', ''metrics'', ''logs''] (\<lambda>f. Some (read_otlp D f)) src ''otlp_config''\<rparr>"

text \<open>
  \<open>YamlConfigSource::load\<close>: \<open>file\<close> is the mapping of the file, empty when there is no file and \<open>None\<close> when
  it does not parse; \<open>ext\<close> merges what the file has for the extension, \<open>None\<close> when that does not parse.
\<close>

definition load_yaml ::
  "('v, 'st, 'r) value_deps \<Rightarrow> (jv \<Rightarrow> string) \<Rightarrow> ('x \<Rightarrow> 'x) option \<Rightarrow> (string \<Rightarrow> 'v option) option \<Rightarrow>
   ('st, 'r, 'x) agent_config \<Rightarrow> ('st, 'r, 'x) agent_config option" where
  "load_yaml D show_number ext file c =
     (case file of
        None \<Rightarrow> None
      | Some src \<Rightarrow>
          let c = merge_config_yaml (extract_yaml D show_number src) c
          in Some (case ext of Some merge \<Rightarrow> c\<lparr>cf_ext := merge (cf_ext c)\<rparr> | None \<Rightarrow> c))"

end
