(* ===== verification/Agent_Config.thy ===== *)
theory Agent_Config
  imports Agent_Env Agent_Yaml
begin

text \<open>
  The crate \<^verbatim>\<open>datadog-agent-config\<close>: the configuration of \<^verbatim>\<open>lib.rs\<close>, built from its defaults, the
  YAML file and the environment, in this order.
\<close>

section \<open>Building\<close>

fun str_contains :: "string \<Rightarrow> string \<Rightarrow> bool" where
  "str_contains [] p = (p = [])"
| "str_contains (c # s) p = (starts_with p (c # s) \<or> str_contains s p)"

definition trim_url :: "string \<Rightarrow> string" where
  "trim_url url = rev (dropWhile (\<lambda>c. c = CHR ''/'') (rev (trim url)))"

definition build_fqdn_logs :: "string \<Rightarrow> string" where
  "build_fqdn_logs site = ''https://http-intake.logs.'' @ site"

definition logs_intake_url :: "string \<Rightarrow> string" where
  "logs_intake_url url =
     (let url = trim url in
      if url = [] then url
      else if starts_with ''https://'' url \<or> starts_with ''http://'' url then url
      else ''https://'' @ url)"

type_synonym ('st, 'r, 'x) config_source = "('st, 'r, 'x) agent_config \<Rightarrow> ('st, 'r, 'x) agent_config option"

text \<open>A source that fails leaves the configuration as it was.\<close>

definition load_source :: "('st, 'r, 'x) config_source \<Rightarrow> ('st, 'r, 'x) agent_config \<Rightarrow> ('st, 'r, 'x) agent_config" where
  "load_source s c = (case s c of Some c' \<Rightarrow> c' | None \<Rightarrow> c)"

definition resolve_site :: "core_config \<Rightarrow> core_config" where
  "resolve_site c = (if cc_site c = [] then c\<lparr>cc_site := ''datadoghq.com''\<rparr> else c)"

definition resolve_proxy :: "env_vars \<Rightarrow> core_config \<Rightarrow> core_config" where
  "resolve_proxy env c =
     (let c = (case env ''HTTPS_PROXY'' of
                 Some https_proxy \<Rightarrow> if cc_proxy_https c = None then c\<lparr>cc_proxy_https := Some https_proxy\<rparr> else c
               | None \<Rightarrow> c)
      in if cc_proxy_https c \<noteq> None
         then
           let site_in_no_proxy =
                 (case env ''NO_PROXY'' of Some no_proxy \<Rightarrow> str_contains no_proxy (cc_site c) | None \<Rightarrow> False) \<or>
                 list_ex (\<lambda>no_proxy. str_contains no_proxy (cc_site c)) (cc_proxy_no_proxy c)
           in if site_in_no_proxy then c\<lparr>cc_proxy_https := None\<rparr> else c
         else c)"

definition resolve_extract :: "('st, 'r) apm_section \<Rightarrow> ('st, 'r) apm_section" where
  "resolve_extract a =
     (if ap_propagation_style_extract a = [] then a\<lparr>ap_propagation_style_extract := ap_propagation_style a\<rparr> else a)"

definition resolve_logs_url :: "string \<Rightarrow> logs_section \<Rightarrow> logs_section" where
  "resolve_logs_url site l =
     (if trim (ls_dd_url l) = [] then l\<lparr>ls_dd_url := build_fqdn_logs site\<rparr>
      else l\<lparr>ls_dd_url := logs_intake_url (trim_url (ls_dd_url l))\<rparr>)"

text \<open>\<open>trace_url\<close>, \<open>trace_url_prefixed\<close>: \<open>trace_intake_url\<close> and \<open>trace_intake_url_prefixed\<close> of \<^verbatim>\<open>libdatadog\<close>.\<close>

definition resolve_apm_url ::
  "(string \<Rightarrow> string) \<Rightarrow> (string \<Rightarrow> string) \<Rightarrow> string \<Rightarrow> ('st, 'r) apm_section \<Rightarrow> ('st, 'r) apm_section" where
  "resolve_apm_url trace_url trace_url_prefixed site a =
     (if trim (ap_dd_url a) = [] then a\<lparr>ap_dd_url := trace_url site\<rparr>
      else a\<lparr>ap_dd_url := trace_url_prefixed (trim_url (ap_dd_url a))\<rparr>)"

definition build ::
  "(string \<Rightarrow> string) \<Rightarrow> (string \<Rightarrow> string) \<Rightarrow> env_vars \<Rightarrow> ('st, 'r, 'x) config_source list \<Rightarrow>
   ('st, 'r, 'x) agent_config \<Rightarrow> ('st, 'r, 'x) agent_config" where
  "build trace_url trace_url_prefixed env sources config =
     (let c = fold load_source sources config;
          core = resolve_proxy env (resolve_site (cf_core c));
          apm = resolve_extract (cf_apm c);
          core = core\<lparr>cc_dd_url := trim_url (cc_dd_url core), cc_url := trim_url (cc_url core)\<rparr>
      in c\<lparr>cf_core := core, cf_logs := resolve_logs_url (cc_site core) (cf_logs c),
           cf_apm := resolve_apm_url trace_url trace_url_prefixed (cc_site core) apm\<rparr>)"

text \<open>\<open>get_config_with_extension\<close>: the file, then the environment.\<close>

definition get_config ::
  "('v, 'st, 'r) value_deps \<Rightarrow> (jv \<Rightarrow> string) \<Rightarrow> (string \<Rightarrow> string) \<Rightarrow> (string \<Rightarrow> string) \<Rightarrow> 'st list \<Rightarrow> 'x \<Rightarrow>
   env_vars \<Rightarrow> ('x \<Rightarrow> 'x) option \<Rightarrow> (string \<Rightarrow> 'v option) option \<Rightarrow> ('x \<Rightarrow> 'x) option \<Rightarrow> (string \<Rightarrow> 'v option) \<Rightarrow>
   ('st, 'r, 'x) agent_config" where
  "get_config D show_number trace_url trace_url_prefixed dflt_styles ext env yaml_ext file env_ext src =
     build trace_url trace_url_prefixed env [load_yaml D show_number yaml_ext file, load_env D show_number env_ext src]
       (config_default dflt_styles ext)"

section \<open>What every configuration satisfies\<close>

text \<open>\<open>u\<close> is \<open>s\<close> without the slashes at its end.\<close>

definition slashes_cut :: "string \<Rightarrow> string \<Rightarrow> bool" where
  "slashes_cut s u \<longleftrightarrow> (\<exists>n. s = u @ replicate n (CHR ''/'')) \<and> (u = [] \<or> last u \<noteq> CHR ''/'')"

lemma trim_url_cut: "slashes_cut (trim s) (trim_url s)"
proof -
  let ?slash = "\<lambda>c. c = CHR ''/''" and ?r = "rev (trim s)"
  have slashes: "rev (takeWhile ?slash ?r) = replicate (length (takeWhile ?slash ?r)) (CHR ''/'')"
    by (rule replicate_eqI) (auto dest: set_takeWhileD)
  have "trim s = rev (takeWhile ?slash ?r @ dropWhile ?slash ?r)" by simp
  then have "trim s = trim_url s @ rev (takeWhile ?slash ?r)" unfolding rev_append by (simp add: trim_url_def)
  then have "\<exists>n. trim s = trim_url s @ replicate n (CHR ''/'')" unfolding slashes by blast
  moreover have "trim_url s = [] \<or> last (trim_url s) \<noteq> CHR ''/''"
  proof (cases "dropWhile ?slash ?r")
    case (Cons x xs)
    then have "x \<noteq> CHR ''/''" using hd_dropWhile [of ?slash ?r] by simp
    then show ?thesis using Cons by (simp add: trim_url_def)
  qed (simp add: trim_url_def)
  ultimately show ?thesis unfolding slashes_cut_def by blast
qed

lemma starts_with_app: "starts_with p (p @ s)"
  by (induction p) (simp_all add: starts_with_def)

lemma logs_intake_url_scheme:
  "if trim u = [] then logs_intake_url u = []
   else (logs_intake_url u = trim u \<or> logs_intake_url u = ''https://'' @ trim u) \<and>
     (starts_with ''https://'' (logs_intake_url u) \<or> starts_with ''http://'' (logs_intake_url u))"
  using starts_with_app [of "''https://''" "trim u"] by (auto simp: logs_intake_url_def Let_def)

text \<open>The entries that bypass the proxy for a site.\<close>

definition bypasses :: "env_vars \<Rightarrow> core_config \<Rightarrow> string \<Rightarrow> bool" where
  "bypasses env c site \<longleftrightarrow>
     (\<exists>v. (env ''NO_PROXY'' = Some v \<or> v \<in> set (cc_proxy_no_proxy c)) \<and> str_contains v site)"

lemma resolve_proxy_fields:
  "cc_site (resolve_proxy env c) = cc_site c" "cc_proxy_no_proxy (resolve_proxy env c) = cc_proxy_no_proxy c"
  "cc_dd_url (resolve_proxy env c) = cc_dd_url c" "cc_url (resolve_proxy env c) = cc_url c"
  by (auto simp: resolve_proxy_def Let_def split: option.splits)

lemma resolve_proxy_https:
  "cc_proxy_https (resolve_proxy env c) =
     (if bypasses env c (cc_site c) then None
      else if cc_proxy_https c = None then env ''HTTPS_PROXY'' else cc_proxy_https c)"
  by (auto simp: resolve_proxy_def bypasses_def Let_def list_ex_iff split: option.splits)

text \<open>The part of a source that the propagation styles rest on.\<close>

definition keeps_styles :: "('st, 'r, 'x) config_source \<Rightarrow> bool" where
  "keeps_styles s \<longleftrightarrow> (\<forall>c c'. s c = Some c' \<longrightarrow> ap_propagation_style (cf_apm c) \<noteq> [] \<longrightarrow> ap_propagation_style (cf_apm c') \<noteq> [])"

lemma load_keeps_styles: "keeps_styles (load_yaml D show_number yext file)" "keeps_styles (load_env D show_number eext src)"
  by (auto simp: keeps_styles_def load_yaml_def load_env_def Let_def merge_config_yaml_def merge_config_env_def
      merge_apm_yaml_def merge_apm_env_def merge_list_ne split: option.splits)

lemma fold_keeps_styles:
  "list_all keeps_styles ss \<Longrightarrow> ap_propagation_style (cf_apm c) \<noteq> [] \<Longrightarrow>
   ap_propagation_style (cf_apm (fold load_source ss c)) \<noteq> []"
proof (induction ss arbitrary: c)
  case (Cons s ss)
  have "ap_propagation_style (cf_apm (load_source s c)) \<noteq> []"
    using Cons.prems by (auto simp: load_source_def keeps_styles_def split: option.splits)
  then show ?case using Cons by simp
qed simp

text \<open>
  C22. What the loaded configuration \<open>m\<close> is completed to, whatever the file and the environment hold and
  whether or not they can be read. The site is the loaded one, or the default when that is empty, and
  never empty. The metric intake URLs lose the whitespace around them and the slashes at their end. A blank
  log URL is replaced by that of the site, as the site is spelled; any other loses the slashes at its end and
  gets a scheme unless it has one (one of only slashes is then empty). A blank APM URL is replaced by that of the
  site and any other is completed after the slashes at its end are cut, both by \<^verbatim>\<open>libdatadog\<close>. The proxy is the
  loaded one, or else that of the environment, and there is none exactly when neither has one or an entry
  of either bypass list contains the site. Trace context is extracted in the styles loaded for that, or else in
  the propagation styles, and in at least one.
\<close>

theorem built_agent_config:
  assumes "dflt_styles \<noteq> []"
    and "m = fold load_source [load_yaml D show_number yext yaml, load_env D show_number eext src] (config_default dflt_styles ext)"
    and "c = get_config D show_number trace_url trace_url_prefixed dflt_styles ext env yext yaml eext src"
  shows "cc_site (cf_core c) = (if cc_site (cf_core m) = [] then ''datadoghq.com'' else cc_site (cf_core m)) \<and>
    slashes_cut (trim (cc_dd_url (cf_core m))) (cc_dd_url (cf_core c)) \<and>
    slashes_cut (trim (cc_url (cf_core m))) (cc_url (cf_core c)) \<and>
    (if trim (ls_dd_url (cf_logs m)) = [] then ls_dd_url (cf_logs c) = ''https://http-intake.logs.'' @ cc_site (cf_core c)
     else \<exists>u. slashes_cut (trim (ls_dd_url (cf_logs m))) u \<and>
       (if trim u = [] then ls_dd_url (cf_logs c) = []
        else (ls_dd_url (cf_logs c) = trim u \<or> ls_dd_url (cf_logs c) = ''https://'' @ trim u) \<and>
          (starts_with ''https://'' (ls_dd_url (cf_logs c)) \<or> starts_with ''http://'' (ls_dd_url (cf_logs c))))) \<and>
    (if trim (ap_dd_url (cf_apm m)) = [] then ap_dd_url (cf_apm c) = trace_url (cc_site (cf_core c))
     else \<exists>u. slashes_cut (trim (ap_dd_url (cf_apm m))) u \<and> ap_dd_url (cf_apm c) = trace_url_prefixed u) \<and>
    cc_proxy_https (cf_core c) =
      (if bypasses env (cf_core m) (cc_site (cf_core c)) then None
       else if cc_proxy_https (cf_core m) = None then env ''HTTPS_PROXY'' else cc_proxy_https (cf_core m)) \<and>
    ap_propagation_style_extract (cf_apm c) =
      (if ap_propagation_style_extract (cf_apm m) = [] then ap_propagation_style (cf_apm m)
       else ap_propagation_style_extract (cf_apm m)) \<and>
    ap_propagation_style_extract (cf_apm c) \<noteq> []"
proof -
  define core where "core = resolve_proxy env (resolve_site (cf_core m))"
  have c: "cf_core c = core\<lparr>cc_dd_url := trim_url (cc_dd_url core), cc_url := trim_url (cc_url core)\<rparr>"
    "cf_logs c = resolve_logs_url (cc_site core) (cf_logs m)"
    "cf_apm c = resolve_apm_url trace_url trace_url_prefixed (cc_site core) (resolve_extract (cf_apm m))"
    using assms(2,3) by (simp_all add: get_config_def build_def Let_def core_def)
  have site: "cc_site core = (if cc_site (cf_core m) = [] then ''datadoghq.com'' else cc_site (cf_core m))"
    "cc_dd_url core = cc_dd_url (cf_core m)" "cc_url core = cc_url (cf_core m)"
    by (simp_all add: core_def resolve_proxy_fields resolve_site_def)
  have proxy: "cc_proxy_https core = (if bypasses env (cf_core m) (cc_site core) then None
       else if cc_proxy_https (cf_core m) = None then env ''HTTPS_PROXY'' else cc_proxy_https (cf_core m))"
  proof -
    have "bypasses env (resolve_site (cf_core m)) = bypasses env (cf_core m)" by (simp add: fun_eq_iff bypasses_def resolve_site_def)
    moreover have "cc_proxy_https (resolve_site (cf_core m)) = cc_proxy_https (cf_core m)" by (simp add: resolve_site_def)
    ultimately show ?thesis unfolding core_def resolve_proxy_https resolve_proxy_fields by simp
  qed
  have "ap_propagation_style (cf_apm m) \<noteq> []"
    unfolding assms(2) using assms(1)
    by (intro fold_keeps_styles) (simp_all add: load_keeps_styles config_default_def apm_default_def)
  then have styles: "ap_propagation_style_extract (cf_apm c) =
      (if ap_propagation_style_extract (cf_apm m) = [] then ap_propagation_style (cf_apm m)
       else ap_propagation_style_extract (cf_apm m))" "ap_propagation_style_extract (cf_apm c) \<noteq> []"
    by (simp_all add: c(3) resolve_apm_url_def resolve_extract_def)
  have logs: "if trim (ls_dd_url (cf_logs m)) = [] then ls_dd_url (cf_logs c) = ''https://http-intake.logs.'' @ cc_site core
     else \<exists>u. slashes_cut (trim (ls_dd_url (cf_logs m))) u \<and>
       (if trim u = [] then ls_dd_url (cf_logs c) = []
        else (ls_dd_url (cf_logs c) = trim u \<or> ls_dd_url (cf_logs c) = ''https://'' @ trim u) \<and>
          (starts_with ''https://'' (ls_dd_url (cf_logs c)) \<or> starts_with ''http://'' (ls_dd_url (cf_logs c))))"
  proof (cases "trim (ls_dd_url (cf_logs m)) = []")
    case False
    then have "ls_dd_url (cf_logs c) = logs_intake_url (trim_url (ls_dd_url (cf_logs m)))"
      by (simp add: c(2) resolve_logs_url_def)
    note url = logs_intake_url_scheme [of "trim_url (ls_dd_url (cf_logs m))", folded this]
    show ?thesis unfolding if_not_P [OF False] using trim_url_cut [of "ls_dd_url (cf_logs m)"] url by blast
  qed (simp add: c(2) resolve_logs_url_def build_fqdn_logs_def)
  have apm: "if trim (ap_dd_url (cf_apm m)) = [] then ap_dd_url (cf_apm c) = trace_url (cc_site core)
     else \<exists>u. slashes_cut (trim (ap_dd_url (cf_apm m))) u \<and> ap_dd_url (cf_apm c) = trace_url_prefixed u"
    using trim_url_cut [of "ap_dd_url (cf_apm m)"] by (auto simp: c(3) resolve_apm_url_def resolve_extract_def)
  have same: "cc_site (cf_core c) = cc_site core" "cc_proxy_https (cf_core c) = cc_proxy_https core"
    "cc_dd_url (cf_core c) = trim_url (cc_dd_url (cf_core m))" "cc_url (cf_core c) = trim_url (cc_url (cf_core m))"
    by (simp_all add: c(1) site)
  show ?thesis
    unfolding same by (intro conjI) (rule site(1) proxy styles logs apm trim_url_cut)+
qed

section \<open>Precedence\<close>

text \<open>
  C23. The compression level of a component is the one the environment sets for it, else the global one
  of the environment, else the one the file sets for it, else the global one of the file, else 3.
  So the global variable overrides a level that the file sets for the component.
\<close>

theorem compression_precedence:
  assumes "extract_env D show_number src = Some e" "extract_yaml D show_number file = y"
    and "c = get_config D show_number trace_url trace_url_prefixed dflt_styles ext env yext (Some file) eext src"
  shows "ls_compression_level (cf_logs c) =
      merge_value (el_compression_level (en_logs e)) (merge_value (ec_compression_level (en_core e))
        (merge_value (yl_compression_level (yc_logs_config y)) (merge_value (yc_compression_level y) 3))) \<and>
    ap_compression_level (cf_apm c) =
      merge_value (ea_compression_level (en_apm e)) (merge_value (ec_compression_level (en_core e))
        (merge_value (ya_compression_level (yc_apm_config y)) (merge_value (yc_compression_level y) 3))) \<and>
    ms_compression_level (cf_metrics c) =
      merge_value (em_compression_level (en_metrics e)) (merge_value (ec_compression_level (en_core e))
        (merge_value (yc_metrics_compression_level y) (merge_value (yc_compression_level y) 3)))"
proof -
  define m where "m = merge_config_env e (merge_config_yaml y (config_default dflt_styles ext))"
  have "cf_logs c = resolve_logs_url (cc_site (cf_core c)) (cf_logs m)"
    "ap_compression_level (cf_apm c) = ap_compression_level (cf_apm m)" "cf_metrics c = cf_metrics m"
    unfolding assms(3) m_def using assms(1,2)
    by (cases yext; cases eext; simp add: get_config_def build_def Let_def load_source_def load_yaml_def load_env_def
        resolve_apm_url_def resolve_extract_def merge_config_env_def merge_config_yaml_def resolve_proxy_fields)+
  moreover have "ls_compression_level (resolve_logs_url s l) = ls_compression_level l" for s l
    by (simp add: resolve_logs_url_def)
  ultimately show ?thesis
    by (simp add: m_def merge_config_env_def merge_config_yaml_def merge_logs_env_def merge_logs_yaml_def Let_def
        merge_apm_env_def merge_apm_yaml_def merge_metrics_env_def merge_metrics_yaml_def config_default_def
        logs_default_def apm_default_def metrics_default_def)
qed

section \<open>One malformed variable\<close>

text \<open>
  C24. A single variable of the environment whose value has the wrong type for one of the strict fields
  makes the whole environment be ignored: the configuration is the one without any variable, the API
  key and the site of the environment included.
\<close>

theorem malformed_variable_discards_all:
  assumes "(key, de_fails) \<in> {(''proxy_no_proxy'', \<lambda>v. vd_string D v = None), (''apm_features'', \<lambda>v. vd_string D v = None),
      (''tags'', \<lambda>v. \<not> scalar_shown D v), (''otlp_config_traces_span_name_remappings'', \<lambda>v. \<not> scalar_shown D v),
      (''apm_filter_tags_require'', \<lambda>v. vd_opt_string D v = None), (''apm_filter_tags_reject'', \<lambda>v. vd_opt_string D v = None),
      (''apm_filter_tags_regex_require'', \<lambda>v. vd_opt_string D v = None), (''apm_filter_tags_regex_reject'', \<lambda>v. vd_opt_string D v = None)}"
    and "src key = Some v" "de_fails v"
  shows "get_config D show_number trace_url trace_url_prefixed dflt_styles ext env yext file eext src =
    get_config D show_number trace_url trace_url_prefixed dflt_styles ext env yext file None (\<lambda>_. None)"
proof -
  have "extract_env D show_number src = None"
    using assms(1) unfolding insert_iff empty_iff prod.inject
    by (elim disjE conjE)
      (use assms(2,3) in \<open>simp_all add: extract_env_fails strict_field_def strict_deserializers\<close>)
  moreover obtain e where "extract_env D show_number (\<lambda>_. None) = Some e"
    by (simp add: extract_env_def strict_field_def)
  ultimately have "load_source (load_env D show_number eext src) c = load_source (load_env D show_number None (\<lambda>_. None)) c" for c
    by (simp add: load_source_def load_env_def Let_def merge_nothing)
  then show ?thesis by (simp add: get_config_def build_def)
qed


section \<open>Witnesses\<close>

text \<open>A source that holds JSON values; numbers are not texts.\<close>

definition json_deps :: "(jv, nat, string) value_deps" where
  "json_deps = \<lparr>vd_value = (\<lambda>v. v), vd_opt_value = (\<lambda>v. if v = JNull then None else Some v),
     vd_string = (\<lambda>v. case v of JStr s \<Rightarrow> Some s | _ \<Rightarrow> None),
     vd_opt_string = (\<lambda>v. case v of JStr s \<Rightarrow> Some (Some s) | JNull \<Rightarrow> Some None | _ \<Rightarrow> None),
     vd_strings = (\<lambda>v. case v of JArr vs \<Rightarrow> all_texts vs | _ \<Rightarrow> None),
     vd_opt_strings = (\<lambda>v. case v of JArr vs \<Rightarrow> map_option Some (all_texts vs) | JNull \<Rightarrow> Some None | _ \<Rightarrow> None),
     vd_string_map = (\<lambda>v. None), vd_endpoints = (\<lambda>v. None),
     vd_present = (\<lambda>v. if v = JNull then None else Some v),
     vd_fields = (\<lambda>names v. case v of JObj fs \<Rightarrow> Some (map_of fs) | _ \<Rightarrow> None),
     vd_opt_u64 = (\<lambda>v. case v of JInt n \<Rightarrow> if n < 0 then None else Some (Some (nat n)) | _ \<Rightarrow> None),
     vd_opt_i32 = (\<lambda>v. case v of JInt n \<Rightarrow> Some (Some n) | _ \<Rightarrow> None),
     vd_any = (\<lambda>v. case v of JStr s \<Rightarrow> VisitStr s | JArr vs \<Rightarrow> VisitSeq vs | JObj _ \<Rightarrow> VisitOther | _ \<Rightarrow> VisitScalar),
     vd_bool = (\<lambda>v. case v of JBool b \<Rightarrow> Some b | _ \<Rightarrow> None), vd_json_map = (\<lambda>s. None), vd_json_endpoints = (\<lambda>s. None),
     vd_json_rules = (\<lambda>s. None), vd_json_rule = (\<lambda>v. None), vd_style = (\<lambda>s. Some (length s)),
     vd_json_ok = (\<lambda>s. False), vd_rule_yaml = (\<lambda>v. None),
     vd_rules_json = (\<lambda>rs. None), vd_replace_rules = (\<lambda>s. None)\<rparr>"

abbreviation demo_get_config ::
  "(string \<Rightarrow> jv option) \<Rightarrow> (string \<Rightarrow> jv option) option \<Rightarrow> (nat, string, unit) agent_config" where
  "demo_get_config src file \<equiv> get_config json_deps (\<lambda>v. ''1'') id id [1, 2] () Map.empty None file None src"

theorem built_agent_config_witness:
  "cc_site (cf_core (demo_get_config [''site'' \<mapsto> JStr ''datadoghq.eu''] None)) \<noteq> [] \<and>
   ap_propagation_style_extract (cf_apm (demo_get_config [''site'' \<mapsto> JStr ''datadoghq.eu''] None)) \<noteq> []"
proof -
  let ?m = "fold load_source [load_yaml json_deps (\<lambda>v. ''1'') None None, load_env json_deps (\<lambda>v. ''1'') None [''site'' \<mapsto> JStr ''datadoghq.eu'']]
    (config_default [1, 2 :: nat] ())"
  note b = built_agent_config [where dflt_styles = "[1, 2] :: nat list" and D = json_deps and show_number = "\<lambda>v. ''1''" and
      yext = None and yaml = None and eext = None and src = "[''site'' \<mapsto> JStr ''datadoghq.eu'']" and ext = "()" and
      trace_url = id and trace_url_prefixed = id and env = Map.empty, OF _ refl refl, OF list.distinct(2)]
  have "cc_site (cf_core (demo_get_config [''site'' \<mapsto> JStr ''datadoghq.eu''] None)) =
      (if cc_site (cf_core ?m) = [] then ''datadoghq.com'' else cc_site (cf_core ?m))"
    using b by (rule conjunct1)
  then have "cc_site (cf_core (demo_get_config [''site'' \<mapsto> JStr ''datadoghq.eu''] None)) \<noteq> []"
    by (metis list.distinct(1))
  then show ?thesis using b by blast
qed

theorem malformed_variable_discards_all_witness:
  "demo_get_config [''api_key'' \<mapsto> JStr ''secret'', ''apm_features'' \<mapsto> JInt 1] None = demo_get_config Map.empty None"
  by (rule malformed_variable_discards_all [where key = "''apm_features''" and v = "JInt 1" and
        de_fails = "\<lambda>v. vd_string json_deps v = None"]) (simp_all add: json_deps_def)

definition demo_yaml :: "string \<Rightarrow> jv option" where
  "demo_yaml = [''compression_level'' \<mapsto> JInt 5, ''logs_config'' \<mapsto> JObj [(''compression_level'', JInt 9)]]"

lemma demo_yaml_levels:
  "yc_compression_level (extract_yaml json_deps show_number demo_yaml) = Some 5"
  "yl_compression_level (yc_logs_config (extract_yaml json_deps show_number demo_yaml)) = Some 9"
  by (simp_all add: extract_yaml_def opt_int_def field_def nested_def read_logs_def deserialize_option_lossless_def
      deserialize_with_default_def demo_yaml_def json_deps_def)

theorem compression_precedence_witness:
  "ls_compression_level (cf_logs (demo_get_config [''compression_level'' \<mapsto> JInt 1] (Some demo_yaml))) = 1 \<and>
   ls_compression_level (cf_logs (demo_get_config Map.empty (Some demo_yaml))) = 9"
proof -
  have "\<exists>e. extract_env json_deps (\<lambda>v. ''1'') src = Some e \<and> ec_compression_level (en_core e) = opt_int json_deps src ''compression_level'' \<and>
      el_compression_level (en_logs e) = opt_int json_deps src ''logs_config_compression_level''"
    if "src = [''compression_level'' \<mapsto> JInt 1] \<or> src = Map.empty" for src
    using that by (elim disjE) (simp_all add: extract_env_def strict_field_def extract_core_def extract_logs_def)
  from this [of "[''compression_level'' \<mapsto> JInt 1]"] this [of Map.empty] obtain e1 e0 where
    "extract_env json_deps (\<lambda>v. ''1'') [''compression_level'' \<mapsto> JInt 1] = Some e1" "extract_env json_deps (\<lambda>v. ''1'') Map.empty = Some e0"
    "ec_compression_level (en_core e1) = Some 1" "el_compression_level (en_logs e1) = None"
    "ec_compression_level (en_core e0) = None" "el_compression_level (en_logs e0) = None"
    by (auto simp: opt_int_def field_def deserialize_option_lossless_def json_deps_def)
  then show ?thesis
    using compression_precedence [OF _ refl refl, of json_deps "\<lambda>v. ''1''" _ _ id id "[1, 2]" "()" Map.empty None demo_yaml None]
      demo_yaml_levels by simp
qed

end
