(* ===== verification/Metrics_Collector.thy ===== *)
theory Metrics_Collector
  imports Dsd_Service Decimal
begin

text \<open>
  The crate \<^verbatim>\<open>datadog-metrics-collector\<close>: the enhanced metrics of Azure Functions. \<^verbatim>\<open>azure_cpu.rs\<close> with
  the readers of \<^verbatim>\<open>azure_linux.rs\<close> and \<^verbatim>\<open>azure_windows.rs\<close>, the tags of \<^verbatim>\<open>azure_tags.rs\<close> and the
  instance metric of \<^verbatim>\<open>azure_instance.rs\<close>.

  An \<open>Instant\<close> is a number of nanoseconds, a reading is the value of the counter at that instant,
  and the metrics go to the channel of the aggregator service.
\<close>

section \<open>Reading the CPU time\<close>

text \<open>Linux: the contents of the cgroup file. Windows: user and kernel time in units of 100 nanoseconds.\<close>

definition read_cpuacct_usage :: "string option \<Rightarrow> u64 option" where
  "read_cpuacct_usage contents =
     map_option of_nat (Option.bind contents (\<lambda>s. parse_unsigned (2 ^ 64 - 1) (trim s)))"

definition checked_add :: "nat \<Rightarrow> nat \<Rightarrow> nat option" where
  "checked_add a b = (if a + b < 2 ^ 64 then Some (a + b) else None)"

definition checked_mul :: "nat \<Rightarrow> nat \<Rightarrow> nat option" where
  "checked_mul a b = (if a * b < 2 ^ 64 then Some (a * b) else None)"

definition u64_try_from :: "int \<Rightarrow> nat option" where
  "u64_try_from i = (if 0 \<le> i then Some (nat i) else None)"

definition cpu_time_to_nanoseconds :: "int \<Rightarrow> int \<Rightarrow> nat option" where
  "cpu_time_to_nanoseconds user_time kernel_time =
     Option.bind (u64_try_from user_time) (\<lambda>total_user.
     Option.bind (u64_try_from kernel_time) (\<lambda>total_kernel.
     Option.bind (checked_add total_user total_kernel) (\<lambda>total. checked_mul total 100)))"

text \<open>\<open>info\<close>: the accounting of the job object, when the query succeeds.\<close>

definition read_job_object :: "(int \<times> int) option \<Rightarrow> u64 option" where
  "read_job_object info =
     (case info of
        Some (user_time, kernel_time) \<Rightarrow> map_option of_nat (cpu_time_to_nanoseconds user_time kernel_time)
      | None \<Rightarrow> None)"

section \<open>The CPU usage metric\<close>

definition CPU_USAGE_METRIC :: string where "CPU_USAGE_METRIC = ''azure.functions.enhanced.cpu.usage''"

record cpu_collector =
  cpu_tags :: "sorted_tags option"
  last_usage_ns :: "u64 option"
  last_collection_time :: nat

definition cpu_collector_new :: "sorted_tags option \<Rightarrow> nat \<Rightarrow> cpu_collector" where
  "cpu_collector_new tags now = \<lparr>cpu_tags = tags, last_usage_ns = None, last_collection_time = now\<rparr>"

text \<open>\<open>Duration::as_secs_f64\<close>.\<close>

definition as_secs_f64 :: "nat \<Rightarrow> fl" where
  "as_secs_f64 d =
     fadd round64 (f64_of_nat (d div 1000000000)) (fdiv round64 (f64_of_nat (d mod 1000000000)) (f64_of_nat 1000000000))"

definition compute_usage_rate_nc :: "u64 \<Rightarrow> u64 \<Rightarrow> fl \<Rightarrow> fl option" where
  "compute_usage_rate_nc current_ns last_ns elapsed_secs =
     (if current_ns < last_ns then None
      else if fle elapsed_secs (Fin False 0) then None
      else Some (fdiv round64 (f64_of_nat (unat (current_ns - last_ns))) elapsed_secs))"

text \<open>
  What one collection reads: the counter, the instant, the seconds since the epoch (zero when the
  clock is before it) and the second reading of the clock in \<open>Metric::new\<close>.
\<close>

record observation =
  ob_reading :: "u64 option"
  ob_instant :: nat
  ob_now :: nat
  ob_now2 :: int

definition unix_seconds :: "nat \<Rightarrow> int" where
  "unix_seconds s = (if s < 2 ^ 63 then int s else 0)"

text \<open>An error of the handle is logged: \<open>fst\<close> is the mailbox after the insertion.\<close>

definition collect_and_submit ::
  "'sk deps \<Rightarrow> observation \<Rightarrow> cpu_collector \<times> 'sk mailbox \<Rightarrow> cpu_collector \<times> 'sk mailbox" where
  "collect_and_submit D ob = (\<lambda>(c, mb).
     case ob_reading ob of
       None \<Rightarrow> (c, mb)
     | Some current_usage_ns \<Rightarrow>
         let now = unix_seconds (ob_now ob);
             c' = c\<lparr>last_usage_ns := Some current_usage_ns, last_collection_time := ob_instant ob\<rparr>
         in (case last_usage_ns c of
               None \<Rightarrow> (c', mb)
             | Some last_ns \<Rightarrow>
                 let elapsed_secs = as_secs_f64 (ob_instant ob - last_collection_time c)
                 in (case compute_usage_rate_nc current_usage_ns last_ns elapsed_secs of
                       None \<Rightarrow> (c', mb)
                     | Some usage_rate_nc \<Rightarrow>
                         let usage_metric = metric_new D now (ob_now2 ob) CPU_USAGE_METRIC
                               (mv_distribution D usage_rate_nc) (cpu_tags c) (Some now)
                         in (c', fst (handle_insert_batch [usage_metric] mb)))))"

section \<open>Tags\<close>

text \<open>
  \<^verbatim>\<open>libdd_common\<close>: the value that stands for an unknown one, the names of two variables, the metadata of
  the function, and \<open>Tag::new\<close>, which gives the text of a valid tag.
\<close>

record function_metadata =
  fm_resource_group :: string
  fm_subscription_id :: string
  fm_site_name :: string
  fm_instance_name :: string

record azure_deps =
  az_unknown :: string
  az_region_name :: string
  az_website_sku :: string
  az_metadata :: "function_metadata option"
  az_tag_new :: "string \<Rightarrow> string \<Rightarrow> string option"

definition build_tags :: "'sk deps \<Rightarrow> azure_deps \<Rightarrow> (string \<times> string) list \<Rightarrow> sorted_tags option" where
  "build_tags D A pairs =
     (let tags = List.map_filter (\<lambda>(key, value). if value = [] then None else az_tag_new A key value) pairs
      in if tags = [] then None
         else (case tags_parse D (join_with '','' tags) of Inr t \<Rightarrow> Some t | Inl _ \<Rightarrow> None))"

definition metadata_pairs :: "azure_deps \<Rightarrow> (string \<times> string) list" where
  "metadata_pairs A =
     (case az_metadata A of
        None \<Rightarrow> []
      | Some m \<Rightarrow>
          filter (\<lambda>(name, value). value \<noteq> az_unknown A)
            [(''resource_group'', fm_resource_group m), (''subscription_id'', fm_subscription_id m),
             (''name'', fm_site_name m)])"

definition variable_pairs :: "azure_deps \<Rightarrow> env_vars \<Rightarrow> (string \<times> string) list" where
  "variable_pairs A env =
     List.map_filter (\<lambda>(tag_name, env_var). map_option (\<lambda>val. (tag_name, val)) (env env_var))
       [(''region'', az_region_name A), (''plan_tier'', az_website_sku A), (''service'', ''DD_SERVICE''),
        (''env'', ''DD_ENV''), (''version'', ''DD_VERSION''),
        (''serverless_compat_version'', ''DD_SERVERLESS_COMPAT_VERSION'')]"

definition build_enhanced_metrics_tags :: "'sk deps \<Rightarrow> azure_deps \<Rightarrow> env_vars \<Rightarrow> sorted_tags option" where
  "build_enhanced_metrics_tags D A env = build_tags D A (metadata_pairs A @ variable_pairs A env)"

section \<open>The instance metric\<close>

definition INSTANCE_METRIC :: string where "INSTANCE_METRIC = ''azure.functions.enhanced.instance''"

record instance_collector =
  in_tags :: "sorted_tags option"

text \<open>\<open>lowercase\<close>: \<open>str::to_lowercase\<close>.\<close>

definition instance_collector_new ::
  "'sk deps \<Rightarrow> azure_deps \<Rightarrow> (string \<Rightarrow> string) \<Rightarrow> sorted_tags option \<Rightarrow> instance_collector option" where
  "instance_collector_new D A lowercase tags =
     (case az_metadata A of
        None \<Rightarrow> None
      | Some m \<Rightarrow>
          let instance_id = lowercase (fm_instance_name m)
          in if instance_id = az_unknown A then None
             else
               let parsed = tags_parse D (''instance:'' @ instance_id)
               in Some \<lparr>in_tags =
                    (case tags of
                       Some existing \<Rightarrow>
                         Some (case parsed of Inr id_tag \<Rightarrow> tags_extend D existing id_tag | Inl _ \<Rightarrow> existing)
                     | None \<Rightarrow> (case parsed of Inr t \<Rightarrow> Some t | Inl _ \<Rightarrow> None))\<rparr>)"

definition instance_collect_and_submit ::
  "'sk deps \<Rightarrow> int \<Rightarrow> int \<Rightarrow> instance_collector \<Rightarrow> 'sk mailbox \<Rightarrow> 'sk mailbox" where
  "instance_collect_and_submit D now now2 ic mb =
     fst (handle_insert_batch
       [metric_new D now now2 INSTANCE_METRIC (mv_gauge (Fin False 1)) (in_tags ic) None] mb)"

section \<open>Facts\<close>

text \<open>What a pair of consecutive readings submits.\<close>

definition interval_command :: "'sk deps \<Rightarrow> sorted_tags option \<Rightarrow> observation \<Rightarrow> observation \<Rightarrow> 'sk agg_command option" where
  "interval_command D tags a b =
     (case (ob_reading a, ob_reading b) of
        (Some last_ns, Some current_ns) \<Rightarrow>
          map_option (\<lambda>r. InsertBatch [metric_new D (unix_seconds (ob_now b)) (ob_now2 b) CPU_USAGE_METRIC
              (mv_distribution D r) tags (Some (unix_seconds (ob_now b)))])
            (compute_usage_rate_nc current_ns last_ns (as_secs_f64 (ob_instant b - ob_instant a)))
      | _ \<Rightarrow> None)"

lemma collect_steps:
  "ob_reading ob = None \<Longrightarrow> collect_and_submit D ob s = s"
  "ob_reading ob = Some u \<Longrightarrow> last_usage_ns c = None \<Longrightarrow>
   collect_and_submit D ob (c, mb) = (c\<lparr>last_usage_ns := Some u, last_collection_time := ob_instant ob\<rparr>, mb)"
  "ob_reading ob = Some u \<Longrightarrow> last_usage_ns c = ob_reading prev \<Longrightarrow> last_collection_time c = ob_instant prev \<Longrightarrow>
   ob_reading prev \<noteq> None \<Longrightarrow> mb_open mb \<Longrightarrow>
   collect_and_submit D ob (c, mb) =
     (c\<lparr>last_usage_ns := Some u, last_collection_time := ob_instant ob\<rparr>,
      mb\<lparr>mb_queue := mb_queue mb @ List.map_filter (\<lambda>(a, b). interval_command D (cpu_tags c) a b) [(prev, ob)]\<rparr>)"
  by (auto simp: collect_and_submit_def Let_def interval_command_def handle_insert_batch_def mb_send_def map_filter_simps
      split: option.splits)

lemma collect_from_reading:
  assumes "last_usage_ns c = ob_reading prev" "last_collection_time c = ob_instant prev" "ob_reading prev \<noteq> None" "mb_open mb"
  shows "mb_queue (snd (fold (collect_and_submit D) obs (c, mb))) =
    mb_queue mb @ (let rs = prev # filter (\<lambda>ob. ob_reading ob \<noteq> None) obs
                   in List.map_filter (\<lambda>(a, b). interval_command D (cpu_tags c) a b) (zip rs (tl rs)))"
  using assms
proof (induction obs arbitrary: prev c mb)
  case Nil
  then show ?case by (simp add: map_filter_simps)
next
  case (Cons ob obs)
  show ?case
  proof (cases "ob_reading ob")
    case None
    then show ?thesis using Cons.IH [OF Cons.prems] by (simp add: collect_steps)
  next
    case (Some u)
    let ?c = "c\<lparr>last_usage_ns := Some u, last_collection_time := ob_instant ob\<rparr>"
    let ?q = "mb_queue mb @ List.map_filter (\<lambda>(a, b). interval_command D (cpu_tags c) a b) [(prev, ob)]"
    have "collect_and_submit D ob (c, mb) = (?c, mb\<lparr>mb_queue := ?q\<rparr>)"
      using Some Cons.prems by (intro collect_steps(3))
    then show ?thesis
      using Some Cons.IH [of ?c ob "mb\<lparr>mb_queue := ?q\<rparr>"] Cons.prems(4)
      by (simp add: Let_def map_filter_def)
  qed
qed

text \<open>
  C29. A collector submits, for every two consecutive readings that succeed, the usage rate between
  them, when the counter has not gone back and the clock has advanced, and nothing else: a failed
  reading or a skipped interval neither repeats nor loses usage of the others.
\<close>

theorem cpu_submissions:
  assumes "mb_open mb" "rs = filter (\<lambda>ob. ob_reading ob \<noteq> None) obs"
  shows "mb_queue (snd (fold (collect_and_submit D) obs (cpu_collector_new tags t0, mb))) =
    mb_queue mb @ List.map_filter (\<lambda>(a, b). interval_command D tags a b) (zip rs (tl rs))"
  using assms
proof (induction obs arbitrary: rs)
  case Nil
  then show ?case by (simp add: map_filter_simps)
next
  case (Cons ob obs)
  show ?case
  proof (cases "ob_reading ob")
    case None
    then show ?thesis using Cons by (simp add: collect_steps)
  next
    case (Some u)
    then show ?thesis
      using Cons.prems collect_from_reading [of "\<lparr>cpu_tags = tags, last_usage_ns = Some u, last_collection_time = ob_instant ob\<rparr>" ob mb D obs]
      by (simp add: collect_steps cpu_collector_new_def Let_def)
  qed
qed

lemma representable_power: "- 1074 \<le> k \<Longrightarrow> representable 53 (- 1074) (2 powi k)"
  unfolding representable_def by (intro exI [of _ 1] exI [of _ k]) simp

lemma round64_upto:
  assumes "0 \<le> q" "q \<le> 2 powi k" "- 1074 \<le> k" "k < 1024"
  shows "\<exists>r. round64 s q = Fin s r \<and> 0 \<le> r \<and> r \<le> 2 powi k"
proof -
  have le: "round_mag 53 (- 1074) q \<le> 2 powi k" using assms by (intro f64.round_le representable_power) auto
  moreover have "2 powi k < (2::rat) powi 1024" using assms(4) by (simp only: powi_less_iff)
  ultimately have "\<not> (2::rat) powi 1024 \<le> round_mag 53 (- 1074) q" by linarith
  then have "round64 s q = Fin s (round_mag 53 (- 1074) q)"
    using f64.overflow_iff unfolding round_fl_def by (auto simp: Let_def)
  then show ?thesis using le f64.round_nonneg by auto
qed

lemma round64_atleast:
  assumes "2 powi k \<le> q" "- 1074 \<le> k"
  shows "round64 False q = Inf False \<or> (\<exists>r. round64 False q = Fin False r \<and> 2 powi k \<le> r)"
  using f64.round_ge [OF assms(1) representable_power [OF assms(2)]] by (auto simp: round_fl_def Let_def)

lemma as_secs_pos:
  assumes "0 < d"
  shows "as_secs_f64 d = Inf False \<or> (\<exists>e. as_secs_f64 d = Fin False e \<and> 2 powi (- 30) \<le> e)"
proof -
  have ns: "\<exists>e. fdiv round64 (f64_of_nat (d mod 1000000000)) (f64_of_nat 1000000000) = Fin False e \<and> 0 \<le> e \<and>
      (d mod 1000000000 \<noteq> 0 \<longrightarrow> 2 powi (- 30) \<le> e)"
  proof -
    have lt: "d mod 1000000000 < 1000000000" by simp
    have "f64_of_nat (d mod 1000000000) = Fin False (of_nat (d mod 1000000000))" "f64_of_nat 1000000000 = Fin False 1000000000"
      using f64.round_fl_nat [of "d mod 1000000000" False] f64.round_fl_nat [of 1000000000 False] lt
      by (simp_all add: f64_of_nat_def)
    moreover have "(of_nat (d mod 1000000000) :: rat) \<le> of_nat 1000000000"
      using lt by (intro of_nat_mono) simp
    then have le: "(of_nat (d mod 1000000000) :: rat) / 1000000000 \<le> 2 powi 0" by simp
    obtain e where e: "round64 False (of_nat (d mod 1000000000) / 1000000000) = Fin False e" "0 \<le> e"
      using round64_upto [OF _ le, of False] by auto
    moreover have "2 powi (- 30) \<le> e" if "d mod 1000000000 \<noteq> 0"
    proof -
      have "(1::rat) \<le> of_nat (d mod 1000000000)" using that by simp
      then have "2 powi (- 30) \<le> (of_nat (d mod 1000000000) :: rat) / 1000000000"
        by (simp add: power_int_def field_simps)
      then show ?thesis using round64_atleast [of "- 30" "of_nat (d mod 1000000000) / 1000000000"] e by auto
    qed
    ultimately show ?thesis by auto
  qed
  then obtain e where e: "fdiv round64 (f64_of_nat (d mod 1000000000)) (f64_of_nat 1000000000) = Fin False e" "0 \<le> e"
    "d mod 1000000000 \<noteq> 0 \<longrightarrow> 2 powi (- 30) \<le> e" by blast
  have secs: "f64_of_nat n = Inf False \<or> (\<exists>s. f64_of_nat n = Fin False s \<and> 0 \<le> s \<and> (n \<noteq> 0 \<longrightarrow> 2 powi (- 30) \<le> s))" for n
  proof (cases "n = 0")
    case True
    then show ?thesis using f64.round_fl_nat [of 0 False] by (simp add: f64_of_nat_def)
  next
    case False
    then have "(1::rat) \<le> of_nat n" by simp
    moreover have "(2::rat) powi (- 30) \<le> 1" using powi_le_iff [of "- 30" 0] by simp
    ultimately have "(2::rat) powi (- 30) \<le> of_nat n" by linarith
    moreover have "0 \<le> (2::rat) powi (- 30)" by (simp add: less_imp_le)
    ultimately show ?thesis using round64_atleast [of "- 30" "of_nat n"] by (fastforce simp: f64_of_nat_def)
  qed
  show ?thesis
    using secs [of "d div 1000000000"]
  proof (elim disjE exE conjE)
    fix s assume s: "f64_of_nat (d div 1000000000) = Fin False s" "0 \<le> s" "d div 1000000000 \<noteq> 0 \<longrightarrow> 2 powi (- 30) \<le> s"
    have "d div 1000000000 \<noteq> 0 \<or> d mod 1000000000 \<noteq> 0" using assms by (metis div_mult_mod_eq mult_0 add_0 less_nat_zero_code)
    then have "2 powi (- 30) \<le> s + e" using s e by linarith
    moreover have "0 < (2::rat) powi (- 30)" by simp
    ultimately have "as_secs_f64 d = round64 False (s + e)" "2 powi (- 30) \<le> s + e"
      by (auto simp: as_secs_f64_def s(1) e(1))
    then show ?thesis using round64_atleast [of "- 30" "s + e"] by auto
  qed (simp add: as_secs_f64_def e(1))
qed

text \<open>
  Every submitted usage rate is a finite, non-negative number of at most 2^94 nanocores, whatever
  the two readings and the time between them.
\<close>

theorem cpu_rate_bounds:
  assumes "compute_usage_rate_nc current_ns last_ns (as_secs_f64 d) = Some r"
  shows "last_ns \<le> current_ns \<and> 0 < d \<and> (\<exists>q. r = Fin False q \<and> 0 \<le> q \<and> q \<le> 2 ^ 94)"
proof -
  have z: "as_secs_f64 0 = Fin False 0"
    using f64.round_fl_nat [of 0 False] f64.round_fl_nat [of 1000000000 False] by (simp add: as_secs_f64_def f64_of_nat_def)
  have le: "last_ns \<le> current_ns" "\<not> fle (as_secs_f64 d) (Fin False 0)"
    and r: "r = fdiv round64 (f64_of_nat (unat (current_ns - last_ns))) (as_secs_f64 d)"
    using assms by (auto simp: compute_usage_rate_nc_def split: if_splits)
  then have d: "0 < d" using z by (cases d) (auto simp: fle_def)
  obtain n where n: "n = unat (current_ns - last_ns)" by simp
  then have "n < 2 ^ 64" using unsigned_less [of "current_ns - last_ns"] by simp
  then have "(of_nat n :: rat) \<le> of_nat (2 ^ 64)" by (intro of_nat_mono) simp
  then obtain a where a: "f64_of_nat n = Fin False a" "0 \<le> a" "a \<le> 2 powi 64"
    using round64_upto [of "of_nat n" 64 False] by (auto simp: f64_of_nat_def power_int_def)
  have "\<exists>q. r = Fin False q \<and> 0 \<le> q \<and> q \<le> 2 ^ 94"
    using as_secs_pos [OF d]
  proof (elim disjE exE conjE)
    fix e assume e: "as_secs_f64 d = Fin False e" "2 powi (- 30) \<le> e"
    have e0: "0 < e" using e(2) powi_pos [of "- 30"] by linarith
    have "a / e \<le> 2 powi 64 / 2 powi (- 30)" using a e e0 by (intro frac_le) auto
    also have "\<dots> = (2::rat) powi 94" using power_int_diff [of "2::rat" 64 "- 30"] by simp
    finally have "a / e \<le> 2 powi 94" .
    moreover have "0 \<le> a / e" using a(2) e0 by simp
    ultimately show ?thesis using round64_upto [of "a / e" 94 False] a e e0 by (auto simp: r power_int_def simp flip: n)
  qed (simp add: r a flip: n)
  then show ?thesis using le d by simp
qed

text \<open>The Windows reader gives the exact sum in nanoseconds, or nothing when it is negative or too large.\<close>

theorem cpu_time_exact:
  "cpu_time_to_nanoseconds user_time kernel_time = Some n \<longleftrightarrow>
   0 \<le> user_time \<and> 0 \<le> kernel_time \<and> int n = 100 * (user_time + kernel_time) \<and> n < 2 ^ 64"
  by (auto simp: cpu_time_to_nanoseconds_def u64_try_from_def checked_add_def checked_mul_def bind_eq_Some_conv)

lemma variable_pairs_keys: "\<exists>P. map fst (variable_pairs A env) =
    map fst (filter P [(''region'', az_region_name A), (''plan_tier'', az_website_sku A), (''service'', ''DD_SERVICE''),
        (''env'', ''DD_ENV''), (''version'', ''DD_VERSION''), (''serverless_compat_version'', ''DD_SERVERLESS_COMPAT_VERSION'')])"
proof -
  have "map fst (List.map_filter (\<lambda>(tag_name, env_var). map_option (\<lambda>val. (tag_name, val)) (env env_var)) L) =
      map fst (filter (\<lambda>(tag_name, env_var). env env_var \<noteq> None) L)" for L :: "(string \<times> string) list"
    by (induction L) (auto simp: map_filter_def)
  then show ?thesis unfolding variable_pairs_def by blast
qed

lemma sub_keys:
  "distinct (map fst L) \<Longrightarrow> distinct (map fst (filter P L))"
  "set (map fst (filter P L)) \<subseteq> set (map fst L)" "length (filter P L) \<le> length L"
  by (auto simp: distinct_map_filter)

lemma pair_keys:
  "distinct (map fst (metadata_pairs A @ variable_pairs A env))"
  "list_all (\<lambda>k. CHR '':'' \<notin> set k \<and> CHR '','' \<notin> set k) (map fst (metadata_pairs A @ variable_pairs A env))"
  "length (metadata_pairs A @ variable_pairs A env) \<le> 9"
proof -
  let ?L = "[(''region'', az_region_name A), (''plan_tier'', az_website_sku A), (''service'', ''DD_SERVICE''),
        (''env'', ''DD_ENV''), (''version'', ''DD_VERSION''), (''serverless_compat_version'', ''DD_SERVERLESS_COMPAT_VERSION'')]"
  obtain P where v: "map fst (variable_pairs A env) = map fst (filter P ?L)" using variable_pairs_keys by blast
  obtain Q and m :: function_metadata where m: "metadata_pairs A = filter Q
      [(''resource_group'', fm_resource_group m), (''subscription_id'', fm_subscription_id m), (''name'', fm_site_name m)]"
  proof (cases "az_metadata A")
    case None
    then show ?thesis by (intro that [of "\<lambda>_. False" undefined]) (simp add: metadata_pairs_def)
  next
    case (Some m)
    then show ?thesis
      by (intro that [of "\<lambda>(name, value). value \<noteq> az_unknown A" m]) (simp add: metadata_pairs_def del: filter.simps)
  qed
  have lv: "length (variable_pairs A env) \<le> 6" using arg_cong [OF v, of length] sub_keys(3) [of P ?L] by (simp del: filter.simps)
  have lm: "length (metadata_pairs A) \<le> 3" unfolding m by (rule order_trans [OF sub_keys(3)]) simp
  have kv: "set (map fst (variable_pairs A env)) \<subseteq> set (map fst ?L)" unfolding v by (rule sub_keys(2))
  have dv: "distinct (map fst (variable_pairs A env))" unfolding v by (rule sub_keys(1)) simp
  have km: "set (map fst (metadata_pairs A)) \<subseteq> {''resource_group'', ''subscription_id'', ''name''}"
    unfolding m by (rule order_trans [OF sub_keys(2)]) simp
  have dm: "distinct (map fst (metadata_pairs A))" unfolding m by (rule sub_keys(1)) simp
  show "distinct (map fst (metadata_pairs A @ variable_pairs A env))"
    using dv dm subsetD [OF kv] subsetD [OF km] by (fastforce simp: disjoint_iff)
  show "list_all (\<lambda>k. CHR '':'' \<notin> set k \<and> CHR '','' \<notin> set k) (map fst (metadata_pairs A @ variable_pairs A env))"
    using kv km by (auto simp: list_all_iff dest!: subsetD)
  show "length (metadata_pairs A @ variable_pairs A env) \<le> 9" using lv lm by simp
qed

text \<open>
  When \<open>Tag::new\<close> writes the tags it accepts as \<open>key:value\<close> and no value has a comma, the tags of the
  enhanced metrics are exactly the known metadata and the set variables with a value it accepts,
  each once, sorted.
\<close>

theorem enhanced_tags_exact:
  assumes "\<And>k v. az_tag_new A k v = (if valid k v then Some (k @ '':'' @ v) else None)"
    and "list_all (\<lambda>(k, v). CHR '','' \<notin> set v) (metadata_pairs A @ variable_pairs A env)"
    and "good = filter (\<lambda>(k, v). v \<noteq> [] \<and> valid k v) (metadata_pairs A @ variable_pairs A env)"
  shows "build_enhanced_metrics_tags D A env =
    (if good = [] then None else Some \<lparr>tag_values = sort_by (tag_le D) good\<rparr>)"
proof -
  define ps where "ps = metadata_pairs A @ variable_pairs A env"
  define kv_text where "kv_text = (\<lambda>kv :: string \<times> string. fst kv @ '':'' @ snd kv)"
  note ps = pair_keys [of A env, folded ps_def]
  have tags: "List.map_filter (\<lambda>(key, value). if value = [] then None else az_tag_new A key value) ps = map kv_text good"
    unfolding assms(3) ps_def [symmetric] assms(1) kv_text_def by (induction ps) (auto simp: map_filter_simps split: if_splits option.splits)
  have g: "set good \<subseteq> set ps" "length good \<le> 9" "distinct good"
    using ps(1,3) by (auto simp: assms(3) ps_def [symmetric] distinct_map intro: order_trans [OF length_filter_le])
  have ok: "CHR '':'' \<notin> set (fst kv) \<and> CHR '','' \<notin> set (kv_text kv)" if "kv \<in> set good" for kv
  proof -
    obtain k v where kv: "kv = (k, v)" by fastforce
    have "(k, v) \<in> set ps" using that g(1) kv by blast
    then have "k \<in> set (map fst ps)" "CHR '','' \<notin> set v" using assms(2) by (force simp: list_all_iff ps_def)+
    then show ?thesis using ps(2) by (auto simp: list_all_iff kv_text_def kv)
  qed
  have parse: "map parse_tag (map kv_text good) = good"
    using ok by (intro nth_equalityI) (auto simp: parse_tag_def kv_text_def )
  show ?thesis
  proof (cases "good = []")
    case True
    then show ?thesis by (simp add: build_enhanced_metrics_tags_def build_tags_def tags [unfolded ps_def])
  next
    case False
    have "split_char CHR '','' (join_with '','' (map kv_text good)) = map kv_text good"
      using ok False by (intro split_join_char) auto
    moreover have "filter (\<lambda>s. s \<noteq> []) (map kv_text good) = map kv_text good" by (auto simp: filter_id_conv kv_text_def)
    ultimately have "tags_parse D (join_with '','' (map kv_text good)) = Inr \<lparr>tag_values = sort_by (tag_le D) good\<rparr>"
      using g parse by (simp add: tags_parse_def Let_def remdups_adj_distinct MAX_TAGS_def del: map_map)
    then show ?thesis using False
      by (simp add: build_enhanced_metrics_tags_def build_tags_def tags [unfolded ps_def])
  qed
qed

section \<open>Witnesses\<close>

definition sample_obs :: "observation list" where
  "sample_obs =
     [\<lparr>ob_reading = Some 100, ob_instant = 0, ob_now = 10, ob_now2 = 10\<rparr>,
      \<lparr>ob_reading = None, ob_instant = 1000000000, ob_now = 11, ob_now2 = 11\<rparr>,
      \<lparr>ob_reading = Some 300, ob_instant = 2000000000, ob_now = 12, ob_now2 = 12\<rparr>]"

theorem cpu_submissions_witness:
  "mb_queue (snd (fold (collect_and_submit sample_deps) sample_obs (cpu_collector_new None 0, \<lparr>mb_queue = [], mb_open = True\<rparr>))) =
   List.map_filter (\<lambda>(a, b). interval_command sample_deps None a b) [(sample_obs ! 0, sample_obs ! 2)]"
  by (subst cpu_submissions [OF _ refl]) (simp_all add: sample_obs_def)

lemma sample_rate: "compute_usage_rate_nc 300 100 (as_secs_f64 2000000000) = Some (Fin False 100)"
proof -
  have "f64_of_nat n = Fin False (of_nat n)" if "n < 2 ^ 53" for n
    using f64.round_fl_nat [of n False] that by (simp add: f64_of_nat_def)
  moreover from this [of 2] this [of 100] have "round64 False 2 = Fin False 2" "round64 False 100 = Fin False 100"
    by (simp_all add: f64_of_nat_def)
  moreover have "round64 False 0 = Fin False 0" using f64.round_fl_nat [of 0 False] by simp
  ultimately show ?thesis by (simp add: compute_usage_rate_nc_def as_secs_f64_def fle_def)
qed

theorem cpu_rate_bounds_witness:
  "(100 :: u64) \<le> 300 \<and> 0 < (2000000000 :: nat) \<and> (\<exists>q. Fin False 100 = Fin False q \<and> 0 \<le> q \<and> q \<le> 2 ^ 94)"
  by (rule cpu_rate_bounds [OF sample_rate])

definition sample_azure :: azure_deps where
  "sample_azure =
     \<lparr>az_unknown = ''unknown'', az_region_name = ''REGION_NAME'', az_website_sku = ''WEBSITE_SKU'', az_metadata = None,
      az_tag_new = (\<lambda>k v. if v \<noteq> '':'' then Some (k @ '':'' @ v) else None)\<rparr>"

theorem enhanced_tags_exact_witness:
  "build_enhanced_metrics_tags sample_deps sample_azure [''DD_SERVICE'' \<mapsto> ''shop'', ''DD_ENV'' \<mapsto> '':'', ''REGION_NAME'' \<mapsto> ''east''] =
   Some \<lparr>tag_values = sort_by (tag_le sample_deps) [(''region'', ''east''), (''service'', ''shop'')]\<rparr>"
  by (subst enhanced_tags_exact [where valid = "\<lambda>k v. v \<noteq> '':''", OF _ _ refl])
    (simp_all add: sample_azure_def metadata_pairs_def variable_pairs_def map_filter_simps)

end
