(* ===== verification/Metadata.thy ===== *)
theory Metadata
  imports Trace_Config Dsd_Packet Http
begin

text \<open>
  The crate \<^verbatim>\<open>metadata\<close>: the identity of the function on Azure and Google Cloud (\<^verbatim>\<open>platform/\<close>), the
  report built from it (\<^verbatim>\<open>payload.rs\<close>, \<^verbatim>\<open>lib.rs\<close>) and the reporter that sends it at startup and every
  thirty minutes (\<^verbatim>\<open>reporter.rs\<close>).

  A JSON object of texts is an association list with distinct keys. The answers of the metadata
  server and of the intake are arguments.
\<close>

section \<open>The environment and the platform\<close>

definition get_var :: "env_vars \<Rightarrow> env_vars" where
  "get_var env name =
     (case env name of
        None \<Rightarrow> None
      | Some value \<Rightarrow> if trim value = [] then None else Some (trim value))"

type_synonym fields = "(string \<times> string) list"

record platform_data =
  pd_workload_type :: string
  pd_resource_id :: string
  pd_resource_name :: string
  pd_metadata :: fields

subsection \<open>Azure\<close>

text \<open>\<^verbatim>\<open>AzureMetadata\<close> of \<^verbatim>\<open>libdd_common\<close>, and the value that stands for an unknown one.\<close>

record azure_metadata =
  am_site_name :: string
  am_resource_id :: string
  am_region :: string
  am_subscription_id :: string
  am_resource_group :: string
  am_operating_system :: string
  am_runtime :: string
  am_runtime_version :: string

definition known_value :: "string \<Rightarrow> string \<Rightarrow> string option" where
  "known_value unknown v = (if v \<noteq> unknown \<and> v \<noteq> [] then Some v else None)"

definition runtime_version :: "string \<Rightarrow> string \<Rightarrow> string option" where
  "runtime_version unknown v =
     (case known_value unknown v of
        None \<Rightarrow> None
      | Some w \<Rightarrow> let w = dropWhile (\<lambda>c. c = CHR ''~'') w in if w = [] then None else Some w)"

definition runtime_with_version :: "string \<Rightarrow> string \<Rightarrow> string \<Rightarrow> string option" where
  "runtime_with_version unknown runtime version =
     (case known_value unknown runtime of
        None \<Rightarrow> None
      | Some runtime \<Rightarrow>
          Some (case runtime_version unknown version of Some version \<Rightarrow> runtime @ version | None \<Rightarrow> runtime))"

definition insert_known :: "string \<Rightarrow> string \<times> string \<Rightarrow> fields \<Rightarrow> fields" where
  "insert_known unknown = (\<lambda>(k, v) m.
     case known_value unknown v of Some v \<Rightarrow> hm_insert k v m | None \<Rightarrow> m)"

definition azure_collect :: "string \<Rightarrow> azure_metadata option \<Rightarrow> platform_data option" where
  "azure_collect unknown azure =
     (case azure of
        None \<Rightarrow> None
      | Some az \<Rightarrow>
          (case (known_value unknown (am_site_name az), known_value unknown (am_resource_id az)) of
             (Some resource_name, Some resource_id) \<Rightarrow>
               let metadata = fold (insert_known unknown)
                     [(''region'', am_region az), (''azure_subscription_id'', am_subscription_id az),
                      (''azure_resource_group'', am_resource_group az), (''os'', am_operating_system az)] [];
                   metadata = (case runtime_with_version unknown (am_runtime az) (am_runtime_version az) of
                                 Some runtime \<Rightarrow> hm_insert ''runtime'' runtime metadata
                               | None \<Rightarrow> metadata)
               in Some \<lparr>pd_workload_type = ''azure_function'', pd_resource_id = resource_id,
                        pd_resource_name = resource_name, pd_metadata = metadata\<rparr>
           | _ \<Rightarrow> None))"

subsection \<open>Google Cloud\<close>

definition METADATA_BASE_URL :: string where
  "METADATA_BASE_URL = ''http://metadata.google.internal/computeMetadata/v1''"

definition MAX_METADATA_RESPONSE_BYTES :: nat where "MAX_METADATA_RESPONSE_BYTES = 1024"

record identity =
  id_name :: string
  id_region :: "string option"
  id_project :: "string option"

fun first_env :: "env_vars \<Rightarrow> string list \<Rightarrow> string option" where
  "first_env env [] = None"
| "first_env env (name # names) =
     (case env name of
        Some value \<Rightarrow> if value \<noteq> [] then Some value else first_env env names
      | None \<Rightarrow> first_env env names)"

fun detect_runtime_from :: "env_vars \<Rightarrow> (string \<times> string) list \<Rightarrow> string option" where
  "detect_runtime_from env [] = None"
| "detect_runtime_from env ((runtime, var) # rest) =
     (case first_env env [var] of
        Some version \<Rightarrow> Some (runtime @ version)
      | None \<Rightarrow> detect_runtime_from env rest)"

definition detect_runtime :: "env_vars \<Rightarrow> string option" where
  "detect_runtime env =
     detect_runtime_from env
       [(''node'', ''NODE_VERSION''), (''python'', ''PYTHON_VERSION''), (''java'', ''JAVA_VERSION''), (''go'', ''GO_VERSION'')]"

definition identity_from_env :: "env_vars \<Rightarrow> identity option" where
  "identity_from_env env =
     (case first_env env [''FUNCTION_NAME'', ''K_SERVICE''] of
        None \<Rightarrow> None
      | Some name \<Rightarrow>
          Some \<lparr>id_name = name,
                id_region = first_env env [''FUNCTION_REGION'', ''GOOGLE_CLOUD_REGION'', ''REGION_NAME''],
                id_project = first_env env [''GCP_PROJECT'', ''GCLOUD_PROJECT'', ''GOOGLE_CLOUD_PROJECT'']\<rparr>)"

text \<open>
  The answer to a request: status, the header \<open>Metadata-Flavor\<close>, the declared length, and the chunks
  of the body, \<open>None\<close> where reading fails.
\<close>

record metadata_response =
  mr_status :: nat
  mr_flavor :: "string option"
  mr_content_length :: "nat option"
  mr_chunks :: "string option list"

fun read_body :: "string option list \<Rightarrow> string \<Rightarrow> string option" where
  "read_body [] body = Some body"
| "read_body (Some chunk # chunks) body =
     (if length body + length chunk \<le> MAX_METADATA_RESPONSE_BYTES then read_body chunks (body @ chunk) else None)"
| "read_body (None # chunks) body = None"

definition fetch_metadata_value ::
  "(string \<Rightarrow> metadata_response option) \<Rightarrow> string \<Rightarrow> string \<Rightarrow> (string \<Rightarrow> string option) \<Rightarrow> string option" where
  "fetch_metadata_value get base_url path parse =
     (case get (rev (dropWhile (\<lambda>c. c = CHR ''/'') (rev base_url)) @ ''/'' @ path) of
        None \<Rightarrow> None
      | Some response \<Rightarrow>
          if \<not> status_success (mr_status response) then None
          else if mr_flavor response \<noteq> Some ''Google'' then None
          else if (case mr_content_length response of Some n \<Rightarrow> n > MAX_METADATA_RESPONSE_BYTES | None \<Rightarrow> False) then None
          else (case read_body (mr_chunks response) [] of
                  None \<Rightarrow> None
                | Some body \<Rightarrow> if utf8_valid body then parse (trim body) else None))"

definition region_of_body :: "string \<Rightarrow> string option" where
  "region_of_body body =
     (let value = List.last (split_char CHR ''/'' body) in if value \<noteq> [] then Some value else None)"

definition fetch_region :: "(string \<Rightarrow> metadata_response option) \<Rightarrow> string \<Rightarrow> string option" where
  "fetch_region get base_url = fetch_metadata_value get base_url ''instance/region'' region_of_body"

definition fetch_project :: "(string \<Rightarrow> metadata_response option) \<Rightarrow> string \<Rightarrow> string option" where
  "fetch_project get base_url =
     fetch_metadata_value get base_url ''project/project-id'' (\<lambda>body. if body \<noteq> [] then Some body else None)"

definition build_platform_data :: "identity \<Rightarrow> env_vars \<Rightarrow> platform_data option" where
  "build_platform_data ident env =
     (case (id_region ident, id_project ident) of
        (Some region, Some project) \<Rightarrow>
          let resource_id = ''//cloudfunctions.googleapis.com/projects/'' @ project @ ''/locations/'' @ region @
                ''/functions/'' @ id_name ident;
              metadata = hm_insert ''gcp_project_id'' project (hm_insert ''region'' region []);
              metadata = (case detect_runtime env of Some runtime \<Rightarrow> hm_insert ''runtime'' runtime metadata | None \<Rightarrow> metadata)
          in Some \<lparr>pd_workload_type = ''cloud_function'', pd_resource_id = resource_id,
                   pd_resource_name = id_name ident, pd_metadata = metadata\<rparr>
      | _ \<Rightarrow> None)"

text \<open>\<open>get\<close>: the client for the metadata server, \<open>None\<close> when it cannot be built.\<close>

definition gcp_collect_from ::
  "env_vars \<Rightarrow> string \<Rightarrow> (string \<Rightarrow> metadata_response option) option \<Rightarrow> platform_data option" where
  "gcp_collect_from env metadata_base_url client =
     (case identity_from_env env of
        None \<Rightarrow> None
      | Some ident \<Rightarrow>
          if id_region ident = None \<or> id_project ident = None
          then (case client of
                  None \<Rightarrow> None
                | Some get \<Rightarrow>
                    let ident = (case (id_region ident, id_project ident) of
                        (None, None) \<Rightarrow> ident\<lparr>id_region := fetch_region get metadata_base_url,
                                               id_project := fetch_project get metadata_base_url\<rparr>
                      | (None, Some _) \<Rightarrow> ident\<lparr>id_region := fetch_region get metadata_base_url\<rparr>
                      | (Some _, None) \<Rightarrow> ident\<lparr>id_project := fetch_project get metadata_base_url\<rparr>
                      | (Some _, Some _) \<Rightarrow> ident)
                    in build_platform_data ident env)
          else build_platform_data ident env)"

section \<open>The report\<close>

record payload =
  pl_uuid :: string
  pl_timestamp :: int
  pl_metadata :: fields

record metadata_report =
  mp_body :: string
  mp_resource_id :: string
  mp_workload_type :: string

text \<open>The version embedded when the program was built.\<close>

definition serverless_compat_binary_version :: "string option \<Rightarrow> string option" where
  "serverless_compat_binary_version embedded =
     (case embedded of
        None \<Rightarrow> None
      | Some value \<Rightarrow> if trim value = [] then None else Some (trim value))"

definition set_if :: "string \<Rightarrow> string option \<Rightarrow> fields \<Rightarrow> fields" where
  "set_if k v m = (case v of Some v \<Rightarrow> hm_insert k v m | None \<Rightarrow> m)"

definition nonempty_var :: "env_vars \<Rightarrow> string \<Rightarrow> string option" where
  "nonempty_var env name = (case env name of Some value \<Rightarrow> if value = [] then None else Some value | None \<Rightarrow> None)"

text \<open>\<open>as_nanos() as i64\<close> keeps the low 64 bits; \<open>clock\<close> is \<open>None\<close> before the epoch.\<close>

definition timestamp_nanos :: "nat option \<Rightarrow> int" where
  "timestamp_nanos clock = (case clock of Some n \<Rightarrow> sint (of_nat n :: u64) | None \<Rightarrow> 0)"

definition report_metadata :: "string \<Rightarrow> platform_data \<Rightarrow> string \<Rightarrow> env_vars \<Rightarrow> string option \<Rightarrow> fields" where
  "report_metadata report_reason platform dd_site env embedded_version =
     (let metadata = pd_metadata platform;
          metadata = hm_insert ''flavor'' ''serverless-compat'' metadata;
          metadata = hm_insert ''workload_type'' (pd_workload_type platform) metadata;
          metadata = hm_insert ''report_reason'' report_reason metadata;
          metadata = hm_insert ''resource_id'' (pd_resource_id platform) metadata;
          metadata = hm_insert ''resource_name'' (pd_resource_name platform) metadata;
          metadata = set_if ''serverless_compat_runtime_version'' (nonempty_var env ''DD_SERVERLESS_COMPAT_VERSION'') metadata;
          metadata = set_if ''serverless_compat_binary_version'' (serverless_compat_binary_version embedded_version) metadata;
          metadata = hm_insert ''dd_site'' dd_site metadata
      in fold (\<lambda>(env_key, metadata_key) m. set_if metadata_key (nonempty_var env env_key) m)
           [(''DD_ENV'', ''dd_env''), (''DD_SERVICE'', ''dd_service''), (''DD_VERSION'', ''dd_version'')] metadata)"

text \<open>\<open>to_vec\<close>: the JSON text of a payload, \<open>None\<close> when it cannot be written.\<close>

definition build_with_env ::
  "(payload \<Rightarrow> string option) \<Rightarrow> nat option \<Rightarrow> string \<Rightarrow> string \<Rightarrow> platform_data \<Rightarrow> string \<Rightarrow> env_vars \<Rightarrow> string option \<Rightarrow>
   string option" where
  "build_with_env to_vec clock process_id report_reason platform dd_site env embedded_version =
     to_vec \<lparr>pl_uuid = process_id, pl_timestamp = timestamp_nanos clock,
             pl_metadata = report_metadata report_reason platform dd_site env embedded_version\<rparr>"

definition build_metadata_report ::
  "(payload \<Rightarrow> string option) \<Rightarrow> nat option \<Rightarrow> platform_data \<Rightarrow> string \<Rightarrow> string \<Rightarrow> string \<Rightarrow> env_vars \<Rightarrow> string option \<Rightarrow>
   metadata_report option" where
  "build_metadata_report to_vec clock platform process_id report_reason dd_site env embedded_version =
     (case build_with_env to_vec clock process_id report_reason platform dd_site (get_var env) embedded_version of
        None \<Rightarrow> None
      | Some body \<Rightarrow> Some \<lparr>mp_body = body, mp_resource_id = pd_resource_id platform, mp_workload_type = pd_workload_type platform\<rparr>)"

section \<open>The reporter\<close>

definition METADATA_INTERVAL :: nat where "METADATA_INTERVAL = 30 * 60"
definition MAX_ATTEMPTS :: nat where "MAX_ATTEMPTS = 3"

record reporter =
  rp_api_key :: string
  rp_dd_site :: string
  rp_intake_url :: string
  rp_user_agent :: string
  rp_platform :: platform_data
  rp_process_id :: string

definition is_metadata_enabled :: "env_vars \<Rightarrow> bool" where
  "is_metadata_enabled env =
     (case env ''DD_SERVERLESS_COMPAT_METADATA_ENABLED'' of Some value \<Rightarrow> lower_is value ''true'' | None \<Rightarrow> False)"

fun is_supported :: "env_type \<Rightarrow> bool" where
  "is_supported AzureFunction = True"
| "is_supported CloudFunction = True"
| "is_supported _ = False"

text \<open>\<open>url_parse\<close>: \<open>Url::parse\<close>, the text of the URL or an error.\<close>

definition site_byte :: "char \<Rightarrow> bool" where
  "site_byte c \<longleftrightarrow> is_ascii_alphanumeric c \<or> c \<in> {CHR ''.'', CHR ''_'', CHR ''-'', CHR '':''}"

definition build_intake_url :: "(string \<Rightarrow> string + string) \<Rightarrow> string \<Rightarrow> string + string" where
  "build_intake_url url_parse dd_site =
     (if dd_site = [] \<or> \<not> list_all site_byte dd_site then Inl (''invalid site: '' @ dd_site)
      else url_parse (''https://api.'' @ dd_site @ ''/api/v1/metadata''))"

definition should_retry_status :: "nat \<Rightarrow> bool" where
  "should_retry_status status \<longleftrightarrow> status = 429 \<or> (500 \<le> status \<and> status \<le> 599)"

definition retry_backoff :: "nat \<Rightarrow> nat" where "retry_backoff attempt = 2 ^ attempt"

definition do_send :: "reporter \<Rightarrow> string \<Rightarrow> request" where
  "do_send r body =
     \<lparr>rq_url = rp_intake_url r,
      rq_headers = [(''DD-API-KEY'', rp_api_key r), (''Content-Type'', ''application/json''), (''User-Agent'', rp_user_agent r)],
      rq_body = body\<rparr>"

text \<open>
  Sending one report: what is sent, in order with the pauses in seconds, and how it ends. \<open>answer\<close>:
  the status of each attempt, \<open>None\<close> for a transport error.
\<close>

datatype report_event = Send request | Sleep nat
datatype report_outcome = Delivered nat | Rejected nat | TransportFailed | Exhausted | NotSerialized

fun attempt_loop :: "request \<Rightarrow> (nat \<Rightarrow> nat option) \<Rightarrow> nat list \<Rightarrow> report_event list \<times> report_outcome" where
  "attempt_loop rq answer [] = ([], Exhausted)"
| "attempt_loop rq answer (attempt # attempts) =
     (let again = (let (events, outcome) = attempt_loop rq answer attempts
                   in (Send rq # Sleep (retry_backoff attempt) # events, outcome))
      in case answer attempt of
           Some status \<Rightarrow>
             if status < 300 then ([Send rq], Delivered status)
             else if should_retry_status status \<and> attempt + 1 < MAX_ATTEMPTS then again
             else ([Send rq], Rejected status)
         | None \<Rightarrow> if attempt + 1 < MAX_ATTEMPTS then again else ([Send rq], TransportFailed))"

definition send_report ::
  "reporter \<Rightarrow> metadata_report option \<Rightarrow> (nat \<Rightarrow> nat option) \<Rightarrow> report_event list \<times> report_outcome" where
  "send_report r report answer =
     (case report of
        None \<Rightarrow> ([], NotSerialized)
      | Some report \<Rightarrow> attempt_loop (do_send r (mp_body report)) answer [0..<MAX_ATTEMPTS])"

text \<open>
  What the reporter is given besides its arguments: the environment, the platform, the URL parser, whether
  the HTTP client can be built, the embedded version and the random identifier of the process.
\<close>

record metadata_deps =
  md_env :: env_vars
  md_azure_unknown :: string
  md_azure :: "azure_metadata option"
  md_gcp_client :: "(string \<Rightarrow> metadata_response option) option"
  md_url_parse :: "string \<Rightarrow> string + string"
  md_client_ok :: "string option \<Rightarrow> bool"
  md_embedded_version :: "string option"
  md_uuid :: string
  md_to_vec :: "payload \<Rightarrow> string option"

fun platform_collect :: "metadata_deps \<Rightarrow> env_type \<Rightarrow> platform_data option" where
  "platform_collect M AzureFunction = azure_collect (md_azure_unknown M) (md_azure M)"
| "platform_collect M CloudFunction = gcp_collect_from (get_var (md_env M)) METADATA_BASE_URL (md_gcp_client M)"
| "platform_collect M _ = None"

definition reporter_new :: "metadata_deps \<Rightarrow> string option \<Rightarrow> string \<Rightarrow> string option \<Rightarrow> env_type \<Rightarrow> reporter option" where
  "reporter_new M api_key dd_site https_proxy env_type =
     (if \<not> is_metadata_enabled (get_var (md_env M)) \<or> \<not> is_supported env_type then None
      else case api_key of
        None \<Rightarrow> None
      | Some api_key \<Rightarrow>
          (case build_intake_url (md_url_parse M) dd_site of
             Inl _ \<Rightarrow> None
           | Inr intake_url \<Rightarrow>
               (case platform_collect M env_type of
                  None \<Rightarrow> None
                | Some platform \<Rightarrow>
                    if \<not> md_client_ok M https_proxy then None
                    else Some \<lparr>rp_api_key = api_key, rp_dd_site = dd_site, rp_intake_url = intake_url,
                      rp_user_agent = ''datadog-serverless-compat/'' @
                        (case serverless_compat_binary_version (md_embedded_version M) of Some v \<Rightarrow> v | None \<Rightarrow> ''unknown''),
                      rp_platform = platform, rp_process_id = md_uuid M\<rparr>)))"

definition report_of :: "metadata_deps \<Rightarrow> reporter \<Rightarrow> nat option \<Rightarrow> string \<Rightarrow> metadata_report option" where
  "report_of M r clock report_reason =
     build_metadata_report (md_to_vec M) clock (rp_platform r) (rp_process_id r) report_reason (rp_dd_site r)
       (md_env M) (md_embedded_version M)"

text \<open>
  The run of the reporter up to its \<open>n\<close>-th report: the loop never ends, every tick sends a report.
  \<open>clock k\<close> and \<open>answer k\<close>: the clock and the answers at report \<open>k\<close>.
\<close>

definition report_reason_of :: "nat \<Rightarrow> string" where
  "report_reason_of k = (if k = 0 then ''startup'' else ''periodic'')"

definition run_metadata_reporter ::
  "metadata_deps \<Rightarrow> string option \<Rightarrow> string \<Rightarrow> string option \<Rightarrow> env_type \<Rightarrow> (nat \<Rightarrow> nat option) \<Rightarrow> (nat \<Rightarrow> nat \<Rightarrow> nat option) \<Rightarrow>
   nat \<Rightarrow> (report_event list \<times> report_outcome) list" where
  "run_metadata_reporter M api_key dd_site https_proxy env_type clock answer n =
     (case reporter_new M api_key dd_site https_proxy env_type of
        None \<Rightarrow> []
      | Some r \<Rightarrow> map (\<lambda>k. send_report r (report_of M r (clock k) (report_reason_of k)) (answer k)) [0..<n])"

section \<open>Facts\<close>

definition set_var :: "string \<Rightarrow> string option \<Rightarrow> (string \<Rightarrow> string option) \<Rightarrow> string \<Rightarrow> string option" where
  "set_var k v f = (case v of Some v \<Rightarrow> f(k \<mapsto> v) | None \<Rightarrow> f)"

lemma map_of_set_if [simp]: "map_of (set_if k v m) = set_var k v (map_of m)"
  by (simp add: set_if_def set_var_def split: option.split)

text \<open>
  A report names the process, the reason, the workload and the resource, whatever metadata the
  platform has under these keys, and keeps all other metadata of the platform; the versions and the
  unified service tags are there when they are known.
\<close>

theorem report_metadata_fields:
  "map_of (report_metadata reason p site env embedded) =
   set_var ''dd_version'' (nonempty_var env ''DD_VERSION'')
     (set_var ''dd_service'' (nonempty_var env ''DD_SERVICE'')
       (set_var ''dd_env'' (nonempty_var env ''DD_ENV'')
         ((set_var ''serverless_compat_binary_version'' (serverless_compat_binary_version embedded)
           (set_var ''serverless_compat_runtime_version'' (nonempty_var env ''DD_SERVERLESS_COMPAT_VERSION'')
             ((map_of (pd_metadata p))(''flavor'' \<mapsto> ''serverless-compat'', ''workload_type'' \<mapsto> pd_workload_type p,
               ''report_reason'' \<mapsto> reason, ''resource_id'' \<mapsto> pd_resource_id p, ''resource_name'' \<mapsto> pd_resource_name p))))
          (''dd_site'' \<mapsto> site))))"
  by (simp add: report_metadata_def Let_def)

lemma read_body_Some:
  "length b \<le> MAX_METADATA_RESPONSE_BYTES \<Longrightarrow>
   read_body cs b = Some x \<longleftrightarrow>
   None \<notin> set cs \<and> x = b @ concat (map the cs) \<and> length x \<le> MAX_METADATA_RESPONSE_BYTES"
proof (induction cs b rule: read_body.induct)
  case (2 body chunk chunks)
  then show ?case by (cases "length body + length chunk \<le> MAX_METADATA_RESPONSE_BYTES") auto
qed auto

text \<open>
  A value is taken from the metadata server exactly when the server answers with success, names
  itself as Google's, declares at most 1024 bytes, and sends at most 1024 bytes of UTF-8 without an
  error, and the text they hold parses.
\<close>

theorem metadata_value_trusted:
  "fetch_metadata_value get base_url path parse = Some v \<longleftrightarrow>
   (\<exists>r body. get (rev (dropWhile (\<lambda>c. c = CHR ''/'') (rev base_url)) @ ''/'' @ path) = Some r \<and>
      status_success (mr_status r) \<and> mr_flavor r = Some ''Google'' \<and>
      (mr_content_length r = None \<or> the (mr_content_length r) \<le> MAX_METADATA_RESPONSE_BYTES) \<and>
      None \<notin> set (mr_chunks r) \<and> body = concat (map the (mr_chunks r)) \<and> length body \<le> MAX_METADATA_RESPONSE_BYTES \<and>
      utf8_valid body \<and> parse (trim body) = Some v)"
proof -
  have "(case x of None \<Rightarrow> None | Some r \<Rightarrow>
          if \<not> status_success (mr_status r) then None
          else if mr_flavor r \<noteq> Some ''Google'' then None
          else if (case mr_content_length r of Some n \<Rightarrow> n > MAX_METADATA_RESPONSE_BYTES | None \<Rightarrow> False) then None
          else (case read_body (mr_chunks r) [] of None \<Rightarrow> None
                | Some body \<Rightarrow> if utf8_valid body then parse (trim body) else None)) = Some v \<longleftrightarrow>
      (\<exists>r body. x = Some r \<and> status_success (mr_status r) \<and> mr_flavor r = Some ''Google'' \<and>
        (mr_content_length r = None \<or> the (mr_content_length r) \<le> MAX_METADATA_RESPONSE_BYTES) \<and>
        read_body (mr_chunks r) [] = Some body \<and> utf8_valid body \<and> parse (trim body) = Some v)" for x
    by (cases x) (auto split: option.splits if_splits)
  then show ?thesis unfolding fetch_metadata_value_def using read_body_Some [of "[]"] by auto
qed

text \<open>How many attempts are repeated: those before the first answer that is not transient, at most two.\<close>

definition transient_answer :: "nat option \<Rightarrow> bool" where
  "transient_answer a = (case a of Some status \<Rightarrow> 300 \<le> status \<and> should_retry_status status | None \<Rightarrow> True)"

definition repeats :: "(nat \<Rightarrow> nat option) \<Rightarrow> nat" where
  "repeats answer = length (takeWhile (\<lambda>i. transient_answer (answer i)) [0, 1])"

text \<open>
  A report is sent until an answer that is neither a transport error, a 429 nor a 5xx, and at most
  three times, with pauses of one and two seconds; its outcome is the one of the last attempt.
\<close>

theorem report_attempts:
  "send_report r (Some rep) answer =
   (let n = repeats answer; rq = do_send r (mp_body rep)
    in (concat (map (\<lambda>i. [Send rq, Sleep (2 ^ i)]) [0..<n]) @ [Send rq],
        case answer n of
          Some status \<Rightarrow> if status < 300 then Delivered status else Rejected status
        | None \<Rightarrow> TransportFailed))"
proof -
  have "[0..<MAX_ATTEMPTS] = [0, 1, 2]" by (simp add: MAX_ATTEMPTS_def upt_rec)
  then show ?thesis
    by (auto simp: send_report_def repeats_def transient_answer_def retry_backoff_def MAX_ATTEMPTS_def should_retry_status_def
        Let_def upt_rec split: option.split if_splits)
qed

text \<open>
  C32. A report leaves the process only when reporting is switched on, on a supported platform, with an
  API key, for a site of letters, digits and the characters \<open>._-:\<close>; it is sent to the metadata intake
  of this site, with this key.
\<close>

theorem metadata_requests:
  assumes "(events, outcome) \<in> set (run_metadata_reporter M api_key dd_site https_proxy env_type clock answer n)"
    and "Send rq \<in> set events"
  shows "is_metadata_enabled (get_var (md_env M)) \<and> is_supported env_type \<and> dd_site \<noteq> [] \<and> list_all site_byte dd_site \<and>
    (\<exists>k. api_key = Some k \<and> (''DD-API-KEY'', k) \<in> set (rq_headers rq)) \<and>
    md_url_parse M (''https://api.'' @ dd_site @ ''/api/v1/metadata'') = Inr (rq_url rq)"
proof -
  obtain r where r: "reporter_new M api_key dd_site https_proxy env_type = Some r"
    using assms(1) by (cases "reporter_new M api_key dd_site https_proxy env_type") (auto simp: run_metadata_reporter_def)
  obtain rep ans where e: "(events, outcome) = send_report r rep ans"
    using assms(1) r by (auto simp: run_metadata_reporter_def)
  have loop: "Send rq \<in> set (fst (attempt_loop q ans as)) \<Longrightarrow> rq = q" for q as
    by (induction as) (auto simp: Let_def split: option.splits if_splits prod.splits)
  have "events = fst (send_report r rep ans)" by (simp flip: e)
  then obtain body where rq: "rq = do_send r body"
    using assms(2) loop by (auto simp: send_report_def split: option.splits)
  show ?thesis using r
    by (auto simp: rq do_send_def reporter_new_def build_intake_url_def split: option.splits sum.splits if_splits)
qed

section \<open>Witnesses\<close>

definition sample_metadata_deps :: metadata_deps where
  "sample_metadata_deps =
     \<lparr>md_env = [''DD_SERVERLESS_COMPAT_METADATA_ENABLED'' \<mapsto> ''True''], md_azure_unknown = ''unknown'',
      md_azure = Some \<lparr>am_site_name = ''shop'', am_resource_id = ''/subscriptions/s/sites/shop'', am_region = ''east'',
        am_subscription_id = ''s'', am_resource_group = ''unknown'', am_operating_system = ''linux'', am_runtime = ''node'',
        am_runtime_version = ''~18''\<rparr>,
      md_gcp_client = None, md_url_parse = (\<lambda>u. Inr u), md_client_ok = (\<lambda>_. True), md_embedded_version = None,
      md_uuid = ''id'', md_to_vec = (\<lambda>p. Some (pl_uuid p))\<rparr>"

lemma sample_reporter:
  "reporter_new sample_metadata_deps (Some ''k'') ''datadoghq.com'' None AzureFunction \<noteq> None"
  by code_simp

theorem metadata_requests_witness:
  "list_all site_byte ''datadoghq.com''"
proof -
  let ?D = sample_metadata_deps
  obtain r where r: "reporter_new ?D (Some ''k'') ''datadoghq.com'' None AzureFunction = Some r"
    using sample_reporter by blast
  let ?run = "run_metadata_reporter ?D (Some ''k'') ''datadoghq.com'' None AzureFunction (\<lambda>_. None) (\<lambda>_ _. Some 202) 1"
  have "report_of ?D r None ''startup'' \<noteq> None"
    by (simp add: report_of_def build_metadata_report_def build_with_env_def sample_metadata_deps_def)
  then obtain rep where rep: "report_of ?D r None ''startup'' = Some rep" by blast
  have "send_report r (Some rep) (\<lambda>_. Some 202) = ([Send (do_send r (mp_body rep))], Delivered 202)"
    by (simp add: send_report_def MAX_ATTEMPTS_def upt_rec)
  then have "([Send (do_send r (mp_body rep))], Delivered 202) \<in> set ?run"
    by (simp add: run_metadata_reporter_def r report_reason_of_def rep)
  from metadata_requests [OF this, of "do_send r (mp_body rep)"] show ?thesis by simp
qed

end
