(* ===== verification/Compat_Main.thy ===== *)
theory Compat_Main
  imports Mini_Agent Logs_Flusher Dsd_Flusher Metrics_Collector Metadata
begin

text \<open>
  The binary \<^verbatim>\<open>datadog-serverless-compat\<close>: \<^verbatim>\<open>main.rs\<close> reads its settings, starts the components and
  then flushes and collects at the ticks of three intervals until the process is killed.

  The components are those of the other theories; starting one gives its initial state. Third-party
  code is in \<open>main_deps\<close>: whether the log filter parses, whether the HTTP clients can be built.
\<close>

section \<open>Settings\<close>

definition CPU_METRICS_COLLECTION_INTERVAL_SECS :: nat where "CPU_METRICS_COLLECTION_INTERVAL_SECS = 1"
definition DOGSTATSD_FLUSH_INTERVAL :: nat where "DOGSTATSD_FLUSH_INTERVAL = 10"
definition INSTANCE_METRICS_COLLECTION_INTERVAL_SECS :: nat where "INSTANCE_METRICS_COLLECTION_INTERVAL_SECS = 3"
definition DEFAULT_LOG_INTAKE_PORT :: nat where "DEFAULT_LOG_INTAKE_PORT = 10517"
definition AGENT_HOST :: string where "AGENT_HOST = ''0.0.0.0''"
definition CONTEXTS :: nat where "CONTEXTS = 10240"

fun dogstatsd_tags :: "env_type \<Rightarrow> string" where
  "dogstatsd_tags CloudFunction = ''origin:cloudfunction,dd.origin:cloudfunction''"
| "dogstatsd_tags AzureFunction = ''origin:azurefunction,dd.origin:azurefunction''"
| "dogstatsd_tags AzureSpringApp = ''origin:azurespringapp,dd.origin:azurespringapp''"
| "dogstatsd_tags LambdaFunction = ''origin:lambda,dd.origin:lambda''"

definition decide_dogstatsd_port :: "bool \<Rightarrow> string option \<Rightarrow> nat" where
  "decide_dogstatsd_port has_pipe configured_port =
     (case Option.bind configured_port parse_u16 of
        Some port \<Rightarrow> port
      | None \<Rightarrow> if has_pipe then 0 else DEFAULT_DOGSTATSD_PORT)"

record enabled_components =
  start_metrics_aggregator_and_flusher :: bool
  start_dogstatsd_listener :: bool
  start_instance_metrics_collector :: bool
  start_cpu_metrics_collector :: bool

definition decide_metrics_components :: "bool \<Rightarrow> bool \<Rightarrow> bool \<Rightarrow> enabled_components" where
  "decide_metrics_components dd_use_dogstatsd instance_metric_enabled dd_enhanced_metrics =
     \<lparr>start_metrics_aggregator_and_flusher = (dd_use_dogstatsd \<or> instance_metric_enabled \<or> dd_enhanced_metrics),
      start_dogstatsd_listener = dd_use_dogstatsd, start_instance_metrics_collector = instance_metric_enabled,
      start_cpu_metrics_collector = dd_enhanced_metrics\<rparr>"

text \<open>What \<open>main\<close> reads before it starts anything; \<open>pipes\<close>: built with named pipes.\<close>

record main_settings =
  mz_log_level :: string
  mz_api_key :: "string option"
  mz_pipe_name :: "string option"
  mz_dogstatsd_port :: nat
  mz_site :: string
  mz_namespace :: "string option"
  mz_https_proxy :: "string option"
  mz_logs_enabled :: bool
  mz_logs_port :: nat
  mz_components :: enabled_components

definition main_settings :: "(string \<Rightarrow> string) \<Rightarrow> bool \<Rightarrow> env_vars \<Rightarrow> env_type \<Rightarrow> main_settings" where
  "main_settings lowercase pipes env env_type =
     (let pipe_name = (if pipes then map_option normalize_pipe (env ''DD_DOGSTATSD_WINDOWS_PIPE_NAME'') else None);
          not_false = (\<lambda>var. case env var of Some val \<Rightarrow> \<not> lower_is val ''false'' | None \<Rightarrow> True)
      in \<lparr>mz_log_level = (case env ''DD_LOG_LEVEL'' of Some val \<Rightarrow> lowercase val | None \<Rightarrow> ''info''),
          mz_api_key = env ''DD_API_KEY'', mz_pipe_name = pipe_name,
          mz_dogstatsd_port = decide_dogstatsd_port (pipe_name \<noteq> None) (env ''DD_DOGSTATSD_PORT''),
          mz_site = env_or env ''DD_SITE'' ''datadoghq.com'',
          mz_namespace = Option.bind (env ''DD_STATSD_METRIC_NAMESPACE'') parse_metric_namespace,
          mz_https_proxy = (case env ''DD_PROXY_HTTPS'' of Some p \<Rightarrow> Some p | None \<Rightarrow> env ''HTTPS_PROXY''),
          mz_logs_enabled = env_true env ''DD_LOGS_ENABLED'' False,
          mz_logs_port = env_port env ''DD_LOGS_PORT'' DEFAULT_LOG_INTAKE_PORT,
          mz_components = decide_metrics_components (not_false ''DD_USE_DOGSTATSD'') (env_type = AzureFunction)
            (env_type = AzureFunction \<and> not_false ''DD_ENHANCED_METRICS_ENABLED'')\<rparr>)"

section \<open>Starting\<close>

text \<open>
  \<open>mp_filter_ok\<close>: \<open>EnvFilter::try_new\<close> accepts the filter; \<open>mp_subscriber_ok\<close>: no global subscriber is
  set yet; \<open>mp_metrics_client\<close> and \<open>mp_log_client\<close>: the HTTP clients can be built with this proxy;
  \<open>mp_raw_endpoints\<close>: the JSON of the additional log endpoints; \<open>mp_bind_ok\<close>: the UDP socket can be bound
  to this host and port.
\<close>

record 'o main_deps =
  mp_config :: "'o config_deps"
  mp_lowercase :: "string \<Rightarrow> string"
  mp_filter_ok :: "string \<Rightarrow> bool"
  mp_subscriber_ok :: bool
  mp_metrics_client :: "string option \<Rightarrow> bool"
  mp_log_client :: "string option \<Rightarrow> bool"
  mp_raw_endpoints :: "string \<Rightarrow> string + raw_endpoint list"
  mp_bind_ok :: "string \<Rightarrow> nat \<Rightarrow> bool"
  mp_azure :: azure_deps
  mp_metadata :: metadata_deps

definition start_aggregator ::
  "'sk deps \<Rightarrow> 'o main_deps \<Rightarrow> main_settings \<Rightarrow> env_type \<Rightarrow>
   ('sk flusher option \<times> 'sk aggregator \<times> 'sk mailbox) rust" where
  "start_aggregator D P z env_type =
     (case service_new (case tags_parse D (dogstatsd_tags env_type) of Inr t \<Rightarrow> t | Inl _ \<Rightarrow> EMPTY_TAGS) CONTEXTS of
        Inl _ \<Rightarrow> Panic
      | Inr (service, handle) \<Rightarrow>
          (case mz_api_key z of
             None \<Rightarrow> Ret (None, service, handle)
           | Some dd_api_key \<Rightarrow>
               if \<not> mp_metrics_client P (mz_https_proxy z) then Ret (None, service, handle)
               else
                 (case site_new (mz_site z) of
                    Inl _ \<Rightarrow> Ret (None, service, handle)
                  | Inr site \<Rightarrow>
                      bind_rust (intake_prefix_new (Some site) None) (\<lambda>prefix.
                        case prefix of
                          Inl _ \<Rightarrow> Ret (None, service, handle)
                        | Inr prefix \<Rightarrow> Ret (Some (flusher_new prefix (LinearBackoff 3 1) 6), service, handle)))))"

definition start_dogstatsd :: "'o main_deps \<Rightarrow> main_settings \<Rightarrow> dogstatsd rust" where
  "start_dogstatsd P z =
     dogstatsd_new (cd_pipes (mp_config P)) (mp_bind_ok P AGENT_HOST (mz_dogstatsd_port z))
       \<lparr>c_host = AGENT_HOST, c_port = mz_dogstatsd_port z, c_metric_namespace = mz_namespace z,
        c_windows_pipe_name = mz_pipe_name z, c_so_rcvbuf = None, c_buffer_size = None, c_queue_size = None\<rparr>"

text \<open>The configuration of the log flusher and the port of the log server.\<close>

definition start_log_agent :: "'o main_deps \<Rightarrow> env_vars \<Rightarrow> main_settings \<Rightarrow> (logs_config \<times> nat) option" where
  "start_log_agent P env z =
     (case mz_api_key z of
        None \<Rightarrow> None
      | Some api_key \<Rightarrow>
          if \<not> mp_log_client P (mz_https_proxy z) then None
          else
            let config = (logs_config_from_env (mp_raw_endpoints P) env)\<lparr>lc_api_key := api_key\<rparr>
            in if lc_mode config = ObservabilityPipelinesWorker [] then None
               else Some (config, mz_logs_port z))"

record ('o, 'sk) started =
  sr_config :: "'o trace_config"
  sr_concentrator :: bool
  sr_metadata :: "reporter option"
  sr_aggregator :: "('sk aggregator \<times> 'sk mailbox) option"
  sr_flusher :: "'sk flusher option"
  sr_dogstatsd :: "dogstatsd option"
  sr_instance :: "instance_collector option"
  sr_cpu :: "cpu_collector option"
  sr_logs :: "(logs_config \<times> nat) option"

text \<open>The metrics components: aggregator and flusher, the listener, and the two collectors.\<close>

definition start_metrics ::
  "'sk deps \<Rightarrow> 'o main_deps \<Rightarrow> env_vars \<Rightarrow> env_type \<Rightarrow> nat \<Rightarrow> main_settings \<Rightarrow> ('o, 'sk) started \<Rightarrow> ('o, 'sk) started rust" where
  "start_metrics D P env env_type now z s =
     (let comps = mz_components z in
      if \<not> start_metrics_aggregator_and_flusher comps then Ret s
      else
        bind_rust (start_aggregator D P z env_type) (\<lambda>(flusher, aggregator).
          let s = s\<lparr>sr_flusher := flusher, sr_aggregator := Some aggregator\<rparr>;
              tags = build_enhanced_metrics_tags D (mp_azure P) env;
              inst = (if start_instance_metrics_collector comps \<and> flusher \<noteq> None
                      then instance_collector_new D (mp_azure P) (mp_lowercase P) tags else None);
              cpu = (if start_cpu_metrics_collector comps \<and> flusher \<noteq> None
                     then Some (cpu_collector_new tags now) else None)
          in if start_dogstatsd_listener comps
             then bind_rust (start_dogstatsd P z) (\<lambda>d. Ret (s\<lparr>sr_dogstatsd := Some d, sr_instance := inst, sr_cpu := cpu\<rparr>))
             else Ret (s\<lparr>sr_instance := inst, sr_cpu := cpu\<rparr>)))"

text \<open>\<open>main\<close> up to its loop: \<open>None\<close> when it returns before, \<open>Panic\<close> when it panics.\<close>

definition main_start ::
  "'sk deps \<Rightarrow> 'o main_deps \<Rightarrow> env_vars \<Rightarrow> nat \<Rightarrow> ('o, 'sk) started option rust" where
  "main_start D P env now =
     (case cd_read_cloud_env (mp_config P) of
        None \<Rightarrow> Ret None
      | Some (_, env_type) \<Rightarrow>
          let z = main_settings (mp_lowercase P) (cd_pipes (mp_config P)) env env_type
          in if \<not> mp_filter_ok P (''h2=off,hyper=off,rustls=off,'' @ mz_log_level z) \<or> \<not> mp_subscriber_ok P then Panic
             else
               bind_rust (trace_config_new (mp_config P) env) (\<lambda>config.
                 case config of
                   Inl _ \<Rightarrow> Ret None
                 | Inr c \<Rightarrow>
                     let s = \<lparr>sr_config = c, sr_concentrator = tc_agent_stats_computation_enabled c,
                           sr_metadata = reporter_new ((mp_metadata P)\<lparr>md_env := env\<rparr>) (mz_api_key z) (mz_site z)
                             (mz_https_proxy z) env_type,
                           sr_aggregator = None, sr_flusher = None, sr_dogstatsd = None, sr_instance = None,
                           sr_cpu = None, sr_logs = None\<rparr>
                     in bind_rust (start_metrics D P env env_type now z s) (\<lambda>s.
                          Ret (Some (s\<lparr>sr_logs := (if mz_logs_enabled z then start_log_agent P env z else None)\<rparr>)))))"

section \<open>The loop\<close>

text \<open>
  The log requests to be sent again, the state of the CPU collector, and the channel of the
  aggregator. A tick of the flush interval: the answers the log flush meets and what the log
  aggregator hands out. The second component of a step: whether a metrics flush was spawned. What such a
  flush gives back is dropped with its task, and the flusher the task works on is a clone.
\<close>

record 'sk main_state =
  mn_pending :: "builder list"
  mn_cpu :: "cpu_collector option"
  mn_mail :: "'sk mailbox"

datatype main_event =
    FlushTick logs_network "logs_handle_error + string list"
  | InstanceTick int int
  | CpuTick observation

fun main_step ::
  "'sk deps \<Rightarrow> logs_env \<Rightarrow> ('o, 'sk) started \<Rightarrow> main_event \<Rightarrow> 'sk main_state \<Rightarrow> ('sk main_state \<times> bool) option" where
  "main_step D E s (FlushTick net batches_result) st =
     Some (case sr_logs s of
             None \<Rightarrow> st
           | Some (config, _) \<Rightarrow>
               let failed = fst (logs_flush E net config batches_result (mn_pending st))
               in st\<lparr>mn_pending := failed\<rparr>,
           sr_flusher s \<noteq> None)"
| "main_step D E s (InstanceTick now now2) st =
     (case sr_instance s of
        None \<Rightarrow> None
      | Some collector \<Rightarrow> Some (st\<lparr>mn_mail := instance_collect_and_submit D now now2 collector (mn_mail st)\<rparr>, False))"
| "main_step D E s (CpuTick ob) st =
     (case mn_cpu st of
        None \<Rightarrow> None
      | Some collector \<Rightarrow>
          (case collect_and_submit D ob (collector, mn_mail st) of
             (collector', mail) \<Rightarrow> Some (st\<lparr>mn_cpu := Some collector', mn_mail := mail\<rparr>, False)))"

definition main_init :: "('o, 'sk) started \<Rightarrow> 'sk mailbox \<Rightarrow> 'sk main_state" where
  "main_init s mail = \<lparr>mn_pending = [], mn_cpu = sr_cpu s, mn_mail = mail\<rparr>"

fun main_run ::
  "'sk deps \<Rightarrow> logs_env \<Rightarrow> ('o, 'sk) started \<Rightarrow> main_event list \<Rightarrow> 'sk main_state \<Rightarrow> 'sk main_state option" where
  "main_run D E s [] st = Some st"
| "main_run D E s (ev # evs) st =
     (case main_step D E s ev st of None \<Rightarrow> None | Some (st', _) \<Rightarrow> main_run D E s evs st')"

section \<open>What is started\<close>

text \<open>The aggregator as it is started: empty, with the tags of the environment and room for the contexts.\<close>

definition fresh_aggregator :: "'sk deps \<Rightarrow> env_type \<Rightarrow> 'sk aggregator \<times> 'sk mailbox \<Rightarrow> bool" where
  "fresh_aggregator D et am \<longleftrightarrow>
     tags_parse D (dogstatsd_tags et) = Inr (a_tags (fst am)) \<and> a_map (fst am) = [] \<and> a_max_context (fst am) = 10240 \<and>
     mb_queue (snd am) = [] \<and> mb_open (snd am)"

lemma dogstatsd_tags_parse: "\<exists>t. tags_parse D (dogstatsd_tags et) = Inr t"
proof -
  have "length (remdups_adj (map parse_tag (filter (\<lambda>s. s \<noteq> []) (split_char CHR '','' (dogstatsd_tags et))))) \<le> 100"
    by (cases et) (rule le_trans [OF remdups_adj_length], simp)+
  then show ?thesis by (simp add: tags_parse_def Let_def MAX_TAGS_def)
qed

lemma start_aggregator_ret:
  fixes D :: "'sk deps"
  shows "\<exists>a. start_aggregator D P z et =
    Ret (if mz_api_key z \<noteq> None \<and> mp_metrics_client P (mz_https_proxy z) \<and> site_re (mz_site z)
         then Some (flusher_new (IntakePrefix (''https://api.'' @ mz_site z)) (LinearBackoff 3 1) 6) else None, a) \<and>
    fresh_aggregator D et a"
proof -
  obtain tags where tags: "tags_parse D (dogstatsd_tags et) = Inr tags" using dogstatsd_tags_parse by blast
  then have t: "(case tags_parse D (dogstatsd_tags et) of Inr t \<Rightarrow> t | Inl _ \<Rightarrow> EMPTY_TAGS) = tags" by simp
  obtain a :: "'sk aggregator" where "service_new tags CONTEXTS = Inr (a, \<lparr>mb_queue = [], mb_open = True\<rparr>)"
    "a_tags a = tags" "a_map a = []" "a_max_context a = 10240"
    by (simp add: service_new_def agg_new_def CONTEXTS_def MAX_CONTEXTS_def)
  then show ?thesis
    by (intro exI [of _ "(a, \<lparr>mb_queue = [], mb_open = True\<rparr>)"])
      (auto simp: start_aggregator_def t site_new_def fresh_aggregator_def tags split: option.split)
qed

lemma start_dogstatsd_panic:
  "start_dogstatsd P z = Panic \<longleftrightarrow>
    \<not> mp_bind_ok P AGENT_HOST (mz_dogstatsd_port z) \<and> \<not> (cd_pipes (mp_config P) \<and> mz_pipe_name z \<noteq> None)"
  by (auto simp: start_dogstatsd_def dogstatsd_new_def Let_def split: option.splits)

text \<open>Where the started listener listens: on the pipe, with UDP beside it on a port other than 0, or on UDP alone.\<close>

definition listens :: "'o main_deps \<Rightarrow> main_settings \<Rightarrow> dogstatsd \<Rightarrow> bool" where
  "listens P z d \<longleftrightarrow>
     d_metric_namespace d = mz_namespace z \<and> d_buf_size d = DEFAULT_BUFFER_SIZE \<and> d_queue_size d = DEFAULT_QUEUE_SIZE \<and>
     (case if cd_pipes (mp_config P) then mz_pipe_name z else None of
        Some pipe \<Rightarrow> d_transport d =
          NamedPipe_transport pipe (mz_dogstatsd_port z \<noteq> 0 \<and> mp_bind_ok P AGENT_HOST (mz_dogstatsd_port z))
      | None \<Rightarrow> d_transport d = Reader \<and> mp_bind_ok P AGENT_HOST (mz_dogstatsd_port z))"

lemma start_dogstatsd_listens: "start_dogstatsd P z = Ret d \<Longrightarrow> listens P z d"
  by (auto simp: start_dogstatsd_def dogstatsd_new_def listens_def size_or_default_def Let_def split: option.splits if_splits)

lemma start_metrics_ret:
  fixes D :: "'sk deps"
  assumes "start_metrics D P env et now z s = Ret s'"
  shows "sr_config s' = sr_config s \<and> sr_concentrator s' = sr_concentrator s \<and> sr_metadata s' = sr_metadata s \<and>
    (if start_metrics_aggregator_and_flusher (mz_components z)
     then (\<exists>am. sr_aggregator s' = Some am \<and> fresh_aggregator D et am) \<and>
       sr_flusher s' = (if mz_api_key z \<noteq> None \<and> mp_metrics_client P (mz_https_proxy z) \<and> site_re (mz_site z)
         then Some (flusher_new (IntakePrefix (''https://api.'' @ mz_site z)) (LinearBackoff 3 1) 6) else None) \<and>
       sr_cpu s' = (if start_cpu_metrics_collector (mz_components z) \<and> sr_flusher s' \<noteq> None
         then Some (cpu_collector_new (build_enhanced_metrics_tags D (mp_azure P) env) now) else None) \<and>
       sr_instance s' = (if start_instance_metrics_collector (mz_components z) \<and> sr_flusher s' \<noteq> None
         then instance_collector_new D (mp_azure P) (mp_lowercase P) (build_enhanced_metrics_tags D (mp_azure P) env) else None) \<and>
       (if start_dogstatsd_listener (mz_components z)
        then \<exists>d. sr_dogstatsd s' = Some d \<and> start_dogstatsd P z = Ret d \<and> listens P z d else sr_dogstatsd s' = sr_dogstatsd s)
     else s' = s)"
proof -
  define fl :: "'sk flusher option" where "fl = (if mz_api_key z \<noteq> None \<and> mp_metrics_client P (mz_https_proxy z) \<and> site_re (mz_site z)
         then Some (flusher_new (IntakePrefix (''https://api.'' @ mz_site z)) (LinearBackoff 3 1) 6) else None)"
  obtain ag mb where a: "start_aggregator D P z et = Ret (fl, ag, mb)" "fresh_aggregator D et (ag, mb)"
    using start_aggregator_ret unfolding fl_def by (metis prod.collapse)
  show ?thesis
  proof (cases "start_metrics_aggregator_and_flusher (mz_components z)")
    case True
    note s' = assms [unfolded start_metrics_def Let_def a(1) bind_rust.simps prod.case, simplified True, simplified]
    show ?thesis
    proof (cases "start_dogstatsd_listener (mz_components z)")
      case listener: True
      then obtain d where d: "start_dogstatsd P z = Ret d" using s' by (cases "start_dogstatsd P z") auto
      then show ?thesis using s' a(2) start_dogstatsd_listens [OF d] True listener unfolding fl_def [symmetric] by auto
    next
      case False
      then show ?thesis using s' a(2) True unfolding fl_def [symmetric] by auto
    qed
  qed (use assms in \<open>simp add: start_metrics_def Let_def\<close>)
qed

lemma main_start_Some:
  fixes D :: "'sk deps" and s :: "('o, 'sk) started"
  assumes "main_start D P env now = Ret (Some s)" "cd_read_cloud_env (mp_config P) = Some (app, et)"
    "z = main_settings (mp_lowercase P) (cd_pipes (mp_config P)) env et"
  obtains c s1 where "trace_config_new (mp_config P) env = Ret (Inr c)" "sr_config s = c"
    "start_metrics D P env et now z
       \<lparr>sr_config = c, sr_concentrator = tc_agent_stats_computation_enabled c,
        sr_metadata = reporter_new ((mp_metadata P)\<lparr>md_env := env\<rparr>) (mz_api_key z) (mz_site z) (mz_https_proxy z) et,
        sr_aggregator = None, sr_flusher = None, sr_dogstatsd = None, sr_instance = None, sr_cpu = None, sr_logs = None\<rparr> = Ret s1"
    "s = s1\<lparr>sr_logs := (if mz_logs_enabled z then start_log_agent P env z else None)\<rparr>"
proof -
  note e = assms(2)
  obtain r where r: "trace_config_new (mp_config P) env = Ret r"
    using assms(1) e by (cases "trace_config_new (mp_config P) env") (auto simp: main_start_def Let_def split: if_splits)
  then obtain c where "r = Inr c" using assms(1) e by (cases r) (auto simp: main_start_def Let_def split: if_splits)
  with r have c: "trace_config_new (mp_config P) env = Ret (Inr c)" by simp
  define s0 :: "('o, 'sk) started" where "s0 = \<lparr>sr_config = c, sr_concentrator = tc_agent_stats_computation_enabled c,
        sr_metadata = reporter_new ((mp_metadata P)\<lparr>md_env := env\<rparr>) (mz_api_key z) (mz_site z) (mz_https_proxy z) et,
        sr_aggregator = None, sr_flusher = None, sr_dogstatsd = None, sr_instance = None, sr_cpu = None, sr_logs = None\<rparr>"
  obtain s1 where s1: "start_metrics D P env et now z s0 = Ret s1"
    "s = s1\<lparr>sr_logs := (if mz_logs_enabled z then start_log_agent P env z else None)\<rparr>"
    using assms(1) e c by (auto simp: main_start_def Let_def bind_rust_Ret assms(3) s0_def split: if_splits)
  then have "sr_config s = c" using start_metrics_ret [OF s1(1)] by (simp add: s0_def)
  then show ?thesis using that c s1 unfolding s0_def by blast
qed

lemma trace_config_Inr:
  assumes "trace_config_new C env = Ret (Inr c)" "cd_read_cloud_env C = Some (app, et)"
  shows "\<exists>key ob peers. env ''DD_API_KEY'' = Some key \<and>
    c = config_record C env key app et ob (intake_urls C env (env_or env ''DD_SITE'' ''datadoghq.com'')) peers"
  using assms by (auto simp: trace_config_new_def Let_def split: option.splits sum.splits if_splits)

text \<open>
  When the binary has started, it has an API key, and the site, the API key, the proxy, the port
  and the pipe of DogStatsD that it read itself are those of the configuration of the trace agent.
\<close>

theorem main_settings_agree:
  assumes "main_start D P env now = Ret (Some s)" "cd_read_cloud_env (mp_config P) = Some (app, et)"
    and "z = main_settings (mp_lowercase P) (cd_pipes (mp_config P)) env et"
  shows "mz_api_key z \<noteq> None \<and> ep_api_key (tc_trace_intake (sr_config s)) = mz_api_key z \<and>
    tc_dd_site (sr_config s) = mz_site z \<and> tc_proxy_url (sr_config s) = mz_https_proxy z \<and>
    tc_dd_dogstatsd_port (sr_config s) = mz_dogstatsd_port z \<and>
    tc_dd_dogstatsd_windows_pipe_name (sr_config s) = mz_pipe_name z \<and> tc_env_type (sr_config s) = et"
proof -
  obtain c where c: "trace_config_new (mp_config P) env = Ret (Inr c)" "sr_config s = c"
    using main_start_Some [OF assms(1-3)] by blast
  obtain key ob peers where k: "env ''DD_API_KEY'' = Some key"
    "c = config_record (mp_config P) env key app et ob (intake_urls (mp_config P) env (env_or env ''DD_SITE'' ''datadoghq.com'')) peers"
    using trace_config_Inr [OF c(1) assms(2)] by blast
  show ?thesis
    unfolding c(2) k(2) assms(3)
    by (simp add: config_record_def main_settings_def Let_def k(1) mk_endpoint_def decide_dogstatsd_port_def env_port_def
        env_pipe_def split: prod.split option.split)
qed

definition unless_false :: "env_vars \<Rightarrow> string \<Rightarrow> bool" where
  "unless_false env var \<longleftrightarrow> (case env var of Some val \<Rightarrow> \<not> lower_is val ''false'' | None \<Rightarrow> True)"

text \<open>
  C40. What runs once the binary has started, and with what. The statistics concentrator when the trace
  configuration asks for it; the metadata reporter with the API key, site and proxy of the binary. The
  aggregator, empty, with the tags of the environment and room for 10240 contexts, when DogStatsD is not switched off
  or in an Azure function; with it the flusher to the API of the site, exactly when the HTTP client can be built and
  the site is valid, whatever the listener does. The DogStatsD listener exactly when it is not switched off, on
  the pipe or the port that was set and with the namespace. The collectors only with a flusher, so that
  nothing is collected that could not be sent: the one for CPU exactly in an Azure function unless switched off, and the
  one for instances exactly in an Azure function whose instance has a known name. Logs exactly when they
  are switched on, their client can be built and they do not go to a pipeline worker with an empty
  URL, with the configuration of the environment, the API key and the port that was set.
\<close>

theorem main_components:
  assumes "main_start D P env now = Ret (Some s)" "cd_read_cloud_env (mp_config P) = Some (app, et)"
    and "z = main_settings (mp_lowercase P) (cd_pipes (mp_config P)) env et"
    and "tags = build_enhanced_metrics_tags D (mp_azure P) env"
    and "logs = (logs_config_from_env (mp_raw_endpoints P) env)\<lparr>lc_api_key := the (env ''DD_API_KEY'')\<rparr>"
  shows "sr_concentrator s = tc_agent_stats_computation_enabled (sr_config s) \<and>
    sr_metadata s = reporter_new ((mp_metadata P)\<lparr>md_env := env\<rparr>) (env ''DD_API_KEY'') (mz_site z) (mz_https_proxy z) et \<and>
    (if unless_false env ''DD_USE_DOGSTATSD'' \<or> et = AzureFunction
     then (\<exists>am. sr_aggregator s = Some am \<and> fresh_aggregator D et am) \<and>
       sr_flusher s = (if mp_metrics_client P (mz_https_proxy z) \<and> site_re (mz_site z)
         then Some (flusher_new (IntakePrefix (''https://api.'' @ mz_site z)) (LinearBackoff 3 1) 6) else None)
     else sr_aggregator s = None \<and> sr_flusher s = None) \<and>
    (if unless_false env ''DD_USE_DOGSTATSD'' then \<exists>d. sr_dogstatsd s = Some d \<and> listens P z d else sr_dogstatsd s = None) \<and>
    sr_cpu s = (if et = AzureFunction \<and> unless_false env ''DD_ENHANCED_METRICS_ENABLED'' \<and> sr_flusher s \<noteq> None
      then Some (cpu_collector_new tags now) else None) \<and>
    sr_instance s = (if et = AzureFunction \<and> sr_flusher s \<noteq> None
      then instance_collector_new D (mp_azure P) (mp_lowercase P) tags else None) \<and>
    (sr_instance s \<noteq> None \<longleftrightarrow> et = AzureFunction \<and> sr_flusher s \<noteq> None \<and>
       (\<exists>m. az_metadata (mp_azure P) = Some m \<and> mp_lowercase P (fm_instance_name m) \<noteq> az_unknown (mp_azure P))) \<and>
    sr_logs s = (if env_true env ''DD_LOGS_ENABLED'' False \<and> mp_log_client P (mz_https_proxy z) \<and>
        lc_mode logs \<noteq> ObservabilityPipelinesWorker []
      then Some (logs, env_port env ''DD_LOGS_PORT'' 10517) else None)"
proof -
  obtain c s1 where m: "trace_config_new (mp_config P) env = Ret (Inr c)"
    "start_metrics D P env et now z
       \<lparr>sr_config = c, sr_concentrator = tc_agent_stats_computation_enabled c,
        sr_metadata = reporter_new ((mp_metadata P)\<lparr>md_env := env\<rparr>) (mz_api_key z) (mz_site z) (mz_https_proxy z) et,
        sr_aggregator = None, sr_flusher = None, sr_dogstatsd = None, sr_instance = None, sr_cpu = None, sr_logs = None\<rparr> = Ret s1"
    "s = s1\<lparr>sr_logs := (if mz_logs_enabled z then start_log_agent P env z else None)\<rparr>"
    "sr_config s = c"
    by (rule main_start_Some [OF assms(1-3)])
  have z: "mz_api_key z = env ''DD_API_KEY''" "mz_logs_enabled z = env_true env ''DD_LOGS_ENABLED'' False"
    "mz_logs_port z = env_port env ''DD_LOGS_PORT'' 10517"
    by (simp_all add: assms(3) main_settings_def Let_def DEFAULT_LOG_INTAKE_PORT_def)
  obtain key where key: "env ''DD_API_KEY'' = Some key" using trace_config_Inr [OF m(1) assms(2)] by auto
  have comps: "start_dogstatsd_listener (mz_components z) \<longleftrightarrow> unless_false env ''DD_USE_DOGSTATSD''"
    "start_metrics_aggregator_and_flusher (mz_components z) \<longleftrightarrow> unless_false env ''DD_USE_DOGSTATSD'' \<or> et = AzureFunction"
    "start_cpu_metrics_collector (mz_components z) \<longleftrightarrow> et = AzureFunction \<and> unless_false env ''DD_ENHANCED_METRICS_ENABLED''"
    "start_instance_metrics_collector (mz_components z) \<longleftrightarrow> et = AzureFunction"
    by (auto simp: assms(3) main_settings_def Let_def decide_metrics_components_def unless_false_def)
  have keep: "sr_aggregator s = sr_aggregator s1" "sr_flusher s = sr_flusher s1" "sr_cpu s = sr_cpu s1"
    "sr_instance s = sr_instance s1" "sr_dogstatsd s = sr_dogstatsd s1" "sr_concentrator s = sr_concentrator s1"
    "sr_metadata s = sr_metadata s1" "sr_config s1 = c"
    using m(4) by (simp_all add: m(3))
  note r = start_metrics_ret [OF m(2), unfolded comps z(1), simplified started.simps]
  have inst: "instance_collector_new D (mp_azure P) (mp_lowercase P) tags \<noteq> None \<longleftrightarrow>
      (\<exists>m. az_metadata (mp_azure P) = Some m \<and> mp_lowercase P (fm_instance_name m) \<noteq> az_unknown (mp_azure P))"
    by (auto simp: instance_collector_new_def Let_def split: option.split)
  have "sr_instance s = (if et = AzureFunction \<and> sr_flusher s \<noteq> None
      then instance_collector_new D (mp_azure P) (mp_lowercase P) tags else None)"
    using r unfolding keep assms(4) by (auto split: if_splits)
  moreover from this have "sr_instance s \<noteq> None \<longleftrightarrow> et = AzureFunction \<and> sr_flusher s \<noteq> None \<and>
       (\<exists>m. az_metadata (mp_azure P) = Some m \<and> mp_lowercase P (fm_instance_name m) \<noteq> az_unknown (mp_azure P))"
    using inst by simp
  moreover have "sr_cpu s = (if et = AzureFunction \<and> unless_false env ''DD_ENHANCED_METRICS_ENABLED'' \<and> sr_flusher s \<noteq> None
      then Some (cpu_collector_new tags now) else None)"
    using r unfolding keep assms(4) by (auto split: if_splits)
  moreover have "if unless_false env ''DD_USE_DOGSTATSD'' then \<exists>d. sr_dogstatsd s = Some d \<and> listens P z d else sr_dogstatsd s = None"
    using r unfolding keep by (auto split: if_splits)
  moreover have "if unless_false env ''DD_USE_DOGSTATSD'' \<or> et = AzureFunction
     then (\<exists>am. sr_aggregator s = Some am \<and> fresh_aggregator D et am) \<and>
       sr_flusher s = (if mp_metrics_client P (mz_https_proxy z) \<and> site_re (mz_site z)
         then Some (flusher_new (IntakePrefix (''https://api.'' @ mz_site z)) (LinearBackoff 3 1) 6) else None)
     else sr_aggregator s = None \<and> sr_flusher s = None"
    using r key unfolding keep by (cases "unless_false env ''DD_USE_DOGSTATSD'' \<or> et = AzureFunction") simp_all
  moreover have "sr_concentrator s = tc_agent_stats_computation_enabled (sr_config s)"
    "sr_metadata s = reporter_new ((mp_metadata P)\<lparr>md_env := env\<rparr>) (env ''DD_API_KEY'') (mz_site z) (mz_https_proxy z) et"
    using r unfolding keep m(4) by simp_all
  moreover have "sr_logs s = (if env_true env ''DD_LOGS_ENABLED'' False \<and> mp_log_client P (mz_https_proxy z) \<and>
        lc_mode logs \<noteq> ObservabilityPipelinesWorker []
      then Some (logs, env_port env ''DD_LOGS_PORT'' 10517) else None)"
    by (simp add: m(3) start_log_agent_def z key assms(5) Let_def)
  ultimately show ?thesis by (intro conjI)
qed

lemma start_metrics_panic:
  "start_metrics D P env et now z s = Panic \<longleftrightarrow>
   start_metrics_aggregator_and_flusher (mz_components z) \<and> start_dogstatsd_listener (mz_components z) \<and> start_dogstatsd P z = Panic"
proof -
  obtain f a where "start_aggregator D P z et = Ret (f, a)" using start_aggregator_ret by blast
  then show ?thesis by (cases "start_dogstatsd P z") (auto simp: start_metrics_def Let_def)
qed

lemma ex_settings: "x = Some (a, b) \<Longrightarrow> (\<exists>app et z. x = Some (app, et) \<and> z = F et \<and> Q z) \<longleftrightarrow> Q (F b)"
  by auto

text \<open>
  The start panics only for a log level the filter does not accept, a second subscriber, an intake
  URL that is not a URI, or a UDP socket that cannot be bound when no pipe is used.
\<close>

theorem main_start_panics:
  fixes D :: "'sk deps" and P :: "'o main_deps"
  shows "main_start D P env now = Panic \<longleftrightarrow>
   (\<exists>app et z. cd_read_cloud_env (mp_config P) = Some (app, et) \<and>
      z = main_settings (mp_lowercase P) (cd_pipes (mp_config P)) env et \<and>
      (\<not> mp_filter_ok P (''h2=off,hyper=off,rustls=off,'' @ mz_log_level z) \<or> \<not> mp_subscriber_ok P \<or>
       trace_config_new (mp_config P) env = Panic \<or>
       ((\<exists>c. trace_config_new (mp_config P) env = Ret (Inr c)) \<and> start_dogstatsd_listener (mz_components z) \<and>
        \<not> mp_bind_ok P AGENT_HOST (mz_dogstatsd_port z) \<and> \<not> (cd_pipes (mp_config P) \<and> mz_pipe_name z \<noteq> None))))"
proof (cases "cd_read_cloud_env (mp_config P)")
  case (Some ae)
  obtain app et where ae: "ae = (app, et)" by fastforce
  define z where "z = main_settings (mp_lowercase P) (cd_pipes (mp_config P)) env et"
  have l: "start_dogstatsd_listener (mz_components z) \<Longrightarrow> start_metrics_aggregator_and_flusher (mz_components z)"
    by (auto simp: z_def main_settings_def decide_metrics_components_def Let_def)
  have bp: "bind_rust x (\<lambda>s. Ret (Some (G s))) = Panic \<longleftrightarrow> x = Panic" for x :: "('o, 'sk) started rust" and G :: "('o, 'sk) started \<Rightarrow> ('o, 'sk) started"
    by (cases x) auto
  have tc: "t = Panic \<or> (\<exists>e. t = Ret (Inl e)) \<or> (\<exists>c. t = Ret (Inr c))" for t :: "(config_error + 'o trace_config) rust"
    by (cases t; cases "case t of Ret r \<Rightarrow> r | Panic \<Rightarrow> undefined") auto
  define good where "good = (mp_filter_ok P (''h2=off,hyper=off,rustls=off,'' @ mz_log_level z) \<and> mp_subscriber_ok P)"
  have good: "\<not> mp_filter_ok P (''h2=off,hyper=off,rustls=off,'' @ mz_log_level z) \<or> \<not> mp_subscriber_ok P \<longleftrightarrow> \<not> good"
    by (simp add: good_def)
  have z: "main_settings (mp_lowercase P) (cd_pipes (mp_config P)) env et = z" by (simp add: z_def)
  show ?thesis
    unfolding ex_settings [OF Some [unfolded ae]] z disj_assoc [symmetric] good
    unfolding main_start_def Some ae option.case prod.case Let_def z good
    using l tc [of "trace_config_new (mp_config P) env"]
    by (elim disjE exE) (auto simp: bp start_metrics_panic start_dogstatsd_panic)
qed (simp add: main_start_def)

section \<open>Log requests over the life of the process\<close>

definition new_requests :: "logs_env \<Rightarrow> logs_config \<Rightarrow> main_event \<Rightarrow> builder list" where
  "new_requests E c ev = (case ev of FlushTick net (Inr batches) \<Rightarrow> map (primary_request E c) batches | _ \<Rightarrow> [])"

text \<open>The requests that a tick settles: one of their attempts was accepted or permanently refused.\<close>

definition settled_requests :: "logs_env \<Rightarrow> logs_config \<Rightarrow> main_event \<Rightarrow> builder list \<Rightarrow> builder list" where
  "settled_requests E c ev pending =
     (case ev of
        FlushTick net res \<Rightarrow>
          map snd (filter (\<lambda>(i, b). \<not> undelivered E (net (Redrive i)) b) (enumerate 0 pending)) @
          (case res of
             Inl _ \<Rightarrow> []
           | Inr batches \<Rightarrow> map (\<lambda>(i, batch). primary_request E c batch)
               (filter (\<lambda>(i, batch). \<not> undelivered E (net (Primary i)) (primary_request E c batch)) (enumerate 0 batches)))
      | _ \<Rightarrow> [])"

fun settled_run :: "'sk deps \<Rightarrow> logs_env \<Rightarrow> ('o, 'sk) started \<Rightarrow> logs_config \<Rightarrow> main_event list \<Rightarrow> 'sk main_state \<Rightarrow> builder list" where
  "settled_run D E s c [] st = []"
| "settled_run D E s c (ev # evs) st =
     settled_requests E c ev (mn_pending st) @
     (case main_step D E s ev st of None \<Rightarrow> [] | Some (st', _) \<Rightarrow> settled_run D E s c evs st')"

lemma enumerate_split:
  "mset (map f (filter P (enumerate n xs))) + mset (map f (filter (\<lambda>x. \<not> P x) (enumerate n xs))) = mset (map f (enumerate n xs))"
  by (metis image_mset_union mset_filter mset_map multiset_partition)

lemma main_step_logs:
  assumes "main_step D E s ev st = Some (st', b)" "sr_logs s = Some (c, port)"
  shows "mset (mn_pending st') + mset (settled_requests E c ev (mn_pending st)) =
    mset (mn_pending st) + mset (new_requests E c ev)"
proof (cases ev)
  case (FlushTick net res)
  then have st': "mn_pending st' = fst (logs_flush E net c res (mn_pending st))" using assms by (auto simp: Let_def)
  have old: "mset (map snd (filter (\<lambda>(i, b). undelivered E (net (Redrive i)) b) (enumerate 0 (mn_pending st)))) +
      mset (map snd (filter (\<lambda>(i, b). \<not> undelivered E (net (Redrive i)) b) (enumerate 0 (mn_pending st)))) = mset (mn_pending st)"
    using enumerate_split [of snd "\<lambda>(i, b). undelivered E (net (Redrive i)) b" 0 "mn_pending st"] by (simp add: split_def)
  show ?thesis
  proof (cases res)
    case (Inl e)
    then show ?thesis using old by (simp add: st' FlushTick logs_flush_gives_back settled_requests_def new_requests_def)
  next
    case (Inr bs)
    have "map (\<lambda>(i, batch). primary_request E c batch) (enumerate 0 bs) = map (primary_request E c) bs"
      by (simp add: split_def flip: map_map [of _ snd, unfolded comp_def])
    then have "mset (map (\<lambda>(i, batch). primary_request E c batch)
          (filter (\<lambda>(i, batch). undelivered E (net (Primary i)) (primary_request E c batch)) (enumerate 0 bs))) +
        mset (map (\<lambda>(i, batch). primary_request E c batch)
          (filter (\<lambda>(i, batch). \<not> undelivered E (net (Primary i)) (primary_request E c batch)) (enumerate 0 bs))) =
        mset (map (primary_request E c) bs)"
      using enumerate_split [of "\<lambda>(i, batch). primary_request E c batch"
          "\<lambda>(i, batch). undelivered E (net (Primary i)) (primary_request E c batch)" 0 bs] by (simp add: split_def)
    then show ?thesis using old
      by (simp add: st' FlushTick Inr logs_flush_gives_back settled_requests_def new_requests_def ac_simps)
  qed
qed (use assms in \<open>auto simp: settled_requests_def new_requests_def split: option.splits prod.splits\<close>)

text \<open>
  C30. Over any run of the loop, every log request that was built for a batch is either settled exactly
  once or still pending at the end, and nothing else is: no transient failure loses a batch or sends
  it again after it was accepted.
\<close>

theorem main_logs_conserved:
  assumes "sr_logs s = Some (c, port)" "main_run D E s evs (main_init s mail) = Some st'"
  shows "mset (mn_pending st') + mset (settled_run D E s c evs (main_init s mail)) = mset (concat (map (new_requests E c) evs))"
proof -
  have "mset (mn_pending st') + mset (settled_run D E s c evs st) = mset (mn_pending st) + mset (concat (map (new_requests E c) evs))"
    if "main_run D E s evs st = Some st'" for st
    using that
  proof (induction evs arbitrary: st)
    case (Cons ev evs)
    obtain st1 b where m: "main_step D E s ev st = Some (st1, b)" using Cons.prems by (auto split: option.splits)
    then have "mset (mn_pending st') + mset (settled_run D E s c evs st1) = mset (mn_pending st1) + mset (concat (map (new_requests E c) evs))"
      using Cons by simp
    moreover have "mset (mn_pending st1) + mset (settled_requests E c ev (mn_pending st)) = mset (mn_pending st) + mset (new_requests E c ev)"
      using main_step_logs [OF m assms(1)] .
    ultimately have "mset (mn_pending st') + mset (settled_run D E s c evs st1) + mset (settled_requests E c ev (mn_pending st)) =
        mset (mn_pending st) + mset (new_requests E c ev) + mset (concat (map (new_requests E c) evs))"
      by (metis (no_types) union_assoc union_commute)
    then show ?case using m by (simp add: ac_simps)
  qed simp
  from this [OF assms(2)] show ?thesis by (simp add: main_init_def)
qed

text \<open>A tick whose first attempts are all answered definitely leaves nothing pending, whatever had failed before.\<close>

theorem main_logs_recover:
  assumes "sr_logs s = Some (c, port)" "\<And>t. \<not> transient (net t 1)"
    and "main_step D E s (FlushTick net res) st = Some (st', b)"
  shows "mn_pending st' = []"
proof -
  have "\<not> undelivered E (net t) x" for t x using assms(2) by (simp add: undelivered_def)
  then show ?thesis using assms(1,3) by (auto simp: logs_flush_gives_back Let_def split: sum.splits)
qed

section \<open>Witnesses\<close>

definition sample_config_deps :: "unit config_deps" where
  "sample_config_deps =
     \<lparr>cd_read_cloud_env = Some (''app'', AzureFunction), cd_trace_intake_url = (\<lambda>s. s),
      cd_trace_stats_url = (\<lambda>s. s), cd_trace_intake_url_prefixed = (\<lambda>s. s), cd_trace_stats_url_prefixed = (\<lambda>s. s),
      cd_obfuscation = Inr (), cd_mappings = Inr [], cd_uri_ok = (\<lambda>u. True), cd_os = ''linux'', cd_pipes = False\<rparr>"

definition sample_main_deps :: "unit main_deps" where
  "sample_main_deps =
     \<lparr>mp_config = sample_config_deps, mp_lowercase = id, mp_filter_ok = (\<lambda>_. True), mp_subscriber_ok = True,
      mp_metrics_client = (\<lambda>_. True), mp_log_client = (\<lambda>_. True), mp_raw_endpoints = (\<lambda>_. Inr []), mp_bind_ok = (\<lambda>h p. True),
      mp_azure = sample_azure, mp_metadata = sample_metadata_deps\<rparr>"

definition sample_vars :: env_vars where
  "sample_vars = [''DD_API_KEY'' \<mapsto> ''k'', ''DD_LOGS_ENABLED'' \<mapsto> ''true'']"

definition sample_started :: "(unit, fl list) started" where
  "sample_started = (case main_start sample_deps sample_main_deps sample_vars 0 of Ret (Some s) \<Rightarrow> s)"

lemma main_start_ok:
  assumes "cd_read_cloud_env (mp_config P) = Some (app, et)" "z = main_settings (mp_lowercase P) (cd_pipes (mp_config P)) env et"
    and "\<And>f. mp_filter_ok P f" "mp_subscriber_ok P" "trace_config_new (mp_config P) env = Ret (Inr c)" "\<And>h p. mp_bind_ok P h p"
  shows "\<exists>s. main_start D P env now = Ret (Some s) \<and> sr_logs s = (if mz_logs_enabled z then start_log_agent P env z else None)"
proof -
  define g where "g = (\<lambda>s. case start_metrics D P env et now z s of Ret s' \<Rightarrow> s')"
  have "start_metrics D P env et now z s \<noteq> Panic" for s
    using assms(6) by (simp add: start_metrics_panic start_dogstatsd_panic)
  then have f: "start_metrics D P env et now z s = Ret (g s)" for s
    by (cases "start_metrics D P env et now z s") (auto simp: g_def)
  show ?thesis unfolding main_start_def assms(1,5) option.case prod.case Let_def assms(2) [symmetric]
    by (simp only: assms(3,4) f bind_rust.simps sum.case simp_thms if_False) simp
qed

definition sample_settings :: main_settings where
  "sample_settings = main_settings id False sample_vars AzureFunction"

lemma sample_settings_values:
  "mz_api_key sample_settings = Some ''k''" "mz_logs_enabled sample_settings" "mz_site sample_settings = ''datadoghq.com''"
  "mz_https_proxy sample_settings = None"
  by (simp_all add: sample_settings_def main_settings_def sample_vars_def env_true_def env_or_def lower_is_def to_ascii_lower_def byte_def Let_def)

lemma sample_logs: "start_log_agent sample_main_deps sample_vars sample_settings = Some (the (start_log_agent sample_main_deps sample_vars sample_settings))"
  by (simp add: start_log_agent_def sample_settings_values sample_main_deps_def logs_config_from_env_def sample_vars_def Let_def)

lemma sample_config: "\<exists>c. trace_config_new sample_config_deps sample_vars = Ret (Inr c)"
  by (simp add: trace_config_new_def sample_config_deps_def sample_vars_def Let_def urls_ok_def intake_urls_def env_or_def
      peer_tag_keys_def PEER_TAG_CONCEPTS_def split: prod.split)

lemma sample_start:
  "main_start sample_deps sample_main_deps sample_vars 0 = Ret (Some sample_started)"
  "sr_logs sample_started = start_log_agent sample_main_deps sample_vars sample_settings"
proof -
  obtain s where "main_start sample_deps sample_main_deps sample_vars 0 = Ret (Some s)"
    "sr_logs s = start_log_agent sample_main_deps sample_vars sample_settings"
    using sample_config main_start_ok [of sample_main_deps "''app''" AzureFunction sample_settings sample_vars _ sample_deps 0]
    by (auto simp: sample_main_deps_def sample_config_deps_def sample_settings_def sample_settings_values [unfolded sample_settings_def])
  then show "main_start sample_deps sample_main_deps sample_vars 0 = Ret (Some sample_started)"
    "sr_logs sample_started = start_log_agent sample_main_deps sample_vars sample_settings"
    by (simp_all add: sample_started_def)
qed

lemma sample_env_type: "cd_read_cloud_env (mp_config sample_main_deps) = Some (''app'', AzureFunction)"
  "sample_settings = main_settings (mp_lowercase sample_main_deps) (cd_pipes (mp_config sample_main_deps)) sample_vars AzureFunction"
  by (simp_all add: sample_main_deps_def sample_config_deps_def sample_settings_def)

theorem main_settings_agree_witness: "tc_dd_site (sr_config sample_started) = ''datadoghq.com''"
  using main_settings_agree [OF sample_start(1) sample_env_type] by (simp add: sample_settings_values)

theorem main_components_witness: "sr_flusher sample_started \<noteq> None \<and> sr_dogstatsd sample_started \<noteq> None"
proof -
  have "site_re ''datadoghq.com''" by code_simp
  moreover have "mp_metrics_client sample_main_deps f" for f by (simp add: sample_main_deps_def)
  moreover have "unless_false sample_vars ''DD_USE_DOGSTATSD''" by (simp add: unless_false_def sample_vars_def)
  moreover note main_components [OF sample_start(1) sample_env_type refl refl]
  ultimately show ?thesis unfolding sample_settings_values by auto
qed

definition sample_logs_env :: logs_env where
  "sample_logs_env = \<lparr>le_zstd = (\<lambda>l x. None), le_can_clone = (\<lambda>b. True)\<rparr>"

abbreviation sample_logs_config :: logs_config where
  "sample_logs_config \<equiv> fst (the (start_log_agent sample_main_deps sample_vars sample_settings))"

theorem main_logs_conserved_witness:
  "\<exists>st'. main_run sample_deps sample_logs_env sample_started
      [FlushTick (\<lambda>t k. Response 503) (Inr [''[1]'']), FlushTick (\<lambda>t k. Response 503) (Inr [''[2]''])]
      (main_init sample_started \<lparr>mb_queue = [], mb_open = True\<rparr>) = Some st' \<and>
    mset (mn_pending st') + mset (settled_run sample_deps sample_logs_env sample_started sample_logs_config
      [FlushTick (\<lambda>t k. Response 503) (Inr [''[1]'']), FlushTick (\<lambda>t k. Response 503) (Inr [''[2]''])]
      (main_init sample_started \<lparr>mb_queue = [], mb_open = True\<rparr>)) =
    {#primary_request sample_logs_env sample_logs_config ''[1]'', primary_request sample_logs_env sample_logs_config ''[2]''#}"
proof -
  let ?evs = "[FlushTick (\<lambda>t k. Response 503) (Inr [''[1]'']), FlushTick (\<lambda>t k. Response 503) (Inr [''[2]''])]"
  let ?st = "main_init sample_started \<lparr>mb_queue = [], mb_open = True\<rparr>"
  obtain st' where run: "main_run sample_deps sample_logs_env sample_started ?evs ?st = Some st'" by simp
  have "sr_logs sample_started = Some (sample_logs_config, snd (the (start_log_agent sample_main_deps sample_vars sample_settings)))"
    using sample_logs by (simp add: sample_start(2))
  note main_logs_conserved [OF this run]
  also have "concat (map (new_requests sample_logs_env sample_logs_config) ?evs) =
      [primary_request sample_logs_env sample_logs_config ''[1]'', primary_request sample_logs_env sample_logs_config ''[2]'']"
    by (simp add: new_requests_def)
  finally show ?thesis using run by (intro exI [of _ st'] conjI) (simp_all only: mset.simps)
qed

theorem main_logs_recover_witness:
  "\<exists>st' b. main_step sample_deps sample_logs_env sample_started (FlushTick (\<lambda>t k. Response 202) (Inr [''[2]'']))
      \<lparr>mn_pending = [primary_request sample_logs_env sample_logs_config ''[1]''], mn_cpu = None, mn_mail = \<lparr>mb_queue = [], mb_open = True\<rparr>\<rparr> = Some (st', b) \<and>
    mn_pending st' = []"
proof -
  let ?st = "\<lparr>mn_pending = [primary_request sample_logs_env sample_logs_config ''[1]''], mn_cpu = None, mn_mail = \<lparr>mb_queue = [], mb_open = True\<rparr>\<rparr> :: fl list main_state"
  obtain st' b where step: "main_step sample_deps sample_logs_env sample_started (FlushTick (\<lambda>t k. Response 202) (Inr [''[2]''])) ?st = Some (st', b)"
    by simp
  have "sr_logs sample_started = Some (sample_logs_config, snd (the (start_log_agent sample_main_deps sample_vars sample_settings)))"
    using sample_logs by (simp add: sample_start(2))
  from main_logs_recover [OF this _ step] have "mn_pending st' = []" by (simp add: status_success_def)
  then show ?thesis using step by blast
qed

theorem main_start_panics_witness:
  "main_start sample_deps (sample_main_deps\<lparr>mp_subscriber_ok := False\<rparr>) sample_vars 0 = Panic"
  unfolding main_start_panics by (simp add: sample_main_deps_def sample_config_deps_def)

end
