(* ===== verification/Log_Filter.thy ===== *)
theory Log_Filter
  imports Decimal
begin

text \<open>
  The crate \<^verbatim>\<open>datadog-serverless-logging\<close>: building a log filter from a base filter and the entries
  of \<^verbatim>\<open>DD_LOG_LEVEL_BY_TARGET\<close>.

  \<open>EnvFilter\<close> and \<open>Directive\<close> of the tracing crate are the type parameters \<open>'f\<close> and \<open>'d\<close>, with
  their operations in \<open>filter_deps\<close>.
\<close>

section \<open>The filter\<close>

record ('f, 'd) filter_deps =
  fd_try_new :: "string \<Rightarrow> string + 'f"
  fd_add_directive :: "'f \<Rightarrow> 'd \<Rightarrow> 'f"
  fd_parse :: "string \<Rightarrow> 'd option"

definition LEVEL_BY_TARGET_ENV_VAR :: string where "LEVEL_BY_TARGET_ENV_VAR = ''DD_LOG_LEVEL_BY_TARGET''"

text \<open>A text contains a character of white space: one starts at some position.\<close>

fun contains_whitespace :: "string \<Rightarrow> bool" where
  "contains_whitespace [] = False"
| "contains_whitespace (c # s) = (ws_prefix (c # s) > 0 \<or> contains_whitespace s)"

definition valid_target :: "string \<Rightarrow> bool" where
  "valid_target target = (target \<noteq> [] \<and> \<not> (contains_whitespace target \<or> list_ex (\<lambda>c. c \<in> set ''[]{}'') target))"

definition valid_level :: "string \<Rightarrow> bool" where
  "valid_level level = (map to_ascii_lower level \<in> set [''off'', ''error'', ''warn'', ''info'', ''debug'', ''trace''])"

definition parse_target_level :: "('f, 'd) filter_deps \<Rightarrow> string \<Rightarrow> 'd option" where
  "parse_target_level D entry =
     (case split_once CHR ''='' entry of
        None \<Rightarrow> None
      | Some (target, level) \<Rightarrow>
          let target = trim target; level = trim level
          in if \<not> (valid_target target \<and> valid_level level) then None else fd_parse D (target @ ''='' @ level))"

definition level_entries :: "string \<Rightarrow> string list" where
  "level_entries levels_by_target = filter (\<lambda>e. e \<noteq> []) (map trim (split_char CHR '','' levels_by_target))"

fun add_entries :: "('f, 'd) filter_deps \<Rightarrow> string list \<Rightarrow> 'f \<times> string list \<Rightarrow> 'f \<times> string list" where
  "add_entries D [] acc = acc"
| "add_entries D (entry # es) (env_filter, invalid_entries) =
     (case parse_target_level D entry of
        Some directive \<Rightarrow> add_entries D es (fd_add_directive D env_filter directive, invalid_entries)
      | None \<Rightarrow> add_entries D es (env_filter, invalid_entries @ [entry]))"

definition build_env_filter :: "('f, 'd) filter_deps \<Rightarrow> string \<Rightarrow> string \<Rightarrow> string + 'f \<times> string list" where
  "build_env_filter D base levels_by_target =
     (case fd_try_new D base of
        Inl e \<Rightarrow> Inl e
      | Inr env_filter \<Rightarrow> Inr (add_entries D (level_entries levels_by_target) (env_filter, [])))"

section \<open>Properties\<close>

lemma add_entries_split:
  "add_entries D es (f, bad) =
     (fold (\<lambda>d f. fd_add_directive D f d) (List.map_filter (parse_target_level D) es) f,
      bad @ filter (\<lambda>e. parse_target_level D e = None) es)"
  by (induction es arbitrary: f bad) (auto simp: map_filter_simps split: option.split)

text \<open>An entry that is used names a target and a level, with nothing in it that would change another default.\<close>

lemma parse_target_level_Some:
  "parse_target_level D entry = Some d \<longleftrightarrow>
   (\<exists>t l. entry = t @ ''='' @ l \<and> CHR ''='' \<notin> set t \<and> valid_target (trim t) \<and> valid_level (trim l) \<and>
     fd_parse D (trim t @ ''='' @ trim l) = Some d)"
proof -
  have "parse_target_level D entry = Some d \<longleftrightarrow> (\<exists>t l. split_once CHR ''='' entry = Some (t, l) \<and>
      valid_target (trim t) \<and> valid_level (trim l) \<and> fd_parse D (trim t @ ''='' @ trim l) = Some d)"
    by (auto simp: parse_target_level_def Let_def split: option.split)
  then show ?thesis by (simp only: split_once_Some append_Cons append_Nil conj_assoc)
qed

text \<open>
  The filter is the base filter with the directives of the entries that are well formed, in the order
  written, and the entries handed back are exactly the others, in the order written: a typo costs its
  own entry only. A directive always names a target and one of the six levels, so no entry can replace
  the default level or use another form of filter.
\<close>

theorem env_filter_entries:
  "build_env_filter D base levels =
     (case fd_try_new D base of
        Inl e \<Rightarrow> Inl e
      | Inr f \<Rightarrow> Inr (fold (\<lambda>d f. fd_add_directive D f d) (List.map_filter (parse_target_level D) (level_entries levels)) f,
                   filter (\<lambda>e. \<not> (\<exists>t l d. e = t @ ''='' @ l \<and> CHR ''='' \<notin> set t \<and> valid_target (trim t) \<and>
                     valid_level (trim l) \<and> fd_parse D (trim t @ ''='' @ trim l) = Some d)) (level_entries levels)))"
proof -
  have "parse_target_level D e = None \<longleftrightarrow> \<not> (\<exists>t l d. e = t @ ''='' @ l \<and> CHR ''='' \<notin> set t \<and> valid_target (trim t) \<and>
      valid_level (trim l) \<and> fd_parse D (trim t @ ''='' @ trim l) = Some d)" for e
    using parse_target_level_Some [of D e] by (metis not_None_eq)
  then show ?thesis by (simp add: build_env_filter_def add_entries_split split: sum.split)
qed

text \<open>On a small input: one entry with blanks, one with no level, one with a span filter.\<close>

lemma env_filter_sample:
  "build_env_filter \<lparr>fd_try_new = \<lambda>b. Inr [b], fd_add_directive = \<lambda>f d. f @ [d], fd_parse = Some\<rparr> ''info''
     '' dogstatsd = WARN,debug,[span]=info,,a=trace'' =
   Inr ([''info'', ''dogstatsd=WARN'', ''a=trace''], [''debug'', ''[span]=info''])"
  by code_simp

end
