(* ===== verification/Tls_Distrust.thy ===== *)
theory Tls_Distrust
  imports Prelude
begin

text \<open>
  The crate \<^verbatim>\<open>datadog-fips\<close>: \<^verbatim>\<open>certificate_distrust.rs\<close>, which refuses compromised public keys in the
  certificates a server presents and in the trust anchors, and \<^verbatim>\<open>reqwest_adapter.rs\<close>, which builds
  the HTTP client with it.

  A DER encoding is the list of its bytes. The types of rustls are type parameters: certificates
  \<open>'c\<close>, the WebPKI verifier \<open>'v\<close>, providers \<open>'p\<close>, errors \<open>'e\<close>, and \<open>'q\<close> for what else a
  verification is given (server name, OCSP response, time). An anchor is the contents of its public key,
  without the header of the SEQUENCE, and the rest of it, \<open>'a\<close>.
\<close>

section \<open>The distrusted keys\<close>

type_synonym der = "nat list"

text \<open>The files of \<^verbatim>\<open>data/distrusted\<close>, compiled in with \<open>include_bytes!\<close>.\<close>

definition EMDVTLSCAG3B :: der where
  "EMDVTLSCAG3B =
    [48, 118, 48, 16, 6, 7, 42, 134, 72, 206, 61, 2, 1, 6, 5, 43, 129, 4, 0, 34, 3, 98, 0, 4, 231, 158, 217,
     192, 74, 151, 115, 196, 115, 94, 81, 17, 29, 168, 90, 194, 189, 94, 100, 171, 55, 75, 128, 225, 44, 188,
     32, 56, 236, 30, 79, 14, 59, 129, 47, 201, 133, 158, 30, 103, 175, 176, 78, 47, 139, 201, 127, 116, 133,
     186, 101, 170, 145, 30, 232, 164, 228, 91, 98, 213, 204, 3, 213, 107, 230, 120, 179, 195, 140, 180, 220,
     147, 124, 162, 70, 14, 35, 132, 83, 200, 146, 147, 93, 41, 212, 79, 145, 225, 86, 6, 182, 60, 206, 218,
     180, 104]"

definition EMDVTLSCAG3C :: der where
  "EMDVTLSCAG3C =
    [48, 118, 48, 16, 6, 7, 42, 134, 72, 206, 61, 2, 1, 6, 5, 43, 129, 4, 0, 34, 3, 98, 0, 4, 58, 122, 120,
     98, 200, 196, 77, 50, 77, 221, 105, 3, 58, 103, 130, 192, 239, 238, 254, 64, 85, 230, 138, 18, 63, 160,
     55, 27, 163, 189, 145, 148, 81, 78, 225, 114, 164, 51, 227, 99, 15, 2, 189, 24, 128, 55, 217, 229, 20,
     159, 155, 119, 219, 148, 162, 129, 223, 152, 123, 47, 234, 136, 139, 116, 189, 254, 143, 218, 76, 16,
     153, 238, 108, 161, 149, 102, 254, 62, 240, 229, 246, 176, 154, 85, 108, 204, 139, 165, 5, 97, 223, 27,
     42, 68, 29, 1]"

definition EMEVTLSCAG3B :: der where
  "EMEVTLSCAG3B =
    [48, 118, 48, 16, 6, 7, 42, 134, 72, 206, 61, 2, 1, 6, 5, 43, 129, 4, 0, 34, 3, 98, 0, 4, 37, 219, 168,
     90, 100, 211, 151, 218, 11, 16, 82, 233, 234, 84, 110, 72, 123, 239, 234, 156, 157, 157, 104, 160, 197,
     234, 220, 254, 239, 117, 166, 155, 181, 214, 252, 1, 244, 43, 251, 202, 110, 180, 11, 205, 100, 192, 118,
     126, 54, 255, 208, 93, 151, 168, 19, 197, 170, 12, 108, 149, 48, 231, 156, 245, 240, 134, 100, 104, 241,
     56, 6, 66, 10, 165, 200, 81, 132, 11, 30, 37, 37, 64, 231, 144, 228, 182, 84, 195, 133, 46, 214, 74, 241,
     232, 101, 125]"

definition EMEVTLSCAG3C :: der where
  "EMEVTLSCAG3C =
    [48, 118, 48, 16, 6, 7, 42, 134, 72, 206, 61, 2, 1, 6, 5, 43, 129, 4, 0, 34, 3, 98, 0, 4, 45, 86, 232, 41,
     166, 251, 130, 198, 74, 70, 151, 217, 96, 175, 149, 30, 144, 103, 174, 145, 249, 38, 211, 67, 6, 218, 72,
     168, 170, 235, 120, 105, 182, 166, 126, 109, 39, 66, 110, 4, 66, 170, 3, 179, 110, 25, 136, 223, 246, 54,
     81, 78, 225, 207, 7, 245, 186, 75, 63, 242, 160, 102, 69, 174, 125, 49, 213, 134, 106, 211, 26, 163, 210,
     70, 235, 11, 49, 119, 238, 153, 203, 117, 102, 197, 22, 206, 116, 128, 138, 102, 143, 145, 240, 196, 127,
     202]"

definition EMOVTLSCAG3B :: der where
  "EMOVTLSCAG3B =
    [48, 118, 48, 16, 6, 7, 42, 134, 72, 206, 61, 2, 1, 6, 5, 43, 129, 4, 0, 34, 3, 98, 0, 4, 115, 137, 122,
     160, 235, 60, 253, 202, 139, 18, 64, 47, 250, 240, 171, 196, 225, 33, 43, 175, 141, 238, 119, 138, 201,
     238, 45, 109, 184, 63, 172, 40, 12, 94, 5, 99, 138, 231, 162, 172, 215, 28, 50, 42, 142, 54, 28, 222,
     185, 246, 156, 67, 2, 185, 221, 141, 115, 209, 204, 108, 170, 178, 204, 10, 238, 78, 33, 108, 233, 121,
     221, 81, 138, 74, 244, 182, 38, 229, 104, 76, 221, 101, 128, 55, 237, 12, 133, 78, 76, 193, 47, 76, 248,
     100, 109, 13]"

definition EMOVTLSCAG3C :: der where
  "EMOVTLSCAG3C =
    [48, 118, 48, 16, 6, 7, 42, 134, 72, 206, 61, 2, 1, 6, 5, 43, 129, 4, 0, 34, 3, 98, 0, 4, 19, 130, 81,
     205, 82, 172, 146, 152, 193, 200, 170, 217, 119, 50, 29, 235, 151, 231, 9, 189, 11, 76, 160, 172, 165,
     93, 200, 173, 81, 220, 252, 157, 21, 137, 161, 89, 126, 58, 81, 32, 225, 239, 214, 49, 198, 62, 24, 53,
     202, 202, 226, 152, 105, 166, 46, 22, 49, 232, 162, 129, 129, 171, 86, 97, 109, 196, 93, 145, 138, 188,
     9, 243, 171, 14, 99, 207, 121, 42, 164, 220, 237, 115, 135, 190, 55, 187, 165, 105, 84, 159, 28, 2, 178,
     112, 237, 103]"

definition EMOVCSCAG3B :: der where
  "EMOVCSCAG3B =
    [48, 118, 48, 16, 6, 7, 42, 134, 72, 206, 61, 2, 1, 6, 5, 43, 129, 4, 0, 34, 3, 98, 0, 4, 170, 187, 15,
     176, 102, 106, 207, 207, 1, 250, 213, 43, 252, 253, 76, 43, 242, 203, 60, 52, 151, 222, 115, 149, 14, 88,
     25, 182, 31, 230, 149, 9, 135, 65, 200, 196, 145, 67, 155, 52, 160, 67, 28, 175, 254, 91, 249, 180, 193,
     200, 232, 174, 0, 1, 249, 244, 220, 138, 216, 44, 89, 243, 99, 158, 150, 205, 108, 61, 77, 176, 206, 254,
     194, 108, 61, 98, 81, 123, 55, 118, 19, 114, 116, 63, 142, 138, 221, 119, 177, 0, 100, 242, 171, 229,
     224, 80]"

definition EMOVCSCAG3C :: der where
  "EMOVCSCAG3C =
    [48, 118, 48, 16, 6, 7, 42, 134, 72, 206, 61, 2, 1, 6, 5, 43, 129, 4, 0, 34, 3, 98, 0, 4, 185, 240, 224,
     99, 71, 2, 166, 156, 166, 170, 221, 68, 60, 253, 98, 196, 27, 155, 164, 178, 9, 36, 105, 125, 121, 116,
     231, 105, 26, 18, 111, 185, 106, 251, 62, 52, 194, 253, 59, 197, 244, 131, 6, 31, 38, 93, 194, 165, 132,
     54, 52, 115, 35, 81, 4, 54, 178, 143, 4, 243, 134, 35, 99, 6, 121, 128, 226, 80, 62, 2, 83, 45, 101, 70,
     35, 90, 113, 101, 162, 89, 161, 239, 73, 111, 116, 27, 95, 222, 231, 120, 114, 8, 228, 184, 250, 239]"

definition DISTRUSTED_SPKIS :: "der list" where
  "DISTRUSTED_SPKIS = [EMDVTLSCAG3B, EMDVTLSCAG3C, EMEVTLSCAG3B, EMEVTLSCAG3C,
     EMOVTLSCAG3B, EMOVTLSCAG3C, EMOVCSCAG3B, EMOVCSCAG3C]"

lemmas distrusted_bytes = EMDVTLSCAG3B_def EMDVTLSCAG3C_def EMEVTLSCAG3B_def EMEVTLSCAG3C_def EMOVTLSCAG3B_def EMOVTLSCAG3C_def EMOVCSCAG3B_def EMOVCSCAG3C_def

section \<open>The verifier\<close>

record 'a anchor =
  subject_public_key_info :: der
  anchor_rest :: 'a

datatype 'e tls_error = Webpki 'e | ApplicationVerificationFailure

record ('a, 'c, 'v, 'p, 'e, 'q) tls_deps =
  tls_build :: "'a anchor list \<Rightarrow> 'p \<Rightarrow> string + 'v"
  tls_spki :: "'c \<Rightarrow> 'e + der"
  tls_verify :: "'v \<Rightarrow> 'c \<Rightarrow> 'c list \<Rightarrow> 'q \<Rightarrow> 'e tls_error option"
  tls_get_default :: "'p option"
  tls_provider_fips :: "'p \<Rightarrow> bool"
  tls_native_certs :: "'c list"
  tls_add :: "'c \<Rightarrow> 'a anchor option"
  tls_versions_ok :: "'p \<Rightarrow> bool"
  tls_config_fips :: "'p \<Rightarrow> bool"

definition is_allowed :: "'a anchor \<Rightarrow> bool" where
  "is_allowed anchor = (\<not> list_ex (\<lambda>spki. subject_public_key_info anchor = drop 2 spki) DISTRUSTED_SPKIS)"

definition distrust_new :: "('a, 'c, 'v, 'p, 'e, 'q) tls_deps \<Rightarrow> 'a anchor list \<Rightarrow> 'p \<Rightarrow> string + 'v" where
  "distrust_new T roots provider =
     (let roots = (if list_ex (\<lambda>anchor. \<not> is_allowed anchor) roots then filter is_allowed roots else roots)
      in case tls_build T roots provider of
           Inl error \<Rightarrow> Inl (''Failed to build TLS verifier after applying certificate distrust: '' @ error)
         | Inr inner \<Rightarrow> Inr inner)"

text \<open>The loop over the presented certificates: \<open>None\<close> when it goes through.\<close>

fun check_presented :: "('a, 'c, 'v, 'p, 'e, 'q) tls_deps \<Rightarrow> 'c list \<Rightarrow> 'e tls_error option" where
  "check_presented T [] = None"
| "check_presented T (cert # certs) =
     (case tls_spki T cert of
        Inl e \<Rightarrow> Some (Webpki e)
      | Inr spki \<Rightarrow>
          if list_ex (\<lambda>blocked. spki = blocked) DISTRUSTED_SPKIS then Some ApplicationVerificationFailure
          else check_presented T certs)"

definition verify_server_cert ::
  "('a, 'c, 'v, 'p, 'e, 'q) tls_deps \<Rightarrow> 'v \<Rightarrow> 'c \<Rightarrow> 'c list \<Rightarrow> 'q \<Rightarrow> 'e tls_error option" where
  "verify_server_cert T inner end_entity intermediates rest =
     (case check_presented T (end_entity # intermediates) of
        Some e \<Rightarrow> Some e
      | None \<Rightarrow> tls_verify T inner end_entity intermediates rest)"

section \<open>The client\<close>

datatype ('v, 'p) client_builder = DefaultRustls | PreconfiguredTls 'p 'v

definition fips_client_config ::
  "('a, 'c, 'v, 'p, 'e, 'q) tls_deps \<Rightarrow> 'a anchor list \<Rightarrow> 'p \<Rightarrow> string + 'p \<times> 'v" where
  "fips_client_config T root_cert_store provider =
     (case distrust_new T root_cert_store provider of
        Inl e \<Rightarrow> Inl e
      | Inr verifier \<Rightarrow>
          if \<not> tls_versions_ok T provider then Inl ''Failed to set protocol versions''
          else if \<not> tls_config_fips T provider then Inl ''The final TLS configuration is not FIPS-compliant''
          else Inr (provider, verifier))"

text \<open>\<open>fips\<close>: the crate is built with the feature.\<close>

definition create_reqwest_client_builder ::
  "bool \<Rightarrow> ('a, 'c, 'v, 'p, 'e, 'q) tls_deps \<Rightarrow> string + ('v, 'p) client_builder" where
  "create_reqwest_client_builder fips T =
     (if \<not> fips then Inr DefaultRustls
      else
        (case tls_get_default T of
           None \<Rightarrow> Inl ''No crypto provider configured''
         | Some provider \<Rightarrow>
             if \<not> tls_provider_fips T provider then Inl ''Crypto provider is not FIPS-compliant''
             else
               let root_cert_store = List.map_filter (tls_add T) (tls_native_certs T);
                   valid_count = length root_cert_store
               in if valid_count = 0 then Inl ''No valid certificates found in native root store''
                  else
                    (case fips_client_config T root_cert_store provider of
                       Inl e \<Rightarrow> Inl e
                     | Inr (provider, verifier) \<Rightarrow> Inr (PreconfiguredTls provider verifier))))"

section \<open>One set of keys\<close>

text \<open>The definite-length DER encoding of a SEQUENCE with given contents.\<close>

fun be_bytes :: "nat \<Rightarrow> nat list" where
  "be_bytes n = (if n = 0 then [] else be_bytes (n div 256) @ [n mod 256])"

declare be_bytes.simps [simp del]

definition der_length :: "nat \<Rightarrow> der" where
  "der_length n = (if n < 128 then [n] else (128 + length (be_bytes n)) # be_bytes n)"

definition der_sequence :: "der \<Rightarrow> der" where
  "der_sequence contents = 48 # der_length (length contents) @ contents"

lemma distrusted_header: "list_all (\<lambda>k. take 2 k = [48, 118] \<and> length k = 120) DISTRUSTED_SPKIS"
  by (simp add: DISTRUSTED_SPKIS_def distrusted_bytes)

lemma der_sequence_distrusted:
  assumes "k \<in> set DISTRUSTED_SPKIS"
  shows "der_sequence contents = k \<longleftrightarrow> contents = drop 2 k"
proof -
  have h: "take 2 k = [48, 118]" "length k = 120" using distrusted_header assms by (auto simp: list_all_iff)
  have k: "k = 48 # 118 # drop 2 k" using append_take_drop_id [of 2 k] h(1) by simp
  have n: "length (drop 2 k) = 118" using h(2) by simp
  have "der_length (length contents) @ contents = 118 # drop 2 k \<longleftrightarrow> contents = drop 2 k"
    using n by (auto simp: der_length_def)
  then show ?thesis by (subst k) (simp add: der_sequence_def del: drop_Suc)
qed

text \<open>
  The check of the anchors, which knows only the contents of a key, blocks the same keys as the check of
  the presented certificates, which compares whole encodings.
\<close>

lemma is_allowed_encoding: "is_allowed = (\<lambda>a. der_sequence (subject_public_key_info a) \<notin> set DISTRUSTED_SPKIS)"
proof
  fix a :: "'a anchor"
  show "is_allowed a \<longleftrightarrow> der_sequence (subject_public_key_info a) \<notin> set DISTRUSTED_SPKIS"
    unfolding is_allowed_def list_ex_iff using der_sequence_distrusted by metis
qed

section \<open>No connection rests on a distrusted key\<close>

lemma check_presented_None:
  "check_presented T certs = None \<longleftrightarrow> list_all (\<lambda>c. \<exists>k. tls_spki T c = Inr k \<and> k \<notin> set DISTRUSTED_SPKIS) certs"
  by (induction certs) (auto simp: list_ex_iff split: sum.split)

lemma distrust_new_Inr:
  "distrust_new T roots provider = Inr v \<longleftrightarrow> tls_build T (filter is_allowed roots) provider = Inr v"
proof -
  have "filter is_allowed roots = roots" if "\<not> list_ex (\<lambda>a. \<not> is_allowed a) roots"
    using that by (simp add: list_ex_iff filter_id_conv)
  then show ?thesis by (auto simp: distrust_new_def Let_def split: sum.splits if_splits)
qed

text \<open>
  C33. A server is accepted by a client of the FIPS build only when every certificate it presents parses and
  none has a distrusted key, and the WebPKI verifier accepts the chain, with the native anchors that have
  no distrusted key as its only roots. Such a client also has a compliant provider and configuration.
\<close>

theorem distrusted_never_accepted:
  assumes "create_reqwest_client_builder True T = Inr (PreconfiguredTls provider inner)"
    and "verify_server_cert T inner end_entity intermediates rest = None"
  shows "list_all (\<lambda>c. \<exists>k. tls_spki T c = Inr k \<and> k \<notin> set DISTRUSTED_SPKIS) (end_entity # intermediates) \<and>
    tls_verify T inner end_entity intermediates rest = None \<and>
    tls_build T (filter (\<lambda>a. der_sequence (subject_public_key_info a) \<notin> set DISTRUSTED_SPKIS)
      (List.map_filter (tls_add T) (tls_native_certs T))) provider = Inr inner \<and>
    tls_get_default T = Some provider \<and> tls_provider_fips T provider \<and> tls_config_fips T provider"
proof -
  note eq = is_allowed_encoding
  have "tls_get_default T = Some provider \<and> tls_provider_fips T provider \<and> tls_config_fips T provider \<and>
      distrust_new T (List.map_filter (tls_add T) (tls_native_certs T)) provider = Inr inner"
    using assms(1)
    by (auto simp: create_reqwest_client_builder_def fips_client_config_def Let_def split: option.splits sum.splits if_splits)
  moreover have "check_presented T (end_entity # intermediates) = None \<and> tls_verify T inner end_entity intermediates rest = None"
    using assms(2) by (simp add: verify_server_cert_def split: option.splits)
  ultimately show ?thesis by (simp only: check_presented_None distrust_new_Inr eq simp_thms)
qed

section \<open>Witnesses\<close>

text \<open>Two native anchors, one of them distrusted; a certificate is its public key.\<close>

definition sample_tls :: "(unit, der, der list, unit, unit, unit) tls_deps" where
  "sample_tls =
     \<lparr>tls_build = \<lambda>roots p. Inr (map subject_public_key_info roots), tls_spki = Inr, tls_verify = \<lambda>v e is q. None,
      tls_get_default = Some (), tls_provider_fips = \<lambda>p. True, tls_native_certs = [[1, 2, 3], drop 2 EMDVTLSCAG3B],
      tls_add = \<lambda>c. Some \<lparr>subject_public_key_info = c, anchor_rest = ()\<rparr>, tls_versions_ok = \<lambda>p. True, tls_config_fips = \<lambda>p. True\<rparr>"

theorem distrusted_never_accepted_witness:
  "tls_build sample_tls (filter (\<lambda>a. der_sequence (subject_public_key_info a) \<notin> set DISTRUSTED_SPKIS)
      (List.map_filter (tls_add sample_tls) (tls_native_certs sample_tls))) () = Inr [[1, 2, 3]] \<and>
   verify_server_cert sample_tls [[1, 2, 3]] EMEVTLSCAG3C [] () = Some ApplicationVerificationFailure"
proof -
  have "create_reqwest_client_builder True sample_tls = Inr (PreconfiguredTls () [[1, 2, 3]])" by code_simp
  moreover have "verify_server_cert sample_tls [[1, 2, 3]] [48, 1, 7] [] () = None" by code_simp
  ultimately have *: "tls_build sample_tls (filter (\<lambda>a. der_sequence (subject_public_key_info a) \<notin> set DISTRUSTED_SPKIS)
      (List.map_filter (tls_add sample_tls) (tls_native_certs sample_tls))) () = Inr [[1, 2, 3]]"
    by (rule distrusted_never_accepted [THEN conjunct2, THEN conjunct2, THEN conjunct1])
  have "verify_server_cert sample_tls [[1, 2, 3]] EMEVTLSCAG3C [] () = Some ApplicationVerificationFailure" by code_simp
  then show ?thesis using * by (rule conjI [rotated])
qed

end
