(* ===== verification/Http_Clients.thy ===== *)
theory Http_Clients
  imports Compat_Main Tls_Distrust Trace_Aggregator
begin

text \<open>
  The HTTP clients of the agents: \<^verbatim>\<open>build_client\<close> of \<^verbatim>\<open>http_utils.rs\<close> and of \<^verbatim>\<open>metadata/src/reporter.rs\<close>,
  \<^verbatim>\<open>build_metrics_client\<close> and the client of the log agent in \<^verbatim>\<open>main.rs\<close>, and the client of the proxy
  flusher, which start from the builder of the crate \<^verbatim>\<open>datadog-fips\<close>, joined with the start of the binary;
  and the client of the trace flusher in \<^verbatim>\<open>trace_flusher.rs\<close>, joined with its flush.

  \<open>bd_proxy\<close> is the error of \<open>reqwest::Proxy::https\<close>, \<open>bd_build\<close> that of \<open>build\<close>, if any.
\<close>

section \<open>Clients\<close>

record ('v, 'p) http_client =
  hc_tls :: "('v, 'p) client_builder"
  hc_proxy :: "string option"
  hc_timeout :: nat
  hc_redirects :: bool

text \<open>\<open>StandardClient\<close> is \<open>reqwest::Client::new()\<close>.\<close>

datatype ('v, 'p) client = Built "('v, 'p) http_client" | StandardClient

record ('v, 'p) build_deps =
  bd_fips :: bool
  bd_proxy :: "string \<Rightarrow> string option"
  bd_build :: "('v, 'p) http_client \<Rightarrow> string option"

definition build :: "('v, 'p) build_deps \<Rightarrow> ('v, 'p) http_client \<Rightarrow> string + ('v, 'p) http_client" where
  "build B c = (case bd_build B c of Some e \<Rightarrow> Inl e | None \<Rightarrow> Inr c)"

text \<open>\<open>build_client\<close> of the trace agent; \<open>build_metrics_client\<close> has the same body.\<close>

definition build_client ::
  "('v, 'p) build_deps \<Rightarrow> ('a, 'c, 'v, 'p, 'e, 'q) tls_deps \<Rightarrow> string option \<Rightarrow> nat \<Rightarrow> string + ('v, 'p) http_client" where
  "build_client B T proxy_url timeout =
     (case create_reqwest_client_builder (bd_fips B) T of
        Inl e \<Rightarrow> Inl e
      | Inr tls \<Rightarrow>
          let builder = \<lparr>hc_tls = tls, hc_proxy = None, hc_timeout = timeout, hc_redirects = True\<rparr>
          in case proxy_url of
               None \<Rightarrow> build B builder
             | Some proxy \<Rightarrow>
                 (case bd_proxy B proxy of
                    Some e \<Rightarrow> Inl e
                  | None \<Rightarrow> build B (builder\<lparr>hc_proxy := Some proxy\<rparr>)))"

definition build_metrics_client ::
  "('v, 'p) build_deps \<Rightarrow> ('a, 'c, 'v, 'p, 'e, 'q) tls_deps \<Rightarrow> string option \<Rightarrow> nat \<Rightarrow> string + ('v, 'p) http_client" where
  "build_metrics_client B T https_proxy timeout = build_client B T https_proxy timeout"

definition build_metadata_client ::
  "('v, 'p) build_deps \<Rightarrow> ('a, 'c, 'v, 'p, 'e, 'q) tls_deps \<Rightarrow> string option \<Rightarrow> string + ('v, 'p) http_client" where
  "build_metadata_client B T https_proxy =
     (case create_reqwest_client_builder (bd_fips B) T of
        Inl e \<Rightarrow> Inl e
      | Inr tls \<Rightarrow>
          let builder = \<lparr>hc_tls = tls, hc_proxy = None, hc_timeout = 10, hc_redirects = False\<rparr>
          in case https_proxy of
               None \<Rightarrow> build B builder
             | Some proxy \<Rightarrow>
                 (case bd_proxy B proxy of
                    Some e \<Rightarrow> Inl e
                  | None \<Rightarrow> build B (builder\<lparr>hc_proxy := Some proxy\<rparr>)))"

definition DOGSTATSD_TIMEOUT_DURATION :: nat where "DOGSTATSD_TIMEOUT_DURATION = 5"

text \<open>The client of the log agent: an invalid proxy is left out.\<close>

definition log_client ::
  "('v, 'p) build_deps \<Rightarrow> ('a, 'c, 'v, 'p, 'e, 'q) tls_deps \<Rightarrow> string option \<Rightarrow> ('v, 'p) http_client option" where
  "log_client B T https_proxy =
     (case create_reqwest_client_builder (bd_fips B) T of
        Inl e \<Rightarrow> None
      | Inr tls \<Rightarrow>
          let builder = \<lparr>hc_tls = tls, hc_proxy = None, hc_timeout = DOGSTATSD_TIMEOUT_DURATION, hc_redirects = True\<rparr>;
              builder = (case https_proxy of
                  None \<Rightarrow> builder
                | Some proxy \<Rightarrow> if bd_proxy B proxy = None then builder\<lparr>hc_proxy := Some proxy\<rparr> else builder)
          in case build B builder of Inr c \<Rightarrow> Some c | Inl e \<Rightarrow> None)"

definition proxy_flusher_client ::
  "('v, 'p) build_deps \<Rightarrow> ('a, 'c, 'v, 'p, 'e, 'q) tls_deps \<Rightarrow> 'o trace_config \<Rightarrow> ('v, 'p) client" where
  "proxy_flusher_client B T config =
     (case build_client B T (tc_proxy_url config) (tc_proxy_request_timeout_secs config) of
        Inr client \<Rightarrow> Built client
      | Inl e \<Rightarrow> StandardClient)"

section \<open>The binary with its clients\<close>

definition is_ok :: "'e + 'x \<Rightarrow> bool" where
  "is_ok r = (case r of Inr _ \<Rightarrow> True | Inl _ \<Rightarrow> False)"

definition with_clients ::
  "('v, 'p) build_deps \<Rightarrow> ('a, 'c, 'v, 'p, 'e, 'q) tls_deps \<Rightarrow> 'o main_deps \<Rightarrow> 'o main_deps" where
  "with_clients B T P =
     P\<lparr>mp_metrics_client := \<lambda>proxy. is_ok (build_metrics_client B T proxy DOGSTATSD_TIMEOUT_DURATION),
       mp_log_client := \<lambda>proxy. log_client B T proxy \<noteq> None,
       mp_metadata := (mp_metadata P)\<lparr>md_client_ok := \<lambda>proxy. is_ok (build_metadata_client B T proxy)\<rparr>\<rparr>"

lemma with_clients_simps [simp]:
  "mp_config (with_clients B T P) = mp_config P" "mp_lowercase (with_clients B T P) = mp_lowercase P"
  "mp_metrics_client (with_clients B T P) proxy = is_ok (build_metrics_client B T proxy DOGSTATSD_TIMEOUT_DURATION)"
  "mp_log_client (with_clients B T P) proxy \<longleftrightarrow> log_client B T proxy \<noteq> None"
  "mp_metadata (with_clients B T P) = (mp_metadata P)\<lparr>md_client_ok := \<lambda>proxy. is_ok (build_metadata_client B T proxy)\<rparr>"
  by (simp_all add: with_clients_def)

lemma start_metrics_metadata:
  assumes "start_metrics D P env et now z s = Ret s'"
  shows "sr_metadata s' = sr_metadata s"
proof -
  obtain f a where "start_aggregator D P z et = Ret (f, a)" using start_aggregator_ret by blast
  then show ?thesis
    using assms by (cases "start_dogstatsd P z") (auto simp: start_metrics_def Let_def split: if_splits)
qed

lemma no_builder_no_client:
  assumes "create_reqwest_client_builder (bd_fips B) T = Inl e"
  shows "build_client B T proxy timeout = Inl e" "build_metrics_client B T proxy timeout = Inl e"
    "build_metadata_client B T proxy = Inl e" "log_client B T proxy = None"
  using assms by (simp_all add: build_client_def build_metrics_client_def build_metadata_client_def log_client_def)

text \<open>Every client that is built has the TLS configuration of the adapter, and its proxy and timeout.\<close>

theorem built_client:
  assumes "build_client B T proxy timeout = Inr c"
  shows "create_reqwest_client_builder (bd_fips B) T = Inr (hc_tls c) \<and> hc_proxy c = proxy \<and> hc_timeout c = timeout"
  using assms by (auto simp: build_client_def build_def Let_def split: sum.splits option.splits)

text \<open>
  C36. When the FIPS configuration cannot be made, the binary starts all the same but sends no metrics, logs or
  metadata; the proxy flusher does send, with the standard client of the library, which has neither the FIPS
  configuration nor the proxy nor the timeout.
\<close>

theorem no_fips_no_shipping:
  assumes "main_start D (with_clients B T P) env now = Ret (Some s)"
    and "create_reqwest_client_builder (bd_fips B) T = Inl e"
  shows "sr_flusher s = None \<and> sr_cpu s = None \<and> sr_instance s = None \<and> sr_logs s = None \<and> sr_metadata s = None \<and>
    proxy_flusher_client B T (sr_config s) = StandardClient"
proof -
  obtain app et where ae: "cd_read_cloud_env (mp_config (with_clients B T P)) = Some (app, et)"
    using assms(1) by (cases "cd_read_cloud_env (mp_config P)") (auto simp: main_start_def)
  define z where "z = main_settings (mp_lowercase (with_clients B T P)) (cd_pipes (mp_config (with_clients B T P))) env et"
  note no = no_builder_no_client [OF assms(2)]
  have metadata: "reporter_new ((mp_metadata (with_clients B T P))\<lparr>md_env := env\<rparr>) k st pr et = None" for k st pr
    by (auto simp: reporter_new_def no is_ok_def split: option.split sum.split)
  obtain c s1 where m: "start_metrics D (with_clients B T P) env et now z
       \<lparr>sr_config = c, sr_concentrator = tc_agent_stats_computation_enabled c, sr_metadata = None,
        sr_aggregator = None, sr_flusher = None, sr_dogstatsd = None, sr_instance = None, sr_cpu = None, sr_logs = None\<rparr> = Ret s1"
    "s = s1\<lparr>sr_logs := (if mz_logs_enabled z then start_log_agent (with_clients B T P) env z else None)\<rparr>"
    using main_start_Some [OF assms(1) ae z_def] unfolding metadata by metis
  have "start_log_agent (with_clients B T P) env z = None"
    by (simp add: start_log_agent_def no split: option.split)
  moreover have "sr_metadata s1 = None" using m(1) by (rule start_metrics_metadata [THEN trans]) simp
  moreover have "sr_flusher s1 = None \<and> sr_cpu s1 = None \<and> sr_instance s1 = None"
    using start_metrics_ret [OF m(1)] by (auto simp: no is_ok_def split: if_splits)
  ultimately show ?thesis by (simp add: m(2) proxy_flusher_client_def no)
qed

section \<open>The client of the trace flusher\<close>

text \<open>
  \<open>px_parse\<close>: reading the URL of the proxy; \<open>px_from_proxy\<close> and \<open>px_new\<close>: the errors of the two ways to
  make a connector, if any. Only HTTPS requests go through the proxy.
\<close>

record 'u proxy_deps =
  px_parse :: "string \<Rightarrow> string + 'u"
  px_from_proxy :: "'u \<Rightarrow> string option"
  px_new :: "string option"

datatype 'u proxy_connector = InterceptHttps 'u | NoProxy

record 'u proxy_http_client =
  ph_connector :: "'u proxy_connector"
  ph_pooling :: bool

definition with_proxy_pooling :: "'u proxy_deps \<Rightarrow> string option \<Rightarrow> bool \<Rightarrow> string + 'u proxy_http_client" where
  "with_proxy_pooling X proxy_https connection_pooling =
     (let made = (case proxy_https of
            Some proxy \<Rightarrow>
              (case px_parse X proxy of
                 Inl e \<Rightarrow> Inl e
               | Inr uri \<Rightarrow> (case px_from_proxy X uri of Some e \<Rightarrow> Inl e | None \<Rightarrow> Inr (InterceptHttps uri)))
          | None \<Rightarrow> (case px_new X of Some e \<Rightarrow> Inl e | None \<Rightarrow> Inr NoProxy))
      in case made of
           Inl e \<Rightarrow> Inl e
         | Inr proxy_connector \<Rightarrow> Inr \<lparr>ph_connector = proxy_connector, ph_pooling = connection_pooling\<rparr>)"

definition with_proxy :: "'u proxy_deps \<Rightarrow> string option \<Rightarrow> string + 'u proxy_http_client" where
  "with_proxy X proxy_https = with_proxy_pooling X proxy_https True"

definition expect :: "string + 'x \<Rightarrow> 'x rust" where
  "expect r = (case r of Inr x \<Rightarrow> Ret x | Inl e \<Rightarrow> Panic)"

definition new_client :: "'u proxy_deps \<Rightarrow> 'u proxy_http_client rust" where
  "new_client X = expect (with_proxy X None)"

definition new_periodic :: "'u proxy_deps \<Rightarrow> 'u proxy_http_client rust" where
  "new_periodic X = expect (with_proxy_pooling X None False)"

text \<open>
  One request: \<open>answer\<close> is what the network gives, the parts of the response and what collecting its body
  gives.
\<close>

datatype http_error = Network string | ResponseBody string

definition client_request :: "('q \<Rightarrow> string + 'h \<times> (string + string)) \<Rightarrow> 'q \<Rightarrow> http_error + 'h \<times> string" where
  "client_request answer req =
     (case answer req of
        Inl e \<Rightarrow> Inl (Network e)
      | Inr (parts, Inl e) \<Rightarrow> Inl (ResponseBody e)
      | Inr (parts, Inr collected) \<Rightarrow> Inr (parts, collected))"

definition flush_traces ::
  "'u proxy_deps \<Rightarrow> 'o trace_config \<Rightarrow> ('d \<Rightarrow> nat) \<Rightarrow> ('d list \<Rightarrow> 'd list) \<Rightarrow> 'd trace_agg \<Rightarrow> ('d list \<times> 'd trace_agg) option" where
  "flush_traces X config len coalesce a = trace_flush len coalesce (\<lambda>i. is_ok (with_proxy X (tc_proxy_url config))) a"

text \<open>
  A flush makes its client anew for every batch, after the batch has left the queue. With a proxy that does
  not parse there is no request, and everything queued is gone after the flush.
\<close>

lemma bad_proxy_loses_traces:
  assumes "trace_inv a" "tc_proxy_url config = Some proxy" "px_parse X proxy = Inl e"
  shows "flush_traces X config len coalesce a = Some ([], a\<lparr>ta_queue := []\<rparr>)"
proof -
  have no: "is_ok (with_proxy X (tc_proxy_url config)) = False"
    using assms(2,3) by (simp add: with_proxy_def with_proxy_pooling_def is_ok_def)
  have nil: "concat (map (\<lambda>b. []) bs) = ([] :: 'x list)" for bs :: "'y list" by (induction bs) simp_all
  have b: "trace_flush len (\<lambda>b. []) (\<lambda>i. True) a = Some ([], a\<lparr>ta_queue := []\<rparr>)"
    using trace_flush_all [OF assms(1), of "\<lambda>i. True" len "\<lambda>b. []"] by (auto simp: nil)
  have e: "trace_send coalesce False = trace_send (\<lambda>b. []) True" by (rule ext) (simp add: trace_send_def)
  have "trace_flush len coalesce (\<lambda>i. False) a = trace_flush len (\<lambda>b. []) (\<lambda>i. True) a"
    unfolding trace_flush_def e ..
  then show ?thesis using b by (simp only: flush_traces_def no)
qed

section \<open>Witnesses\<close>

definition sample_build :: "(der list, unit) build_deps" where
  "sample_build = \<lparr>bd_fips = True, bd_proxy = \<lambda>p. None, bd_build = \<lambda>c. None\<rparr>"

text \<open>The FIPS build with a compliant provider, and with none.\<close>

theorem built_client_witness:
  "\<exists>c. build_client sample_build sample_tls (Some ''http://p'') 5 = Inr c \<and> hc_proxy c = Some ''http://p'' \<and>
     create_reqwest_client_builder True sample_tls = Inr (hc_tls c)"
proof -
  have "create_reqwest_client_builder True sample_tls = Inr (PreconfiguredTls () [[1, 2, 3]])" by code_simp
  then obtain c where c: "build_client sample_build sample_tls (Some ''http://p'') 5 = Inr c"
    by (simp add: build_client_def build_def sample_build_def)
  then show ?thesis using built_client [OF c] by (auto simp: sample_build_def)
qed

theorem no_fips_no_shipping_witness:
  "\<exists>s. main_start sample_deps (with_clients sample_build (sample_tls\<lparr>tls_get_default := None\<rparr>) sample_main_deps) sample_vars 0 =
       Ret (Some s) \<and> sr_flusher s = None \<and>
     proxy_flusher_client sample_build (sample_tls\<lparr>tls_get_default := None\<rparr>) (sr_config s) = StandardClient"
proof -
  let ?T = "sample_tls\<lparr>tls_get_default := None\<rparr>"
  let ?P = "with_clients sample_build ?T sample_main_deps"
  have no: "create_reqwest_client_builder (bd_fips sample_build) ?T = Inl ''No crypto provider configured''"
    by (simp add: create_reqwest_client_builder_def sample_build_def)
  obtain c where "trace_config_new (mp_config ?P) sample_vars = Ret (Inr c)"
    using sample_config by (auto simp: sample_main_deps_def)
  moreover have "cd_read_cloud_env (mp_config ?P) = Some (''app'', AzureFunction)" "mp_bind_ok ?P h p" "mp_subscriber_ok ?P"
    "mp_filter_ok ?P f" for f h p
    by (simp_all add: sample_main_deps_def sample_config_deps_def) (simp_all add: with_clients_def sample_main_deps_def)
  ultimately obtain s where s: "main_start sample_deps ?P sample_vars 0 = Ret (Some s)"
    using main_start_ok [of ?P "''app''" AzureFunction _ sample_vars c sample_deps 0, OF _ refl] by blast
  from no_fips_no_shipping [OF s no] show ?thesis using s by blast
qed

end
