(* ===== verification/Mock_Stats.thy ===== *)
theory Mock_Stats
  imports Decimal Interfaces
begin

text \<open>
  The crate \<^verbatim>\<open>datadog-mock-intake\<close>, first part: the statistics it groups for its summaries.

  The messages of libdatadog are records of the fields the crate reads; a counter is a 64-bit word. The
  JSON writer of a string and the names of the tri-state enumeration are in \<open>render_deps\<close>.
\<close>

section \<open>Statistics\<close>

record client_grouped_stats =
  g_service :: string
  g_name :: string
  g_resource :: string
  g_type :: string
  g_db_type :: string
  g_http_status_code :: nat
  g_grpc_status_code :: string
  g_http_method :: string
  g_http_endpoint :: string
  g_span_kind :: string
  g_synthetics :: bool
  g_is_trace_root :: int
  g_service_source :: string
  g_peer_tags :: "string list"
  g_span_derived_primary_tags :: "string list"
  g_additional_metric_tags :: "string list"
  g_hits :: u64

record client_stats_payload =
  cl_service :: string
  cl_env :: string
  cl_version :: string
  cl_hostname :: string
  cl_container_id :: string
  cl_tags :: "string list"
  cl_git_commit_sha :: string
  cl_image_tag :: string
  cl_process_tags :: string
  cl_process_tags_hash :: u64
  cl_agent_aggregation :: string
  cl_stats :: "client_grouped_stats list list"

type_synonym stats_payload = "client_stats_payload list"

section \<open>Group keys\<close>

record stats_group_key =
  client_service :: string
  client_env :: string
  client_version :: string
  client_hostname :: string
  client_container_id :: string
  client_tags :: "string list"
  client_git_commit_sha :: string
  client_image_tag :: string
  client_process_tags :: string
  client_process_tags_hash :: u64
  client_agent_aggregation :: string
  stats_service :: string
  stats_name :: string
  stats_resource :: string
  stats_type :: string
  stats_db_type :: string
  stats_http_status_code :: nat
  stats_grpc_status_code :: string
  stats_http_method :: string
  stats_http_endpoint :: string
  stats_span_kind :: string
  stats_synthetics :: bool
  stats_is_trace_root :: int
  stats_service_source :: string
  stats_peer_tags :: "string list"
  stats_span_derived_primary_tags :: "string list"
  stats_additional_metric_tags :: "string list"

definition group_key :: "client_stats_payload \<Rightarrow> client_grouped_stats \<Rightarrow> stats_group_key" where
  "group_key client grouped =
     (let sorted = sort_by str_le
      in \<lparr>client_service = cl_service client, client_env = cl_env client, client_version = cl_version client,
          client_hostname = cl_hostname client, client_container_id = cl_container_id client,
          client_tags = sorted (cl_tags client), client_git_commit_sha = cl_git_commit_sha client,
          client_image_tag = cl_image_tag client, client_process_tags = cl_process_tags client,
          client_process_tags_hash = cl_process_tags_hash client, client_agent_aggregation = cl_agent_aggregation client,
          stats_service = g_service grouped, stats_name = g_name grouped, stats_resource = g_resource grouped,
          stats_type = g_type grouped, stats_db_type = g_db_type grouped,
          stats_http_status_code = g_http_status_code grouped, stats_grpc_status_code = g_grpc_status_code grouped,
          stats_http_method = g_http_method grouped, stats_http_endpoint = g_http_endpoint grouped,
          stats_span_kind = g_span_kind grouped, stats_synthetics = g_synthetics grouped,
          stats_is_trace_root = g_is_trace_root grouped, stats_service_source = g_service_source grouped,
          stats_peer_tags = sorted (g_peer_tags grouped),
          stats_span_derived_primary_tags = sorted (g_span_derived_primary_tags grouped),
          stats_additional_metric_tags = sorted (g_additional_metric_tags grouped)\<rparr>)"

text \<open>
  The derived order of the key compares its fields in turn. \<open>key_fields\<close> lists them, each as a text or a
  number or a list of texts; the keys of one program have the same kinds in the same places.
\<close>

datatype key_field = Text string | Number int | Texts "string list"

definition key_fields :: "stats_group_key \<Rightarrow> key_field list" where
  "key_fields k =
     [Text (client_service k), Text (client_env k), Text (client_version k), Text (client_hostname k),
      Text (client_container_id k), Texts (client_tags k), Text (client_git_commit_sha k), Text (client_image_tag k),
      Text (client_process_tags k), Number (uint (client_process_tags_hash k)), Text (client_agent_aggregation k),
      Text (stats_service k), Text (stats_name k), Text (stats_resource k), Text (stats_type k), Text (stats_db_type k),
      Number (int (stats_http_status_code k)), Text (stats_grpc_status_code k), Text (stats_http_method k),
      Text (stats_http_endpoint k), Text (stats_span_kind k), Number (if stats_synthetics k then 1 else 0),
      Number (stats_is_trace_root k), Text (stats_service_source k), Texts (stats_peer_tags k),
      Texts (stats_span_derived_primary_tags k), Texts (stats_additional_metric_tags k)]"

instantiation key_field :: linorder
begin

fun less_eq_key_field :: "key_field \<Rightarrow> key_field \<Rightarrow> bool" where
  "less_eq_key_field (Text a) (Text b) = (a \<le> b)"
| "less_eq_key_field (Text a) _ = True"
| "less_eq_key_field (Number a) (Text b) = False"
| "less_eq_key_field (Number a) (Number b) = (a \<le> b)"
| "less_eq_key_field (Number a) (Texts b) = True"
| "less_eq_key_field (Texts a) (Texts b) = (a \<le> b)"
| "less_eq_key_field (Texts a) _ = False"

definition less_key_field :: "key_field \<Rightarrow> key_field \<Rightarrow> bool" where
  "less_key_field a b = (a \<le> b \<and> \<not> b \<le> a)"

instance
proof
  fix a b c :: key_field
  show "a < b \<longleftrightarrow> a \<le> b \<and> \<not> b \<le> a" by (rule less_key_field_def)
  show "a \<le> a" by (cases a) auto
  show "a \<le> b \<Longrightarrow> b \<le> c \<Longrightarrow> a \<le> c" by (cases a; cases b; cases c) auto
  show "a \<le> b \<Longrightarrow> b \<le> a \<Longrightarrow> a = b" by (cases a; cases b) auto
  show "a \<le> b \<or> b \<le> a" by (cases a; cases b) auto
qed

end

definition key_less :: "stats_group_key \<Rightarrow> stats_group_key \<Rightarrow> bool" where
  "key_less a b = (key_fields a < key_fields b)"

section \<open>Rendering\<close>

record render_deps =
  rd_escape :: "string \<Rightarrow> string option"
  rd_trilean :: "int \<Rightarrow> string option"

definition escape :: "render_deps \<Rightarrow> string \<Rightarrow> string" where
  "escape R value = (case rd_escape R value of Some s \<Rightarrow> s | None \<Rightarrow> [CHR 0x22, CHR 0x22])"

definition render_tags :: "render_deps \<Rightarrow> string list \<Rightarrow> string" where
  "render_tags R tags = ''['' @ join_with '','' (map (escape R) tags) @ '']''"

definition show_int :: "int \<Rightarrow> string" where
  "show_int i = (if i < 0 then ''-'' @ show_nat (nat (- i)) else show_nat (nat i))"

definition trilean_name :: "render_deps \<Rightarrow> int \<Rightarrow> string" where
  "trilean_name R value = (case rd_trilean R value of Some t \<Rightarrow> t | None \<Rightarrow> show_int value)"

definition render :: "render_deps \<Rightarrow> stats_group_key \<Rightarrow> string" where
  "render R k = join_with '' ''
     [''client.service='' @ escape R (client_service k),
      ''client.env='' @ escape R (client_env k),
      ''client.version='' @ escape R (client_version k),
      ''client.hostname='' @ escape R (client_hostname k),
      ''client.container_id='' @ escape R (client_container_id k),
      ''client.tags='' @ render_tags R (client_tags k),
      ''client.git_commit_sha='' @ escape R (client_git_commit_sha k),
      ''client.image_tag='' @ escape R (client_image_tag k),
      ''client.process_tags='' @ escape R (client_process_tags k),
      ''client.process_tags_hash='' @ show_nat (unat (client_process_tags_hash k)),
      ''client.agent_aggregation='' @ escape R (client_agent_aggregation k),
      ''stats.service='' @ escape R (stats_service k),
      ''stats.name='' @ escape R (stats_name k),
      ''stats.resource='' @ escape R (stats_resource k),
      ''stats.type='' @ escape R (stats_type k),
      ''stats.db_type='' @ escape R (stats_db_type k),
      ''stats.http_status_code='' @ show_nat (stats_http_status_code k),
      ''stats.grpc_status_code='' @ escape R (stats_grpc_status_code k),
      ''stats.http_method='' @ escape R (stats_http_method k),
      ''stats.http_endpoint='' @ escape R (stats_http_endpoint k),
      ''stats.span_kind='' @ escape R (stats_span_kind k),
      ''stats.synthetics='' @ (if stats_synthetics k then ''true'' else ''false''),
      ''stats.is_trace_root='' @ escape R (trilean_name R (stats_is_trace_root k)),
      ''stats.service_source='' @ escape R (stats_service_source k),
      ''stats.peer_tags='' @ render_tags R (stats_peer_tags k),
      ''stats.span_derived_primary_tags='' @ render_tags R (stats_span_derived_primary_tags k),
      ''stats.additional_metric_tags='' @ render_tags R (stats_additional_metric_tags k)]"

section \<open>Hits by key\<close>

text \<open>
  \<open>checked\<close>: built with overflow checks, so that a sum past 64 bits panics, and wraps around otherwise.
  A \<open>BTreeMap\<close> is the list of its entries by increasing key.
\<close>

definition add_u64 :: "bool \<Rightarrow> u64 \<Rightarrow> u64 \<Rightarrow> u64 rust" where
  "add_u64 checked a b = (if checked \<and> 2 ^ 64 \<le> unat a + unat b then Panic else Ret (a + b))"

fun add_hits :: "bool \<Rightarrow> stats_group_key \<Rightarrow> u64 \<Rightarrow> (stats_group_key \<times> u64) list \<Rightarrow> (stats_group_key \<times> u64) list rust" where
  "add_hits checked k n [] = Ret [(k, n)]"
| "add_hits checked k n ((k', m) # groups) =
     (if k = k' then bind_rust (add_u64 checked m n) (\<lambda>s. Ret ((k, s) # groups))
      else if key_less k k' then Ret ((k, n) # (k', m) # groups)
      else bind_rust (add_hits checked k n groups) (\<lambda>gs. Ret ((k', m) # gs)))"

definition key_hits :: "stats_payload \<Rightarrow> (stats_group_key \<times> u64) list" where
  "key_hits payload =
     concat (map (\<lambda>client. concat (map (map (\<lambda>grouped. (group_key client grouped, g_hits grouped))) (cl_stats client))) payload)"

fun add_all_hits :: "bool \<Rightarrow> (stats_group_key \<times> u64) list \<Rightarrow> (stats_group_key \<times> u64) list \<Rightarrow> (stats_group_key \<times> u64) list rust" where
  "add_all_hits checked [] groups = Ret groups"
| "add_all_hits checked ((k, n) # hits) groups = bind_rust (add_hits checked k n groups) (add_all_hits checked hits)"

definition stats_hits_by_key :: "bool \<Rightarrow> stats_payload \<Rightarrow> (stats_group_key \<times> u64) list rust" where
  "stats_hits_by_key checked payload = add_all_hits checked (key_hits payload) []"

section \<open>Facts\<close>

lemma key_fields_inj: "key_fields a = key_fields b \<Longrightarrow> a = b"
  by (simp add: key_fields_def word_uint_eq_iff split: if_splits)

lemma key_less_linear: "\<not> key_less a b \<Longrightarrow> a \<noteq> b \<Longrightarrow> key_less b a"
  unfolding key_less_def using key_fields_inj [of a b] by (auto simp: not_less_iff_gr_or_eq)

lemma key_less_trans: "key_less a b \<Longrightarrow> key_less b c \<Longrightarrow> key_less a c"
  unfolding key_less_def by (rule less_trans)

lemma key_less_irrefl [simp]: "\<not> key_less a a"
  by (simp add: key_less_def)

abbreviation sorted_groups :: "(stats_group_key \<times> u64) list \<Rightarrow> bool" where
  "sorted_groups \<equiv> sorted_wrt (\<lambda>a b. key_less (fst a) (fst b))"

lemma map_of_smaller: "sorted_groups ((k', m) # gs) \<Longrightarrow> key_less k k' \<Longrightarrow> map_of gs k = None"
  using key_less_trans key_less_irrefl by (fastforce simp: map_of_eq_None_iff)

text \<open>Adding to a sorted map: it overflows, or holds the sum for the key and stays sorted.\<close>

lemma add_hits_correct:
  assumes "sorted_groups gs"
  shows "case add_hits checked k n gs of
      Panic \<Rightarrow> checked \<and> (\<exists>m. map_of gs k = Some m \<and> 2 ^ 64 \<le> unat m + unat n)
    | Ret gs' \<Rightarrow> \<not> (checked \<and> (\<exists>m. map_of gs k = Some m \<and> 2 ^ 64 \<le> unat m + unat n)) \<and> sorted_groups gs' \<and>
        map_of gs' = (map_of gs)(k \<mapsto> (case map_of gs k of None \<Rightarrow> n | Some m \<Rightarrow> m + n)) \<and>
        fst ` set gs' = insert k (fst ` set gs)"
  using assms
proof (induction gs)
  case (Cons g gs)
  obtain k' m where g: "g = (k', m)" by fastforce
  consider "k = k'" | "k \<noteq> k'" "key_less k k'" | "k \<noteq> k'" "\<not> key_less k k'" by blast
  then show ?case
  proof cases
    case 1
    then show ?thesis using Cons.prems by (auto simp: g add_u64_def)
  next
    case 2
    then have none: "map_of gs k = None" using map_of_smaller Cons.prems by (simp add: g)
    have "key_less k (fst x)" if "x \<in> set gs" for x
      using Cons.prems that 2(2) key_less_trans by (auto simp: g)
    then show ?thesis using 2 none Cons.prems by (auto simp: g)
  next
    case 3
    note IH = Cons.IH
    have s: "sorted_groups gs" using Cons.prems by simp
    show ?thesis
    proof (cases "add_hits checked k n gs")
      case Panic
      then show ?thesis using IH [OF s] 3 by (simp add: g)
    next
      case (Ret gs')
      have IH: "\<not> (checked \<and> (\<exists>m. map_of gs k = Some m \<and> 2 ^ 64 \<le> unat m + unat n))" "sorted_groups gs'"
        "map_of gs' = (map_of gs)(k \<mapsto> (case map_of gs k of None \<Rightarrow> n | Some m \<Rightarrow> m + n))"
        "fst ` set gs' = insert k (fst ` set gs)"
        using IH [OF s] by (simp_all add: Ret)
      have "key_less k' k''" if "k'' \<in> fst ` set gs'" for k''
        using that Cons.prems key_less_linear [of k k'] 3 unfolding IH(4) by (auto simp: g)
      then have "sorted_groups ((k', m) # gs')" using IH(2) by simp
      moreover have "map_of ((k', m) # gs') = (map_of (g # gs))(k \<mapsto> (case map_of gs k of None \<Rightarrow> n | Some m \<Rightarrow> m + n))"
        using 3(1) by (simp add: g IH(3) fun_upd_twist)
      ultimately show ?thesis using 3 IH(1,4) by (auto simp: g Ret)
    qed
  qed
qed simp

definition total_hits :: "(stats_group_key \<times> u64) list \<Rightarrow> stats_group_key \<Rightarrow> nat" where
  "total_hits hits k = sum_list (map (\<lambda>h. unat (snd h)) (filter (\<lambda>h. fst h = k) hits))"

lemma total_hits_simps:
  "total_hits [] k = 0" "total_hits ((k', n) # hits) k = (if k' = k then unat n else 0) + total_hits hits k"
  "total_hits (xs @ ys) k = total_hits xs k + total_hits ys k"
  by (simp_all add: total_hits_def)

definition hits_map :: "(stats_group_key \<times> u64) list \<Rightarrow> stats_group_key \<Rightarrow> u64 option" where
  "hits_map hits k = (if k \<in> fst ` set hits then Some (of_nat (total_hits hits k)) else None)"

lemma hits_map_snoc:
  "(hits_map seen)(k \<mapsto> (case hits_map seen k of None \<Rightarrow> n | Some m \<Rightarrow> m + n)) = hits_map (seen @ [(k, n)])"
proof -
  have "k \<notin> fst ` set seen \<Longrightarrow> total_hits seen k = 0"
    by (induction seen) (auto simp: total_hits_simps)
  then show ?thesis by (auto simp: hits_map_def total_hits_simps fun_eq_iff)
qed

lemma add_all_hits_correct:
  assumes "sorted_groups gs" "map_of gs = hits_map seen" "checked \<Longrightarrow> \<forall>k. total_hits seen k < 2 ^ 64"
  shows "case add_all_hits checked hits gs of
      Panic \<Rightarrow> checked \<and> (\<exists>k. 2 ^ 64 \<le> total_hits (seen @ hits) k)
    | Ret gs' \<Rightarrow> \<not> (checked \<and> (\<exists>k. 2 ^ 64 \<le> total_hits (seen @ hits) k)) \<and> sorted_groups gs' \<and>
        map_of gs' = hits_map (seen @ hits)"
  using assms
proof (induction hits arbitrary: gs seen)
  case Nil
  then show ?case by (auto simp: not_le)
next
  case (Cons h hits)
  obtain k n where h: "h = (k, n)" by fastforce
  have over: "(\<exists>m. map_of gs k = Some m \<and> 2 ^ 64 \<le> unat m + unat n) \<longleftrightarrow> 2 ^ 64 \<le> total_hits (seen @ [(k, n)]) k" if checked
  proof -
    have "unat (of_nat (total_hits seen k) :: u64) = total_hits seen k"
      using Cons.prems(3) [OF that] by (simp add: unsigned_of_nat take_bit_nat_eq_self)
    moreover have "unat n < 2 ^ 64" using unsigned_less [of n] by simp
    moreover have "k \<notin> fst ` set seen \<Longrightarrow> total_hits seen k = 0"
      by (induction seen) (auto simp: total_hits_simps)
    ultimately show ?thesis by (auto simp: Cons.prems(2) hits_map_def total_hits_simps)
  qed
  have later: "2 ^ 64 \<le> total_hits (seen @ [(k, n)]) k \<Longrightarrow> 2 ^ 64 \<le> total_hits (seen @ h # hits) k"
    by (simp add: h total_hits_simps)
  show ?case
  proof (cases "add_hits checked k n gs")
    case Panic
    then show ?thesis using add_hits_correct [OF Cons.prems(1), of checked k n] over later by (auto simp: h)
  next
    case (Ret gs')
    have r: "\<not> (checked \<and> (\<exists>m. map_of gs k = Some m \<and> 2 ^ 64 \<le> unat m + unat n))" "sorted_groups gs'"
      "map_of gs' = hits_map (seen @ [(k, n)])"
      using add_hits_correct [OF Cons.prems(1), of checked k n]
      by (simp_all add: Ret Cons.prems(2) hits_map_snoc del: fun_upd_apply)
    have "total_hits (seen @ [(k, n)]) k'' < 2 ^ 64" if checked for k''
    proof -
      have "\<not> 2 ^ 64 \<le> total_hits (seen @ [(k, n)]) k" using r(1) that unfolding over [OF that] by blast
      then show ?thesis using Cons.prems(3) [OF that] by (cases "k'' = k") (simp_all add: total_hits_simps not_le)
    qed
    then have "checked \<Longrightarrow> \<forall>k''. total_hits (seen @ [(k, n)]) k'' < 2 ^ 64" by blast
    note IH = Cons.IH [OF r(2,3) this]
    have "(seen @ [(k, n)]) @ hits = seen @ h # hits" by (simp add: h)
    moreover have "add_all_hits checked (h # hits) gs = add_all_hits checked hits gs'" by (simp add: h Ret)
    ultimately show ?thesis using IH by (simp only:)
  qed
qed

text \<open>
  The groups are sorted, there is one for every combination of dimensions that occurs, across clients and
  time buckets, and its hits are the sum of the hits with these dimensions modulo \<open>2\<^sup>6\<^sup>4\<close>. Built with
  overflow checks the sum panics exactly when one group exceeds 64 bits.
\<close>

theorem stats_groups_correct:
  "case stats_hits_by_key checked payload of
      Panic \<Rightarrow> checked \<and> (\<exists>k. 2 ^ 64 \<le> total_hits (key_hits payload) k)
    | Ret groups \<Rightarrow> \<not> (checked \<and> (\<exists>k. 2 ^ 64 \<le> total_hits (key_hits payload) k)) \<and> sorted_groups groups \<and>
        map_of groups = hits_map (key_hits payload)"
  unfolding stats_hits_by_key_def
  by (rule add_all_hits_correct [of "[]" "[]" checked "key_hits payload", unfolded append_Nil])
    (simp_all add: hits_map_def total_hits_simps fun_eq_iff)

text \<open>The order in which a tracer lists its tags does not split a group.\<close>

lemma group_key_tag_order:
  assumes "mset (cl_tags c) = mset (cl_tags c')" "c'\<lparr>cl_tags := []\<rparr> = c\<lparr>cl_tags := []\<rparr>"
  shows "group_key c' g = group_key c g"
proof -
  have "cl_service c' = cl_service c" "cl_env c' = cl_env c" "cl_version c' = cl_version c" "cl_hostname c' = cl_hostname c"
    "cl_container_id c' = cl_container_id c" "cl_git_commit_sha c' = cl_git_commit_sha c" "cl_image_tag c' = cl_image_tag c"
    "cl_process_tags c' = cl_process_tags c" "cl_process_tags_hash c' = cl_process_tags_hash c"
    "cl_agent_aggregation c' = cl_agent_aggregation c"
    using assms(2) by (cases c; cases c'; simp)+
  moreover have "sort_by str_le (cl_tags c') = sort_by str_le (cl_tags c)" using assms(1) by (intro sort_by_cong) auto
  ultimately show ?thesis by (simp add: group_key_def)
qed

end
