(* ===== verification/Mock_Intake.thy ===== *)
theory Mock_Intake
  imports Mock_Stats Http
begin

text \<open>
  The crate \<^verbatim>\<open>datadog-mock-intake\<close>, second part: the intake that the integration tests send to. It
  decodes the payloads of three endpoints, keeps them with the raw requests, can refuse the first
  statistics requests, and can print summaries and write dumps.

  The payloads of libdatadog are type parameters (\<open>'s\<close> for \<open>StatsPayload\<close>, \<open>'t\<close> and \<open>'i\<close> for the two
  kinds of tracer payloads), and the decoders, the decompressors and the JSON writer are in
  \<open>intake_deps\<close>. A reader is what it yields, with the error it ends with, if any. A header map is the list
  its iterator gives. Request and attempt counters are natural numbers: \<open>2\<^sup>6\<^sup>4\<close> requests are out of reach.
\<close>

section \<open>Data\<close>

definition MAX_BODY_SIZE :: nat where "MAX_BODY_SIZE = 2097152"
definition MAX_DECOMPRESSED_SIZE :: nat where "MAX_DECOMPRESSED_SIZE = 64 * 1024 * 1024"

record pipeline_stats_point =
  ps_hash :: u64
  ps_parent_hash :: u64
  ps_edge_tags :: "string list"

type_synonym pipeline_stats_bucket = "pipeline_stats_point list"

record pipeline_stats_payload =
  pp_env :: string
  pp_service :: string
  pp_tracer_version :: string
  pp_version :: string
  pp_tags :: "string list"
  pp_stats :: "pipeline_stats_bucket list"

record ('t, 'i) agent_payload =
  ap_host_name :: string
  ap_env :: string
  ap_tracer_payloads :: "'t list"
  ap_tags :: "(string \<times> string) list"
  ap_agent_version :: string
  ap_target_tps :: fl
  ap_error_tps :: fl
  ap_rare_sampler_enabled :: bool
  ap_idx_tracer_payloads :: "'i list"

record intake_options =
  io_port :: nat
  request_summaries :: bool
  fail_stats_first_n :: nat
  dump_dir :: "string option"

datatype intake_error = BindFailed nat string | DumpDirFailed string string

record captured_request =
  cq_method :: string
  cq_path :: string
  cq_headers :: "(string \<times> string) list"
  cq_body :: string

datatype ('s, 't, 'i) accepted =
    AcceptedStats 's
  | AcceptedTraces "('t, 'i) agent_payload"
  | AcceptedPipelineStats pipeline_stats_payload

record ('s, 't, 'i) captured =
  cp_requests :: "(nat \<times> captured_request) list"
  cp_stats :: "(nat \<times> 's) list"
  cp_traces :: "(nat \<times> ('t, 'i) agent_payload) list"
  cp_pipeline_stats :: "(nat \<times> pipeline_stats_payload) list"

text \<open>\<open>partition_point\<close> of a list sorted by id is the number of smaller ids at its front.\<close>

definition insert_sorted :: "nat \<Rightarrow> 'x \<Rightarrow> (nat \<times> 'x) list \<Rightarrow> (nat \<times> 'x) list" where
  "insert_sorted request_id item entries =
     (let index = length (takeWhile (\<lambda>(id, _). id < request_id) entries)
      in take index entries @ (request_id, item) # drop index entries)"

definition record_capture ::
  "nat \<Rightarrow> captured_request \<Rightarrow> ('s, 't, 'i) accepted option \<Rightarrow> ('s, 't, 'i) captured \<Rightarrow> ('s, 't, 'i) captured" where
  "record_capture request_id request accepted c =
     (let c = c\<lparr>cp_requests := insert_sorted request_id request (cp_requests c)\<rparr>
      in case accepted of
           Some (AcceptedStats payload) \<Rightarrow> c\<lparr>cp_stats := insert_sorted request_id payload (cp_stats c)\<rparr>
         | Some (AcceptedTraces payload) \<Rightarrow> c\<lparr>cp_traces := insert_sorted request_id payload (cp_traces c)\<rparr>
         | Some (AcceptedPipelineStats payload) \<Rightarrow>
             c\<lparr>cp_pipeline_stats := insert_sorted request_id payload (cp_pipeline_stats c)\<rparr>
         | None \<Rightarrow> c)"

definition items :: "(nat \<times> 'x) list \<Rightarrow> 'x list" where
  "items entries = map snd entries"

definition requests_for_path :: "string \<Rightarrow> ('s, 't, 'i) captured \<Rightarrow> captured_request list" where
  "requests_for_path path c = map snd (filter (\<lambda>(_, req). cq_path req = path) (cp_requests c))"

datatype endpoint = Stats | Traces | PipelineStats

definition from_path :: "string \<Rightarrow> endpoint option" where
  "from_path path =
     (if path = ''/api/v0.2/stats'' then Some Stats
      else if path = ''/api/v0.2/traces'' then Some Traces
      else if path = ''/api/v0.1/pipeline_stats'' then Some PipelineStats
      else None)"

section \<open>Decoding a body\<close>

datatype json = JNull | JBool bool | JNum nat | JFloat fl | JText string | JArr "json list" | JObj "(string \<times> json) list"

type_synonym reader = "string \<times> string option"

record ('s, 't, 'i) intake_deps =
  ik_render :: render_deps
  ik_lossy :: "string \<Rightarrow> string"
  ik_gunzip :: "string \<Rightarrow> reader"
  ik_unzstd :: "string \<Rightarrow> string + reader"
  ik_stats :: "string \<Rightarrow> string + 's"
  ik_traces :: "string \<Rightarrow> string + ('t, 'i) agent_payload"
  ik_pipeline :: "string \<Rightarrow> string + pipeline_stats_payload"
  ik_clients :: "'s \<Rightarrow> stats_payload"
  ik_stats_json :: "'s \<Rightarrow> json option"
  ik_pipeline_json :: "pipeline_stats_payload \<Rightarrow> json option"
  ik_tracers_json :: "'t list \<Rightarrow> json option"
  ik_idx_json :: "'i list \<Rightarrow> json option"
  ik_pretty :: "json \<Rightarrow> string option"
  ik_overflow_checks :: bool

datatype decompress_error = UnsupportedEncoding string | DecodeFailed string

text \<open>\<open>take(n)\<close> and \<open>read_to_end\<close>: after \<open>n\<close> bytes the reader is not asked again.\<close>

definition take_to_end :: "nat \<Rightarrow> reader \<Rightarrow> string + string" where
  "take_to_end n reader =
     (if n \<le> length (fst reader) then Inr (take n (fst reader))
      else (case snd reader of Some e \<Rightarrow> Inl e | None \<Rightarrow> Inr (fst reader)))"

definition read_capped :: "reader \<Rightarrow> nat \<Rightarrow> string + string" where
  "read_capped reader cap =
     (case take_to_end (cap + 1) reader of
        Inl e \<Rightarrow> Inl (''read failed: '' @ e)
      | Inr out \<Rightarrow>
          if length out > cap
          then Inl (''decompressed body exceeds '' @ show_nat cap @ '' byte cap, rejecting as a likely decompression bomb'')
          else Inr out)"

definition content_encoding :: "('s, 't, 'i) intake_deps \<Rightarrow> (string \<times> string) list \<Rightarrow> string" where
  "content_encoding D headers =
     (case map_of headers ''content-encoding'' of None \<Rightarrow> ''identity'' | Some v \<Rightarrow> ik_lossy D v)"

definition decompress ::
  "('s, 't, 'i) intake_deps \<Rightarrow> (string \<times> string) list \<Rightarrow> string \<Rightarrow> decompress_error + string" where
  "decompress D headers body =
     (let encoding = map to_ascii_lower (content_encoding D headers)
      in if encoding = '''' \<or> encoding = ''identity'' then Inr body
         else if encoding = ''gzip'' then
           (case read_capped (ik_gunzip D body) MAX_DECOMPRESSED_SIZE of
              Inl e \<Rightarrow> Inl (DecodeFailed (''mock_intake: gzip decode failed: '' @ e)) | Inr d \<Rightarrow> Inr d)
         else if encoding = ''zstd'' then
           (case ik_unzstd D body of
              Inl e \<Rightarrow> Inl (DecodeFailed (''mock_intake: zstd decoder init failed: '' @ e))
            | Inr decoder \<Rightarrow>
                (case read_capped decoder MAX_DECOMPRESSED_SIZE of
                   Inl e \<Rightarrow> Inl (DecodeFailed (''mock_intake: zstd decode failed: '' @ e)) | Inr d \<Rightarrow> Inr d))
         else Inl (UnsupportedEncoding encoding))"

definition failure_status :: "bool \<Rightarrow> nat" where
  "failure_status inject_failure = (if inject_failure then 500 else 400)"

fun decompress_failure_status :: "decompress_error \<Rightarrow> nat" where
  "decompress_failure_status (UnsupportedEncoding e) = 415"
| "decompress_failure_status (DecodeFailed e) = 400"

section \<open>Summaries and dumps\<close>

definition log_summary ::
  "('s, 't, 'i) intake_deps \<Rightarrow> nat \<Rightarrow> string \<Rightarrow> (string \<times> string) list \<Rightarrow> nat \<Rightarrow> nat \<Rightarrow>
   (stats_group_key \<times> u64) list option \<Rightarrow> string" where
  "log_summary D request_id endpoint headers status payload_count groups =
     ''mock-intake: request '' @ show_nat request_id @ '' | POST '' @ endpoint @ '' | encoding='' @ content_encoding D headers @
     '' | status='' @ show_nat status @ '' | payloads='' @ show_nat payload_count @
     (case groups of
        None \<Rightarrow> ''''
      | Some groups \<Rightarrow>
          let rendered = map (\<lambda>(key, hits). ''hits='' @ show_nat (unat hits) @ '' '' @ render (ik_render D) key) groups
          in '' | groups='' @ show_nat (length groups) @ '' | '' @ join_with ''; '' rendered)"

text \<open>
  What a dump meets: the process, the clock, and what creating a new file at a path gives. The
  file that is created is handed the whole text.
\<close>

datatype open_result = Created | AlreadyExists | OpenFailed

record dump_env =
  de_pid :: nat
  de_nanos :: nat
  de_open :: "string \<Rightarrow> open_result"

datatype diagnostic = Summary string | Dumped string string

definition path_join :: "string \<Rightarrow> string \<Rightarrow> string" where
  "path_join dir name = (if dir = [] \<or> last dir = CHR ''/'' then dir @ name else dir @ ''/'' @ name)"

definition dump_path :: "string \<Rightarrow> string \<Rightarrow> nat \<Rightarrow> string" where
  "dump_path dir base suffix =
     path_join dir (if suffix = 0 then base @ ''.json'' else base @ ''-'' @ show_nat suffix @ ''.json'')"

function dump_loop :: "dump_env \<Rightarrow> string \<Rightarrow> string \<Rightarrow> nat \<Rightarrow> string option" where
  "dump_loop W dir base suffix =
     (let path = dump_path dir base suffix
      in case de_open W path of
           Created \<Rightarrow> Some path
         | AlreadyExists \<Rightarrow> if suffix + 1 > 1000 then None else dump_loop W dir base (suffix + 1)
         | OpenFailed \<Rightarrow> None)"
  by pat_completeness auto
termination
  by (relation "measure (\<lambda>(W, dir, base, suffix). 1001 - suffix)") auto

declare dump_loop.simps [simp del]

definition dump_base :: "dump_env \<Rightarrow> string \<Rightarrow> nat \<Rightarrow> string" where
  "dump_base W endpoint request_id =
     (let slug = map (\<lambda>c. if c = CHR ''/'' then CHR ''_'' else c) endpoint; n = show_nat request_id
      in slug @ ''-'' @ replicate (4 - length n) (CHR ''0'') @ n @ ''-'' @ show_nat (de_pid W) @ ''-'' @ show_nat (de_nanos W))"

definition dump_request ::
  "('s, 't, 'i) intake_deps \<Rightarrow> intake_options \<Rightarrow> dump_env \<Rightarrow> nat \<Rightarrow> string \<Rightarrow> (string \<times> string) list \<Rightarrow> nat \<Rightarrow> json \<Rightarrow>
   diagnostic list" where
  "dump_request D opts W request_id endpoint headers status payload =
     (case dump_dir opts of
        None \<Rightarrow> []
      | Some dir \<Rightarrow>
          (case ik_pretty D (JObj [(''request_id'', JNum request_id), (''endpoint'', JText endpoint),
                 (''encoding'', JText (content_encoding D headers)), (''status'', JNum status), (''payload'', payload)]) of
             None \<Rightarrow> []
           | Some json \<Rightarrow>
               (case dump_loop W dir (dump_base W endpoint request_id) 0 of
                  None \<Rightarrow> [] | Some path \<Rightarrow> [Dumped path (json @ [CHR 0x0A])])))"

text \<open>\<open>json!\<close> panics when a part does not serialize.\<close>

definition agent_payload_to_json :: "('s, 't, 'i) intake_deps \<Rightarrow> ('t, 'i) agent_payload \<Rightarrow> json rust" where
  "agent_payload_to_json D payload =
     (case (ik_tracers_json D (ap_tracer_payloads payload), ik_idx_json D (ap_idx_tracer_payloads payload)) of
        (Some tracer_payloads, Some idx_tracer_payloads) \<Rightarrow>
          Ret (JObj [(''host_name'', JText (ap_host_name payload)), (''env'', JText (ap_env payload)),
                (''tracer_payloads'', tracer_payloads),
                (''tags'', JObj (map (\<lambda>(k, v). (k, JText v)) (ap_tags payload))),
                (''agent_version'', JText (ap_agent_version payload)), (''target_tps'', JFloat (ap_target_tps payload)),
                (''error_tps'', JFloat (ap_error_tps payload)),
                (''rare_sampler_enabled'', JBool (ap_rare_sampler_enabled payload)),
                (''idx_tracer_payloads'', idx_tracer_payloads)])
      | _ \<Rightarrow> Panic)"

section \<open>Handling a request\<close>

text \<open>
  A handler gives what it prints and writes, and then its result or a panic. The one for statistics
  also counts the attempt.
\<close>

type_synonym ('s, 't, 'i) handled = "diagnostic list \<times> (nat \<times> ('s, 't, 'i) accepted option) rust"

definition stats_outcome ::
  "('s, 't, 'i) intake_deps \<Rightarrow> intake_options \<Rightarrow> (string \<times> string) list \<Rightarrow> string \<Rightarrow> nat \<Rightarrow> nat \<times> nat \<times> 's option" where
  "stats_outcome D opts headers body stats_attempts =
     (case decompress D headers body of
        Inl (UnsupportedEncoding e) \<Rightarrow> (stats_attempts, 415, None)
      | result \<Rightarrow>
          let attempt = stats_attempts + 1;
              inject_failure = attempt \<le> fail_stats_first_n opts
          in (attempt,
              case result of
                Inr d \<Rightarrow>
                  (case ik_stats D d of
                     Inr payload \<Rightarrow> (if inject_failure then 500 else 202, Some payload)
                   | Inl err \<Rightarrow> (failure_status inject_failure, None))
              | Inl e \<Rightarrow> (failure_status inject_failure, None)))"

definition handle_stats ::
  "('s, 't, 'i) intake_deps \<Rightarrow> intake_options \<Rightarrow> dump_env \<Rightarrow> nat \<Rightarrow> (string \<times> string) list \<Rightarrow> string \<Rightarrow> nat \<Rightarrow>
   nat \<times> ('s, 't, 'i) handled" where
  "handle_stats D opts W request_id headers body stats_attempts =
     (case stats_outcome D opts headers body stats_attempts of (stats_attempts, status, decoded) \<Rightarrow>
        let clients = (case decoded of Some p \<Rightarrow> ik_clients D p | None \<Rightarrow> []);
            groups = (case decoded of None \<Rightarrow> Ret None
                      | Some p \<Rightarrow> bind_rust (stats_hits_by_key (ik_overflow_checks D) (ik_clients D p)) (\<lambda>g. Ret (Some g)));
            lines = (if request_summaries opts
                     then bind_rust groups (\<lambda>groups.
                       Ret [Summary (log_summary D request_id ''/api/v0.2/stats'' headers status (length clients) groups)])
                     else Ret [])
        in (stats_attempts,
            case lines of
              Panic \<Rightarrow> ([], Panic)
            | Ret lines \<Rightarrow>
                (lines @ (case decoded of
                            None \<Rightarrow> []
                          | Some p \<Rightarrow> dump_request D opts W request_id ''/api/v0.2/stats'' headers status
                              (case ik_stats_json D p of Some j \<Rightarrow> j | None \<Rightarrow> JNull)),
                 Ret (status, if status = 202 then map_option AcceptedStats decoded else None))))"

definition handle_traces ::
  "('s, 't, 'i) intake_deps \<Rightarrow> intake_options \<Rightarrow> dump_env \<Rightarrow> nat \<Rightarrow> (string \<times> string) list \<Rightarrow> string \<Rightarrow>
   ('s, 't, 'i) handled" where
  "handle_traces D opts W request_id headers body =
     (let (status, decoded) =
        (case decompress D headers body of
           Inr d \<Rightarrow> (case ik_traces D d of Inr payload \<Rightarrow> (202, Some payload) | Inl err \<Rightarrow> (400, None))
         | Inl e \<Rightarrow> (decompress_failure_status e, None));
          payload_count = (case decoded of None \<Rightarrow> 0
            | Some p \<Rightarrow> length (ap_tracer_payloads p) + length (ap_idx_tracer_payloads p));
          lines = (if request_summaries opts
            then [Summary (log_summary D request_id ''/api/v0.2/traces'' headers status payload_count None)] else []);
          dumps = (if dump_dir opts = None then Ret []
            else (case decoded of
                    None \<Rightarrow> Ret []
                  | Some p \<Rightarrow> bind_rust (agent_payload_to_json D p) (\<lambda>j.
                      Ret (dump_request D opts W request_id ''/api/v0.2/traces'' headers status j))))
      in case dumps of
           Panic \<Rightarrow> (lines, Panic)
         | Ret dumps \<Rightarrow> (lines @ dumps, Ret (status, if status = 202 then map_option AcceptedTraces decoded else None)))"

definition handle_pipeline_stats ::
  "('s, 't, 'i) intake_deps \<Rightarrow> intake_options \<Rightarrow> dump_env \<Rightarrow> nat \<Rightarrow> (string \<times> string) list \<Rightarrow> string \<Rightarrow>
   ('s, 't, 'i) handled" where
  "handle_pipeline_stats D opts W request_id headers body =
     (let (status, decoded) =
        (case decompress D headers body of
           Inr d \<Rightarrow> (case ik_pipeline D d of Inr payload \<Rightarrow> (202, Some payload) | Inl err \<Rightarrow> (400, None))
         | Inl e \<Rightarrow> (decompress_failure_status e, None));
          payload_count = (case decoded of None \<Rightarrow> 0 | Some p \<Rightarrow> sum_list (map length (pp_stats p)));
          lines = (if request_summaries opts
            then [Summary (log_summary D request_id ''/api/v0.1/pipeline_stats'' headers status payload_count None)] else []);
          dumps = (case decoded of
              None \<Rightarrow> []
            | Some p \<Rightarrow> dump_request D opts W request_id ''/api/v0.1/pipeline_stats'' headers status
                (case ik_pipeline_json D p of Some j \<Rightarrow> j | None \<Rightarrow> JNull))
      in (lines @ dumps, Ret (status, if status = 202 then map_option AcceptedPipelineStats decoded else None)))"

text \<open>The task of a request up to its record: a panic is caught and becomes a 500.\<close>

definition handle_endpoint ::
  "('s, 't, 'i) intake_deps \<Rightarrow> intake_options \<Rightarrow> dump_env \<Rightarrow> endpoint \<Rightarrow> nat \<Rightarrow> (string \<times> string) list \<Rightarrow> string \<Rightarrow> nat \<Rightarrow>
   nat \<times> ('s, 't, 'i) handled" where
  "handle_endpoint D opts W endpoint request_id headers body stats_attempts =
     (case endpoint of
        Stats \<Rightarrow> handle_stats D opts W request_id headers body stats_attempts
      | Traces \<Rightarrow> (stats_attempts, handle_traces D opts W request_id headers body)
      | PipelineStats \<Rightarrow> (stats_attempts, handle_pipeline_stats D opts W request_id headers body))"

fun caught :: "(nat \<times> 'x option) rust \<Rightarrow> nat \<times> 'x option" where
  "caught (Ret r) = r"
| "caught Panic = (500, None)"

section \<open>Requests in flight\<close>

text \<open>
  Where a request is: its body is read, its blocking task runs with the body, the task has its result and
  will record it, or the capture is recorded and the answer not yet sent. The client may go away at any
  time; once the blocking task runs it goes on all the same.
\<close>

datatype ('s, 't, 'i) stage =
    Reading
  | Running string
  | Computed string nat "('s, 't, 'i) accepted option"
  | Answering nat

record ('s, 't, 'i) flight =
  fl_id :: nat
  fl_endpoint :: endpoint
  fl_path :: string
  fl_headers :: "(string \<times> string) list"
  fl_stage :: "('s, 't, 'i) stage"

record ('s, 't, 'i) intake =
  in_captured :: "('s, 't, 'i) captured"
  in_counter :: nat
  in_attempts :: nat
  in_flights :: "('s, 't, 'i) flight list"

definition intake_init :: "('s, 't, 'i) intake" where
  "intake_init = \<lparr>in_captured = \<lparr>cp_requests = [], cp_stats = [], cp_traces = [], cp_pipeline_stats = []\<rparr>,
     in_counter = 0, in_attempts = 0, in_flights = []\<rparr>"

definition capture_of :: "('s, 't, 'i) flight \<Rightarrow> string \<Rightarrow> captured_request" where
  "capture_of f body =
     \<lparr>cq_method = ''POST'', cq_path = fl_path f, cq_headers = fl_headers f, cq_body = body\<rparr>"

text \<open>\<open>Handled\<close> says whether a statistics attempt was counted.\<close>

datatype ('s, 't, 'i) intake_label =
    Refused nat
  | Arrived nat
  | Ended nat "nat option"
  | BodyRead nat
  | Handled nat nat bool
  | Recorded nat captured_request nat "('s, 't, 'i) accepted option"
  | Answered nat nat
  | Abandoned nat

definition to_text :: "('s, 't, 'i) intake_deps \<Rightarrow> (string \<times> string) list \<Rightarrow> (string \<times> string) list" where
  "to_text D headers = map (\<lambda>(k, v). (k, ik_lossy D v)) headers"

inductive intake_step ::
  "('s, 't, 'i) intake_deps \<Rightarrow> intake_options \<Rightarrow> ('s, 't, 'i) intake \<Rightarrow> ('s, 't, 'i) intake_label \<Rightarrow> ('s, 't, 'i) intake \<Rightarrow> bool"
  for D opts where
  not_found: "from_path path = None \<Longrightarrow> intake_step D opts s (Refused 404) s"
| not_allowed: "from_path path = Some e \<Longrightarrow> method \<noteq> ''POST'' \<Longrightarrow> intake_step D opts s (Refused 405) s"
| arrive: "from_path path = Some e \<Longrightarrow> request_id = in_counter s + 1 \<Longrightarrow>
    intake_step D opts s (Arrived request_id)
      (s\<lparr>in_counter := request_id, in_flights := in_flights s @
         [\<lparr>fl_id = request_id, fl_endpoint = e, fl_path = path, fl_headers = headers, fl_stage = Reading\<rparr>]\<rparr>)"
| too_large: "in_flights s = fs @ f # gs \<Longrightarrow> fl_stage f = Reading \<Longrightarrow> length (body :: string) > MAX_BODY_SIZE \<Longrightarrow>
    intake_step D opts s (Ended (fl_id f) (Some 413)) (s\<lparr>in_flights := fs @ gs\<rparr>)"
| unreadable: "in_flights s = fs @ f # gs \<Longrightarrow> fl_stage f = Reading \<Longrightarrow>
    intake_step D opts s (Ended (fl_id f) (Some 400)) (s\<lparr>in_flights := fs @ gs\<rparr>)"
| disconnect: "in_flights s = fs @ f # gs \<Longrightarrow> fl_stage f = Reading \<Longrightarrow>
    intake_step D opts s (Ended (fl_id f) None) (s\<lparr>in_flights := fs @ gs\<rparr>)"
| body_read: "in_flights s = fs @ f # gs \<Longrightarrow> fl_stage f = Reading \<Longrightarrow> length body \<le> MAX_BODY_SIZE \<Longrightarrow>
    intake_step D opts s (BodyRead (fl_id f)) (s\<lparr>in_flights := fs @ f\<lparr>fl_stage := Running body\<rparr> # gs\<rparr>)"
| handle: "in_flights s = fs @ f # gs \<Longrightarrow> fl_stage f = Running body \<Longrightarrow>
    handle_endpoint D opts W (fl_endpoint f) (fl_id f) (fl_headers f) body (in_attempts s) = (attempts, diagnostics, result) \<Longrightarrow>
    caught result = (status, accepted) \<Longrightarrow>
    intake_step D opts s (Handled (fl_id f) status (attempts \<noteq> in_attempts s))
      (s\<lparr>in_attempts := attempts, in_flights := fs @ f\<lparr>fl_stage := Computed body status accepted\<rparr> # gs\<rparr>)"
| recorded: "in_flights s = fs @ f # gs \<Longrightarrow> fl_stage f = Computed body status accepted \<Longrightarrow>
    req = capture_of (f\<lparr>fl_headers := to_text D (fl_headers f)\<rparr>) body \<Longrightarrow>
    intake_step D opts s (Recorded (fl_id f) req status accepted)
      (s\<lparr>in_captured := record_capture (fl_id f) req accepted (in_captured s),
         in_flights := fs @ f\<lparr>fl_stage := Answering status\<rparr> # gs\<rparr>)"
| answer: "in_flights s = fs @ f # gs \<Longrightarrow> fl_stage f = Answering status \<Longrightarrow>
    intake_step D opts s (Answered (fl_id f) status) (s\<lparr>in_flights := fs @ gs\<rparr>)"
| abandoned: "in_flights s = fs @ f # gs \<Longrightarrow> fl_stage f = Answering status \<Longrightarrow>
    intake_step D opts s (Abandoned (fl_id f)) (s\<lparr>in_flights := fs @ gs\<rparr>)"

inductive_cases intake_stepE: "intake_step D opts s l s'"

end
