(* ===== verification/Mock_Captures.thy ===== *)
theory Mock_Captures
  imports Mock_Intake
begin

text \<open>
  The crate \<^verbatim>\<open>datadog-mock-intake\<close>, what the tests can rely on: the captures are the recorded requests in
  the order of arrival however they interleave, the requested number of statistics attempts is refused
  and no more, and the diagnostics change no answer.
\<close>

section \<open>The log of a run\<close>

type_synonym ('s, 't, 'i) record_entry = "nat \<times> captured_request \<times> nat \<times> ('s, 't, 'i) accepted option"

fun recorded :: "('s, 't, 'i) intake_label list \<Rightarrow> ('s, 't, 'i) record_entry list" where
  "recorded [] = []"
| "recorded (Recorded i q st a # ls) = (i, q, st, a) # recorded ls"
| "recorded (_ # ls) = recorded ls"

fun arrived :: "('s, 't, 'i) intake_label list \<Rightarrow> nat list" where
  "arrived [] = []"
| "arrived (Arrived i # ls) = i # arrived ls"
| "arrived (_ # ls) = arrived ls"

fun answered :: "('s, 't, 'i) intake_label list \<Rightarrow> (nat \<times> nat) list" where
  "answered [] = []"
| "answered (Answered i st # ls) = (i, st) # answered ls"
| "answered (_ # ls) = answered ls"

text \<open>The answers to the counted statistics attempts.\<close>

fun counted :: "('s, 't, 'i) intake_label list \<Rightarrow> nat list" where
  "counted [] = []"
| "counted (Handled i st True # ls) = st # counted ls"
| "counted (_ # ls) = counted ls"

lemma log_append [simp]:
  "recorded (ks @ ls) = recorded ks @ recorded ls" "arrived (ks @ ls) = arrived ks @ arrived ls"
  "answered (ks @ ls) = answered ks @ answered ls" "counted (ks @ ls) = counted ks @ counted ls"
proof -
  show "recorded (ks @ ls) = recorded ks @ recorded ls" by (induction ks rule: recorded.induct) auto
  show "arrived (ks @ ls) = arrived ks @ arrived ls" by (induction ks rule: arrived.induct) auto
  show "answered (ks @ ls) = answered ks @ answered ls" by (induction ks rule: answered.induct) auto
  show "counted (ks @ ls) = counted ks @ counted ls" by (induction ks rule: counted.induct) auto
qed

section \<open>The captures are the log by arrival\<close>

definition entries :: "(captured_request \<Rightarrow> ('s, 't, 'i) accepted option \<Rightarrow> 'x option) \<Rightarrow> ('s, 't, 'i) record_entry list \<Rightarrow> (nat \<times> 'x) list" where
  "entries g rs = List.map_filter (\<lambda>(i, q, st, a). map_option (Pair i) (g q a)) rs"

definition stats_of :: "captured_request \<Rightarrow> ('s, 't, 'i) accepted option \<Rightarrow> 's option" where
  "stats_of q a = (case a of Some (AcceptedStats p) \<Rightarrow> Some p | _ \<Rightarrow> None)"

definition traces_of :: "captured_request \<Rightarrow> ('s, 't, 'i) accepted option \<Rightarrow> ('t, 'i) agent_payload option" where
  "traces_of q a = (case a of Some (AcceptedTraces p) \<Rightarrow> Some p | _ \<Rightarrow> None)"

definition pipeline_of :: "captured_request \<Rightarrow> ('s, 't, 'i) accepted option \<Rightarrow> pipeline_stats_payload option" where
  "pipeline_of q a = (case a of Some (AcceptedPipelineStats p) \<Rightarrow> Some p | _ \<Rightarrow> None)"

definition by_arrival :: "('s, 't, 'i) record_entry list \<Rightarrow> ('s, 't, 'i) captured" where
  "by_arrival rs =
     (let rs = sort_key fst rs
      in \<lparr>cp_requests = entries (\<lambda>q a. Some q) rs, cp_stats = entries stats_of rs, cp_traces = entries traces_of rs,
          cp_pipeline_stats = entries pipeline_of rs\<rparr>)"

lemma insert_sorted_simps:
  "insert_sorted i x [] = [(i, x)]"
  "insert_sorted i x ((j, y) # ys) = (if j < i then (j, y) # insert_sorted i x ys else (i, x) # (j, y) # ys)"
  by (simp_all add: insert_sorted_def Let_def)

lemma entries_simps:
  "entries g [] = []"
  "entries g ((i, q, st, a) # rs) = (case g q a of Some x \<Rightarrow> (i, x) # entries g rs | None \<Rightarrow> entries g rs)"
  by (simp_all add: entries_def map_filter_simps split: option.split)

lemma entries_bound: "x \<in> set (entries g rs) \<Longrightarrow> fst x \<in> fst ` set rs"
  by (force simp: entries_def map_filter_def)

lemma insert_sorted_less: "(\<And>x. x \<in> set xs \<Longrightarrow> i < fst x) \<Longrightarrow> insert_sorted i y xs = (i, y) # xs"
  by (cases xs) (force simp: insert_sorted_simps)+

lemma entries_insort:
  assumes "sorted (map fst rs)" "i \<notin> fst ` set rs"
  shows "entries g (insort_key fst (i, q, st, a) rs) =
    (case g q a of Some x \<Rightarrow> insert_sorted i x (entries g rs) | None \<Rightarrow> entries g rs)"
  using assms
proof (induction rs)
  case Nil
  then show ?case by (simp add: entries_simps insert_sorted_simps split: option.split)
next
  case (Cons r rs)
  obtain j q' st' a' where r: "r = (j, q', st', a')" by (cases r) auto
  show ?case
  proof (cases "i \<le> j")
    case True
    then have "i < fst x" if "x \<in> set (entries g (r # rs))" for x
      using Cons.prems entries_bound [OF that] by (fastforce simp: r)
    then have "insert_sorted i y (entries g (r # rs)) = (i, y) # entries g (r # rs)" for y
      by (rule insert_sorted_less)
    then show ?thesis using True by (simp add: r entries_simps(2) [of g i] split: option.split)
  next
    case False
    then show ?thesis using Cons by (auto simp: r entries_simps insert_sorted_simps split: option.split)
  qed
qed

lemma sort_key_snoc:
  "distinct (map f (rs @ [r])) \<Longrightarrow> sort_key f (rs @ [r]) = insort_key f r (sort_key f rs)"
proof (induction rs)
  case (Cons a rs)
  then show ?case by (simp add: insort_key_left_comm)
qed simp

lemma by_arrival_snoc:
  assumes "distinct (map fst (rs @ [(i, q, st, a)]))"
  shows "by_arrival (rs @ [(i, q, st, a)]) = record_capture i q a (by_arrival rs)"
proof -
  have "i \<notin> fst ` set (sort_key fst rs)" "sorted (map fst (sort_key fst rs))" using assms by auto
  note e = entries_insort [OF this(2,1), where q = q and st = st and a = a]
  show ?thesis
    unfolding by_arrival_def Let_def sort_key_snoc [OF assms] e
    by (auto simp: record_capture_def stats_of_def traces_of_def pipeline_of_def Let_def split: option.split accepted.split)
qed

section \<open>What a run keeps\<close>

lemma handled_status:
  assumes "handle_endpoint D opts W e i hs body n = (n', ds, res)" "caught res = (st, acc)"
  shows "st = 202 \<longleftrightarrow> acc \<noteq> None"
proof (cases e)
  case Stats
  obtain n1 st1 dec where o: "stats_outcome D opts hs body n = (n1, st1, dec)" by (cases "stats_outcome D opts hs body n") auto
  then have "st1 = 202 \<Longrightarrow> dec \<noteq> None"
    by (auto simp: stats_outcome_def failure_status_def Let_def split: sum.splits decompress_error.splits if_splits)
  moreover have "res = Panic \<or> res = Ret (st1, if st1 = 202 then map_option AcceptedStats dec else None)"
    using assms(1) by (auto simp: handle_endpoint_def handle_stats_def Stats o Let_def split: rust.splits)
  ultimately show ?thesis using assms(2) by (auto split: if_splits)
next
  case Traces
  have "decompress_failure_status e \<noteq> 202" for e by (cases e) auto
  then show ?thesis using assms
    by (auto simp: handle_endpoint_def handle_traces_def Traces Let_def split: rust.splits sum.splits option.splits prod.splits)
next
  case PipelineStats
  have "decompress_failure_status e \<noteq> 202" for e by (cases e) auto
  then show ?thesis using assms
    by (auto simp: handle_endpoint_def handle_pipeline_stats_def PipelineStats Let_def split: rust.splits sum.splits option.splits)
qed

definition flight_ok :: "('s, 't, 'i) record_entry list \<Rightarrow> ('s, 't, 'i) flight \<Rightarrow> bool" where
  "flight_ok rs f =
     (case fl_stage f of
        Answering st \<Rightarrow> \<exists>q a. (fl_id f, q, st, a) \<in> set rs
      | Computed body st a \<Rightarrow> fl_id f \<notin> fst ` set rs \<and> (st = 202 \<longleftrightarrow> a \<noteq> None)
      | _ \<Rightarrow> fl_id f \<notin> fst ` set rs)"

definition intake_inv :: "('s, 't, 'i) intake_label list \<Rightarrow> ('s, 't, 'i) intake \<Rightarrow> bool" where
  "intake_inv ls s \<longleftrightarrow>
     in_captured s = by_arrival (recorded ls) \<and> distinct (map fst (recorded ls)) \<and>
     arrived ls = [1..<Suc (in_counter s)] \<and> fst ` set (recorded ls) \<subseteq> {1..in_counter s} \<and>
     set (answered ls) \<subseteq> (\<lambda>(i, q, st, a). (i, st)) ` set (recorded ls) \<and>
     list_all (\<lambda>(i, q, st, a). st = 202 \<longleftrightarrow> a \<noteq> None) (recorded ls) \<and>
     distinct (map fl_id (in_flights s)) \<and> fl_id ` set (in_flights s) \<subseteq> {1..in_counter s} \<and>
     list_all (flight_ok (recorded ls)) (in_flights s)"

lemma intake_inv_init: "intake_inv [] intake_init"
  by (simp add: intake_inv_def intake_init_def by_arrival_def entries_def map_filter_simps)

lemma intake_inv_step:
  assumes "intake_inv ls s" "intake_step D opts s l s'"
  shows "intake_inv (ls @ [l]) s'"
  using assms(2)
proof cases
  case (handle fs f gs body W attempts diagnostics result status accepted)
  then show ?thesis using assms(1) handled_status [OF handle(5,6)]
    by (auto simp: intake_inv_def flight_ok_def)
next
  case (recorded fs f gs body status accepted req)
  have f: "flight_ok (Mock_Captures.recorded ls) f" using assms(1) recorded by (simp add: intake_inv_def)
  then have new: "fl_id f \<notin> fst ` set (Mock_Captures.recorded ls)" "status = 202 \<longleftrightarrow> accepted \<noteq> None"
    by (simp_all add: flight_ok_def recorded)
  then have d: "distinct (map fst (Mock_Captures.recorded ls @ [(fl_id f, req, status, accepted)]))"
    using assms(1) by (simp add: intake_inv_def)
  have other: "flight_ok (Mock_Captures.recorded ls @ [(fl_id f, req, status, accepted)]) g"
    if "flight_ok (Mock_Captures.recorded ls) g" "fl_id g \<noteq> fl_id f" for g
    using that by (auto simp: flight_ok_def split: stage.splits)
  have "fl_id f \<notin> fl_id ` set (fs @ gs)" using assms(1) recorded(3) by (auto simp: intake_inv_def)
  then have fresh: "fl_id g \<noteq> fl_id f" if "g \<in> set (fs @ gs)" for g using that by (metis imageI)
  have "list_all (flight_ok (Mock_Captures.recorded ls @ [(fl_id f, req, status, accepted)])) (fs @ gs)"
    using assms(1) recorded(3) other fresh by (simp add: intake_inv_def list_all_iff)
  moreover have "flight_ok (Mock_Captures.recorded ls @ [(fl_id f, req, status, accepted)]) (f\<lparr>fl_stage := Answering status\<rparr>)"
    by (auto simp: flight_ok_def)
  ultimately show ?thesis using assms(1) recorded(1,2,3) new d
    by (auto simp: intake_inv_def by_arrival_snoc [OF d])
next
  case (answer fs f gs status)
  then have "flight_ok (Mock_Captures.recorded ls) f" using assms(1) by (simp add: intake_inv_def)
  then obtain q a where "(fl_id f, q, status, a) \<in> set (Mock_Captures.recorded ls)" by (auto simp: flight_ok_def answer(4))
  then have "(fl_id f, status) \<in> (\<lambda>(i, q, st, a). (i, st)) ` set (Mock_Captures.recorded ls)" by force
  then show ?thesis using assms(1) answer by (auto simp: intake_inv_def)
qed (use assms(1) in \<open>auto simp: intake_inv_def flight_ok_def list_all_iff\<close>)

text \<open>The requests whose body has been read, and those of them that wait to be recorded.\<close>

fun bodies_read :: "('s, 't, 'i) intake_label list \<Rightarrow> nat list" where
  "bodies_read [] = []"
| "bodies_read (BodyRead i # ls) = i # bodies_read ls"
| "bodies_read (_ # ls) = bodies_read ls"

lemma bodies_read_append [simp]: "bodies_read (ks @ ls) = bodies_read ks @ bodies_read ls"
  by (induction ks rule: bodies_read.induct) auto

definition unrecorded :: "('s, 't, 'i) flight \<Rightarrow> bool" where
  "unrecorded f = (case fl_stage f of Running body \<Rightarrow> True | Computed body st a \<Rightarrow> True | _ \<Rightarrow> False)"

definition read_inv :: "('s, 't, 'i) intake_label list \<Rightarrow> ('s, 't, 'i) intake \<Rightarrow> bool" where
  "read_inv ls s \<longleftrightarrow>
     set (bodies_read ls) = fst ` set (recorded ls) \<union> fl_id ` set (filter unrecorded (in_flights s))"

lemma read_inv_step: "read_inv ls s \<Longrightarrow> intake_step D opts s l s' \<Longrightarrow> read_inv (ls @ [l]) s'"
  by (erule intake_stepE) (auto simp: read_inv_def unrecorded_def)

text \<open>
  The requests in flight can always be brought to their end: a body that is not there yet by a client that
  goes away, the others by the tasks of the intake alone.
\<close>

definition finishing :: "('s, 't, 'i) intake_label \<Rightarrow> bool" where
  "finishing l = (case l of Handled i st c \<Rightarrow> True | Recorded i q st a \<Rightarrow> True | Answered i st \<Rightarrow> True | Ended i None \<Rightarrow> True | _ \<Rightarrow> False)"

definition stage_rank :: "('s, 't, 'i) stage \<Rightarrow> nat" where
  "stage_rank st = (case st of Reading \<Rightarrow> 1 | Running body \<Rightarrow> 3 | Computed body c a \<Rightarrow> 2 | Answering c \<Rightarrow> 1)"

abbreviation intake_work :: "('s, 't, 'i) intake \<Rightarrow> nat" where
  "intake_work s \<equiv> sum_list (map (\<lambda>f. stage_rank (fl_stage f)) (in_flights s))"

lemma intake_moves:
  assumes "in_flights s \<noteq> []"
  shows "\<exists>l s'. intake_step D opts s l s' \<and> finishing l \<and> () = () \<and> intake_work s' < intake_work s"
proof -
  obtain f gs where f: "in_flights s = [] @ f # gs" using assms by (cases "in_flights s") auto
  show ?thesis
  proof (cases "fl_stage f")
    case Reading
    then show ?thesis using disconnect [OF f, of D opts] f
      by (intro exI conjI) (assumption | simp add: finishing_def stage_rank_def)+
  next
    case (Running body)
    obtain n ds res where h: "handle_endpoint D opts undefined (fl_endpoint f) (fl_id f) (fl_headers f) body (in_attempts s) = (n, ds, res)"
      by (cases "handle_endpoint D opts undefined (fl_endpoint f) (fl_id f) (fl_headers f) body (in_attempts s)")
    obtain st a where "caught res = (st, a)" by (cases "caught res")
    from handle [OF f Running h this] Running f show ?thesis
      by (intro exI conjI) (assumption | simp add: finishing_def stage_rank_def)+
  next
    case (Computed body st a)
    from intake_step.recorded [OF f Computed refl, of D opts] Computed f show ?thesis
      by (intro exI conjI) (assumption | simp add: finishing_def stage_rank_def)+
  next
    case (Answering st)
    from answer [OF f Answering, of D opts] Answering f show ?thesis
      by (intro exI conjI) (assumption | simp add: finishing_def stage_rank_def)+
  qed
qed

interpretation flights: settling_system "intake_step D opts" intake_init "\<lambda>ls s. intake_inv ls s \<and> read_inv ls s"
  "\<lambda>s. in_flights s = []" finishing "\<lambda>s. ()" intake_work
  for D :: "('s, 't, 'i) intake_deps" and opts
proof
  show "intake_inv [] intake_init \<and> read_inv [] intake_init" by (rule conjI [OF intake_inv_init]) (simp add: read_inv_def intake_init_def)
qed (blast intro: intake_inv_step read_inv_step intake_moves)+

text \<open>
  C39. However the requests interleave: identities are given in the order of arrival, every request is
  recorded at most once, the captures are the records sorted by arrival, with the raw request and its
  payload side by side, a payload is kept exactly when the answer is 202, and whoever has seen an answer
  finds the request captured with that outcome.
\<close>

theorem intake_captures:
  assumes "run (intake_step D opts) intake_init ls s"
  shows "in_captured s = by_arrival (recorded ls) \<and> distinct (map fst (recorded ls)) \<and>
    arrived ls = [1..<Suc (in_counter s)] \<and> fst ` set (recorded ls) \<subseteq> set (arrived ls) \<and>
    set (answered ls) \<subseteq> (\<lambda>(i, q, st, a). (i, st)) ` set (recorded ls) \<and>
    list_all (\<lambda>(i, q, st, a). st = 202 \<longleftrightarrow> a \<noteq> None) (recorded ls)"
  using flights.run_inv [OF assms] by (simp add: intake_inv_def atLeastLessThanSuc_atLeastAtMost del: upt_Suc)

text \<open>
  Whatever is in flight, the intake can come to rest without another request, and then the captures are
  exactly the requests whose body had been read, each with its outcome.
\<close>

lemma finishing_labels: "list_all finishing ks \<Longrightarrow> arrived ks = [] \<and> bodies_read ks = []"
  by (induction ks rule: bodies_read.induct) (auto simp: finishing_def)

theorem intake_settles:
  assumes "run (intake_step D opts) intake_init ls s"
  shows "\<exists>ks s'. run (intake_step D opts) s ks s' \<and> list_all finishing ks \<and> in_flights s' = [] \<and>
    in_captured s' = by_arrival (recorded (ls @ ks)) \<and> fst ` set (recorded (ls @ ks)) = set (bodies_read ls)"
proof -
  obtain ks s' where k: "run (intake_step D opts) s ks s'" "list_all finishing ks" "in_flights s' = []"
      "intake_inv (ls @ ks) s' \<and> read_inv (ls @ ks) s'"
    by (rule flights.settles [OF assms])
  then show ?thesis using finishing_labels [OF k(2)]
    by (intro exI [of _ ks] exI [of _ s']) (simp add: intake_inv_def read_inv_def)
qed

section \<open>Failure injection\<close>

definition may_overflow :: "('s, 't, 'i) intake_deps \<Rightarrow> intake_options \<Rightarrow> bool" where
  "may_overflow D opts = (request_summaries opts \<and> ik_overflow_checks D)"

lemma bind_Ret_Panic [simp]: "bind_rust x (\<lambda>g. Ret (h g)) = Panic \<longleftrightarrow> x = Panic"
  by (cases x) auto

lemma hits_panic: "stats_hits_by_key checked p = Panic \<Longrightarrow> checked"
  using stats_groups_correct [of checked p] by simp

lemma stats_attempt:
  assumes "handle_endpoint D opts W e i hs body n = (n', ds, res)" "caught res = (st, acc)" "\<not> may_overflow D opts"
  shows "n' = n \<or> n' = Suc n \<and> (if n < fail_stats_first_n opts then st = 500 else st = 202 \<or> st = 400)"
proof (cases e)
  case Stats
  obtain n1 st1 dec where o: "stats_outcome D opts hs body n = (n1, st1, dec)" by (cases "stats_outcome D opts hs body n") auto
  then have "n1 = n \<or> n1 = Suc n \<and> (if n < fail_stats_first_n opts then st1 = 500 else st1 = 202 \<or> st1 = 400)"
    by (auto simp: stats_outcome_def failure_status_def Let_def split: sum.splits decompress_error.splits if_splits)
  moreover have "res = Ret (st1, if st1 = 202 then map_option AcceptedStats dec else None)" "n' = n1"
    using assms(1,3)
    by (auto simp: handle_endpoint_def handle_stats_def Stats o Let_def may_overflow_def
        split: rust.splits option.splits if_splits dest: hits_panic)
  ultimately show ?thesis using assms(2) by auto
qed (use assms(1) in \<open>simp_all add: handle_endpoint_def\<close>)

definition counted_inv :: "intake_options \<Rightarrow> ('s, 't, 'i) intake_label list \<Rightarrow> ('s, 't, 'i) intake \<Rightarrow> bool" where
  "counted_inv opts ls s \<longleftrightarrow>
     length (counted ls) = in_attempts s \<and>
     (\<forall>k < in_attempts s. if k < fail_stats_first_n opts then counted ls ! k = 500 else counted ls ! k = 202 \<or> counted ls ! k = 400)"

lemma counted_inv_step:
  assumes "counted_inv opts ls s" "intake_step D opts s l s'" "\<not> may_overflow D opts"
  shows "counted_inv opts (ls @ [l]) s'"
  using assms(2)
proof cases
  case (handle fs f gs body W attempts diagnostics result status accepted)
  show ?thesis
  proof (cases "attempts = in_attempts s")
    case True
    then show ?thesis using assms(1) handle(1,2) by (simp add: counted_inv_def)
  next
    case False
    then show ?thesis using assms(1) handle(1,2) stats_attempt [OF handle(5,6) assms(3)]
      by (auto simp: counted_inv_def nth_append less_Suc_eq)
  qed
qed (use assms(1) in \<open>simp_all add: counted_inv_def\<close>)

text \<open>
  Of the statistics requests that reach decoding, whether they decode or not, the first N by the order of
  their tasks are answered 500, and no later one; requests refused before do not use up the budget. (A
  build with overflow checks that prints summaries can panic on the sum of hits, which is a 500 too.)
\<close>

theorem injection_budget:
  assumes "run (intake_step D opts) intake_init ls s" "\<not> may_overflow D opts"
  shows "length (counted ls) = in_attempts s \<and>
    take (fail_stats_first_n opts) (counted ls) = replicate (min (fail_stats_first_n opts) (in_attempts s)) 500 \<and>
    list_all (\<lambda>st. st = 202 \<or> st = 400) (drop (fail_stats_first_n opts) (counted ls))"
proof -
  have "counted_inv opts ls s" using assms(1)
    by (induction "intake_init :: ('a, 'b, 'c) intake" ls s rule: run.induct)
      (auto simp: counted_inv_def [of _ "[]"] intake_init_def intro: counted_inv_step [OF _ _ assms(2)])
  then have c: "length (counted ls) = in_attempts s"
    "\<And>k. k < in_attempts s \<Longrightarrow> if k < fail_stats_first_n opts then counted ls ! k = 500 else counted ls ! k = 202 \<or> counted ls ! k = 400"
    by (auto simp: counted_inv_def)
  have "take (fail_stats_first_n opts) (counted ls) = replicate (min (fail_stats_first_n opts) (in_attempts s)) 500"
    using c by (intro nth_equalityI) (auto split: if_splits)
  moreover have "list_all (\<lambda>st. st = 202 \<or> st = 400) (drop (fail_stats_first_n opts) (counted ls))"
    using c(2) by (auto simp: list_all_length c(1) split: if_splits)
  ultimately show ?thesis using c(1) by blast
qed

section \<open>Diagnostics\<close>

abbreviation quiet :: "intake_options \<Rightarrow> intake_options" where
  "quiet opts \<equiv> opts\<lparr>request_summaries := False, dump_dir := None\<rparr>"

text \<open>
  Summaries and dumps change neither the answer nor what is captured nor the injection budget, whatever
  the file system does: only a handler that panics, on a sum of hits or on a payload without a JSON form,
  answers otherwise.
\<close>

theorem diagnostics_neutral:
  "case handle_endpoint D opts W e i hs body n of (n', ds, res) \<Rightarrow>
     (case res of
        Panic \<Rightarrow> may_overflow D opts \<and> e = Stats \<or> dump_dir opts \<noteq> None \<and> e = Traces
      | Ret r \<Rightarrow> handle_endpoint D (quiet opts) W' e i hs body n = (n', [], Ret r))"
proof (cases e)
  case Stats
  have o: "stats_outcome D (quiet opts) hs body n = stats_outcome D opts hs body n"
    by (simp add: stats_outcome_def split: sum.split decompress_error.split)
  obtain n1 st1 dec where o1: "stats_outcome D opts hs body n = (n1, st1, dec)" by (cases "stats_outcome D opts hs body n") auto
  have "dump_request D (quiet opts) W' a b c d j = []" for a b c d j by (simp add: dump_request_def)
  then show ?thesis
    by (auto simp: handle_endpoint_def handle_stats_def Stats o o1 Let_def may_overflow_def
        split: rust.splits option.splits if_splits dest: hits_panic)
next
  case Traces
  then show ?thesis
    by (auto simp: handle_endpoint_def handle_traces_def Let_def split: rust.splits sum.split option.splits prod.split)
next
  case PipelineStats
  then show ?thesis
    by (auto simp: handle_endpoint_def handle_pipeline_stats_def dump_request_def Let_def split: sum.split option.splits)
qed

text \<open>
  A dump goes to the first of the 1001 candidate paths at which no file exists yet, if it can be created:
  it never replaces an earlier dump, and gives up when all are taken.
\<close>

lemma dump_loop_from:
  "k \<le> 1000 \<Longrightarrow> dump_loop W dir base k =
     (case find (\<lambda>k. de_open W (dump_path dir base k) \<noteq> AlreadyExists) [k..<1001] of
        Some k \<Rightarrow> if de_open W (dump_path dir base k) = Created then Some (dump_path dir base k) else None
      | None \<Rightarrow> None)"
proof (induction "1000 - k" arbitrary: k)
  case 0
  then have "[k..<1001] = [1000]" "k = 1000" by (simp_all add: upt_rec)
  then show ?case by (subst dump_loop.simps) (simp add: Let_def split: open_result.split)
next
  case (Suc n)
  then have "[k..<1001] = k # [Suc k..<1001]" by (subst upt_rec) simp
  then show ?case using Suc.hyps(1) [of "Suc k"] Suc.hyps(2)
    by (subst dump_loop.simps) (auto simp: Let_def split: open_result.split)
qed

theorem dump_never_overwrites:
  "dump_loop W dir base 0 =
     (case find (\<lambda>k. de_open W (dump_path dir base k) \<noteq> AlreadyExists) [0..<1001] of
        Some k \<Rightarrow> if de_open W (dump_path dir base k) = Created then Some (dump_path dir base k) else None
      | None \<Rightarrow> None)"
  by (rule dump_loop_from) simp

text \<open>What is decoded is within the cap, whatever a body expands to.\<close>

lemma decompress_bounded:
  "decompress D headers body = Inr d \<Longrightarrow> length d \<le> max (length body) MAX_DECOMPRESSED_SIZE"
  by (auto simp: decompress_def read_capped_def take_to_end_def Let_def split: sum.splits if_splits option.splits)

section \<open>Witnesses\<close>

text \<open>A decoder that takes every body as it is, and one statistics request to be refused.\<close>

definition sample_intake :: "(string, unit, unit) intake_deps" where
  "sample_intake =
     \<lparr>ik_render = \<lparr>rd_escape = Some, rd_trilean = \<lambda>i. None\<rparr>, ik_lossy = id, ik_gunzip = \<lambda>b. (b, None),
      ik_unzstd = \<lambda>b. Inr (b, None), ik_stats = Inr, ik_traces = \<lambda>b. Inl ''eof'', ik_pipeline = \<lambda>b. Inl ''eof'',
      ik_clients = \<lambda>s. [], ik_stats_json = \<lambda>s. None, ik_pipeline_json = \<lambda>p. None, ik_tracers_json = \<lambda>t. None,
      ik_idx_json = \<lambda>t. None, ik_pretty = \<lambda>j. None, ik_overflow_checks = False\<rparr>"

definition sample_opts :: intake_options where
  "sample_opts = \<lparr>io_port = 0, request_summaries = True, fail_stats_first_n = 1, dump_dir = None\<rparr>"

definition sample_flight :: "nat \<Rightarrow> (string, unit, unit) stage \<Rightarrow> (string, unit, unit) flight" where
  "sample_flight i st = \<lparr>fl_id = i, fl_endpoint = Stats, fl_path = ''/api/v0.2/stats'', fl_headers = [], fl_stage = st\<rparr>"

definition sample_state :: "nat \<Rightarrow> (string, unit, unit) captured \<Rightarrow> (string, unit, unit) flight list \<Rightarrow> (string, unit, unit) intake" where
  "sample_state n c fls = \<lparr>in_captured = c, in_counter = 2, in_attempts = n, in_flights = fls\<rparr>"

definition sample_request :: "string \<Rightarrow> captured_request" where
  "sample_request b = \<lparr>cq_method = ''POST'', cq_path = ''/api/v0.2/stats'', cq_headers = [], cq_body = b\<rparr>"

definition sample_labels :: "(string, unit, unit) intake_label list" where
  "sample_labels = [Arrived 1, Arrived 2, BodyRead 2, Handled 2 500 True, Recorded 2 (sample_request ''b'') 500 None,
     Answered 2 500, BodyRead 1, Handled 1 202 True, Recorded 1 (sample_request ''a'') 202 (Some (AcceptedStats ''a'')),
     Answered 1 202]"

lemmas sample_defs = sample_intake_def sample_opts_def sample_flight_def sample_state_def sample_request_def

text \<open>Two statistics requests whose bodies arrive in the other order.\<close>

lemma sample_run:
  "\<exists>s. run (intake_step sample_intake sample_opts) intake_init sample_labels s"
proof -
  let ?step = "intake_step sample_intake sample_opts"
  let ?c0 = "in_captured intake_init :: (string, unit, unit) captured"
  let ?c1 = "record_capture 2 (sample_request ''b'') None ?c0"
  let ?c2 = "record_capture 1 (sample_request ''a'') (Some (AcceptedStats ''a'')) ?c1"
  let ?s1 = "\<lparr>in_captured = ?c0, in_counter = 1, in_attempts = 0, in_flights = [sample_flight 1 Reading]\<rparr>"
  have "?step intake_init (Arrived 1) ?s1"
    using arrive [of "''/api/v0.2/stats''" Stats 1 intake_init sample_intake sample_opts "[]"]
    by (simp add: from_path_def intake_init_def sample_flight_def)
  note run = run_single [of ?step, OF this]
  have "?step ?s1 (Arrived 2) (sample_state 0 ?c0 [sample_flight 1 Reading, sample_flight 2 Reading])"
    using arrive [of "''/api/v0.2/stats''" Stats 2 ?s1 sample_intake sample_opts "[]"]
    by (simp add: from_path_def intake_init_def sample_defs)
  note run = run_snoc [of ?step, OF run this]
  have body: "?step (sample_state n c (fs @ sample_flight i Reading # gs)) (BodyRead i)
      (sample_state n c (fs @ sample_flight i (Running b) # gs))" if "length b \<le> MAX_BODY_SIZE" for n c i b fs gs
    using body_read [of "sample_state n c (fs @ sample_flight i Reading # gs)" fs "sample_flight i Reading" gs b] that
    by (simp add: sample_defs)
  have handled: "?step (sample_state n c (fs @ sample_flight i (Running b) # gs)) (Handled i st True)
      (sample_state (Suc n) c (fs @ sample_flight i (Computed b st a) # gs))"
    if "(st, a) = (if n = 0 then (500, None) else (202, Some (AcceptedStats b)))" for n c i b st a fs gs
    using handle [of "sample_state n c (fs @ sample_flight i (Running b) # gs)" fs "sample_flight i (Running b)" gs b
        sample_intake sample_opts "\<lparr>de_pid = 0, de_nanos = 0, de_open = \<lambda>p. OpenFailed\<rparr>" "Suc n" _ "Ret (st, a)" st a] that
    by (simp add: sample_defs handle_endpoint_def handle_stats_def stats_outcome_def decompress_def content_encoding_def to_ascii_lower_def
        byte_def dump_request_def stats_hits_by_key_def key_hits_def Let_def split: if_splits)
  have rec: "?step (sample_state n c (fs @ sample_flight i (Computed b st a) # gs)) (Recorded i (sample_request b) st a)
      (sample_state n (record_capture i (sample_request b) a c) (fs @ sample_flight i (Answering st) # gs))" for n c i b st a fs gs
    using intake_step.recorded [of "sample_state n c (fs @ sample_flight i (Computed b st a) # gs)" fs "sample_flight i (Computed b st a)"
        gs b st a _ sample_intake sample_opts]
    by (simp add: sample_defs capture_of_def to_text_def)
  have ans: "?step (sample_state n c (fs @ sample_flight i (Answering st) # gs)) (Answered i st) (sample_state n c (fs @ gs))" for n c i st fs gs
    using answer [of "sample_state n c (fs @ sample_flight i (Answering st) # gs)" fs "sample_flight i (Answering st)" gs st]
    by (simp add: sample_defs)
  have l: "length ''b'' \<le> MAX_BODY_SIZE" "length ''a'' \<le> MAX_BODY_SIZE" by (simp_all add: MAX_BODY_SIZE_def)
  have h: "(500, None) = (if (0 :: nat) = 0 then (500, None) else (202, Some (AcceptedStats ''b'')))"
    "(202, Some (AcceptedStats ''a'')) = (if Suc 0 = 0 then (500, None) else (202, Some (AcceptedStats ''a'')))" by simp_all
  note run = run_snoc [of ?step, OF run body [OF l(1), where fs = "[sample_flight 1 Reading]" and gs = "[]", unfolded append_Cons append_Nil]]
  note run = run_snoc [of ?step, OF run handled [OF h(1), where fs = "[sample_flight 1 Reading]" and gs = "[]", unfolded append_Cons append_Nil]]
  note run = run_snoc [of ?step, OF run rec [where fs = "[sample_flight 1 Reading]" and gs = "[]", unfolded append_Cons append_Nil]]
  note run = run_snoc [of ?step, OF run ans [where fs = "[sample_flight 1 Reading]" and gs = "[]", unfolded append_Cons append_Nil]]
  note run = run_snoc [of ?step, OF run body [OF l(2), where fs = "[]" and gs = "[]", unfolded append_Cons append_Nil]]
  note run = run_snoc [of ?step, OF run handled [OF h(2), where fs = "[]" and gs = "[]", unfolded append_Cons append_Nil]]
  note run = run_snoc [of ?step, OF run rec [where fs = "[]" and gs = "[]", unfolded append_Cons append_Nil]]
  note run = run_snoc [of ?step, OF run ans [where fs = "[]" and gs = "[]", unfolded append_Cons append_Nil]]
  then show ?thesis by (auto simp: sample_labels_def)
qed

text \<open>The request that arrived first is captured first, although it was handled second.\<close>

theorem intake_captures_witness:
  "\<exists>s. run (intake_step sample_intake sample_opts) intake_init sample_labels s \<and>
     cp_requests (in_captured s) = [(1, sample_request ''a''), (2, sample_request ''b'')] \<and> items (cp_stats (in_captured s)) = [''a'']"
proof -
  obtain s where run: "run (intake_step sample_intake sample_opts) intake_init sample_labels s" using sample_run by blast
  have "in_captured s = by_arrival (recorded sample_labels)" using intake_captures [OF run] by blast
  moreover have "by_arrival (recorded sample_labels) =
      \<lparr>cp_requests = [(1, sample_request ''a''), (2, sample_request ''b'')], cp_stats = [(1, ''a'')], cp_traces = [], cp_pipeline_stats = []\<rparr>"
    by (simp add: sample_labels_def by_arrival_def entries_simps stats_of_def traces_of_def pipeline_of_def)
  ultimately show ?thesis using run by (intro exI [of _ s]) (simp add: items_def)
qed

theorem injection_budget_witness:
  "\<exists>s. run (intake_step sample_intake sample_opts) intake_init sample_labels s \<and> in_attempts s = 2 \<and> counted sample_labels = [500, 202]"
proof -
  obtain s where run: "run (intake_step sample_intake sample_opts) intake_init sample_labels s" using sample_run by blast
  have "\<not> may_overflow sample_intake sample_opts" by (simp add: may_overflow_def sample_intake_def)
  from injection_budget [OF run this] show ?thesis
    using run by (intro exI [of _ s]) (auto simp: sample_labels_def)
qed

end
