(* ===== verification/Mock_Server.thy ===== *)
theory Mock_Server
  imports Mock_Captures
begin

text \<open>
  The crate \<^verbatim>\<open>datadog-mock-intake\<close>, third part: starting the server and stopping it. A connection is the
  number of its task; the accept task, the connection tasks and the thread that drops the server
  interleave.
\<close>

section \<open>Starting\<close>

text \<open>
  \<open>create\<close> is the error of creating the dump directory, if any, \<open>bind\<close> gives the error or the address of
  the listener. The result is the base URL of the server.
\<close>

definition start_with_options ::
  "(string \<Rightarrow> string option) \<Rightarrow> (nat \<Rightarrow> string + string) \<Rightarrow> intake_options \<Rightarrow> intake_error + string" where
  "start_with_options create bind opts =
     (case Option.bind (dump_dir opts) (\<lambda>dir. map_option (Pair dir) (create dir)) of
        Some (dir, source) \<Rightarrow> Inl (DumpDirFailed dir source)
      | None \<Rightarrow>
          (case bind (io_port opts) of
             Inl source \<Rightarrow> Inl (BindFailed (io_port opts) source)
           | Inr addr \<Rightarrow> Inr (''http://'' @ addr)))"

text \<open>\<open>start\<close> expects the default options to work.\<close>

definition start :: "(string \<Rightarrow> string option) \<Rightarrow> (nat \<Rightarrow> string + string) \<Rightarrow> string rust" where
  "start create bind =
     (case start_with_options create bind
        \<lparr>io_port = 0, request_summaries = False, fail_stats_first_n = 0, dump_dir = None\<rparr> of
        Inr server \<Rightarrow> Ret server | Inl e \<Rightarrow> Panic)"

text \<open>What the tests read of the captures.\<close>

definition pipeline_stats_payloads :: "('s, 't, 'i) captured \<Rightarrow> pipeline_stats_payload list" where
  "pipeline_stats_payloads c = items (cp_pipeline_stats c)"

definition stats_payloads :: "('s, 't, 'i) captured \<Rightarrow> 's list" where
  "stats_payloads c = items (cp_stats c)"

definition trace_payloads :: "('s, 't, 'i) captured \<Rightarrow> ('t, 'i) agent_payload list" where
  "trace_payloads c = items (cp_traces c)"

definition stats_url :: "string \<Rightarrow> string" where "stats_url base_url = base_url @ ''/api/v0.2/stats''"
definition traces_url :: "string \<Rightarrow> string" where "traces_url base_url = base_url @ ''/api/v0.2/traces''"
definition pipeline_stats_url :: "string \<Rightarrow> string" where "pipeline_stats_url base_url = base_url @ ''/api/v0.1/pipeline_stats''"

section \<open>The connections\<close>

text \<open>
  \<open>sv_running\<close> are the connection tasks that neither ended nor were told to abort, \<open>sv_spawned\<close> the one the
  accept task has spawned and not registered yet: it does not yield in between, so it is not aborted there.
\<close>

record registry =
  shutting_down :: bool
  handles :: "nat list"

record mock_server =
  sv_registry :: registry
  sv_accepting :: bool
  sv_spawned :: "nat option"
  sv_running :: "nat list"
  sv_next :: nat
  sv_dropping :: bool

definition mock_init :: mock_server where
  "mock_init = \<lparr>sv_registry = \<lparr>shutting_down = False, handles = []\<rparr>, sv_accepting = True, sv_spawned = None,
     sv_running = [], sv_next = 0, sv_dropping = False\<rparr>"

text \<open>What the accept task does with a new connection while it has the lock, and what \<open>drop\<close> does.\<close>

definition register :: "nat \<Rightarrow> mock_server \<Rightarrow> mock_server" where
  "register c s =
     (let r = sv_registry s
      in if shutting_down r then s\<lparr>sv_spawned := None, sv_running := filter (\<lambda>d. d \<noteq> c) (sv_running s)\<rparr>
         else s\<lparr>sv_spawned := None,
                sv_registry := r\<lparr>handles := filter (\<lambda>h. h \<in> set (sv_running s)) (handles r) @ [c]\<rparr>\<rparr>)"

definition drain_connections :: "mock_server \<Rightarrow> mock_server" where
  "drain_connections s =
     s\<lparr>sv_registry := \<lparr>shutting_down = True, handles = []\<rparr>,
       sv_running := filter (\<lambda>c. c \<notin> set (handles (sv_registry s))) (sv_running s)\<rparr>"

datatype server_label = AcceptConn nat | Register nat | Finish nat | DropSignal | AcceptStops | DropDrains

inductive server_step :: "mock_server \<Rightarrow> server_label \<Rightarrow> mock_server \<Rightarrow> bool" where
  accept_conn: "sv_accepting s \<Longrightarrow> sv_spawned s = None \<Longrightarrow> c = sv_next s \<Longrightarrow>
    server_step s (AcceptConn c) (s\<lparr>sv_spawned := Some c, sv_running := c # sv_running s, sv_next := c + 1\<rparr>)"
| register: "sv_spawned s = Some c \<Longrightarrow> server_step s (Register c) (register c s)"
| finish: "c \<in> set (sv_running s) \<Longrightarrow>
    server_step s (Finish c) (s\<lparr>sv_running := filter (\<lambda>d. d \<noteq> c) (sv_running s)\<rparr>)"
| drop_signal: "\<not> sv_dropping s \<Longrightarrow> server_step s DropSignal (s\<lparr>sv_dropping := True\<rparr>)"
| accept_stops: "sv_dropping s \<Longrightarrow> sv_accepting s \<Longrightarrow> sv_spawned s = None \<Longrightarrow>
    server_step s AcceptStops (s\<lparr>sv_accepting := False\<rparr>)"
| drop_drains: "sv_dropping s \<Longrightarrow> \<not> shutting_down (sv_registry s) \<Longrightarrow>
    server_step s DropDrains (drain_connections s)"

inductive_cases server_stepE: "server_step s l s'"

section \<open>No connection outlives the server\<close>

definition server_inv :: "mock_server \<Rightarrow> bool" where
  "server_inv s \<longleftrightarrow>
     set (sv_running s) \<subseteq> set (handles (sv_registry s)) \<union> set_option (sv_spawned s) \<and>
     (shutting_down (sv_registry s) \<longrightarrow> handles (sv_registry s) = []) \<and>
     (sv_spawned s \<noteq> None \<longrightarrow> sv_accepting s)"

lemma server_inv_step: "server_inv s \<Longrightarrow> server_step s l s' \<Longrightarrow> server_inv s'"
  by (erule server_stepE) (auto simp: server_inv_def register_def drain_connections_def Let_def)

text \<open>The server can always be stopped, whatever its connections do: \<open>Finish\<close> is not needed.\<close>

definition stopping :: "server_label \<Rightarrow> bool" where
  "stopping l = (case l of Register c \<Rightarrow> True | DropSignal \<Rightarrow> True | AcceptStops \<Rightarrow> True | DropDrains \<Rightarrow> True | _ \<Rightarrow> False)"

definition gone :: "mock_server \<Rightarrow> bool" where
  "gone s \<longleftrightarrow> \<not> sv_accepting s \<and> shutting_down (sv_registry s) \<and> sv_running s = []"

definition server_work :: "mock_server \<Rightarrow> nat" where
  "server_work s = (if sv_dropping s then 0 else 1) + (if sv_accepting s then 1 else 0) +
     (if shutting_down (sv_registry s) then 0 else 1) + (if sv_spawned s = None then 0 else 1)"

lemma server_moves:
  assumes "server_inv s" "\<not> gone s"
  shows "\<exists>l s'. server_step s l s' \<and> stopping l \<and> () = () \<and> server_work s' < server_work s"
proof -
  consider "\<not> sv_dropping s" | c where "sv_spawned s = Some c"
    | "sv_dropping s" "sv_spawned s = None" "sv_accepting s" | "sv_dropping s" "\<not> shutting_down (sv_registry s)"
    using assms by (cases "sv_spawned s") (auto simp: gone_def server_inv_def)
  then show ?thesis
  proof cases
    case 1
    from drop_signal [OF this] 1 show ?thesis by (intro exI conjI) (assumption | simp add: stopping_def server_work_def)+
  next
    case 2
    from server_step.register [OF this] 2 show ?thesis
      by (intro exI conjI) (assumption | simp add: stopping_def server_work_def register_def Let_def)+
  next
    case 3
    from accept_stops [OF 3(1,3,2)] 3 show ?thesis by (intro exI conjI) (assumption | simp add: stopping_def server_work_def)+
  next
    case 4
    from drop_drains [OF this] 4 show ?thesis
      by (intro exI conjI) (assumption | simp add: stopping_def server_work_def drain_connections_def)+
  qed
qed

interpretation server: settling_system server_step mock_init "\<lambda>ls. server_inv" gone stopping "\<lambda>s. ()" server_work
proof
  show "server_inv mock_init" by (simp add: server_inv_def mock_init_def)
qed (blast intro: server_inv_step server_moves)+

text \<open>
  Every connection that runs is in the registry or about to be registered. Once the drop has drained the
  registry, only a connection whose registration races with it can still run, and it is aborted when it
  registers; when the accept task has stopped as well, no connection is left.
\<close>

theorem connections_registered:
  assumes "run server_step mock_init ls s"
  shows "set (sv_running s) \<subseteq> set (handles (sv_registry s)) \<union> set_option (sv_spawned s) \<and>
    (if shutting_down (sv_registry s) then set (sv_running s) \<subseteq> set_option (sv_spawned s) \<and>
       (case sv_spawned s of Some c \<Rightarrow> sv_running (register c s) = [] | None \<Rightarrow> sv_running s = []) else True) \<and>
    (if shutting_down (sv_registry s) \<and> \<not> sv_accepting s then sv_running s = [] else True)"
proof -
  have "server_inv s" by (rule server.run_inv [OF assms])
  then show ?thesis
    by (cases "sv_spawned s") (auto simp: server_inv_def register_def Let_def filter_empty_conv)
qed

text \<open>From every reachable state the server can be dropped with no connection left, whatever its clients do.\<close>

theorem server_can_stop:
  assumes "run server_step mock_init ls s"
  shows "\<exists>ks s'. run server_step s ks s' \<and> list_all stopping ks \<and> \<not> sv_accepting s' \<and> sv_running s' = []"
  using server.settles [OF assms] by (metis gone_def)

text \<open>A connection that is accepted after the drop has drained the registry, and is aborted at once.\<close>

theorem connections_registered_witness:
  "\<exists>s. run server_step mock_init [DropSignal, DropDrains, AcceptConn 0, Register 0, AcceptStops] s \<and> sv_running s = []"
proof -
  let ?s1 = "mock_init\<lparr>sv_dropping := True\<rparr>"
  let ?s2 = "drain_connections ?s1"
  let ?s3 = "?s2\<lparr>sv_spawned := Some 0, sv_running := [0], sv_next := 1\<rparr>"
  let ?s4 = "register 0 ?s3"
  let ?s5 = "?s4\<lparr>sv_accepting := False\<rparr>"
  note sd = mock_init_def drain_connections_def register_def
  have steps: "server_step mock_init DropSignal ?s1" "server_step ?s1 DropDrains ?s2"
    "server_step ?s2 (AcceptConn 0) ?s3" "server_step ?s3 (Register 0) ?s4" "server_step ?s4 AcceptStops ?s5"
    using drop_signal [of mock_init] drop_drains [of ?s1] accept_conn [of ?s2 0] server_step.register [of ?s3 0] accept_stops [of ?s4]
    by (simp_all add: sd)
  have "run server_step mock_init (((([DropSignal] @ [DropDrains]) @ [AcceptConn 0]) @ [Register 0]) @ [AcceptStops]) ?s5"
    by (rule run_snoc [of server_step, OF run_snoc [of server_step, OF run_snoc [of server_step,
        OF run_snoc [of server_step, OF run_single [of server_step, OF steps(1)] steps(2)] steps(3)] steps(4)] steps(5)])
  then have run: "run server_step mock_init [DropSignal, DropDrains, AcceptConn 0, Register 0, AcceptStops] ?s5" by simp
  from connections_registered [OF this] have "sv_running ?s5 = []" by (simp add: sd)
  then show ?thesis using run by blast
qed

end
