(* ===== verification/Agent_Pipe.thy ===== *)
theory Agent_Pipe
  imports Mini_Agent
begin

text \<open>
  The crate \<^verbatim>\<open>datadog-trace-agent\<close>: \<^verbatim>\<open>serve_accept_loop_named_pipe\<close> of \<^verbatim>\<open>mini_agent.rs\<close> with its pipe instances
  and its connections, as a refinement of the accept loop of \<open>Mini_Agent\<close> that the supervisor watches.
\<close>

section \<open>The loop\<close>

text \<open>
  A connection is served until it ends; once it has seen the shutdown it only finishes the request it is at.
\<close>

datatype connection = Serving | Draining

text \<open>\<open>pp_listening\<close>: an instance of the pipe has been created and waits for its client.\<close>

record pipe_loop =
  pp_listening :: bool
  pp_conns :: "connection list"
  pp_seen :: bool
  pp_end :: "loop_end option"

definition pipe_loop_init :: pipe_loop where
  "pipe_loop_init = \<lparr>pp_listening = False, pp_conns = [], pp_seen = False, pp_end = None\<rparr>"

text \<open>
  The loop waits in one place, with an instance, for a client, for a connection that has ended or for the
  shutdown; when it continues, the instance is dropped and another is created. After the shutdown it keeps
  its instance until the connections have ended.
\<close>

inductive pipe_loop_step :: "bool \<Rightarrow> pipe_loop \<Rightarrow> pipe_loop \<Rightarrow> bool" for shutdown where
  p_create: "pp_end s = None \<Longrightarrow> \<not> pp_seen s \<Longrightarrow> \<not> pp_listening s \<Longrightarrow>
    pipe_loop_step shutdown s (s\<lparr>pp_listening := True\<rparr>)"
| p_create_fails: "pp_end s = None \<Longrightarrow> \<not> pp_seen s \<Longrightarrow> \<not> pp_listening s \<Longrightarrow>
    pipe_loop_step shutdown s (s\<lparr>pp_end := Some LoopErr\<rparr>)"
| p_connected: "pp_end s = None \<Longrightarrow> \<not> pp_seen s \<Longrightarrow> pp_listening s \<Longrightarrow>
    pipe_loop_step shutdown s (s\<lparr>pp_listening := False, pp_conns := pp_conns s @ [Serving]\<rparr>)"
| p_connect_again: "pp_end s = None \<Longrightarrow> \<not> pp_seen s \<Longrightarrow> pp_listening s \<Longrightarrow>
    pipe_loop_step shutdown s (s\<lparr>pp_listening := False\<rparr>)"
| p_connect_fails: "pp_end s = None \<Longrightarrow> \<not> pp_seen s \<Longrightarrow> pp_listening s \<Longrightarrow>
    pipe_loop_step shutdown s (s\<lparr>pp_end := Some LoopErr\<rparr>)"
| p_joined: "pp_end s = None \<Longrightarrow> \<not> pp_seen s \<Longrightarrow> pp_listening s \<Longrightarrow> pp_conns s = cs @ c # ds \<Longrightarrow>
    pipe_loop_step shutdown s (s\<lparr>pp_listening := False, pp_conns := cs @ ds\<rparr>)"
| p_join_panics: "pp_end s = None \<Longrightarrow> \<not> pp_seen s \<Longrightarrow> pp_listening s \<Longrightarrow> pp_conns s = cs @ c # ds \<Longrightarrow>
    pipe_loop_step shutdown s (s\<lparr>pp_conns := cs @ ds, pp_end := Some LoopPanic\<rparr>)"
| p_shutdown: "pp_end s = None \<Longrightarrow> \<not> pp_seen s \<Longrightarrow> pp_listening s \<Longrightarrow> shutdown \<Longrightarrow>
    pipe_loop_step shutdown s (s\<lparr>pp_seen := True\<rparr>)"
| p_drain: "pp_end s = None \<Longrightarrow> pp_seen s \<Longrightarrow> pp_conns s = cs @ c # ds \<Longrightarrow>
    pipe_loop_step shutdown s (s\<lparr>pp_conns := cs @ ds\<rparr>)"
| p_drain_panics: "pp_end s = None \<Longrightarrow> pp_seen s \<Longrightarrow> pp_conns s = cs @ c # ds \<Longrightarrow>
    pipe_loop_step shutdown s (s\<lparr>pp_conns := cs @ ds, pp_end := Some LoopPanic\<rparr>)"
| p_return: "pp_end s = None \<Longrightarrow> pp_seen s \<Longrightarrow> pp_conns s = [] \<Longrightarrow>
    pipe_loop_step shutdown s (s\<lparr>pp_end := Some LoopOk\<rparr>)"
| p_graceful: "pp_end s = None \<Longrightarrow> shutdown \<Longrightarrow> pp_conns s = cs @ Serving # ds \<Longrightarrow>
    pipe_loop_step shutdown s (s\<lparr>pp_conns := cs @ Draining # ds\<rparr>)"

section \<open>It is the loop of the supervisor\<close>

definition abs_loop :: "pipe_loop \<Rightarrow> loop" where
  "abs_loop p = \<lparr>lp_conns = length (pp_conns p), lp_seen = pp_seen p, lp_end = pp_end p\<rparr>"

lemma abs_loop_simps [simp]:
  "lp_conns (abs_loop p) = length (pp_conns p)" "lp_seen (abs_loop p) = pp_seen p" "lp_end (abs_loop p) = pp_end p"
  "abs_loop pipe_loop_init = loop_init"
  by (simp_all add: abs_loop_def pipe_loop_init_def loop_init_def)

lemma pipe_loop_refines:
  "pipe_loop_step shutdown p p' \<Longrightarrow> abs_loop p' = abs_loop p \<or> loop_step shutdown (abs_loop p) (abs_loop p')"
proof (induction rule: pipe_loop_step.induct)
  case (p_create_fails s)
  then show ?case using l_error [of "abs_loop s" shutdown] by (simp add: abs_loop_def)
next
  case (p_connected s)
  then show ?case using l_accept [of "abs_loop s" shutdown] by (simp add: abs_loop_def)
next
  case (p_connect_fails s)
  then show ?case using l_error [of "abs_loop s" shutdown] by (simp add: abs_loop_def)
next
  case (p_joined s cs c ds)
  then show ?case using l_finish [of "abs_loop s" "length (cs @ ds)" shutdown] by (simp add: abs_loop_def)
next
  case (p_join_panics s cs c ds)
  then show ?case using l_panic [of "abs_loop s" "length (cs @ ds)" shutdown] by (simp add: abs_loop_def)
next
  case (p_shutdown s)
  then show ?case using l_shutdown [of "abs_loop s" shutdown] by (simp add: abs_loop_def)
next
  case (p_drain s cs c ds)
  then show ?case using l_finish [of "abs_loop s" "length (cs @ ds)" shutdown] by (simp add: abs_loop_def)
next
  case (p_drain_panics s cs c ds)
  then show ?case using l_panic [of "abs_loop s" "length (cs @ ds)" shutdown] by (simp add: abs_loop_def)
next
  case (p_return s)
  then show ?case using l_return [of "abs_loop s" shutdown] by (simp add: abs_loop_def)
qed (simp_all add: abs_loop_def)

text \<open>The supervisor beside the pipe loop in full: it sees the loop through its abstraction only.\<close>

inductive agent_step :: "supervisor \<times> pipe_loop \<Rightarrow> supervisor \<times> pipe_loop \<Rightarrow> bool" where
  a_pipe: "pipe_loop_step (su_shutdown s) p p' \<Longrightarrow> agent_step (s, p) (s\<lparr>su_pipe := Some (abs_loop p')\<rparr>, p')"
| a_rest: "supervisor_step s s' \<Longrightarrow> su_pipe s' = su_pipe s \<Longrightarrow> agent_step (s, p) (s', p)"

lemma agent_run_refines:
  assumes "agent_step\<^sup>*\<^sup>* (supervisor_init tcp True, pipe_loop_init) sp"
  shows "supervisor_step\<^sup>*\<^sup>* (supervisor_init tcp True) (fst sp) \<and> su_pipe (fst sp) = Some (abs_loop (snd sp))"
  using assms
proof (induction rule: rtranclp_induct)
  case base
  then show ?case by (simp add: supervisor_init_def)
next
  case (step sp sp')
  from step.hyps(2) show ?case
  proof cases
    case (a_pipe s p p')
    then have s: "su_pipe s = Some (abs_loop p)" "supervisor_step\<^sup>*\<^sup>* (supervisor_init tcp True) s" using step.IH by simp_all
    from pipe_loop_refines [OF a_pipe(3)] show ?thesis
    proof
      assume e: "abs_loop p' = abs_loop p"
      then have "s\<lparr>su_pipe := Some (abs_loop p')\<rparr> = s" using s(1) by simp
      then show ?thesis unfolding a_pipe(2) fst_conv snd_conv using s e by metis
    next
      assume "loop_step (su_shutdown s) (abs_loop p) (abs_loop p')"
      from v_pipe [OF s(1) this] show ?thesis using rtranclp.rtrancl_into_rtrancl [OF s(2)] by (simp add: a_pipe)
    qed
  next
    case (a_rest s s' p)
    then show ?thesis using step.IH rtranclp.rtrancl_into_rtrancl [of supervisor_step _ s s'] by simp
  qed
qed

text \<open>
  The stats flusher is signalled only when the pipe loop has ended, with every connection finished when it
  ended well.
\<close>

theorem pipe_drained_before_flush:
  assumes "agent_step\<^sup>*\<^sup>* (supervisor_init tcp True, pipe_loop_init) (s, p)" "su_signalled s"
  shows "su_shutdown s \<and> pp_end p \<noteq> None \<and> (pp_end p = Some LoopOk \<longrightarrow> pp_conns p = [])"
proof -
  have r: "supervisor_step\<^sup>*\<^sup>* (supervisor_init tcp True) s" "su_pipe s = Some (abs_loop p)"
    using agent_run_refines [OF assms(1)] by simp_all
  have "supervisor_inv s" using r(1)
    by (induction rule: rtranclp_induct) (auto intro: supervisor_inv_init supervisor_inv_step)
  then show ?thesis using assms(2) r(2) by (auto simp: supervisor_inv_def loop_inv_def)
qed

end
