(* ===== verification/Spec2Isabelle.thy ===== *)
theory Spec2Isabelle
  imports Dsd_Transports Dsd_Flusher Api_Key Logs_Flusher Mini_Agent Env_Verifier Agent_Config Compat_Main
    Log_Filter Http_Clients Mock_Server Agent_Pipe
begin

text \<open>
  The Datadog serverless components: agents that run beside a serverless function, take its metrics, traces
  and logs and send them to Datadog. This library models the crates under \<^verbatim>\<open>src/crates\<close> and proves what makes
  each part correct.

  \<^bold>\<open>The program.\<close> The binary \<^verbatim>\<open>datadog-serverless-compat\<close> reads its settings from the environment and starts:
  the DogStatsD server, which reads packets from UDP or a named pipe and hands the metrics it parses to the
  aggregator service; the flusher, which asks that service for everything aggregated and ships it; the trace
  mini agent, an HTTP server that takes traces, statistics and proxied payloads from the tracers and queues
  them for three flushers, with a concentrator that computes statistics; the log agent, an HTTP server, an
  aggregator service and a flusher; collectors of CPU and instance metrics; and the metadata reporter. A loop
  flushes and collects at the ticks of three intervals. The crate \<^verbatim>\<open>datadog-agent-config\<close> is a configuration
  library for another agent, \<^verbatim>\<open>datadog-mock-intake\<close> the intake of the integration tests.

  \<^bold>\<open>Foundations.\<close> \<^verbatim>\<open>Prelude\<close>: strings and vectors of the Rust library. \<^verbatim>\<open>Interfaces\<close>: panics, labelled runs and
  the contracts shared by components, as locales: a queue drained in batches (interpreted by the logs and the
  trace aggregator), a keyed store (by the metric aggregator), a task that serves commands (by both aggregator
  services), a request that is retried (by the metrics, logs and proxy flushers), and labelled systems with an
  invariant and with progress to a settled state (by the key factory, the trace pipeline, the named-pipe server
  and the mock intake). \<^verbatim>\<open>Floats\<close>: \<open>f64\<close> and \<open>f32\<close> as
  IEEE 754 values with rounding, parsing and the locale of a format. \<^verbatim>\<open>Decimal\<close>: printing numbers and reading
  variables. \<^verbatim>\<open>Http\<close>: requests, answers, status classes.

  \<^bold>\<open>Metrics (crate \<^verbatim>\<open>dogstatsd\<close>).\<close>
  \<^item> \<^verbatim>\<open>Metric\<close>: \<^verbatim>\<open>metric.rs\<close>, the line parser with tags, values, timestamps and identifiers; every line built from
    well-formed parts parses to them, parsed metrics are well formed, tags round trip, the identifier ignores
    their order.
  \<^item> \<^verbatim>\<open>Origin\<close>: \<^verbatim>\<open>origin.rs\<close>.
  \<^item> \<^verbatim>\<open>Dsd_Aggregator\<close>: \<^verbatim>\<open>aggregator/core.rs\<close>, \<^verbatim>\<open>datadog/series.rs\<close>: the table of contexts is a keyed store; batches
    lose nothing and respect their limits.
  \<^item> \<^verbatim>\<open>Dsd_Service\<close>: \<^verbatim>\<open>aggregator/service.rs\<close>: a flush reply holds what came in since the last flush.
  \<^item> \<^verbatim>\<open>Dsd_Packet\<close>: \<^verbatim>\<open>util.rs\<close> and the sequential part of \<^verbatim>\<open>dogstatsd.rs\<close>: packets, and the named-pipe client as a
    refinement of splitting the whole stream at newlines.
  \<^item> \<^verbatim>\<open>Dsd_Server\<close>: the readers, the bounded queue, the buffer pool and the processing loop of \<^verbatim>\<open>dogstatsd.rs\<close> as
    interleaved steps, over the locale of a packet reader that both read loops satisfy.
  \<^item> \<^verbatim>\<open>Dsd_Transports\<close>: the UDP socket, and the named-pipe server with UDP beside it: every transport feeds one queue,
    and when one of them ends the supervisor stops them all.
  \<^item> \<^verbatim>\<open>Api_Key\<close>: \<^verbatim>\<open>api_key.rs\<close>, concurrent callers of \<^verbatim>\<open>get_api_key\<close> step by step.
  \<^item> \<^verbatim>\<open>Dsd_Flusher\<close>: \<^verbatim>\<open>flusher.rs\<close>, \<^verbatim>\<open>datadog/shipping.rs\<close>, \<^verbatim>\<open>datadog/intake.rs\<close>: addresses, requests, retries, what a
    flush gives back.

  \<^bold>\<open>Traces (crates \<^verbatim>\<open>datadog-trace-agent\<close>, \<^verbatim>\<open>datadog-agent-trace-sampler\<close>).\<close>
  \<^item> \<^verbatim>\<open>Score_Sampler\<close>: the signatures and the error sampler; \<^verbatim>\<open>Trace_Config\<close>: \<^verbatim>\<open>config.rs\<close>, \<^verbatim>\<open>peer_tags.rs\<close>; \<^verbatim>\<open>Trace_Http\<close>:
    \<^verbatim>\<open>http_utils.rs\<close>; \<^verbatim>\<open>Env_Verifier\<close>: \<^verbatim>\<open>env_verifier.rs\<close>.
  \<^item> \<^verbatim>\<open>Trace_Processor\<close>: \<^verbatim>\<open>trace_processor.rs\<close>, one request from its body to the queued payloads: chunk processing,
    error rescue, splitting of oversized payloads.
  \<^item> \<^verbatim>\<open>Trace_Aggregator\<close>: \<^verbatim>\<open>aggregator.rs\<close> and \<^verbatim>\<open>trace_flusher.rs\<close>; \<^verbatim>\<open>Trace_Pipeline\<close>: permits, enqueue tasks, channel,
    collector and flusher as one interleaving: everything accepted is handed to \<^verbatim>\<open>send\<close> once and in order.
  \<^item> \<^verbatim>\<open>Trace_Stats\<close>: \<^verbatim>\<open>stats_processor.rs\<close>, \<^verbatim>\<open>stats_concentrator_service.rs\<close>, \<^verbatim>\<open>stats_flusher.rs\<close> up to shutdown;
    \<^verbatim>\<open>Trace_Proxy\<close>: \<^verbatim>\<open>proxy_flusher.rs\<close>.
  \<^item> \<^verbatim>\<open>Mini_Agent\<close>: \<^verbatim>\<open>mini_agent.rs\<close>, starting the transports, routing, the accept loops and the supervision of the
    tasks: the last flush comes after the last handler; \<^verbatim>\<open>Agent_Pipe\<close>: the named-pipe accept loop as a
    refinement of the loop the supervisor watches.

  \<^bold>\<open>Logs (crate \<^verbatim>\<open>datadog-logs-agent\<close>).\<close> \<^verbatim>\<open>Logs_Aggregator\<close>: the queue and its service. \<^verbatim>\<open>Logs_Flusher\<close>: configuration,
  requests, retries, the flush with what it gives back, and the intake server.

  \<^bold>\<open>The rest.\<close>
  \<^item> \<^verbatim>\<open>Agent_Values\<close>, \<^verbatim>\<open>Agent_Settings\<close>, \<^verbatim>\<open>Agent_Env\<close>, \<^verbatim>\<open>Agent_Yaml\<close>, \<^verbatim>\<open>Agent_Config\<close>: the crate \<^verbatim>\<open>datadog-agent-config\<close>, from
    the deserializers through both sources to the builder: what every built configuration satisfies, which
    source wins, and what a malformed variable does.
  \<^item> \<^verbatim>\<open>Metrics_Collector\<close>: \<^verbatim>\<open>datadog-metrics-collector\<close>; \<^verbatim>\<open>Metadata\<close>: the crate \<^verbatim>\<open>metadata\<close>; \<^verbatim>\<open>Log_Filter\<close>:
    \<^verbatim>\<open>datadog-serverless-logging\<close>; \<^verbatim>\<open>Tls_Distrust\<close>: \<^verbatim>\<open>datadog-fips\<close>.
  \<^item> \<^verbatim>\<open>Compat_Main\<close>: \<^verbatim>\<open>main.rs\<close> of the binary: settings, what starts, and the loop, over which every log request is
    sent, settled or pending, once. \<^verbatim>\<open>Http_Clients\<close>: the clients of all agents joined with that start.
  \<^item> \<^verbatim>\<open>Mock_Stats\<close>, \<^verbatim>\<open>Mock_Intake\<close>, \<^verbatim>\<open>Mock_Captures\<close>, \<^verbatim>\<open>Mock_Server\<close>: the crate \<^verbatim>\<open>datadog-mock-intake\<close>: what a test can
    rely on, however its requests interleave.

  \<^bold>\<open>How the code is modelled.\<close> A struct is a record, an enum a datatype, a function a definition with the
  conditions and early returns of the code; \<open>Result\<close> is a sum, \<open>Option\<close> an option, a computation that can panic
  has the type \<open>rust\<close>. Text and bytes are lists of bytes. Signed integers are integers in the range of their
  type, with clamping and overflow written out; hashes and 64-bit counters are words. Tasks that share state
  are steps of an inductive relation, atomic where the code holds a lock or makes one channel operation, with
  labels for what can be observed, and runs of these steps. Clock readings, answers of servers, the order in
  which a hash map is iterated, the file system and the environment are arguments, so that the theorems hold for all of
  them. Third-party code is a parameter: libdatadog (spans, obfuscation, span concentrator, protobuf
  sizes), the sketches, zstd and gzip, serde and figment, reqwest, hyper and rustls, hash functions; the little
  that proofs need of it is a named hypothesis of the theorem, with a witness where it holds.

  \<^bold>\<open>Termination.\<close> No function has fuel. Loops that drain a queue are shown to end by the shrinking queue
  (\<^verbatim>\<open>drain\<close> is a partial function, and that it returns is part of the theorems on it), retry loops by the number
  of attempts left; the loops of tasks, which never end by design, are steps, and the liveness theorems give,
  from every reachable state, a run that finishes the work.

  \<^bold>\<open>Properties.\<close> Each theorem that is a property of the program follows a text that starts with its number; the
  most important come first. A theorem with a hypothesis has a witness, named after it, that applies it to
  concrete values.

  \<^bold>\<open>Not modelled.\<close> Opening sockets, pipes and files beyond whether they succeed, HTTP framing, and the set-up of
  the tracing subscriber beyond its filter: operating-system and library calls without logic of their own. Log
  messages, except where a component prints for its user (the mock intake). The connector and the retries
  inside libdatadog. The tests, the examples and the build files.
\<close>

end
